(* ===== verification/Fed_Prelude.thy ===== *)
theory Fed_Prelude
  imports Main "HOL-Library.AList" "HOL-Library.Multiset"
    "HOL-Library.List_Lexorder" "HOL-Library.Char_ord"
begin

section \<open>Prelude: Go values, errors, maps and sorting\<close>

text \<open>
  What every component theory shares.

  \<^item> Errors. A Go \<open>error\<close> is a value; a function that returns \<open>(T, error)\<close> returns
    \<open>go_error + 'a\<close> here, the error on the left. \<open>go_error\<close> keeps the one distinction the
    source makes on errors (\<open>errors.IsNotFound\<close>, \<open>errors.IsAlreadyExists\<close>) and the text
    that identifies the \<open>fmt.Errorf\<close> site.
  \<^item> Maps. A Go \<open>map[string]V\<close> is an association list with distinct keys
    (\<open>gomap_ok\<close>): the list is the order in which one \<open>range\<close> over the map visits the keys,
    which Go leaves open, so what the code computes by ranging over a map is stated for every
    order of the list.
  \<^item> Integers. \<open>int64\<close> and \<open>int32\<close> are integers with the wrap-around written out:
    \<open>wrap64\<close> and \<open>wrap32\<close> are applied after each operation of that width.
  \<^item> Sorting. \<open>sort.Sort\<close> and \<open>sort.Slice\<close> are documented to return a permutation of the
    slice in which no later element is \<open>less\<close> than an earlier one, and are not stable;
    the locale \<open>go_sorter\<close> is that contract and \<open>go_sort\<close>, an insertion sort, is one function that
    meets it.
\<close>

named_theorems go_simps \<open>unfolding rules of the Go primitives\<close>
named_theorems range_simps \<open>integer wrap-around disappears in range\<close>

subsection \<open>Errors\<close>

datatype go_error =
    ErrNotFound string
  | ErrAlreadyExists string
  | ErrOther string
  | ErrWrapped string go_error
  | GoPanic string

type_synonym 'a go_result = "go_error + 'a"

text \<open>
  \<open>GoPanic\<close> is no error value of the source: it stands for a run-time panic (a failed type
  assertion, a nil dereference) on its way up, which the callers here pass on.
\<close>

fun is_panic :: "go_error \<Rightarrow> bool" where
  "is_panic (GoPanic _) = True"
| "is_panic _ = False"

text \<open>\<open>errors.IsNotFound\<close> looks at the error itself: \<open>fmt.Errorf\<close> does not keep the reason.\<close>

fun IsNotFound :: "go_error \<Rightarrow> bool" where
  "IsNotFound (ErrNotFound _) = True"
| "IsNotFound _ = False"

fun IsAlreadyExists :: "go_error \<Rightarrow> bool" where
  "IsAlreadyExists (ErrAlreadyExists _) = True"
| "IsAlreadyExists _ = False"

definition rbind :: "'a go_result \<Rightarrow> ('a \<Rightarrow> 'b go_result) \<Rightarrow> 'b go_result" where
  "rbind r f = (case r of Inl e \<Rightarrow> Inl e | Inr a \<Rightarrow> f a)"

lemma rbind_simps [simp]:
  "rbind (Inl e) f = Inl e"
  "rbind (Inr a) f = f a"
  by (simp_all add: rbind_def)

lemma rbind_Inr_iff: "rbind r f = Inr b \<longleftrightarrow> (\<exists>a. r = Inr a \<and> f a = Inr b)"
  by (cases r) simp_all

subsection \<open>Maps with string keys\<close>

type_synonym ('k, 'v) gomap = "('k \<times> 'v) list"

abbreviation mget :: "('k, 'v) gomap \<Rightarrow> 'k \<Rightarrow> 'v option" where
  "mget \<equiv> map_of"

abbreviation mput :: "'k \<Rightarrow> 'v \<Rightarrow> ('k, 'v) gomap \<Rightarrow> ('k, 'v) gomap" where
  "mput \<equiv> AList.update"

abbreviation mdel :: "'k \<Rightarrow> ('k, 'v) gomap \<Rightarrow> ('k, 'v) gomap" where
  "mdel \<equiv> AList.delete"

abbreviation mkeys :: "('k, 'v) gomap \<Rightarrow> 'k list" where
  "mkeys m \<equiv> map fst m"

text \<open>Reading a missing key of a Go map gives the zero value of the element type.\<close>

definition mget0 :: "'v \<Rightarrow> ('k, 'v) gomap \<Rightarrow> 'k \<Rightarrow> 'v" where
  "mget0 z m k = (case mget m k of None \<Rightarrow> z | Some v \<Rightarrow> v)"

definition gomap_ok :: "('k, 'v) gomap \<Rightarrow> bool" where
  "gomap_ok m \<longleftrightarrow> distinct (mkeys m)"

text \<open>\<open>reflect.DeepEqual\<close> on maps does not see the order of the keys.\<close>

definition gomap_eq :: "('k, 'v) gomap \<Rightarrow> ('k, 'v) gomap \<Rightarrow> bool" where
  "gomap_eq a b \<longleftrightarrow> (\<forall>k \<in> set (mkeys a @ mkeys b). mget a k = mget b k)"

lemma gomap_ok_Nil [simp]: "gomap_ok []"
  by (simp add: gomap_ok_def)

lemma gomap_ok_mput [simp, intro]: "gomap_ok m \<Longrightarrow> gomap_ok (mput k v m)"
  by (simp add: gomap_ok_def distinct_update)

lemma gomap_ok_mdel [simp, intro]: "gomap_ok m \<Longrightarrow> gomap_ok (mdel k m)"
  by (simp add: gomap_ok_def distinct_delete)

lemma mget_mput [simp]: "mget (mput k v m) x = (if x = k then Some v else mget m x)"
  by (simp add: update_conv')

lemma mget_mdel [simp]: "mget (mdel k m) x = (if x = k then None else mget m x)"
  by (simp add: delete_conv')

lemma mget0_mput [simp]: "mget0 z (mput k v m) x = (if x = k then v else mget0 z m x)"
  by (simp add: mget0_def)

lemma mget0_Nil [simp]: "mget0 z [] x = z"
  by (simp add: mget0_def)

lemma set_mkeys_mput [simp]: "set (mkeys (mput k v m)) = insert k (set (mkeys m))"
  by (simp add: dom_update)

lemma fst_set_mput [simp]: "fst ` set (mput k v m) = insert k (fst ` set m)"
  by (simp add: dom_update)

lemma set_mkeys_dom: "set (mkeys m) = dom (mget m)"
  by (simp add: dom_map_of_conv_image_fst)

lemma gomap_eq_iff: "gomap_eq a b \<longleftrightarrow> mget a = mget b"
proof
  assume eq: "gomap_eq a b"
  show "mget a = mget b"
  proof
    fix k
    show "mget a k = mget b k"
    proof (cases "k \<in> set (mkeys a @ mkeys b)")
      case True
      with eq show ?thesis by (simp add: gomap_eq_def)
    next
      case False
      then have "mget a k = None" and "mget b k = None"
        by (simp_all add: map_of_eq_None_iff)
      then show ?thesis by simp
    qed
  qed
qed (simp add: gomap_eq_def)

lemma gomap_eq_refl [simp]: "gomap_eq m m"
  by (simp add: gomap_eq_iff)

lemma gomap_perm:
  assumes "gomap_ok m" and "mset m = mset m'"
  shows "gomap_ok m'" and "mget m' = mget m"
proof -
  have m: "mset (mkeys m) = mset (mkeys m')"
    using assms(2) by (metis mset_map)
  have d: "distinct (mkeys m)"
    using assms(1) by (simp add: gomap_ok_def)
  have d': "distinct (mkeys m')"
    by (rule mset_eq_imp_distinct_iff [OF m, THEN iffD1, OF d])
  then show "gomap_ok m'"
    by (simp add: gomap_ok_def)
  show "mget m' = mget m"
    by (rule ext, rule map_of_inject_set [THEN iffD2, THEN fun_cong, OF d' d])
      (metis assms(2) set_mset_mset)
qed

subsection \<open>Machine integers\<close>

definition wrap64 :: "int \<Rightarrow> int" where
  "wrap64 x = (x + 2 ^ 63) mod 2 ^ 64 - 2 ^ 63"

definition wrap32 :: "int \<Rightarrow> int" where
  "wrap32 x = (x + 2 ^ 31) mod 2 ^ 32 - 2 ^ 31"

definition in_int64 :: "int \<Rightarrow> bool" where
  "in_int64 x \<longleftrightarrow> - (2 ^ 63) \<le> x \<and> x < 2 ^ 63"

definition in_int32 :: "int \<Rightarrow> bool" where
  "in_int32 x \<longleftrightarrow> - (2 ^ 31) \<le> x \<and> x < 2 ^ 31"

text \<open>Go's integer division truncates towards zero; the code never divides by zero.\<close>

definition quot64 :: "int \<Rightarrow> int \<Rightarrow> int" where
  "quot64 a b = wrap64 (sgn a * sgn b * (\<bar>a\<bar> div \<bar>b\<bar>))"

lemma wrap64_in_int64: "in_int64 (wrap64 x)"
  by (simp add: in_int64_def wrap64_def)

lemma wrap32_in_int32: "in_int32 (wrap32 x)"
  by (simp add: in_int32_def wrap32_def)

lemma wrap64_id [range_simps]: "- 9223372036854775808 \<le> x \<Longrightarrow> x < 9223372036854775808 \<Longrightarrow> wrap64 x = x"
  by (simp add: wrap64_def)

lemma wrap32_id [range_simps]: "- 2147483648 \<le> x \<Longrightarrow> x < 2147483648 \<Longrightarrow> wrap32 x = x"
  by (simp add: wrap32_def)

lemma quot64_nonneg:
  assumes "0 \<le> a" "0 < b" "a < 9223372036854775808"
  shows "quot64 a b = a div b"
proof -
  have eq: "sgn a * sgn b * (\<bar>a\<bar> div \<bar>b\<bar>) = a div b"
    using assms by (cases "a = 0") (simp_all add: sgn_if)
  have "0 \<le> a div b" and "a div b \<le> a"
    using assms div_le_dividend [of "nat a" "nat b"]
    by (simp_all add: pos_imp_zdiv_nonneg_iff nat_div_distrib [symmetric] nat_le_eq_zle)
  then show ?thesis
    unfolding quot64_def eq using assms by (intro wrap64_id) simp_all
qed

subsection \<open>Sorting\<close>

text \<open>
  The contract of \<open>sort.Sort\<close> and \<open>sort.Slice\<close> as a locale: a sorter for \<open>less\<close> permutes its
  argument and leaves no later element \<open>less\<close> than an earlier one.
\<close>

locale go_sorter =
  fixes lt :: "'a \<Rightarrow> 'a \<Rightarrow> bool"
    and srt :: "'a list \<Rightarrow> 'a list"
  assumes srt_mset: "mset (srt xs) = mset xs"
    and srt_sorted: "sorted_wrt (\<lambda>x y. \<not> lt y x) (srt xs)"
begin

lemma srt_set: "set (srt xs) = set xs"
  by (metis srt_mset set_mset_mset)

lemma srt_length: "length (srt xs) = length xs"
  by (metis srt_mset size_mset)

lemma srt_distinct_map: "distinct (map f (srt xs)) \<longleftrightarrow> distinct (map f xs)"
  by (rule mset_eq_imp_distinct_iff) (simp add: srt_mset)

end

fun go_insert :: "('a \<Rightarrow> 'a \<Rightarrow> bool) \<Rightarrow> 'a \<Rightarrow> 'a list \<Rightarrow> 'a list" where
  "go_insert lt x [] = [x]"
| "go_insert lt x (y # ys) = (if lt y x then y # go_insert lt x ys else x # y # ys)"

definition go_sort :: "('a \<Rightarrow> 'a \<Rightarrow> bool) \<Rightarrow> 'a list \<Rightarrow> 'a list" where
  "go_sort lt xs = foldr (go_insert lt) xs []"

lemma mset_go_insert: "mset (go_insert lt x xs) = add_mset x (mset xs)"
  by (induction xs) auto

lemma set_go_insert: "set (go_insert lt x xs) = insert x (set xs)"
  by (induction xs) auto

lemma mset_go_sort: "mset (go_sort lt xs) = mset xs"
  by (induction xs) (simp_all add: go_sort_def mset_go_insert)

text \<open>
  \<open>less\<close> must be a strict weak order, as \<open>sort.Interface\<close> requires: irreflexive comparison
  with a transitive "not less".
\<close>

lemma sorted_go_insert:
  assumes "\<And>x y z. \<not> lt y x \<Longrightarrow> \<not> lt z y \<Longrightarrow> \<not> lt z x"
    and "\<And>x y. lt x y \<Longrightarrow> \<not> lt y x"
    and "sorted_wrt (\<lambda>x y. \<not> lt y x) xs"
  shows "sorted_wrt (\<lambda>x y. \<not> lt y x) (go_insert lt x xs)"
  using assms(3)
proof (induction xs)
  case (Cons y ys)
  show ?case
  proof (cases "lt y x")
    case True
    with Cons assms(2) show ?thesis by (auto simp: set_go_insert)
  next
    case False
    with Cons.prems have "\<not> lt z x" if "z \<in> set ys" for z
      using that assms(1) [of y x z] by simp
    with False Cons.prems show ?thesis by simp
  qed
qed simp

lemma go_sorter_go_sort:
  assumes "\<And>x y z. \<not> lt y x \<Longrightarrow> \<not> lt z y \<Longrightarrow> \<not> lt z x"
    and "\<And>x y. lt x y \<Longrightarrow> \<not> lt y x"
  shows "go_sorter lt (go_sort lt)"
proof
  fix xs
  show "mset (go_sort lt xs) = mset xs"
    by (rule mset_go_sort)
  show "sorted_wrt (\<lambda>x y. \<not> lt y x) (go_sort lt xs)"
  proof (induction xs)
    case (Cons x xs)
    then show ?case
      unfolding go_sort_def by (simp add: sorted_go_insert [OF assms])
  qed (simp add: go_sort_def)
qed

text \<open>
  When \<open>less\<close> compares an injective key in a linear order the result of every sorter is the
  same list, the library's \<open>sort_key\<close>, so the code's result does not depend on how Go sorts.
\<close>

lemma go_sorter_unique:
  fixes f :: "'a \<Rightarrow> 'b::linorder"
  assumes s: "go_sorter (\<lambda>x y. f x < f y) srt" and inj: "inj_on f (set xs)"
  shows "srt xs = sort_key f xs"
proof (rule properties_for_sort_key [symmetric])
  show "mset (srt xs) = mset xs"
    by (rule go_sorter.srt_mset [OF s])
  show "sorted (map f (srt xs))"
    using go_sorter.srt_sorted [OF s, of xs]
    by (simp add: sorted_wrt_map not_less)
  have set: "set (srt xs) = set xs"
    by (rule go_sorter.srt_set [OF s])
  fix k
  assume "k \<in> set (srt xs)"
  then have k: "k \<in> set xs" by (simp add: set)
  have "filter (\<lambda>x. f k = f x) ys = filter (\<lambda>x. x = k) ys" if "set ys \<subseteq> set xs" for ys
    using inj k that by (intro filter_cong) (auto dest: inj_onD)
  moreover have "filter (\<lambda>x. x = k) ys = replicate (count (mset ys) k) k" for ys
    by (induction ys) auto
  ultimately show "filter (\<lambda>x. f k = f x) (srt xs) = filter (\<lambda>x. f k = f x) xs"
    by (simp add: set go_sorter.srt_mset [OF s])
qed

interpretation string_sort: go_sorter "(<) :: string \<Rightarrow> string \<Rightarrow> bool" sort
  by unfold_locales (simp_all add: not_less)

end
