(* ===== verification/Planner_Model.thy ===== *)
theory Planner_Model
  imports Fed_Prelude "HOL-Library.Word" "HOL-Library.While_Combinator"
begin

unbundle bit_operations_syntax

section \<open>The replica planner: definitions\<close>

text \<open>
  \<open>pkg/controller/util/planner/planner.go\<close> and the API types it reads
  (\<open>pkg/apis/scheduling/v1alpha1/replicaschedulingpreference_types.go\<close>). \<open>Plan\<close> splits
  \<open>TotalReplicas\<close> over the available clusters in the four phases of the Go function, one
  definition per loop: \<open>plan_select\<close> finds each cluster's preferences, \<open>plan_min\<close> hands out
  the minimums, \<open>plan_prealloc\<close> keeps running replicas when rebalancing is off, and
  \<open>plan_distribute\<close> iterates the weighted distribution, whose body over all clusters is
  \<open>dist_round\<close> and over one cluster is \<open>dist_step\<close>.

  All quantities are Go \<open>int64\<close>: \<open>add64\<close>, \<open>sub64\<close> and \<open>mul64\<close> wrap around. The outer loop
  is \<open>while_option\<close>, so not returning is the value \<open>None\<close>; \<open>Planner_Proofs\<close> shows when it
  returns. \<open>sort.Sort\<close> is the parameter \<open>srt\<close>, any function that meets the contract
  \<open>go_sorter byWeight_Less\<close>.
\<close>

subsection \<open>API types\<close>

record ClusterPreferences =
  MinReplicas :: int
  MaxReplicas :: "int option"
  Weight :: int

record ReplicaSchedulingPreferenceSpec =
  TargetKind :: string
  TotalReplicas :: int
  Rebalance :: bool
  Clusters :: "(string, ClusterPreferences) gomap"

record namedClusterPreferences = ClusterPreferences +
  clusterName :: string
  hash :: "32 word"

subsection \<open>Arithmetic and hashing\<close>

definition add64 :: "int \<Rightarrow> int \<Rightarrow> int" where
  "add64 a b = wrap64 (a + b)"

definition sub64 :: "int \<Rightarrow> int \<Rightarrow> int" where
  "sub64 a b = wrap64 (a - b)"

definition mul64 :: "int \<Rightarrow> int \<Rightarrow> int" where
  "mul64 a b = wrap64 (a * b)"

definition minInt64 :: "int \<Rightarrow> int \<Rightarrow> int" where
  "minInt64 a b = (if a < b then a else b)"

text \<open>\<open>hash/fnv\<close>'s \<open>New32\<close> is FNV-1: multiply by the prime, then xor the byte.\<close>

definition fnv32_write :: "32 word \<Rightarrow> string \<Rightarrow> 32 word" where
  "fnv32_write h s = foldl (\<lambda>h c. (h * 16777619) XOR of_char c) h s"

definition named :: "string \<Rightarrow> string \<Rightarrow> ClusterPreferences \<Rightarrow> namedClusterPreferences" where
  "named replicaSetKey name pref =
     \<lparr>MinReplicas = MinReplicas pref, MaxReplicas = MaxReplicas pref, Weight = Weight pref,
      clusterName = name,
      hash = fnv32_write (fnv32_write 2166136261 name) replicaSetKey\<rparr>"

definition byWeight_Less :: "namedClusterPreferences \<Rightarrow> namedClusterPreferences \<Rightarrow> bool" where
  "byWeight_Less a b \<longleftrightarrow> Weight b < Weight a \<or> (Weight a = Weight b \<and> hash a < hash b)"

subsection \<open>The phases of Plan\<close>

fun plan_select :: "(string, ClusterPreferences) gomap \<Rightarrow> string \<Rightarrow> string list
    \<Rightarrow> namedClusterPreferences list \<Rightarrow> (string, int) gomap
    \<Rightarrow> namedClusterPreferences list \<times> (string, int) gomap" where
  "plan_select prefs key [] preferences plan = (preferences, plan)"
| "plan_select prefs key (cluster # cs) preferences plan =
     (case mget prefs cluster of
        Some localRSP \<Rightarrow> plan_select prefs key cs (preferences @ [named key cluster localRSP]) plan
      | None \<Rightarrow>
          (case mget prefs ''*'' of
             Some localRSP \<Rightarrow> plan_select prefs key cs (preferences @ [named key cluster localRSP]) plan
           | None \<Rightarrow> plan_select prefs key cs preferences (mput cluster 0 plan)))"

fun plan_min :: "(string, int) gomap \<Rightarrow> namedClusterPreferences list \<Rightarrow> int
    \<Rightarrow> (string, int) gomap \<Rightarrow> int \<times> (string, int) gomap" where
  "plan_min estimatedCapacity [] remaining plan = (remaining, plan)"
| "plan_min estimatedCapacity (p # ps) remaining plan =
     (let m0 = minInt64 (MinReplicas p) remaining;
          m = (case mget estimatedCapacity (clusterName p) of
                 Some capacity \<Rightarrow> minInt64 m0 capacity | None \<Rightarrow> m0)
      in plan_min estimatedCapacity ps (sub64 remaining m) (mput (clusterName p) m plan))"

text \<open>The number of running replicas a cluster may keep, over what it was planned.\<close>

definition prealloc_extra :: "(string, int) gomap \<Rightarrow> namedClusterPreferences \<Rightarrow> int \<Rightarrow> int \<Rightarrow> int \<Rightarrow> int" where
  "prealloc_extra estimatedCapacity p cnt planned remaining =
     (let t0 = cnt;
          t1 = (case MaxReplicas p of Some mx \<Rightarrow> minInt64 mx t0 | None \<Rightarrow> t0);
          t2 = (case mget estimatedCapacity (clusterName p) of
                  Some capacity \<Rightarrow> minInt64 capacity t1 | None \<Rightarrow> t1);
          extra = minInt64 (sub64 t2 planned) remaining
      in if extra < 0 then 0 else extra)"

fun plan_prealloc :: "(string, int) gomap \<Rightarrow> (string, int) gomap \<Rightarrow> namedClusterPreferences list
    \<Rightarrow> int \<Rightarrow> (string, int) gomap \<Rightarrow> (string, int) gomap
    \<Rightarrow> int \<times> (string, int) gomap \<times> (string, int) gomap" where
  "plan_prealloc current cap [] remaining plan preallocated = (remaining, plan, preallocated)"
| "plan_prealloc current cap (p # ps) remaining plan preallocated =
     (let planned = mget0 0 plan (clusterName p)
      in case mget current (clusterName p) of
           Some cnt \<Rightarrow>
             if planned < cnt
             then (let extra = prealloc_extra cap p cnt planned remaining
                   in plan_prealloc current cap ps (sub64 remaining extra)
                        (mput (clusterName p) (add64 extra planned) plan)
                        (mput (clusterName p) extra preallocated))
             else plan_prealloc current cap ps remaining plan preallocated
         | None \<Rightarrow> plan_prealloc current cap ps remaining plan preallocated)"

record dist_state =
  d_remaining :: int
  d_plan :: "(string, int) gomap"
  d_overflow :: "(string, int) gomap"
  d_prealloc :: "(string, int) gomap"
  d_prefs :: "namedClusterPreferences list"
  d_modified :: bool

text \<open>
  One cluster of one round. \<open>dist_extra\<close> is the rounded-up share (before preallocated
  replicas are accounted), \<open>dist_clamp\<close> cuts the total to the maximum and the capacity and says
  whether the cluster is full; \<open>d_prefs\<close> collects the clusters of the next round.
\<close>

definition dist_extra :: "int \<Rightarrow> int \<Rightarrow> namedClusterPreferences \<Rightarrow> int \<Rightarrow> int" where
  "dist_extra weightSum distribute p remaining =
     minInt64 (quot64 (sub64 (add64 (mul64 distribute (Weight p)) weightSum) 1) weightSum) remaining"

definition dist_clamp :: "(string, int) gomap \<Rightarrow> namedClusterPreferences \<Rightarrow> int
    \<Rightarrow> (string, int) gomap \<Rightarrow> int \<times> bool \<times> (string, int) gomap" where
  "dist_clamp cap p total0 overflow =
     (let (total1, full1) = (case MaxReplicas p of
              Some mx \<Rightarrow> if mx < total0 then (mx, True) else (total0, False)
            | None \<Rightarrow> (total0, False))
      in case mget cap (clusterName p) of
           Some capacity \<Rightarrow> if capacity < total1
             then (capacity, True, mput (clusterName p) (sub64 total1 capacity) overflow)
             else (total1, full1, overflow)
         | None \<Rightarrow> (total1, full1, overflow))"

definition dist_step :: "(string, int) gomap \<Rightarrow> int \<Rightarrow> int \<Rightarrow> namedClusterPreferences
    \<Rightarrow> dist_state \<Rightarrow> dist_state" where
  "dist_step cap weightSum distribute p s =
     (let c = clusterName p;
          start = mget0 0 (d_plan s) c;
          extra0 = dist_extra weightSum distribute p (d_remaining s);
          prealloc = mget0 0 (d_prealloc s) c;
          usedPrealloc = minInt64 extra0 prealloc;
          extra = sub64 extra0 usedPrealloc;
          (total, full, overflow') = dist_clamp cap p (add64 start extra) (d_overflow s)
      in \<lparr>d_remaining = sub64 (d_remaining s) (sub64 total start),
          d_plan = mput c total (d_plan s),
          d_overflow = overflow',
          d_prealloc = mput c (sub64 prealloc usedPrealloc) (d_prealloc s),
          d_prefs = (if full then d_prefs s else d_prefs s @ [p]),
          d_modified = (d_modified s \<or> 0 < usedPrealloc \<or> start < total)\<rparr>)"

text \<open>The inner \<open>for\<close>: it breaks at the first cluster when the weights sum to zero or less.\<close>

fun dist_clusters :: "(string, int) gomap \<Rightarrow> int \<Rightarrow> int \<Rightarrow> namedClusterPreferences list
    \<Rightarrow> dist_state \<Rightarrow> dist_state" where
  "dist_clusters cap weightSum distribute [] s = s"
| "dist_clusters cap weightSum distribute (p # ps) s =
     (if 0 < weightSum
      then dist_clusters cap weightSum distribute ps (dist_step cap weightSum distribute p s)
      else s)"

definition weight_sum :: "namedClusterPreferences list \<Rightarrow> int" where
  "weight_sum ps = foldl (\<lambda>s p. add64 s (Weight p)) 0 ps"

definition dist_round :: "(string, int) gomap \<Rightarrow> dist_state \<Rightarrow> dist_state" where
  "dist_round cap s =
     dist_clusters cap (weight_sum (d_prefs s)) (d_remaining s) (d_prefs s)
       (s\<lparr>d_prefs := [], d_modified := False\<rparr>)"

definition dist_continue :: "dist_state \<Rightarrow> bool" where
  "dist_continue s \<longleftrightarrow> d_modified s \<and> 0 < d_remaining s"

definition plan_distribute :: "(string, int) gomap \<Rightarrow> dist_state \<Rightarrow> dist_state option" where
  "plan_distribute cap = while_option dist_continue (dist_round cap)"

text \<open>With \<open>Rebalance\<close> off the overflow is trimmed to what could not be placed anywhere.\<close>

definition trim_overflow :: "int \<Rightarrow> (string, int) gomap \<Rightarrow> (string, int) gomap" where
  "trim_overflow remaining overflow =
     filter (\<lambda>(k, v). 0 < v) (map (\<lambda>(k, v). (k, minInt64 v remaining)) overflow)"

definition plan_start :: "(namedClusterPreferences list \<Rightarrow> namedClusterPreferences list)
    \<Rightarrow> ReplicaSchedulingPreferenceSpec \<Rightarrow> string list \<Rightarrow> (string, int) gomap
    \<Rightarrow> (string, int) gomap \<Rightarrow> string \<Rightarrow> dist_state" where
  "plan_start srt spec availableClusters current cap key =
     (let (prefs0, plan0) = plan_select (Clusters spec) key availableClusters [] [];
          prefs = srt prefs0;
          (rem1, plan1) = plan_min cap prefs (TotalReplicas spec) plan0;
          (rem2, plan2, pre) = (if \<not> Rebalance spec
             then plan_prealloc current cap prefs rem1 plan1 []
             else (rem1, plan1, []))
      in \<lparr>d_remaining = rem2, d_plan = plan2, d_overflow = [], d_prealloc = pre,
          d_prefs = prefs, d_modified = True\<rparr>)"

definition Plan :: "(namedClusterPreferences list \<Rightarrow> namedClusterPreferences list)
    \<Rightarrow> ReplicaSchedulingPreferenceSpec \<Rightarrow> string list \<Rightarrow> (string, int) gomap
    \<Rightarrow> (string, int) gomap \<Rightarrow> string
    \<Rightarrow> ((string, int) gomap \<times> (string, int) gomap) option" where
  "Plan srt spec availableClusters current cap key =
     map_option (\<lambda>s. (d_plan s,
         if Rebalance spec then d_overflow s else trim_overflow (d_remaining s) (d_overflow s)))
       (plan_distribute cap (plan_start srt spec availableClusters current cap key))"

lemma byWeight_go_sort: "go_sorter byWeight_Less (go_sort byWeight_Less)"
  by (rule go_sorter_go_sort) (auto simp: byWeight_Less_def)

interpretation byWeight: go_sorter byWeight_Less "go_sort byWeight_Less"
  by (rule byWeight_go_sort)

end
