(* ===== verification/Planner_Proofs.thy ===== *)
theory Planner_Proofs
  imports Planner_Model
begin

section \<open>The replica planner: invariants of the distribution\<close>

text \<open>
  Facts about the phases of \<open>Plan\<close> under the precondition \<open>plan_input_ok\<close>: no negative
  quantity, a total that is an \<open>int32\<close>, and weights that sum to at most \<open>2^31\<close>, which keeps
  every intermediate product inside \<open>int64\<close>. \<open>dist_inv\<close> is the invariant of the distribution
  loop; the lemmas named \<open>dist_clusters_inv\<close> and \<open>plan_distribute_inv\<close> lift a property of one
  step to a round and to the whole loop.
\<close>

subsection \<open>Preconditions\<close>

definition pref_for :: "(string, ClusterPreferences) gomap \<Rightarrow> string \<Rightarrow> ClusterPreferences option" where
  "pref_for prefs cluster = (case mget prefs cluster of Some p \<Rightarrow> Some p | None \<Rightarrow> mget prefs ''*'')"

definition pref_ok :: "'a ClusterPreferences_scheme \<Rightarrow> bool" where
  "pref_ok p \<longleftrightarrow> 0 \<le> MinReplicas p \<and> 0 \<le> Weight p \<and>
     (case MaxReplicas p of None \<Rightarrow> True | Some mx \<Rightarrow> 0 \<le> mx)"

definition weight_for :: "(string, ClusterPreferences) gomap \<Rightarrow> string \<Rightarrow> int" where
  "weight_for prefs cluster = (case pref_for prefs cluster of None \<Rightarrow> 0 | Some p \<Rightarrow> Weight p)"

definition plan_input_ok :: "ReplicaSchedulingPreferenceSpec \<Rightarrow> string list \<Rightarrow> (string, int) gomap
    \<Rightarrow> (string, int) gomap \<Rightarrow> bool" where
  "plan_input_ok spec clusters current cap \<longleftrightarrow>
     distinct clusters \<and> 0 \<le> TotalReplicas spec \<and> TotalReplicas spec < 2147483648 \<and>
     (\<forall>(k, p) \<in> set (Clusters spec). pref_ok p) \<and>
     (\<forall>(k, v) \<in> set cap. 0 \<le> v) \<and>
     (\<forall>(k, v) \<in> set current. v < 9223372036854775808) \<and>
     (\<Sum>c\<leftarrow>clusters. weight_for (Clusters spec) c) \<le> 2147483648"

subsection \<open>Sums over the clusters\<close>

definition psum :: "string list \<Rightarrow> (string, int) gomap \<Rightarrow> int" where
  "psum names m = (\<Sum>n\<leftarrow>names. mget0 0 m n)"

lemma psum_mput_notin: "k \<notin> set names \<Longrightarrow> psum names (mput k v m) = psum names m"
  by (induction names) (auto simp: psum_def)

lemma psum_mput:
  "distinct names \<Longrightarrow> k \<in> set names \<Longrightarrow>
    psum names (mput k v m) = psum names m - mget0 0 m k + v"
proof (induction names)
  case (Cons n ns)
  then show ?case
    using psum_mput_notin [of k ns v m]
    by (cases "k = n") (auto simp: psum_def)
qed simp

lemma psum_ge:
  assumes "\<And>n. n \<in> set names \<Longrightarrow> 0 \<le> mget0 0 m n" and "k \<in> set names"
  shows "mget0 0 m k \<le> psum names m"
  using assms
proof (induction names)
  case (Cons n ns)
  have "0 \<le> psum ns m"
    unfolding psum_def using Cons.prems(1) by (intro sum_list_nonneg) auto
  with Cons show ?case
    by (cases "k = n") (auto simp: psum_def intro: add_increasing)
qed simp

lemma psum_nonneg: "(\<And>n. n \<in> set names \<Longrightarrow> 0 \<le> mget0 0 m n) \<Longrightarrow> 0 \<le> psum names m"
  unfolding psum_def by (intro sum_list_nonneg) auto

lemma minInt64_min [simp]: "minInt64 a b = min a b"
  by (simp add: minInt64_def min_def)

subsection \<open>Arithmetic of one step\<close>

lemma sub64_id [range_simps]:
  "- 4611686018427387904 \<le> a \<Longrightarrow> a < 4611686018427387904 \<Longrightarrow>
   - 4611686018427387904 \<le> b \<Longrightarrow> b \<le> 4611686018427387904 \<Longrightarrow> sub64 a b = a - b"
  by (simp add: sub64_def wrap64_id)

lemma add64_id [range_simps]:
  "- 4611686018427387904 \<le> a \<Longrightarrow> a < 4611686018427387904 \<Longrightarrow>
   - 4611686018427387904 \<le> b \<Longrightarrow> b \<le> 4611686018427387904 \<Longrightarrow> add64 a b = a + b"
  by (simp add: add64_def wrap64_id)

lemma dist_extra_eq:
  assumes "0 \<le> d" "d < 2147483648" "0 < ws" "ws \<le> 2147483648" "0 \<le> Weight p" "Weight p \<le> ws"
  shows "dist_extra ws d p remaining = min ((d * Weight p + ws - 1) div ws) remaining"
proof -
  have le: "d * Weight p \<le> 2147483647 * 2147483648"
    using assms by (intro mult_mono) auto
  have ge: "0 \<le> d * Weight p"
    using assms by simp
  note range = le ge assms(3,4)
  have "mul64 d (Weight p) = d * Weight p"
    unfolding mul64_def using range by (intro wrap64_id) linarith+
  moreover have "add64 (d * Weight p) ws = d * Weight p + ws"
    unfolding add64_def using range by (intro wrap64_id) linarith+
  moreover have "sub64 (d * Weight p + ws) 1 = d * Weight p + ws - 1"
    unfolding sub64_def using range by (intro wrap64_id) linarith+
  moreover have "quot64 (d * Weight p + ws - 1) ws = (d * Weight p + ws - 1) div ws"
    using range by (intro quot64_nonneg) linarith+
  ultimately show ?thesis
    by (simp add: dist_extra_def)
qed

lemma share_nonneg:
  assumes "0 \<le> d" "0 < ws" "0 \<le> (w::int)"
  shows "0 \<le> (d * w + ws - 1) div ws"
proof -
  have "0 \<le> d * w"
    using assms by simp
  then have "0 \<le> d * w + ws - 1"
    using assms by linarith
  with assms show ?thesis
    by (simp only: pos_imp_zdiv_nonneg_iff)
qed

lemma share_pos:
  assumes "0 < d" "0 < ws" "0 < (w::int)"
  shows "1 \<le> (d * w + ws - 1) div ws"
proof -
  have "0 < d * w"
    using assms by simp
  then have "ws div ws \<le> (d * w + ws - 1) div ws"
    using assms by (intro zdiv_mono1) linarith+
  then show ?thesis using assms by simp
qed

definition cap_ok :: "(string, int) gomap \<Rightarrow> bool" where
  "cap_ok cap \<longleftrightarrow> (\<forall>k c. mget cap k = Some c \<longrightarrow> 0 \<le> c)"

definition saturated :: "(string, int) gomap \<Rightarrow> (string, int) gomap \<Rightarrow> namedClusterPreferences \<Rightarrow> bool" where
  "saturated cap plan p \<longleftrightarrow>
     MaxReplicas p = Some (mget0 0 plan (clusterName p)) \<or>
     mget cap (clusterName p) = Some (mget0 0 plan (clusterName p))"

lemma dist_clamp_facts:
  assumes "dist_clamp cap p total0 ov = (t, full, ov')"
    and "pref_ok p" "cap_ok cap" "0 \<le> total0" "total0 < 2147483648"
  shows "0 \<le> t" and "t \<le> total0"
    and "\<And>mx. MaxReplicas p = Some mx \<Longrightarrow> t \<le> mx"
    and "\<And>c. mget cap (clusterName p) = Some c \<Longrightarrow> t \<le> c"
    and "\<not> full \<Longrightarrow> t = total0 \<and> ov' = ov"
    and "full \<Longrightarrow> MaxReplicas p = Some t \<or> mget cap (clusterName p) = Some t"
    and "full \<Longrightarrow> t < total0"
    and "\<And>n. n \<noteq> clusterName p \<Longrightarrow> mget ov' n = mget ov n"
    and "mget0 0 ov (clusterName p) = 0 \<Longrightarrow>
           0 \<le> mget0 0 ov' (clusterName p) \<and> t + mget0 0 ov' (clusterName p) \<le> total0"
    and "mget ov (clusterName p) = None \<Longrightarrow> mget ov' (clusterName p) \<noteq> None \<Longrightarrow>
           mget cap (clusterName p) = Some t \<and> 0 < mget0 0 ov' (clusterName p)"
proof -
  have cap: "0 \<le> c" if "mget cap (clusterName p) = Some c" for c
    using that assms(3) by (auto simp: cap_ok_def)
  have mx: "0 \<le> mx" if "MaxReplicas p = Some mx" for mx
    using that assms(2) by (simp add: pref_ok_def)
  note defs = dist_clamp_def mget0_def sub64_id
  note splits = option.splits if_splits
  show "0 \<le> t" and "t \<le> total0"
    and "\<And>mx. MaxReplicas p = Some mx \<Longrightarrow> t \<le> mx"
    and "\<And>c. mget cap (clusterName p) = Some c \<Longrightarrow> t \<le> c"
    and "\<not> full \<Longrightarrow> t = total0 \<and> ov' = ov"
    and "full \<Longrightarrow> MaxReplicas p = Some t \<or> mget cap (clusterName p) = Some t"
    and "full \<Longrightarrow> t < total0"
    and "\<And>n. n \<noteq> clusterName p \<Longrightarrow> mget ov' n = mget ov n"
    using assms(1,4,5) by (auto simp: defs dest: cap mx split: splits)
  show "mget0 0 ov (clusterName p) = 0 \<Longrightarrow>
      0 \<le> mget0 0 ov' (clusterName p) \<and> t + mget0 0 ov' (clusterName p) \<le> total0"
    using assms(1,4,5) by (auto simp: defs dest!: cap mx split: splits)
  show "mget ov (clusterName p) = None \<Longrightarrow> mget ov' (clusterName p) \<noteq> None \<Longrightarrow>
      mget cap (clusterName p) = Some t \<and> 0 < mget0 0 ov' (clusterName p)"
    using assms(1,4,5) by (auto simp: defs dest!: cap mx split: splits)
qed

subsection \<open>The invariant of the distribution\<close>

text \<open>
  The replicas still to place and those in the plan add up to the total; no cluster is over
  its capacity, and planned plus overflowing replicas of one cluster never exceed the total.
\<close>

definition dist_inv :: "string list \<Rightarrow> int \<Rightarrow> (string, int) gomap \<Rightarrow> dist_state \<Rightarrow> bool" where
  "dist_inv names T cap s \<longleftrightarrow>
     0 \<le> d_remaining s \<and> d_remaining s + psum names (d_plan s) = T \<and>
     (\<forall>n \<in> set names. 0 \<le> mget0 0 (d_plan s) n \<and>
        0 \<le> mget0 0 (d_prealloc s) n \<and> mget0 0 (d_prealloc s) n \<le> T \<and>
        0 \<le> mget0 0 (d_overflow s) n \<and>
        mget0 0 (d_plan s) n + mget0 0 (d_overflow s) n \<le> T \<and>
        (\<forall>c. mget cap n = Some c \<longrightarrow> mget0 0 (d_plan s) n \<le> c))"

text \<open>What is fixed during the loop: the total, the capacities and the clusters.\<close>

definition dist_ctxt :: "string list \<Rightarrow> int \<Rightarrow> (string, int) gomap \<Rightarrow> bool" where
  "dist_ctxt names T cap \<longleftrightarrow> distinct names \<and> 0 \<le> T \<and> T < 2147483648 \<and> cap_ok cap"

text \<open>The clusters still to visit in this round (\<open>ps\<close>) and those kept for the next.\<close>

definition prefs_inv :: "string list \<Rightarrow> namedClusterPreferences list \<Rightarrow> dist_state \<Rightarrow> bool" where
  "prefs_inv names ps s \<longleftrightarrow>
     distinct (map clusterName (d_prefs s @ ps)) \<and>
     (\<Sum>p\<leftarrow>d_prefs s @ ps. Weight p) \<le> 2147483648 \<and>
     (\<forall>p \<in> set (d_prefs s @ ps). clusterName p \<in> set names \<and> pref_ok p \<and>
        mget (d_overflow s) (clusterName p) = None)"

lemma dist_invD:
  assumes "dist_inv names T cap s" and "n \<in> set names"
  shows "0 \<le> mget0 0 (d_plan s) n" "0 \<le> mget0 0 (d_prealloc s) n" "mget0 0 (d_prealloc s) n \<le> T"
    "mget0 0 (d_plan s) n + d_remaining s \<le> T"
proof -
  show "0 \<le> mget0 0 (d_plan s) n" "0 \<le> mget0 0 (d_prealloc s) n" "mget0 0 (d_prealloc s) n \<le> T"
    using assms by (auto simp: dist_inv_def)
  have "mget0 0 (d_plan s) n \<le> psum names (d_plan s)"
    using assms by (intro psum_ge) (auto simp: dist_inv_def)
  then show "mget0 0 (d_plan s) n + d_remaining s \<le> T"
    using assms by (simp add: dist_inv_def)
qed

text \<open>
  One step without wrap-around: \<open>e\<close> is the share, \<open>u\<close> the preallocated replicas it uses and
  \<open>t\<close> the cluster's new total.
\<close>

lemma dist_step_cases:
  assumes ctxt: "dist_ctxt names T cap" and inv: "dist_inv names T cap s"
    and prefs: "prefs_inv names (p # ps) s"
    and d: "0 \<le> d" "d \<le> T" and ws: "0 < ws" "ws \<le> 2147483648" "Weight p \<le> ws"
  obtains e u t full ov start pre where
    "start = mget0 0 (d_plan s) (clusterName p)" "pre = mget0 0 (d_prealloc s) (clusterName p)"
    "e = min ((d * Weight p + ws - 1) div ws) (d_remaining s)" "u = min e pre"
    "dist_clamp cap p (start + (e - u)) (d_overflow s) = (t, full, ov)"
    "0 \<le> e" "e \<le> d_remaining s" "0 \<le> u" "0 \<le> start" "0 \<le> pre"
    "0 \<le> start + (e - u)" "start + (e - u) \<le> T"
    "dist_step cap ws d p s =
       \<lparr>d_remaining = d_remaining s - (t - start), d_plan = mput (clusterName p) t (d_plan s),
        d_overflow = ov, d_prealloc = mput (clusterName p) (pre - u) (d_prealloc s),
        d_prefs = (if full then d_prefs s else d_prefs s @ [p]),
        d_modified = (d_modified s \<or> 0 < u \<or> start < t)\<rparr>"
proof -
  define start where "start = mget0 0 (d_plan s) (clusterName p)"
  define pre where "pre = mget0 0 (d_prealloc s) (clusterName p)"
  define e where "e = min ((d * Weight p + ws - 1) div ws) (d_remaining s)"
  define u where "u = min e pre"
  obtain t full ov where cl: "dist_clamp cap p (start + (e - u)) (d_overflow s) = (t, full, ov)"
    by (cases "dist_clamp cap p (start + (e - u)) (d_overflow s)") auto
  have p: "clusterName p \<in> set names" "pref_ok p"
    using prefs by (auto simp: prefs_inv_def)
  have T: "0 \<le> T" "T < 2147483648" "cap_ok cap"
    using ctxt by (auto simp: dist_ctxt_def)
  note st = dist_invD [OF inv p(1), folded start_def pre_def]
  have rem: "0 \<le> d_remaining s"
    using inv by (simp add: dist_inv_def)
  have e: "0 \<le> e" "e \<le> d_remaining s"
    using share_nonneg [of d ws "Weight p"] d ws p rem by (auto simp: e_def pref_ok_def)
  have u: "0 \<le> u" "u \<le> e" "u \<le> pre"
    using e st by (auto simp: u_def)
  have tot: "0 \<le> start + (e - u)" "start + (e - u) \<le> T"
    using e u st by linarith+
  have t: "0 \<le> t" "t \<le> start + (e - u)"
    using dist_clamp_facts(1,2) [OF cl p(2) T(3)] tot T by auto
  have eq: "dist_extra ws d p (d_remaining s) = e"
    using d T ws p by (simp add: dist_extra_eq e_def pref_ok_def)
  have ids: "sub64 e u = e - u" "add64 start (e - u) = start + (e - u)" "sub64 t start = t - start"
    "sub64 (d_remaining s) (t - start) = d_remaining s - (t - start)" "sub64 pre u = pre - u"
    using e u st t tot T by (auto intro!: sub64_id add64_id)
  have minu: "minInt64 e pre = u"
    by (simp add: u_def)
  have "dist_step cap ws d p s =
       \<lparr>d_remaining = d_remaining s - (t - start), d_plan = mput (clusterName p) t (d_plan s),
        d_overflow = ov, d_prealloc = mput (clusterName p) (pre - u) (d_prealloc s),
        d_prefs = (if full then d_prefs s else d_prefs s @ [p]),
        d_modified = (d_modified s \<or> 0 < u \<or> start < t)\<rparr>"
    using minu by (simp add: dist_step_def Let_def eq ids cl start_def [symmetric]
        pre_def [symmetric] del: minInt64_min)
  then show thesis
    using that start_def pre_def e_def u_def cl e u st tot by blast
qed

text \<open>The bounds under which one step is taken in a round that distributes \<open>d\<close> replicas.\<close>

definition step_ok :: "int \<Rightarrow> int \<Rightarrow> int \<Rightarrow> namedClusterPreferences list \<Rightarrow> bool" where
  "step_ok T ws d ps \<longleftrightarrow> 0 \<le> d \<and> d \<le> T \<and> 0 < ws \<and> ws \<le> 2147483648 \<and> (\<forall>p \<in> set ps. Weight p \<le> ws)"

lemma dist_step_inv:
  assumes ctxt: "dist_ctxt names T cap" and inv: "dist_inv names T cap s"
    and prefs: "prefs_inv names (p # ps) s" and ok: "step_ok T ws d (p # ps)"
  shows "dist_inv names T cap (dist_step cap ws d p s)"
    and "prefs_inv names ps (dist_step cap ws d p s)"
proof -
  have ok': "0 \<le> d" "d \<le> T" "0 < ws" "ws \<le> 2147483648" "Weight p \<le> ws"
    using ok by (auto simp: step_ok_def)
  have T: "distinct names" "0 \<le> T" "T < 2147483648" "cap_ok cap"
    using ctxt by (auto simp: dist_ctxt_def)
  have p: "clusterName p \<in> set names" "pref_ok p" "mget (d_overflow s) (clusterName p) = None"
    using prefs by (auto simp: prefs_inv_def)
  obtain e u t full ov start pre where
    st: "start = mget0 0 (d_plan s) (clusterName p)" "pre = mget0 0 (d_prealloc s) (clusterName p)"
    and u: "u = min e pre" "0 \<le> e" "e \<le> d_remaining s" "0 \<le> u" "0 \<le> start" "0 \<le> pre"
    and cl: "dist_clamp cap p (start + (e - u)) (d_overflow s) = (t, full, ov)"
    and tot: "0 \<le> start + (e - u)" "start + (e - u) \<le> T"
    and step: "dist_step cap ws d p s =
       \<lparr>d_remaining = d_remaining s - (t - start), d_plan = mput (clusterName p) t (d_plan s),
        d_overflow = ov, d_prealloc = mput (clusterName p) (pre - u) (d_prealloc s),
        d_prefs = (if full then d_prefs s else d_prefs s @ [p]),
        d_modified = (d_modified s \<or> 0 < u \<or> start < t)\<rparr>"
    by (rule dist_step_cases [OF ctxt inv prefs ok']) blast
  have lt: "start + (e - u) < 2147483648"
    using tot T by linarith
  note clamp = dist_clamp_facts [OF cl p(2) T(4) tot(1) lt]
  have ov: "0 \<le> mget0 0 ov (clusterName p)" "t + mget0 0 ov (clusterName p) \<le> start + (e - u)"
    using clamp(9) p(3) by (auto simp: mget0_def)
  have other: "mget0 0 ov n = mget0 0 (d_overflow s) n" if "n \<noteq> clusterName p" for n
    using clamp(8) [OF that] by (simp add: mget0_def)
  show "dist_inv names T cap (dist_step cap ws d p s)"
    unfolding dist_inv_def
  proof (intro conjI ballI)
    show "0 \<le> d_remaining (dist_step cap ws d p s)"
      using clamp(2) u by (simp add: step)
    show "d_remaining (dist_step cap ws d p s) + psum names (d_plan (dist_step cap ws d p s)) = T"
      using inv T(1) p(1) st by (simp add: step psum_mput dist_inv_def)
    fix n
    assume n: "n \<in> set names"
    show "0 \<le> mget0 0 (d_plan (dist_step cap ws d p s)) n"
      using inv n clamp(1) by (simp add: step dist_inv_def)
    show "0 \<le> mget0 0 (d_prealloc (dist_step cap ws d p s)) n"
      using inv n u by (simp add: step dist_inv_def)
    show "mget0 0 (d_prealloc (dist_step cap ws d p s)) n \<le> T"
      using dist_invD(3) [OF inv n] dist_invD(3) [OF inv p(1)] u(4) by (simp add: step st(2))
    show "0 \<le> mget0 0 (d_overflow (dist_step cap ws d p s)) n"
      using inv n ov other by (cases "n = clusterName p") (auto simp: step dist_inv_def)
    show "mget0 0 (d_plan (dist_step cap ws d p s)) n
        + mget0 0 (d_overflow (dist_step cap ws d p s)) n \<le> T"
      using inv n ov other tot by (cases "n = clusterName p") (auto simp: step dist_inv_def)
    show "\<forall>c. mget cap n = Some c \<longrightarrow> mget0 0 (d_plan (dist_step cap ws d p s)) n \<le> c"
      using inv n clamp(4) by (simp add: step dist_inv_def)
  qed
  have ov_none: "mget ov (clusterName q) = None" if "q \<in> set (d_prefs s) \<union> set ps" for q
  proof -
    have "distinct (map clusterName (d_prefs s @ p # ps))"
      using prefs by (simp only: prefs_inv_def)
    then have "clusterName p \<notin> clusterName ` (set (d_prefs s) \<union> set ps)"
      by (simp add: image_Un)
    then have "clusterName q \<noteq> clusterName p"
      using that by (metis imageI)
    moreover have "mget (d_overflow s) (clusterName q) = None"
      using that prefs by (auto simp: prefs_inv_def)
    ultimately show ?thesis
      using clamp(8) [of "clusterName q"] by simp
  qed
  have wt: "0 \<le> Weight p"
    using p(2) by (simp add: pref_ok_def)
  show "prefs_inv names ps (dist_step cap ws d p s)"
  proof (cases full)
    case True
    have "d_prefs (dist_step cap ws d p s) = d_prefs s" "d_overflow (dist_step cap ws d p s) = ov"
      using True by (simp_all add: step)
    then show ?thesis
      using prefs ov_none wt by (simp add: prefs_inv_def)
  next
    case False
    have "d_prefs (dist_step cap ws d p s) = d_prefs s @ [p]"
      "d_overflow (dist_step cap ws d p s) = d_overflow s"
      using False clamp(5) by (simp_all add: step)
    then show ?thesis
      using prefs by (simp add: prefs_inv_def)
  qed
qed


subsection \<open>From a step to a round and to the loop\<close>

lemma dist_clusters_lift:
  assumes "dist_ctxt names T cap" and "dist_inv names T cap s" and "prefs_inv names ps s"
    and "step_ok T ws d ps" and "I ps s"
    and "\<And>p ps s. dist_inv names T cap s \<Longrightarrow> prefs_inv names (p # ps) s \<Longrightarrow>
           step_ok T ws d (p # ps) \<Longrightarrow> I (p # ps) s \<Longrightarrow> I ps (dist_step cap ws d p s)"
  shows "dist_inv names T cap (dist_clusters cap ws d ps s)
    \<and> prefs_inv names [] (dist_clusters cap ws d ps s) \<and> I [] (dist_clusters cap ws d ps s)"
  using assms(2-5)
proof (induction ps arbitrary: s)
  case (Cons p ps)
  have ws: "0 < ws" and ok: "step_ok T ws d ps"
    using Cons.prems(3) by (auto simp: step_ok_def)
  show ?case
    using Cons.IH [OF dist_step_inv [OF assms(1) Cons.prems(1-3)] ok
        assms(6) [OF Cons.prems(1,2,3,4)]] ws by simp
qed simp

lemma weight_sum_eq:
  assumes "\<forall>p \<in> set ps. 0 \<le> Weight p" and "(\<Sum>p\<leftarrow>ps. Weight p) \<le> 2147483648"
  shows "weight_sum ps = (\<Sum>p\<leftarrow>ps. Weight p)"
proof -
  have "foldl (\<lambda>s p. add64 s (Weight p)) a ps = a + (\<Sum>p\<leftarrow>ps. Weight p)"
    if "0 \<le> a" "a + (\<Sum>p\<leftarrow>ps. Weight p) \<le> 2147483648" "\<forall>p \<in> set ps. 0 \<le> Weight p" for a ps
    using that
  proof (induction ps arbitrary: a)
    case (Cons p ps)
    have "0 \<le> (\<Sum>p\<leftarrow>ps. Weight p)"
      using Cons.prems(3) by (intro sum_list_nonneg) auto
    with Cons show ?case
      by (simp add: add64_id)
  qed simp
  from this [of 0 ps] assms show ?thesis
    by (simp add: weight_sum_def)
qed

definition loop_inv :: "string list \<Rightarrow> int \<Rightarrow> (string, int) gomap \<Rightarrow> dist_state \<Rightarrow> bool" where
  "loop_inv names T cap s \<longleftrightarrow> dist_inv names T cap s \<and> prefs_inv names [] s"

lemma loop_inv_weights:
  assumes "loop_inv names T cap s"
  shows "weight_sum (d_prefs s) = (\<Sum>p\<leftarrow>d_prefs s. Weight p)"
    and "\<forall>p \<in> set (d_prefs s). 0 \<le> Weight p"
    and "(\<Sum>p\<leftarrow>d_prefs s. Weight p) \<le> 2147483648"
    and "p \<in> set (d_prefs s) \<Longrightarrow> Weight p \<le> weight_sum (d_prefs s)"
proof -
  show nonneg: "\<forall>p \<in> set (d_prefs s). 0 \<le> Weight p" and le: "(\<Sum>p\<leftarrow>d_prefs s. Weight p) \<le> 2147483648"
    using assms by (auto simp: loop_inv_def prefs_inv_def pref_ok_def)
  show eq: "weight_sum (d_prefs s) = (\<Sum>p\<leftarrow>d_prefs s. Weight p)"
    by (rule weight_sum_eq [OF nonneg le])
  show "Weight p \<le> weight_sum (d_prefs s)" if "p \<in> set (d_prefs s)"
    unfolding eq using that nonneg by (intro member_le_sum_list) auto
qed

text \<open>
  A round either finds no positive weight and only clears the preferences, or steps through
  every cluster within the bounds.
\<close>

lemma dist_round_cases:
  assumes ctxt: "dist_ctxt names T cap" and inv: "loop_inv names T cap s"
  defines "s0 \<equiv> s\<lparr>d_prefs := [], d_modified := False\<rparr>"
  shows "dist_inv names T cap s0" "prefs_inv names (d_prefs s) s0"
    and "\<not> 0 < weight_sum (d_prefs s) \<Longrightarrow>
           dist_round cap s = s0 \<and> (\<forall>p \<in> set (d_prefs s). Weight p = 0)"
    and "0 < weight_sum (d_prefs s) \<Longrightarrow>
           step_ok T (weight_sum (d_prefs s)) (d_remaining s) (d_prefs s)"
proof -
  show "dist_inv names T cap s0" "prefs_inv names (d_prefs s) s0"
    using inv by (simp_all add: loop_inv_def s0_def dist_inv_def prefs_inv_def)
  note weights = loop_inv_weights [OF inv]
  show "dist_round cap s = s0 \<and> (\<forall>p \<in> set (d_prefs s). Weight p = 0)"
    if "\<not> 0 < weight_sum (d_prefs s)"
  proof
    show "dist_round cap s = s0"
      using that by (cases "d_prefs s") (simp_all add: dist_round_def s0_def)
    show "\<forall>p \<in> set (d_prefs s). Weight p = 0"
      using weights(2,4) that by force
  qed
  show "step_ok T (weight_sum (d_prefs s)) (d_remaining s) (d_prefs s)"
    if "0 < weight_sum (d_prefs s)"
    using that weights inv psum_nonneg [of names "d_plan s"]
    by (auto simp: step_ok_def loop_inv_def dist_inv_def)
qed

lemma dist_round_lift:
  assumes ctxt: "dist_ctxt names T cap" and inv: "loop_inv names T cap s"
    and init: "I (d_prefs s) (s\<lparr>d_prefs := [], d_modified := False\<rparr>)"
    and stop: "\<And>s0. (\<forall>p \<in> set (d_prefs s). Weight p = 0) \<Longrightarrow> I (d_prefs s) s0 \<Longrightarrow> I [] s0"
    and step: "\<And>p ps t ws. dist_inv names T cap t \<Longrightarrow> prefs_inv names (p # ps) t \<Longrightarrow>
           step_ok T ws (d_remaining s) (p # ps) \<Longrightarrow> I (p # ps) t \<Longrightarrow>
           I ps (dist_step cap ws (d_remaining s) p t)"
  shows "loop_inv names T cap (dist_round cap s) \<and> I [] (dist_round cap s)"
proof (cases "0 < weight_sum (d_prefs s)")
  case True
  show ?thesis
    unfolding dist_round_def loop_inv_def
    using dist_clusters_lift [where I = I, OF ctxt dist_round_cases(1,2) [OF ctxt inv]
        dist_round_cases(4) [OF ctxt inv True] init step] by simp
next
  case False
  note eq = dist_round_cases(3) [OF ctxt inv False]
  have "prefs_inv names [] (dist_round cap s)"
    using eq by (simp add: prefs_inv_def)
  then show ?thesis
    using eq init stop dist_round_cases(1) [OF ctxt inv] by (simp add: loop_inv_def)
qed

lemma dist_round_inv:
  assumes "dist_ctxt names T cap" and "loop_inv names T cap s"
  shows "loop_inv names T cap (dist_round cap s)"
  using dist_round_lift [where I = "\<lambda>_ _. True", OF assms] by simp

lemma plan_distribute_lift:
  assumes "dist_ctxt names T cap" and "plan_distribute cap s = Some s'"
    and "loop_inv names T cap s" and "J s"
    and "\<And>t. loop_inv names T cap t \<Longrightarrow> dist_continue t \<Longrightarrow> J t \<Longrightarrow> J (dist_round cap t)"
  shows "loop_inv names T cap s' \<and> J s' \<and> \<not> dist_continue s'"
proof -
  note run = assms(2) [unfolded plan_distribute_def]
  have "loop_inv names T cap s' \<and> J s'"
    by (rule while_option_rule [OF _ run, where P = "\<lambda>t. loop_inv names T cap t \<and> J t"])
      (use assms dist_round_inv in auto)
  then show ?thesis
    using while_option_stop [OF run] by simp
qed

end
