(* ===== verification/Planner_Phases.thy ===== *)
theory Planner_Phases
  imports Planner_Proofs
begin

section \<open>The replica planner: the phases before the distribution\<close>

text \<open>
  What \<open>plan_select\<close>, \<open>plan_min\<close> and \<open>plan_prealloc\<close> leave behind, and that together they
  establish the invariant \<open>loop_inv\<close> of the distribution (\<open>plan_start_inv\<close>).
\<close>

subsection \<open>Selecting the preferences\<close>

definition selected :: "(string, ClusterPreferences) gomap \<Rightarrow> string \<Rightarrow> string list \<Rightarrow> namedClusterPreferences list" where
  "selected prefs key cs =
     concat (map (\<lambda>c. case pref_for prefs c of None \<Rightarrow> [] | Some p \<Rightarrow> [named key c p]) cs)"

lemma plan_select_eq:
  "fst (plan_select prefs key cs ps plan) = ps @ selected prefs key cs"
  "mget (snd (plan_select prefs key cs ps plan)) n =
     (if n \<in> set cs \<and> pref_for prefs n = None then Some 0 else mget plan n)"
  by (induction prefs key cs ps plan rule: plan_select.induct)
    (auto simp: selected_def pref_for_def split: option.splits)

lemma named_simps [simp]:
  "clusterName (named key c p) = c" "MinReplicas (named key c p) = MinReplicas p"
  "MaxReplicas (named key c p) = MaxReplicas p" "Weight (named key c p) = Weight p"
  by (simp_all add: named_def)

lemma selected_names: "map clusterName (selected prefs key cs) = filter (\<lambda>c. pref_for prefs c \<noteq> None) cs"
  by (induction cs) (auto simp: selected_def split: option.splits)

lemma set_selected:
  "set (selected prefs key cs) = {named key c p |c p. c \<in> set cs \<and> pref_for prefs c = Some p}"
  by (force simp: selected_def split: option.splits)

lemma selected_weights: "(\<Sum>p\<leftarrow>selected prefs key cs. Weight p) = (\<Sum>c\<leftarrow>cs. weight_for prefs c)"
  by (induction cs) (auto simp: selected_def weight_for_def split: option.splits)

lemma pref_for_ok:
  "\<forall>(k, p) \<in> set prefs. pref_ok p \<Longrightarrow> pref_for prefs c = Some p \<Longrightarrow> pref_ok p"
  by (auto simp: pref_for_def split: option.splits dest: map_of_SomeD)

lemma pref_ok_named [simp]: "pref_ok (named key c p) = pref_ok p"
  by (simp add: pref_ok_def)

subsection \<open>The minimums\<close>

text \<open>The invariant of the early phases: replicas are conserved and capacities kept.\<close>

definition phase_inv :: "string list \<Rightarrow> int \<Rightarrow> (string, int) gomap \<Rightarrow> int \<Rightarrow> (string, int) gomap \<Rightarrow> bool" where
  "phase_inv names T cap remaining plan \<longleftrightarrow>
     0 \<le> remaining \<and> remaining + psum names plan = T \<and>
     (\<forall>n \<in> set names. 0 \<le> mget0 0 plan n \<and> (\<forall>c. mget cap n = Some c \<longrightarrow> mget0 0 plan n \<le> c))"

definition capped :: "(string, int) gomap \<Rightarrow> string \<Rightarrow> int \<Rightarrow> int" where
  "capped cap n m = (case mget cap n of Some c \<Rightarrow> min m c | None \<Rightarrow> m)"

lemma capped_le: "capped cap n m \<le> m" "mget cap n = Some c \<Longrightarrow> capped cap n m \<le> c"
  by (auto simp: capped_def split: option.splits)

lemma capped_nonneg: "cap_ok cap \<Longrightarrow> 0 \<le> m \<Longrightarrow> 0 \<le> capped cap n m"
  by (auto simp: capped_def cap_ok_def split: option.splits)

lemma capped_mono: "m \<le> m' \<Longrightarrow> capped cap n m \<le> capped cap n m'"
  by (auto simp: capped_def split: option.splits)

lemma phase_inv_put:
  assumes "phase_inv names T cap remaining plan" and "distinct names" and "k \<in> set names"
    and "mget0 0 plan k \<le> v" "v - mget0 0 plan k \<le> remaining" and "v \<le> capped cap k v"
  shows "phase_inv names T cap (remaining - (v - mget0 0 plan k)) (mput k v plan)"
proof -
  have "\<forall>c. mget cap k = Some c \<longrightarrow> v \<le> c"
    using assms(6) by (auto simp: capped_def)
  moreover have "0 \<le> mget0 0 plan k"
    using assms(1,3) by (simp add: phase_inv_def)
  ultimately show ?thesis
    using assms by (auto simp: phase_inv_def psum_mput)
qed

lemma phase_inv_le:
  assumes "phase_inv names T cap remaining plan" and "k \<in> set names"
  shows "0 \<le> mget0 0 plan k" and "mget0 0 plan k + remaining \<le> T" and "remaining \<le> T"
    and "0 \<le> remaining"
proof -
  show "0 \<le> mget0 0 plan k" and "0 \<le> remaining"
    using assms by (auto simp: phase_inv_def)
  have "mget0 0 plan k \<le> psum names plan"
    using assms by (intro psum_ge) (auto simp: phase_inv_def)
  with assms \<open>0 \<le> mget0 0 plan k\<close> show "mget0 0 plan k + remaining \<le> T" "remaining \<le> T"
    by (auto simp: phase_inv_def)
qed

lemma plan_min_Cons:
  assumes "0 \<le> remaining" "remaining < 2147483648" "0 \<le> MinReplicas p" "cap_ok cap"
  shows "plan_min cap (p # ps) remaining plan =
    plan_min cap ps (remaining - capped cap (clusterName p) (min (MinReplicas p) remaining))
      (mput (clusterName p) (capped cap (clusterName p) (min (MinReplicas p) remaining)) plan)"
proof -
  define m where "m = capped cap (clusterName p) (min (MinReplicas p) remaining)"
  have m: "0 \<le> m" "m \<le> remaining"
    using assms capped_nonneg [of cap "min (MinReplicas p) remaining" "clusterName p"]
      capped_le(1) [of cap "clusterName p" "min (MinReplicas p) remaining"]
    by (simp_all add: m_def)
  have "(case mget cap (clusterName p) of Some capacity \<Rightarrow> minInt64 (min (MinReplicas p) remaining) capacity
      | None \<Rightarrow> min (MinReplicas p) remaining) = m"
    by (simp add: m_def capped_def split: option.split)
  moreover have "sub64 remaining m = remaining - m"
    using m assms by (simp add: sub64_id)
  ultimately show ?thesis
    by (simp add: m_def [symmetric])
qed

lemma plan_min_facts:
  assumes "plan_min cap ps remaining plan = (r, pl)"
    and "phase_inv names T cap remaining plan" and "distinct names" "T < 2147483648" "cap_ok cap"
    and "distinct (map clusterName ps)"
    and "\<forall>p \<in> set ps. clusterName p \<in> set names \<and> pref_ok p \<and> mget0 0 plan (clusterName p) = 0"
  shows "phase_inv names T cap r pl \<and>
    (\<forall>n. n \<notin> clusterName ` set ps \<longrightarrow> mget pl n = mget plan n) \<and>
    (\<forall>p \<in> set ps. mget pl (clusterName p) \<noteq> None \<and> mget0 0 pl (clusterName p) \<le> MinReplicas p) \<and>
    ((\<Sum>p\<leftarrow>ps. MinReplicas p) \<le> remaining \<longrightarrow>
       (\<forall>p \<in> set ps. mget0 0 pl (clusterName p) = capped cap (clusterName p) (MinReplicas p))
       \<and> remaining - (\<Sum>p\<leftarrow>ps. MinReplicas p) \<le> r)"
  using assms(1,2,6,7)
proof (induction ps arbitrary: remaining plan)
  case (Cons p ps)
  define m where "m = capped cap (clusterName p) (min (MinReplicas p) remaining)"
  have p: "clusterName p \<in> set names" "0 \<le> MinReplicas p" "mget0 0 plan (clusterName p) = 0"
    using Cons.prems(4) by (auto simp: pref_ok_def)
  note rem = phase_inv_le(3,4) [OF Cons.prems(2) p(1)]
  have m: "0 \<le> m" "m \<le> remaining" "m \<le> MinReplicas p" "m \<le> capped cap (clusterName p) m"
    using p rem \<open>cap_ok cap\<close> capped_nonneg [of cap "min (MinReplicas p) remaining" "clusterName p"]
      capped_le(1) [of cap "clusterName p" "min (MinReplicas p) remaining"]
    by (auto simp: m_def capped_def split: option.splits)
  have inv: "phase_inv names T cap (remaining - m) (mput (clusterName p) m plan)"
    using phase_inv_put [OF Cons.prems(2) \<open>distinct names\<close> p(1), of m] m p(3) by simp
  have run: "plan_min cap ps (remaining - m) (mput (clusterName p) m plan) = (r, pl)"
    using Cons.prems(1) rem p \<open>T < 2147483648\<close> \<open>cap_ok cap\<close> plan_min_Cons [of remaining p cap ps plan]
    by (simp add: m_def)
  have notin: "clusterName p \<notin> clusterName ` set ps" and dist: "distinct (map clusterName ps)"
    using Cons.prems(3) by auto
  have rest: "\<forall>q \<in> set ps. clusterName q \<in> set names \<and> pref_ok q
      \<and> mget0 0 (mput (clusterName p) m plan) (clusterName q) = 0"
    using Cons.prems(4) notin by (auto simp: image_iff)
  note IH = Cons.IH [OF run inv dist rest]
  have "mget pl (clusterName p) = Some m"
    using IH notin by auto
  moreover have "MinReplicas p \<le> remaining \<longrightarrow> m = capped cap (clusterName p) (MinReplicas p)"
    by (simp add: m_def min_def)
  moreover have "0 \<le> (\<Sum>p\<leftarrow>ps. MinReplicas p)"
    using Cons.prems(4) by (intro sum_list_nonneg) (auto simp: pref_ok_def)
  ultimately show ?case
    using IH m(3) p(2) by (auto simp: mget0_def)
qed simp

subsection \<open>Keeping the running replicas\<close>

text \<open>What \<open>Plan\<close> would keep of a cluster's running replicas, beyond the ones it has planned.\<close>

definition keepable :: "(string, int) gomap \<Rightarrow> (string, int) gomap \<Rightarrow> (string, int) gomap
    \<Rightarrow> namedClusterPreferences \<Rightarrow> int" where
  "keepable current cap plan p =
     (case mget current (clusterName p) of
        None \<Rightarrow> 0
      | Some cnt \<Rightarrow>
          max 0 (capped cap (clusterName p)
                   (case MaxReplicas p of Some mx \<Rightarrow> min mx cnt | None \<Rightarrow> cnt)
                 - mget0 0 plan (clusterName p)))"

lemma prealloc_extra_eq:
  assumes "mget current (clusterName p) = Some cnt" and "mget0 0 plan (clusterName p) < cnt"
    and "cnt < 9223372036854775808" and "pref_ok p" "cap_ok cap"
    and "0 \<le> mget0 0 plan (clusterName p)" "mget0 0 plan (clusterName p) < 2147483648"
    and "0 \<le> remaining"
  shows "prealloc_extra cap p cnt (mget0 0 plan (clusterName p)) remaining
    = min (keepable current cap plan p) remaining"
proof -
  define t1 where "t1 = (case MaxReplicas p of Some mx \<Rightarrow> min mx cnt | None \<Rightarrow> cnt)"
  have "0 \<le> t1" "t1 \<le> cnt"
    using assms(1-7) by (auto simp: t1_def pref_ok_def split: option.splits)
  define t2 where "t2 = capped cap (clusterName p) t1"
  have "0 \<le> t2" "t2 \<le> cnt"
    using capped_nonneg [OF assms(5) \<open>0 \<le> t1\<close>, of "clusterName p"]
      capped_le(1) [of cap "clusterName p" t1] \<open>t1 \<le> cnt\<close> by (simp_all add: t2_def)
  then have sub: "sub64 t2 (mget0 0 plan (clusterName p)) = t2 - mget0 0 plan (clusterName p)"
    unfolding sub64_def using assms(3,6,7) by (intro wrap64_id) linarith+
  have t1: "(case MaxReplicas p of None \<Rightarrow> cnt | Some mx \<Rightarrow> minInt64 mx cnt) = t1"
    by (simp add: t1_def split: option.split)
  have t2: "(case mget cap (clusterName p) of None \<Rightarrow> t1 | Some capacity \<Rightarrow> minInt64 capacity t1) = t2"
    by (simp add: t2_def capped_def min.commute split: option.split)
  have "prealloc_extra cap p cnt (mget0 0 plan (clusterName p)) remaining
    = (let extra = min (t2 - mget0 0 plan (clusterName p)) remaining in if extra < 0 then 0 else extra)"
    unfolding prealloc_extra_def Let_def t1 t2 sub by simp
  also have "\<dots> = min (max 0 (t2 - mget0 0 plan (clusterName p))) remaining"
    using assms(8) by (auto simp: Let_def)
  finally show ?thesis
    using assms(1) by (simp add: keepable_def t2_def t1_def)
qed

lemma keepable_bounds:
  assumes "0 < keepable current cap plan p"
  shows "mget0 0 plan (clusterName p) + keepable current cap plan p
      \<le> capped cap (clusterName p) (mget0 0 plan (clusterName p) + keepable current cap plan p)"
    and "MaxReplicas p = Some mx \<Longrightarrow> mget0 0 plan (clusterName p) + keepable current cap plan p \<le> mx"
  using assms by (auto simp: keepable_def capped_def split: option.splits if_splits)

lemma keepable_small:
  assumes "mget current (clusterName p) = Some cnt" "\<not> mget0 0 plan (clusterName p) < cnt"
  shows "keepable current cap plan p = 0"
  using assms by (auto simp: keepable_def capped_def split: option.splits)

text \<open>One turn of the loop without wrap-around.\<close>

lemma plan_prealloc_Cons:
  assumes "phase_inv names T cap remaining plan" and "T < 2147483648" "cap_ok cap"
    and "clusterName p \<in> set names" "pref_ok p"
    and "\<forall>cnt. mget current (clusterName p) = Some cnt \<longrightarrow> cnt < 9223372036854775808"
  defines "k \<equiv> min (keepable current cap plan p) remaining"
  shows "k = 0 \<and> plan_prealloc current cap (p # ps) remaining plan pre
           = plan_prealloc current cap ps remaining plan pre
    \<or> plan_prealloc current cap (p # ps) remaining plan pre
        = plan_prealloc current cap ps (remaining - k)
            (mput (clusterName p) (mget0 0 plan (clusterName p) + k) plan) (mput (clusterName p) k pre)"
proof -
  note le = phase_inv_le [OF assms(1,4)]
  show ?thesis
  proof (cases "mget current (clusterName p)")
    case None
    then show ?thesis
      using le by (simp add: k_def keepable_def)
  next
    case (Some cnt)
    show ?thesis
    proof (cases "mget0 0 plan (clusterName p) < cnt")
      case True
      have k: "prealloc_extra cap p cnt (mget0 0 plan (clusterName p)) remaining = k"
        unfolding k_def by (rule prealloc_extra_eq) (use Some True assms le in auto)
      have "0 \<le> k" "k \<le> remaining"
        using le by (auto simp: k_def keepable_def split: option.splits)
      then have "sub64 remaining k = remaining - k"
        "add64 k (mget0 0 plan (clusterName p)) = mget0 0 plan (clusterName p) + k"
        using le assms(2) by (simp_all add: sub64_id add64_id)
      with Some True k show ?thesis by simp
    next
      case False
      with Some le show ?thesis by (simp add: k_def keepable_small [OF Some False])
    qed
  qed
qed

lemma phase_inv_keep:
  assumes "phase_inv names T cap remaining plan" and "distinct names" "clusterName p \<in> set names"
    and k_def: "k = min (keepable current cap plan p) remaining"
  shows "phase_inv names T cap (remaining - k)
    (mput (clusterName p) (mget0 0 plan (clusterName p) + k) plan)" and "0 \<le> k" and "k \<le> T"
proof -
  note le = phase_inv_le [OF assms(1,3)]
  show k: "0 \<le> k" "k \<le> T"
    using le by (auto simp: k_def keepable_def split: option.splits)
  have cap: "\<forall>c. mget cap (clusterName p) = Some c \<longrightarrow> mget0 0 plan (clusterName p) \<le> c"
    using assms by (simp add: phase_inv_def)
  have "mget0 0 plan (clusterName p) + k \<le> capped cap (clusterName p) (mget0 0 plan (clusterName p) + k)"
  proof (cases "0 < keepable current cap plan p")
    case True
    then show ?thesis
      using keepable_bounds(1) [OF True] by (auto simp: k_def capped_def split: option.splits)
  next
    case False
    then have "k = 0" using k by (simp add: k_def)
    with cap show ?thesis by (auto simp: capped_def split: option.splits)
  qed
  then show "phase_inv names T cap (remaining - k)
    (mput (clusterName p) (mget0 0 plan (clusterName p) + k) plan)"
    using phase_inv_put [OF assms(1-3), of "mget0 0 plan (clusterName p) + k"] k
    by (simp add: k_def)
qed

lemma keepable_other:
  "n \<noteq> clusterName p \<Longrightarrow> keepable current cap (mput n v plan) p = keepable current cap plan p"
  by (auto simp: keepable_def split: option.split)

lemma plan_prealloc_facts:
  assumes "plan_prealloc current cap ps remaining plan pre = (r, pl, pre')"
    and "phase_inv names T cap remaining plan" and "distinct names" "T < 2147483648" "cap_ok cap"
    and "distinct (map clusterName ps)"
    and "\<forall>p \<in> set ps. clusterName p \<in> set names \<and> pref_ok p"
    and "\<forall>n. 0 \<le> mget0 0 pre n \<and> mget0 0 pre n \<le> T"
    and "\<forall>n cnt. mget current n = Some cnt \<longrightarrow> cnt < 9223372036854775808"
  shows "phase_inv names T cap r pl \<and> (\<forall>n. 0 \<le> mget0 0 pre' n \<and> mget0 0 pre' n \<le> T) \<and>
    (\<forall>n. n \<notin> clusterName ` set ps \<longrightarrow> mget pl n = mget plan n) \<and>
    (\<forall>n. mget plan n \<noteq> None \<longrightarrow> mget pl n \<noteq> None \<and> mget0 0 plan n \<le> mget0 0 pl n) \<and>
    (\<forall>p \<in> set ps. mget0 0 pl (clusterName p)
       \<le> mget0 0 plan (clusterName p) + keepable current cap plan p) \<and>
    ((\<Sum>p\<leftarrow>ps. keepable current cap plan p) \<le> remaining \<longrightarrow>
       (\<forall>p \<in> set ps. mget0 0 pl (clusterName p)
          = mget0 0 plan (clusterName p) + keepable current cap plan p))"
  using assms(1,2,6-8)
proof (induction ps arbitrary: remaining plan pre)
  case (Cons p ps)
  have p: "clusterName p \<in> set names" "pref_ok p"
    using Cons.prems(4) by auto
  define k where "k = min (keepable current cap plan p) remaining"
  define plan1 where "plan1 = mput (clusterName p) (mget0 0 plan (clusterName p) + k) plan"
  have notin: "clusterName p \<notin> clusterName ` set ps" and dist: "distinct (map clusterName ps)"
    and rest: "\<forall>p \<in> set ps. clusterName p \<in> set names \<and> pref_ok p"
    using Cons.prems(3,4) by auto
  note keep = phase_inv_keep [OF Cons.prems(2) assms(3) p(1) k_def]
  have nonneg: "0 \<le> keepable current cap plan q" for q
    by (auto simp: keepable_def split: option.split)
  have sum: "0 \<le> (\<Sum>p\<leftarrow>ps. keepable current cap plan p)"
    by (intro sum_list_nonneg) (auto simp: nonneg)
  consider "k = 0" "plan_prealloc current cap ps remaining plan pre = (r, pl, pre')"
    | "plan_prealloc current cap ps (remaining - k) plan1 (mput (clusterName p) k pre) = (r, pl, pre')"
    using plan_prealloc_Cons [OF Cons.prems(2) assms(4,5) p, of current ps pre] assms(9) Cons.prems(1)
    unfolding k_def plan1_def by auto
  then show ?case
  proof cases
    case 1
    have rem: "0 \<le> remaining"
      using Cons.prems(2) by (simp add: phase_inv_def)
    have k: "keepable current cap plan p = 0 \<or> remaining = 0"
      using 1(1) unfolding k_def by linarith
    show ?thesis
      using Cons.IH [OF 1(2) Cons.prems(2) dist rest Cons.prems(5)] notin nonneg [of p] sum k
      by (auto simp: mget0_def)
  next
    case 2
    have pre: "\<forall>n. 0 \<le> mget0 0 (mput (clusterName p) k pre) n
        \<and> mget0 0 (mput (clusterName p) k pre) n \<le> T"
      using Cons.prems(5) keep(2,3) by simp
    have other: "keepable current cap plan1 q = keepable current cap plan q" if "q \<in> set ps" for q
      using that notin unfolding plan1_def by (intro keepable_other) auto
    have plan1: "mget0 0 plan1 (clusterName q) = mget0 0 plan (clusterName q)" if "q \<in> set ps" for q
      using that notin unfolding plan1_def by (auto simp: image_iff)
    have sums: "map (keepable current cap plan1) ps = map (keepable current cap plan) ps"
      using other by simp
    note IH = Cons.IH [OF 2 keep(1) [folded plan1_def] dist rest pre]
    have pl: "mget pl (clusterName p) = Some (mget0 0 plan (clusterName p) + k)"
      using IH notin by (auto simp: plan1_def)
    have le: "mget pl n \<noteq> None \<and> mget0 0 plan n \<le> mget0 0 pl n" if "mget plan n \<noteq> None" for n
    proof -
      have "mget plan1 n \<noteq> None" "mget0 0 plan n \<le> mget0 0 plan1 n"
        using that keep(2) by (auto simp: plan1_def)
      with IH show ?thesis by (meson order_trans)
    qed
    have k: "k \<le> keepable current cap plan p"
      "keepable current cap plan p \<le> remaining \<Longrightarrow> k = keepable current cap plan p"
      by (simp_all add: k_def)
    show ?thesis
      using IH pl le k sum other plan1 notin unfolding sums
      by (auto simp: mget0_def plan1_def)
  qed
qed simp

subsection \<open>The state in which the distribution starts\<close>

lemma plan_input_okD:
  assumes "plan_input_ok spec clusters current cap"
  shows "distinct clusters" "0 \<le> TotalReplicas spec" "TotalReplicas spec < 2147483648" "cap_ok cap"
    "\<forall>(k, p) \<in> set (Clusters spec). pref_ok p"
    "(\<Sum>c\<leftarrow>clusters. weight_for (Clusters spec) c) \<le> 2147483648"
    "\<forall>n cnt. mget current n = Some cnt \<longrightarrow> cnt < 9223372036854775808"
    "dist_ctxt clusters (TotalReplicas spec) cap"
proof -
  show cap: "cap_ok cap"
    using assms by (auto simp: plan_input_ok_def cap_ok_def dest: map_of_SomeD)
  show "distinct clusters" "0 \<le> TotalReplicas spec" "TotalReplicas spec < 2147483648"
    "\<forall>(k, p) \<in> set (Clusters spec). pref_ok p"
    "(\<Sum>c\<leftarrow>clusters. weight_for (Clusters spec) c) \<le> 2147483648"
    "\<forall>n cnt. mget current n = Some cnt \<longrightarrow> cnt < 9223372036854775808"
    using assms by (auto simp: plan_input_ok_def dest: map_of_SomeD)
  then show "dist_ctxt clusters (TotalReplicas spec) cap"
    using cap by (simp add: dist_ctxt_def)
qed

text \<open>The sorted preferences of the available clusters.\<close>

definition start_prefs :: "(namedClusterPreferences list \<Rightarrow> namedClusterPreferences list)
    \<Rightarrow> ReplicaSchedulingPreferenceSpec \<Rightarrow> string list \<Rightarrow> string \<Rightarrow> namedClusterPreferences list" where
  "start_prefs srt spec clusters key = srt (selected (Clusters spec) key clusters)"

lemma start_prefs_facts:
  assumes "go_sorter byWeight_Less srt" and "plan_input_ok spec clusters current cap"
  shows "distinct (map clusterName (start_prefs srt spec clusters key))"
    and "set (start_prefs srt spec clusters key)
      = {named key c p |c p. c \<in> set clusters \<and> pref_for (Clusters spec) c = Some p}"
    and "(\<Sum>p\<leftarrow>start_prefs srt spec clusters key. Weight p) \<le> 2147483648"
    and "\<forall>p \<in> set (start_prefs srt spec clusters key). clusterName p \<in> set clusters \<and> pref_ok p"
    and "clusterName ` set (start_prefs srt spec clusters key)
      = {c \<in> set clusters. pref_for (Clusters spec) c \<noteq> None}"
proof -
  note ok = plan_input_okD [OF assms(2)]
  note srt = go_sorter.srt_set [OF assms(1)] go_sorter.srt_distinct_map [OF assms(1)]
  show "distinct (map clusterName (start_prefs srt spec clusters key))"
    using ok(1) by (simp add: start_prefs_def srt selected_names)
  show set: "set (start_prefs srt spec clusters key)
      = {named key c p |c p. c \<in> set clusters \<and> pref_for (Clusters spec) c = Some p}"
    by (simp add: start_prefs_def srt set_selected)
  have "mset (map Weight (start_prefs srt spec clusters key))
      = mset (map Weight (selected (Clusters spec) key clusters))"
    by (simp add: start_prefs_def go_sorter.srt_mset [OF assms(1)])
  then show "(\<Sum>p\<leftarrow>start_prefs srt spec clusters key. Weight p) \<le> 2147483648"
    using ok(6) by (metis sum_mset_sum_list selected_weights)
  show "\<forall>p \<in> set (start_prefs srt spec clusters key). clusterName p \<in> set clusters \<and> pref_ok p"
    using pref_for_ok [OF ok(5)] by (auto simp: set)
  show "clusterName ` set (start_prefs srt spec clusters key)
      = {c \<in> set clusters. pref_for (Clusters spec) c \<noteq> None}"
    by (force simp: set)
qed

text \<open>
  What is known when the distribution starts: it is in its invariant, the clusters of the plan
  are those available, and without running replicas to keep each cluster has its minimum.
\<close>

lemma plan_start_facts:
  assumes srt: "go_sorter byWeight_Less srt" and ok: "plan_input_ok spec clusters current cap"
    and s_def: "s = plan_start srt spec clusters current cap key"
    and ps_def: "ps = start_prefs srt spec clusters key"
  shows "loop_inv clusters (TotalReplicas spec) cap s" "d_prefs s = ps" "d_overflow s = []"
    "d_modified s" "dom (mget (d_plan s)) = set clusters"
    "p \<in> set ps \<Longrightarrow> (\<Sum>q\<leftarrow>ps. MinReplicas q) \<le> TotalReplicas spec \<Longrightarrow>
       capped cap (clusterName p) (MinReplicas p) \<le> mget0 0 (d_plan s) (clusterName p)"
    "p \<in> set ps \<Longrightarrow> MaxReplicas p = Some mx \<Longrightarrow> MinReplicas p \<le> mx \<Longrightarrow>
       mget0 0 (d_plan s) (clusterName p) \<le> mx"
proof -
  note inp = plan_input_okD [OF ok]
  note sp = start_prefs_facts [OF srt ok, of key, folded ps_def]
  define plan0 where "plan0 = snd (plan_select (Clusters spec) key clusters [] [])"
  have sel: "plan_select (Clusters spec) key clusters [] []
      = (selected (Clusters spec) key clusters, plan0)"
    using plan_select_eq(1) [of "Clusters spec" key clusters "[]" "[]"]
    by (cases "plan_select (Clusters spec) key clusters [] []") (simp add: plan0_def)
  have plan0: "mget plan0 n = (if n \<in> set clusters \<and> pref_for (Clusters spec) n = None then Some 0 else None)" for n
    by (simp add: plan0_def plan_select_eq(2))
  then have zero: "mget0 0 plan0 n = 0" for n
    by (simp add: mget0_def)
  have inv0: "phase_inv clusters (TotalReplicas spec) cap (TotalReplicas spec) plan0"
    using inp by (auto simp: phase_inv_def zero psum_def cap_ok_def)
  obtain r1 plan1 where pm: "plan_min cap ps (TotalReplicas spec) plan0 = (r1, plan1)"
    by (cases "plan_min cap ps (TotalReplicas spec) plan0")
  have "\<forall>p \<in> set ps. clusterName p \<in> set clusters \<and> pref_ok p \<and> mget0 0 plan0 (clusterName p) = 0"
    using sp(4) by (simp add: zero)
  note mins = plan_min_facts [OF pm inv0 inp(1,3,4) sp(1) this]
  obtain r2 plan2 pre where pa:
    "(if \<not> Rebalance spec then plan_prealloc current cap ps r1 plan1 [] else (r1, plan1, [])) = (r2, plan2, pre)"
    by (cases "if \<not> Rebalance spec then plan_prealloc current cap ps r1 plan1 [] else (r1, plan1, [])") auto
  have s: "s = \<lparr>d_remaining = r2, d_plan = plan2, d_overflow = [], d_prealloc = pre,
      d_prefs = ps, d_modified = True\<rparr>"
    using pm unfolding s_def plan_start_def sel Let_def prod.case ps_def start_prefs_def
    by (simp only: prod.case pa [unfolded ps_def start_prefs_def])
  have pre: "phase_inv clusters (TotalReplicas spec) cap r2 plan2 \<and>
      (\<forall>n. 0 \<le> mget0 0 pre n \<and> mget0 0 pre n \<le> TotalReplicas spec) \<and>
      (\<forall>n. n \<notin> clusterName ` set ps \<longrightarrow> mget plan2 n = mget plan1 n) \<and>
      (\<forall>n. mget plan1 n \<noteq> None \<longrightarrow> mget plan2 n \<noteq> None \<and> mget0 0 plan1 n \<le> mget0 0 plan2 n) \<and>
      (\<forall>p \<in> set ps. mget0 0 plan2 (clusterName p)
         \<le> mget0 0 plan1 (clusterName p) + keepable current cap plan1 p)"
  proof (cases "Rebalance spec")
    case True
    then show ?thesis
      using pa mins inp(2) by (auto simp: keepable_def split: option.split)
  next
    case False
    then have "plan_prealloc current cap ps r1 plan1 [] = (r2, plan2, pre)"
      using pa by simp
    from plan_prealloc_facts [OF this _ inp(1,3,4) sp(1,4) _ inp(7)] mins inp(2) show ?thesis
      by simp
  qed
  show "d_prefs s = ps" "d_overflow s = []" "d_modified s"
    by (simp_all add: s)
  have le: "mget0 0 plan2 n \<le> TotalReplicas spec" if "n \<in> set clusters" for n
    using phase_inv_le(2,4) [OF conjunct1 [OF pre] that] by linarith
  show "loop_inv clusters (TotalReplicas spec) cap s"
    using pre sp le by (simp add: loop_inv_def dist_inv_def prefs_inv_def s phase_inv_def)
  show "dom (mget (d_plan s)) = set clusters"
  proof -
    have "mget plan2 n \<noteq> None \<longleftrightarrow> n \<in> set clusters" for n
    proof (cases "n \<in> clusterName ` set ps")
      case True
      then have "mget plan1 n \<noteq> None" using mins by auto
      with pre True sp(5) show ?thesis by auto
    next
      case False
      with pre mins have "mget plan2 n = mget plan0 n" by simp
      with False sp(5) show ?thesis by (simp add: plan0)
    qed
    then show ?thesis by (auto simp: s dom_def)
  qed
  have plan12: "mget0 0 plan1 (clusterName p) \<le> mget0 0 plan2 (clusterName p)" if "p \<in> set ps" for p
    using mins pre that by blast
  show "capped cap (clusterName p) (MinReplicas p) \<le> mget0 0 (d_plan s) (clusterName p)"
    if "p \<in> set ps" "(\<Sum>q\<leftarrow>ps. MinReplicas q) \<le> TotalReplicas spec"
    using mins plan12 [OF that(1)] that by (auto simp: s)
  show "mget0 0 (d_plan s) (clusterName p) \<le> mx"
    if "p \<in> set ps" "MaxReplicas p = Some mx" "MinReplicas p \<le> mx"
  proof (cases "0 < keepable current cap plan1 p")
    case True
    with keepable_bounds(2) [OF True that(2)] pre that show ?thesis by (auto simp: s)
  next
    case False
    then have "mget0 0 plan2 (clusterName p) \<le> mget0 0 plan1 (clusterName p)"
      using pre that(1) by force
    moreover have "mget0 0 plan1 (clusterName p) \<le> MinReplicas p"
      using mins that(1) by blast
    ultimately show ?thesis using that by (simp add: s)
  qed
qed

end
