(* ===== verification/Planner_Plan.thy ===== *)
theory Planner_Plan
  imports Planner_Phases
begin

section \<open>The replica planner: what Plan returns\<close>

text \<open>
  The distribution returns (\<open>plan_distribute_terminates\<close>), keeps maximums and minimums, and
  stops with unplaced replicas only when every cluster of positive weight is saturated. The
  theorems on \<open>Plan\<close> hold for every implementation \<open>srt\<close> of \<open>sort.Sort\<close>.
\<close>

subsection \<open>One step, digested\<close>

definition slack :: "string list \<Rightarrow> dist_state \<Rightarrow> int" where
  "slack names s = d_remaining s + psum names (d_prealloc s)"

lemma dist_step_digest:
  assumes ctxt: "dist_ctxt names T cap" and inv: "dist_inv names T cap s"
    and prefs: "prefs_inv names (p # ps) s" and ok: "step_ok T ws d (p # ps)"
    and s': "s' = dist_step cap ws d p s" and c: "c = clusterName p"
  shows "n \<noteq> c \<Longrightarrow> mget (d_plan s') n = mget (d_plan s) n"
    and "mget (d_plan s') c \<noteq> None"
    and "MaxReplicas p = Some mx \<Longrightarrow> mget0 0 (d_plan s') c \<le> mx"
    and "(\<And>mx. MaxReplicas p = Some mx \<Longrightarrow> mget0 0 (d_plan s) c \<le> mx) \<Longrightarrow>
           mget0 0 (d_plan s) c \<le> mget0 0 (d_plan s') c"
    and "d_prefs s' = d_prefs s \<and> saturated cap (d_plan s') p
         \<or> d_prefs s' = d_prefs s @ [p] \<and> slack names s' \<le> slack names s
           \<and> (d_modified s' \<and> \<not> d_modified s \<longrightarrow> slack names s' < slack names s)"
    and "\<not> d_modified s' \<Longrightarrow> \<not> d_modified s \<and> d_remaining s \<le> d_remaining s'"
    and "\<not> d_modified s' \<Longrightarrow> 0 < Weight p \<Longrightarrow> 0 < d \<Longrightarrow> d \<le> d_remaining s \<Longrightarrow>
           d_prefs s' = d_prefs s"
proof -
  have ok': "0 \<le> d" "d \<le> T" "0 < ws" "ws \<le> 2147483648" "Weight p \<le> ws"
    using ok by (auto simp: step_ok_def)
  have T: "distinct names" "T < 2147483648" "cap_ok cap"
    using ctxt by (auto simp: dist_ctxt_def)
  have p: "c \<in> set names" "pref_ok p"
    using prefs by (auto simp: prefs_inv_def c)
  obtain e u t full ov start pre where
    st: "start = mget0 0 (d_plan s) (clusterName p)" "pre = mget0 0 (d_prealloc s) (clusterName p)"
    and e: "e = min ((d * Weight p + ws - 1) div ws) (d_remaining s)"
    and u: "u = min e pre" "0 \<le> e" "e \<le> d_remaining s" "0 \<le> u" "0 \<le> start" "0 \<le> pre"
    and cl: "dist_clamp cap p (start + (e - u)) (d_overflow s) = (t, full, ov)"
    and tot: "0 \<le> start + (e - u)" "start + (e - u) \<le> T"
    and step: "dist_step cap ws d p s =
       \<lparr>d_remaining = d_remaining s - (t - start), d_plan = mput (clusterName p) t (d_plan s),
        d_overflow = ov, d_prealloc = mput (clusterName p) (pre - u) (d_prealloc s),
        d_prefs = (if full then d_prefs s else d_prefs s @ [p]),
        d_modified = (d_modified s \<or> 0 < u \<or> start < t)\<rparr>"
    by (rule dist_step_cases [OF ctxt inv prefs ok']) blast
  have lt: "start + (e - u) < 2147483648"
    using tot T by linarith
  have ue: "u \<le> e" by (simp add: u(1))
  note clamp = dist_clamp_facts [OF cl p(2) T(3) tot(1) lt]
  note s'_eq = step [folded s' c]
  have plan_c: "mget0 0 (d_plan s') c = t" "mget (d_plan s') c = Some t"
    by (simp_all add: s'_eq)
  show "mget (d_plan s') n = mget (d_plan s) n" if "n \<noteq> c"
    using that by (simp add: s'_eq)
  show "mget (d_plan s') c \<noteq> None"
    by (simp add: plan_c)
  show "mget0 0 (d_plan s') c \<le> mx" if "MaxReplicas p = Some mx"
    using clamp(3) that by (simp add: plan_c)
  have capc: "start \<le> k" if "mget cap c = Some k" for k
    using inv p(1) that by (simp add: dist_inv_def st c)
  show "mget0 0 (d_plan s) c \<le> mget0 0 (d_plan s') c"
    if "\<And>mx. MaxReplicas p = Some mx \<Longrightarrow> mget0 0 (d_plan s) c \<le> mx"
  proof (cases full)
    case True
    with clamp(6) show ?thesis
      using that capc unfolding plan_c by (auto simp: st c)
  next
    case False
    with clamp(5) ue show ?thesis unfolding plan_c by (simp add: st c)
  qed
  have psum_c: "psum names (d_prealloc s') = psum names (d_prealloc s) - u"
    using T(1) p(1) by (simp add: s'_eq psum_mput st c)
  show "d_prefs s' = d_prefs s \<and> saturated cap (d_plan s') p
     \<or> d_prefs s' = d_prefs s @ [p] \<and> slack names s' \<le> slack names s
       \<and> (d_modified s' \<and> \<not> d_modified s \<longrightarrow> slack names s' < slack names s)"
  proof (cases full)
    case True
    then show ?thesis
      using clamp(6) by (simp add: s'_eq saturated_def c)
  next
    case False
    then have t: "t = start + (e - u)" using clamp(5) by simp
    have "slack names s' = slack names s - e"
      by (simp add: slack_def psum_c) (simp add: s'_eq t)
    then show ?thesis
      using u(2,4) ue False t by (auto simp: s'_eq)
  qed
  show "\<not> d_modified s \<and> d_remaining s \<le> d_remaining s'" if "\<not> d_modified s'"
    using that by (simp add: s'_eq)
  show "d_prefs s' = d_prefs s"
    if "\<not> d_modified s'" "0 < Weight p" "0 < d" "d \<le> d_remaining s"
  proof -
    have "1 \<le> e"
      using share_pos [of d ws "Weight p"] that ok' by (simp add: e)
    moreover have "u \<le> 0" "t \<le> start"
      using that(1) by (auto simp: s'_eq)
    ultimately have full
      using clamp(5) u(4) by linarith
    then show ?thesis by (simp add: s'_eq)
  qed
qed

subsection \<open>The distribution returns\<close>

definition dist_rel :: "string list \<Rightarrow> (dist_state \<times> dist_state) set" where
  "dist_rel names = inv_image (less_than <*lex*> less_than <*lex*> less_than)
     (\<lambda>s. (length (d_prefs s), nat (slack names s), if d_modified s then 1 else 0))"

lemma wf_dist_rel: "wf (dist_rel names)"
  unfolding dist_rel_def by (intro wf_inv_image wf_lex_prod wf_less_than)

lemma slack_nonneg: "loop_inv names T cap s \<Longrightarrow> 0 \<le> slack names s"
  using psum_nonneg [of names "d_prealloc s"]
  by (auto simp: loop_inv_def dist_inv_def slack_def)

lemma dist_round_decreases:
  assumes ctxt: "dist_ctxt names T cap" and inv: "loop_inv names T cap s" and go: "dist_continue s"
  shows "(dist_round cap s, s) \<in> dist_rel names"
proof -
  let ?I = "\<lambda>(ps :: namedClusterPreferences list) t. length (d_prefs t) + length ps < length (d_prefs s)
      \<or> length (d_prefs t) + length ps = length (d_prefs s) \<and> slack names t \<le> slack names s
        \<and> (d_modified t \<longrightarrow> slack names t < slack names s)"
  have "loop_inv names T cap (dist_round cap s) \<and> ?I [] (dist_round cap s)"
  proof (rule dist_round_lift [OF ctxt inv, where I = ?I])
    show "?I (d_prefs s) (s\<lparr>d_prefs := [], d_modified := False\<rparr>)"
      by (simp add: slack_def)
    show "?I [] t" if "?I (d_prefs s) t" for t
      using that by auto
    fix p ps t ws
    assume t: "dist_inv names T cap t" "prefs_inv names (p # ps) t"
      "step_ok T ws (d_remaining s) (p # ps)" and I: "?I (p # ps) t"
    show "?I ps (dist_step cap ws (d_remaining s) p t)"
      using dist_step_digest(5,6) [OF ctxt t refl refl] I by auto
  qed
  with slack_nonneg [OF inv] slack_nonneg [of names T cap "dist_round cap s"] go show ?thesis
    by (auto simp: dist_rel_def dist_continue_def)
qed

lemma plan_distribute_terminates:
  assumes "dist_ctxt names T cap" and "loop_inv names T cap s"
  shows "\<exists>s'. plan_distribute cap s = Some s'"
  unfolding plan_distribute_def
  by (rule wf_rel_while_option_Some [OF wf_dist_rel [of names], where P = "loop_inv names T cap"])
    (use assms dist_round_decreases dist_round_inv in auto)

subsection \<open>Which clusters are saturated when it stops\<close>

text \<open>
  \<open>PS\<close> are all preferences, \<open>ps\<close> those the current round has still to visit, \<open>d\<close> the replicas
  the round distributes.
\<close>

definition sat_inv :: "namedClusterPreferences set \<Rightarrow> string list \<Rightarrow> (string, int) gomap
    \<Rightarrow> namedClusterPreferences list \<Rightarrow> dist_state \<Rightarrow> bool" where
  "sat_inv PS names cap ps s \<longleftrightarrow>
     dom (mget (d_plan s)) = set names \<and> set (d_prefs s @ ps) \<subseteq> PS \<and>
     (\<forall>p \<in> PS. p \<in> set (d_prefs s @ ps) \<or> Weight p = 0 \<or> saturated cap (d_plan s) p)"

definition quiet_inv :: "int \<Rightarrow> dist_state \<Rightarrow> bool" where
  "quiet_inv d s \<longleftrightarrow>
     (\<not> d_modified s \<longrightarrow> d \<le> d_remaining s \<and> (\<forall>p \<in> set (d_prefs s). Weight p = 0))"

lemma saturated_other:
  "mget plan' (clusterName q) = mget plan (clusterName q) \<Longrightarrow> saturated cap plan' q = saturated cap plan q"
  by (simp add: saturated_def mget0_def)

lemma dist_step_sat_inv:
  assumes ctxt: "dist_ctxt names T cap" and inv: "dist_inv names T cap s"
    and prefs: "prefs_inv names (p # ps) s" and ok: "step_ok T ws d (p # ps)"
    and inj: "inj_on clusterName PS" and sat: "sat_inv PS names cap (p # ps) s"
  shows "sat_inv PS names cap ps (dist_step cap ws d p s)"
proof -
  define s' where "s' = dist_step cap ws d p s"
  note dig = dist_step_digest [OF ctxt inv prefs ok s'_def refl]
  have p: "clusterName p \<in> set names" "p \<in> PS"
    using prefs sat by (auto simp: prefs_inv_def sat_inv_def)
  have other: "saturated cap (d_plan s') q = saturated cap (d_plan s) q" if "q \<in> PS" "q \<noteq> p" for q
    using dig(1) [of "clusterName q"] inj_onD [OF inj _ that(1) p(2)] that
    by (intro saturated_other) auto
  have "dom (mget (d_plan s')) = insert (clusterName p) (dom (mget (d_plan s)))"
    using dig(1,2) by (auto simp: dom_def) metis+
  then have dom: "dom (mget (d_plan s')) = set names"
    using sat p by (auto simp: sat_inv_def)
  have "d_prefs s' = d_prefs s \<and> saturated cap (d_plan s') p \<or> d_prefs s' = d_prefs s @ [p]"
    using dig(5) by blast
  moreover from this have "q \<in> set (d_prefs s' @ ps) \<or> Weight q = 0 \<or> saturated cap (d_plan s') q"
    if "q \<in> PS" for q
    using sat other that by (cases "q = p") (auto simp: sat_inv_def)
  ultimately show ?thesis
    unfolding s'_def [symmetric] using sat dom p
    by (auto simp: sat_inv_def)
qed

lemma dist_step_quiet_inv:
  assumes ctxt: "dist_ctxt names T cap" and inv: "dist_inv names T cap s"
    and prefs: "prefs_inv names (p # ps) s" and ok: "step_ok T ws d (p # ps)"
    and "0 < d" and quiet: "quiet_inv d s"
  shows "quiet_inv d (dist_step cap ws d p s)"
proof -
  define s' where "s' = dist_step cap ws d p s"
  note dig = dist_step_digest [OF ctxt inv prefs ok s'_def refl]
  have wt: "0 \<le> Weight p"
    using prefs by (simp add: prefs_inv_def pref_ok_def)
  show ?thesis
    unfolding s'_def [symmetric] quiet_inv_def
  proof (intro impI)
    assume m: "\<not> d_modified s'"
    have rem: "d \<le> d_remaining s" and zero: "\<forall>p \<in> set (d_prefs s). Weight p = 0"
      and le: "d_remaining s \<le> d_remaining s'"
      using dig(6) [OF m] quiet by (auto simp: quiet_inv_def)
    have "d_prefs s' = d_prefs s" if "0 < Weight p"
      using dig(7) [OF m that \<open>0 < d\<close> rem] .
    then show "d \<le> d_remaining s' \<and> (\<forall>p \<in> set (d_prefs s'). Weight p = 0)"
      using dig(5) wt zero rem le by (cases "0 < Weight p") auto
  qed
qed

lemma plan_distribute_saturated:
  assumes ctxt: "dist_ctxt names T cap" and run: "plan_distribute cap s = Some s'"
    and inv: "loop_inv names T cap s" and inj: "inj_on clusterName PS"
    and init: "sat_inv PS names cap [] s" "d_modified s"
  shows "dom (mget (d_plan s')) = set names"
    and "0 < d_remaining s' \<Longrightarrow> p \<in> PS \<Longrightarrow> 0 < Weight p \<Longrightarrow> saturated cap (d_plan s') p"
proof -
  let ?J = "\<lambda>t. sat_inv PS names cap [] t \<and> (\<not> d_modified t \<longrightarrow> (\<forall>p \<in> set (d_prefs t). Weight p = 0))"
  have fin: "loop_inv names T cap s' \<and> ?J s' \<and> \<not> dist_continue s'"
  proof (rule plan_distribute_lift [OF ctxt run inv, where J = ?J])
    show "?J s" using init by simp
    fix t
    assume t: "loop_inv names T cap t" "dist_continue t" "?J t"
    let ?I = "\<lambda>ps u. sat_inv PS names cap ps u \<and> quiet_inv (d_remaining t) u"
    have "loop_inv names T cap (dist_round cap t) \<and> ?I [] (dist_round cap t)"
    proof (rule dist_round_lift [OF ctxt t(1), where I = ?I])
      show "?I (d_prefs t) (t\<lparr>d_prefs := [], d_modified := False\<rparr>)"
        using t(3) by (auto simp: sat_inv_def quiet_inv_def)
      show "?I [] u" if "\<forall>p \<in> set (d_prefs t). Weight p = 0" "?I (d_prefs t) u" for u
        using that by (auto simp: sat_inv_def)
      show "?I ps (dist_step cap ws (d_remaining t) p u)"
        if "dist_inv names T cap u" "prefs_inv names (p # ps) u"
          "step_ok T ws (d_remaining t) (p # ps)" "?I (p # ps) u" for p ps u ws
        using dist_step_sat_inv [OF ctxt that(1-3) inj] dist_step_quiet_inv [OF ctxt that(1-3)]
          that(4) t(2) by (simp add: dist_continue_def)
    qed
    then show "?J (dist_round cap t)"
      by (auto simp: quiet_inv_def)
  qed
  then show "dom (mget (d_plan s')) = set names"
    by (simp add: sat_inv_def)
  show "saturated cap (d_plan s') p" if "0 < d_remaining s'" "p \<in> PS" "0 < Weight p"
    using fin that by (auto simp: sat_inv_def dist_continue_def)
qed

subsection \<open>Bounds kept by the loop\<close>

definition bound_inv :: "namedClusterPreferences set \<Rightarrow> (string, int) gomap
    \<Rightarrow> namedClusterPreferences list \<Rightarrow> dist_state \<Rightarrow> bool" where
  "bound_inv PS low ps s \<longleftrightarrow>
     set (d_prefs s @ ps) \<subseteq> PS \<and>
     (\<forall>p \<in> PS. \<forall>mx. MaxReplicas p = Some mx \<longrightarrow> mget0 0 (d_plan s) (clusterName p) \<le> mx) \<and>
     (\<forall>n. mget0 0 low n \<le> mget0 0 (d_plan s) n)"

lemma dist_step_bound_inv:
  assumes ctxt: "dist_ctxt names T cap" and inv: "dist_inv names T cap s"
    and prefs: "prefs_inv names (p # ps) s" and ok: "step_ok T ws d (p # ps)"
    and inj: "inj_on clusterName PS" and bound: "bound_inv PS low (p # ps) s"
  shows "bound_inv PS low ps (dist_step cap ws d p s)"
proof -
  define s' where "s' = dist_step cap ws d p s"
  note dig = dist_step_digest [OF ctxt inv prefs ok s'_def refl]
  have p: "p \<in> PS" using bound by (auto simp: bound_inv_def)
  have other: "mget0 0 (d_plan s') n = mget0 0 (d_plan s) n" if "n \<noteq> clusterName p" for n
    using dig(1) [OF that] by (simp add: mget0_def)
  have "mget0 0 (d_plan s) (clusterName p) \<le> mget0 0 (d_plan s') (clusterName p)"
    using dig(4) bound p by (simp add: bound_inv_def)
  then have low: "mget0 0 low n \<le> mget0 0 (d_plan s') n" for n
    using bound other [of n] by (cases "n = clusterName p") (auto simp: bound_inv_def intro: order_trans)
  have "mget0 0 (d_plan s') (clusterName q) \<le> mx" if "q \<in> PS" "MaxReplicas q = Some mx" for q mx
  proof (cases "q = p")
    case True
    with dig(3) that show ?thesis by simp
  next
    case False
    then have "clusterName q \<noteq> clusterName p"
      using inj_onD [OF inj _ that(1) p] by blast
    with other bound that show ?thesis by (simp add: bound_inv_def)
  qed
  moreover have "set (d_prefs s' @ ps) \<subseteq> PS"
    using dig(5) bound by (auto simp: bound_inv_def)
  ultimately show ?thesis
    unfolding s'_def [symmetric] using low by (simp add: bound_inv_def)
qed

lemma plan_distribute_bounds:
  assumes ctxt: "dist_ctxt names T cap" and run: "plan_distribute cap s = Some s'"
    and inv: "loop_inv names T cap s" and inj: "inj_on clusterName PS"
    and init: "bound_inv PS (d_plan s) [] s"
  shows "bound_inv PS (d_plan s) [] s'"
proof -
  have "loop_inv names T cap s' \<and> bound_inv PS (d_plan s) [] s' \<and> \<not> dist_continue s'"
  proof (rule plan_distribute_lift [OF ctxt run inv])
    show "bound_inv PS (d_plan s) [] (dist_round cap t)"
      if "loop_inv names T cap t" "bound_inv PS (d_plan s) [] t" for t
    proof -
      have "loop_inv names T cap (dist_round cap t) \<and> bound_inv PS (d_plan s) [] (dist_round cap t)"
      proof (rule dist_round_lift [OF ctxt that(1), where I = "bound_inv PS (d_plan s)"])
        show "bound_inv PS (d_plan s) (d_prefs t) (t\<lparr>d_prefs := [], d_modified := False\<rparr>)"
          using that(2) by (simp add: bound_inv_def)
        show "bound_inv PS (d_plan s) [] u" if "bound_inv PS (d_plan s) (d_prefs t) u" for u
          using that by (simp add: bound_inv_def)
      qed (rule dist_step_bound_inv [OF ctxt _ _ _ inj])
      then show ?thesis by simp
    qed
  qed (use init in auto)
  then show ?thesis by simp
qed

subsection \<open>The overflow\<close>

definition overflow_inv :: "(string, int) gomap \<Rightarrow> dist_state \<Rightarrow> bool" where
  "overflow_inv cap s \<longleftrightarrow> gomap_ok (d_overflow s) \<and>
     (\<forall>n. mget (d_overflow s) n \<noteq> None \<longrightarrow>
        mget cap n = Some (mget0 0 (d_plan s) n) \<and> 0 < mget0 0 (d_overflow s) n)"

lemma dist_clamp_overflow_ok:
  "dist_clamp cap p t0 ov = (t, full, ov') \<Longrightarrow> gomap_ok ov \<Longrightarrow> gomap_ok ov'"
  by (auto simp: dist_clamp_def Let_def split: option.splits if_splits prod.splits)

lemma dist_step_overflow_inv:
  assumes ctxt: "dist_ctxt names T cap" and inv: "dist_inv names T cap s"
    and prefs: "prefs_inv names (p # ps) s" and ok: "step_ok T ws d (p # ps)"
    and ov: "overflow_inv cap s"
  shows "overflow_inv cap (dist_step cap ws d p s)"
proof -
  have ok': "0 \<le> d" "d \<le> T" "0 < ws" "ws \<le> 2147483648" "Weight p \<le> ws"
    using ok by (auto simp: step_ok_def)
  have T: "T < 2147483648" "cap_ok cap"
    using ctxt by (auto simp: dist_ctxt_def)
  have p: "pref_ok p" "mget (d_overflow s) (clusterName p) = None"
    using prefs by (auto simp: prefs_inv_def)
  obtain e u t full ov1 start pre where
    cl: "dist_clamp cap p (start + (e - u)) (d_overflow s) = (t, full, ov1)"
    and tot: "0 \<le> start + (e - u)" "start + (e - u) \<le> T"
    and step: "dist_step cap ws d p s =
       \<lparr>d_remaining = d_remaining s - (t - start), d_plan = mput (clusterName p) t (d_plan s),
        d_overflow = ov1, d_prealloc = mput (clusterName p) (pre - u) (d_prealloc s),
        d_prefs = (if full then d_prefs s else d_prefs s @ [p]),
        d_modified = (d_modified s \<or> 0 < u \<or> start < t)\<rparr>"
    by (rule dist_step_cases [OF ctxt inv prefs ok']) blast
  have lt: "start + (e - u) < 2147483648"
    using tot T by linarith
  note clamp = dist_clamp_facts(8,10) [OF cl p(1) T(2) tot(1) lt]
  have "mget cap n = Some (mget0 0 (mput (clusterName p) t (d_plan s)) n) \<and> 0 < mget0 0 ov1 n"
    if "mget ov1 n \<noteq> None" for n
  proof (cases "n = clusterName p")
    case True
    with clamp(2) [OF p(2)] that show ?thesis by simp
  next
    case False
    with clamp(1) [OF False] that ov show ?thesis by (auto simp: overflow_inv_def mget0_def)
  qed
  with dist_clamp_overflow_ok [OF cl] ov show ?thesis
    by (simp add: overflow_inv_def step)
qed

lemma plan_distribute_overflow:
  assumes ctxt: "dist_ctxt names T cap" and run: "plan_distribute cap s = Some s'"
    and inv: "loop_inv names T cap s" and init: "overflow_inv cap s"
  shows "overflow_inv cap s'"
proof -
  have "loop_inv names T cap s' \<and> overflow_inv cap s' \<and> \<not> dist_continue s'"
  proof (rule plan_distribute_lift [OF ctxt run inv, where J = "overflow_inv cap"])
    show "overflow_inv cap s" by (rule init)
    show "overflow_inv cap (dist_round cap t)"
      if "loop_inv names T cap t" "overflow_inv cap t" for t
    proof -
      have "loop_inv names T cap (dist_round cap t) \<and> overflow_inv cap (dist_round cap t)"
      proof (rule dist_round_lift [OF ctxt that(1), where I = "\<lambda>_. overflow_inv cap"])
        show "overflow_inv cap (t\<lparr>d_prefs := [], d_modified := False\<rparr>)"
          using that(2) by (simp add: overflow_inv_def)
      qed (assumption | rule dist_step_overflow_inv [OF ctxt])+
      then show ?thesis by simp
    qed
  qed
  then show ?thesis by simp
qed

subsection \<open>The result of Plan\<close>

text \<open>The final state of a run, with what holds of it.\<close>

lemma Plan_run:
  assumes srt: "go_sorter byWeight_Less srt" and ok: "plan_input_ok spec clusters current cap"
    and plan: "Plan srt spec clusters current cap key = Some (pl, ov)"
  obtains s s' where "s = plan_start srt spec clusters current cap key"
    "plan_distribute cap s = Some s'" "pl = d_plan s'"
    "ov = (if Rebalance spec then d_overflow s' else trim_overflow (d_remaining s') (d_overflow s'))"
    "loop_inv clusters (TotalReplicas spec) cap s" "loop_inv clusters (TotalReplicas spec) cap s'"
    "dom (mget pl) = set clusters"
    "\<And>c p. 0 < d_remaining s' \<Longrightarrow> c \<in> set clusters \<Longrightarrow> pref_for (Clusters spec) c = Some p \<Longrightarrow>
       0 < Weight p \<Longrightarrow> MaxReplicas p = Some (mget0 0 pl c) \<or> mget cap c = Some (mget0 0 pl c)"
proof -
  define s where "s = plan_start srt spec clusters current cap key"
  define ps where "ps = start_prefs srt spec clusters key"
  note inp = plan_input_okD [OF ok]
  note start = plan_start_facts [OF srt ok s_def ps_def]
  note sp = start_prefs_facts [OF srt ok, of key, folded ps_def]
  obtain s' where s': "plan_distribute cap s = Some s'" "pl = d_plan s'"
    "ov = (if Rebalance spec then d_overflow s' else trim_overflow (d_remaining s') (d_overflow s'))"
    using plan by (auto simp: Plan_def s_def)
  have inj: "inj_on clusterName (set ps)"
    using sp(1) by (simp add: distinct_map)
  have "sat_inv (set ps) clusters cap [] s"
    using start by (simp add: sat_inv_def)
  note sat = plan_distribute_saturated [OF inp(8) s'(1) start(1) inj this start(4)]
  have inv': "loop_inv clusters (TotalReplicas spec) cap s'"
    using plan_distribute_lift [OF inp(8) s'(1) start(1), where J = "\<lambda>_. True"] by simp
  have final: "MaxReplicas p = Some (mget0 0 pl c) \<or> mget cap c = Some (mget0 0 pl c)"
    if "0 < d_remaining s'" "c \<in> set clusters" "pref_for (Clusters spec) c = Some p" "0 < Weight p" for c p
  proof -
    have "named key c p \<in> set ps"
      using that by (auto simp: sp(2))
    from sat(2) [OF that(1) this] that(4) show ?thesis
      by (simp add: saturated_def s'(2))
  qed
  have "dom (mget pl) = set clusters"
    using sat(1) by (simp only: s'(2))
  from that [OF s_def s' start(1) inv' this final] show thesis .
qed

lemma Plan_returns_ex:
  assumes srt: "go_sorter byWeight_Less srt" and ok: "plan_input_ok spec clusters current cap"
  shows "\<exists>pl ov. Plan srt spec clusters current cap key = Some (pl, ov)"
proof -
  note inp = plan_input_okD [OF ok]
  note start = plan_start_facts(1) [OF srt ok refl refl]
  from plan_distribute_terminates [OF inp(8) start] obtain s' where
    "plan_distribute cap (plan_start srt spec clusters current cap key) = Some s'" by blast
  then show ?thesis by (simp add: Plan_def)
qed

lemma mget_trim_overflow:
  assumes "gomap_ok ov"
  shows "mget (trim_overflow r ov) n =
    (case mget ov n of None \<Rightarrow> None | Some v \<Rightarrow> if 0 < min v r then Some (min v r) else None)"
  using assms
proof (induction ov)
  case (Cons kv ov)
  obtain k v where kv: "kv = (k, v)" by (cases kv)
  have "mget ov k = None" and "gomap_ok ov"
    using Cons.prems by (auto simp: gomap_ok_def kv map_of_eq_None_iff)
  then show ?case
    using Cons.IH by (auto simp: kv trim_overflow_def)
qed (simp add: trim_overflow_def)

lemma Plan_overflow_facts:
  assumes srt: "go_sorter byWeight_Less srt" and ok: "plan_input_ok spec clusters current cap"
    and plan: "Plan srt spec clusters current cap key = Some (pl, ov)" and ov: "mget ov n = Some v"
  shows "0 < v" and "mget cap n = Some (mget0 0 pl n)"
    and "n \<in> set clusters \<Longrightarrow> mget0 0 pl n + v \<le> TotalReplicas spec"
    and "\<not> Rebalance spec \<Longrightarrow> psum clusters pl + v \<le> TotalReplicas spec"
proof -
  note inp = plan_input_okD [OF ok]
  obtain s s' where s: "s = plan_start srt spec clusters current cap key"
    and run: "plan_distribute cap s = Some s'" and pl: "pl = d_plan s'"
    and ov_eq: "ov = (if Rebalance spec then d_overflow s' else trim_overflow (d_remaining s') (d_overflow s'))"
    and inv: "loop_inv clusters (TotalReplicas spec) cap s"
    and inv': "loop_inv clusters (TotalReplicas spec) cap s'"
    by (rule Plan_run [OF srt ok plan]) blast
  have "overflow_inv cap s"
    using plan_start_facts(3) [OF srt ok s refl] by (simp add: overflow_inv_def)
  from plan_distribute_overflow [OF inp(8) run inv this] have oi: "overflow_inv cap s'" .
  then have trim: "mget (trim_overflow (d_remaining s') (d_overflow s')) n =
      (case mget (d_overflow s') n of None \<Rightarrow> None
       | Some v \<Rightarrow> if 0 < min v (d_remaining s') then Some (min v (d_remaining s')) else None)"
    by (intro mget_trim_overflow) (simp add: overflow_inv_def)
  have pos: "0 < w" if "mget (d_overflow s') n = Some w" for w
    using oi that unfolding overflow_inv_def mget0_def by (metis option.distinct(1) option.simps(5))
  have "\<exists>w. mget (d_overflow s') n = Some w \<and> v \<le> w \<and> 0 < v \<and> (\<not> Rebalance spec \<longrightarrow> v \<le> d_remaining s')"
    using ov trim pos by (cases "Rebalance spec") (auto simp: ov_eq split: option.splits if_splits)
  then obtain w where w: "mget (d_overflow s') n = Some w" "v \<le> w" "0 < v"
    "\<not> Rebalance spec \<Longrightarrow> v \<le> d_remaining s'" by blast
  show "0 < v" by (fact w)
  show "mget cap n = Some (mget0 0 pl n)"
    using oi w by (auto simp: overflow_inv_def pl)
  show "mget0 0 pl n + v \<le> TotalReplicas spec" if "n \<in> set clusters"
    using inv' that w by (force simp: loop_inv_def dist_inv_def pl mget0_def)
  show "psum clusters pl + v \<le> TotalReplicas spec" if "\<not> Rebalance spec"
    using inv' w(4) [OF that] by (auto simp: loop_inv_def dist_inv_def pl)
qed

end
