(* ===== verification/Planner_Claims.thy ===== *)
theory Planner_Claims
  imports Planner_Plan
begin

section \<open>The replica planner: its contract\<close>

text \<open>
  The properties of \<open>Plan\<close>, each for every implementation of \<open>sort.Sort\<close> and every input that
  meets \<open>plan_input_ok\<close>, with a run on a concrete specification as its witness.
\<close>

subsection \<open>Lemmas for the contract\<close>

definition min_max_ok :: "ReplicaSchedulingPreferenceSpec \<Rightarrow> bool" where
  "min_max_ok spec \<longleftrightarrow> (\<forall>(k, p) \<in> set (Clusters spec).
     case MaxReplicas p of None \<Rightarrow> True | Some mx \<Rightarrow> MinReplicas p \<le> mx)"

definition min_for :: "(string, ClusterPreferences) gomap \<Rightarrow> string \<Rightarrow> int" where
  "min_for prefs c = (case pref_for prefs c of None \<Rightarrow> 0 | Some p \<Rightarrow> MinReplicas p)"

definition running_for :: "(string, ClusterPreferences) gomap \<Rightarrow> (string, int) gomap \<Rightarrow> string \<Rightarrow> int" where
  "running_for prefs current c = (case pref_for prefs c of None \<Rightarrow> 0 | Some p \<Rightarrow> mget0 0 current c)"

lemma pref_for_min_max:
  "min_max_ok spec \<Longrightarrow> pref_for (Clusters spec) c = Some p \<Longrightarrow> MaxReplicas p = Some mx \<Longrightarrow>
    MinReplicas p \<le> mx"
  by (force simp: pref_for_def min_max_ok_def split: option.splits dest: map_of_SomeD)

lemma selected_sum:
  fixes F :: "namedClusterPreferences \<Rightarrow> int"
  shows "(\<Sum>p\<leftarrow>selected prefs key cs. F p)
    = (\<Sum>c\<leftarrow>cs. case pref_for prefs c of None \<Rightarrow> 0 | Some p \<Rightarrow> F (named key c p))"
  by (induction cs) (auto simp: selected_def split: option.splits)

lemma start_prefs_sum:
  fixes F :: "namedClusterPreferences \<Rightarrow> int"
  assumes "go_sorter byWeight_Less srt"
  shows "(\<Sum>p\<leftarrow>start_prefs srt spec clusters key. F p)
    = (\<Sum>c\<leftarrow>clusters. case pref_for (Clusters spec) c of None \<Rightarrow> 0 | Some p \<Rightarrow> F (named key c p))"
proof -
  have "mset (map F (start_prefs srt spec clusters key)) = mset (map F (selected (Clusters spec) key clusters))"
    by (simp add: start_prefs_def go_sorter.srt_mset [OF assms])
  then show ?thesis
    by (metis selected_sum sum_mset_sum_list)
qed

text \<open>With \<open>MinReplicas \<le> MaxReplicas\<close> the distribution only adds replicas.\<close>

lemma Plan_bounds:
  assumes srt: "go_sorter byWeight_Less srt" and ok: "plan_input_ok spec clusters current cap"
    and mm: "min_max_ok spec" and plan: "Plan srt spec clusters current cap key = Some (pl, ov)"
  shows "mget0 0 (d_plan (plan_start srt spec clusters current cap key)) n \<le> mget0 0 pl n"
    and "c \<in> set clusters \<Longrightarrow> pref_for (Clusters spec) c = Some p \<Longrightarrow> MaxReplicas p = Some mx \<Longrightarrow>
      mget0 0 pl c \<le> mx"
proof -
  note inp = plan_input_okD [OF ok]
  obtain s s' where s: "s = plan_start srt spec clusters current cap key"
    and run: "plan_distribute cap s = Some s'" and pl: "pl = d_plan s'"
    and inv: "loop_inv clusters (TotalReplicas spec) cap s"
    by (rule Plan_run [OF srt ok plan]) blast
  define ps where "ps = start_prefs srt spec clusters key"
  note start = plan_start_facts [OF srt ok s ps_def]
  note sp = start_prefs_facts [OF srt ok, of key, folded ps_def]
  have inj: "inj_on clusterName (set ps)"
    using sp(1) by (simp add: distinct_map)
  have "mget0 0 (d_plan s) (clusterName q) \<le> mx" if "q \<in> set ps" "MaxReplicas q = Some mx" for q mx
    using start(7) [OF that] that pref_for_min_max [OF mm] by (auto simp: sp(2))
  then have "bound_inv (set ps) (d_plan s) [] s"
    using start(2) by (simp add: bound_inv_def)
  note fin = plan_distribute_bounds [OF inp(8) run inv inj this]
  then show "mget0 0 (d_plan (plan_start srt spec clusters current cap key)) n \<le> mget0 0 pl n"
    by (simp add: bound_inv_def pl s)
  show "mget0 0 pl c \<le> mx"
    if "c \<in> set clusters" "pref_for (Clusters spec) c = Some p" "MaxReplicas p = Some mx"
  proof -
    have "named key c p \<in> set ps" using that by (auto simp: sp(2))
    with fin that show ?thesis by (fastforce simp: bound_inv_def pl)
  qed
qed

lemma plan_start_keeps:
  assumes srt: "go_sorter byWeight_Less srt" and ok: "plan_input_ok spec clusters current cap"
    and rb: "\<not> Rebalance spec"
    and fits: "(\<Sum>c\<leftarrow>clusters. max (min_for (Clusters spec) c) (running_for (Clusters spec) current c))
      \<le> TotalReplicas spec"
    and c: "c \<in> set clusters" "pref_for (Clusters spec) c = Some p" "mget current c = Some cnt"
      "\<And>mx. MaxReplicas p = Some mx \<Longrightarrow> cnt \<le> mx" "\<And>k. mget cap c = Some k \<Longrightarrow> cnt \<le> k"
  shows "cnt \<le> mget0 0 (d_plan (plan_start srt spec clusters current cap key)) c"
proof -
  define ps where "ps = start_prefs srt spec clusters key"
  note inp = plan_input_okD [OF ok]
  note sp = start_prefs_facts [OF srt ok, of key, folded ps_def]
  define plan0 where "plan0 = snd (plan_select (Clusters spec) key clusters [] [])"
  have sel: "plan_select (Clusters spec) key clusters [] []
      = (selected (Clusters spec) key clusters, plan0)"
    using plan_select_eq(1) [of "Clusters spec" key clusters "[]" "[]"]
    by (cases "plan_select (Clusters spec) key clusters [] []") (simp add: plan0_def)
  have zero: "mget0 0 plan0 n = 0" for n
    by (simp add: plan0_def mget0_def plan_select_eq(2))
  have inv0: "phase_inv clusters (TotalReplicas spec) cap (TotalReplicas spec) plan0"
    using inp by (auto simp: phase_inv_def zero psum_def cap_ok_def)
  obtain r1 plan1 where pm: "plan_min cap ps (TotalReplicas spec) plan0 = (r1, plan1)"
    by (cases "plan_min cap ps (TotalReplicas spec) plan0")
  have "\<forall>p \<in> set ps. clusterName p \<in> set clusters \<and> pref_ok p \<and> mget0 0 plan0 (clusterName p) = 0"
    using sp(4) by (simp add: zero)
  note mins = plan_min_facts [OF pm inv0 inp(1,3,4) sp(1) this]
  obtain r2 plan2 pre where pa: "plan_prealloc current cap ps r1 plan1 [] = (r2, plan2, pre)"
    by (cases "plan_prealloc current cap ps r1 plan1 []") auto
  have start: "d_plan (plan_start srt spec clusters current cap key) = plan2"
    using pm pa rb by (simp add: plan_start_def sel ps_def start_prefs_def)
  have pre: "(\<Sum>p\<leftarrow>ps. keepable current cap plan1 p) \<le> r1 \<longrightarrow>
      (\<forall>p \<in> set ps. mget0 0 plan2 (clusterName p)
        = mget0 0 plan1 (clusterName p) + keepable current cap plan1 p)"
    using plan_prealloc_facts [OF pa _ inp(1,3,4) sp(1,4) _ inp(7)] mins inp(2) by simp
  have le: "mget0 0 plan1 n + (case pref_for (Clusters spec) n of None \<Rightarrow> 0
        | Some q \<Rightarrow> keepable current cap plan1 (named key n q))
      \<le> max (min_for (Clusters spec) n) (running_for (Clusters spec) current n)"
    if "n \<in> set clusters" for n
  proof (cases "pref_for (Clusters spec) n")
    case None
    then have "n \<notin> clusterName ` set ps" by (simp add: sp(5))
    with mins None zero show ?thesis by (simp add: mget0_def min_for_def running_for_def)
  next
    case (Some q)
    have q: "named key n q \<in> set ps" using Some that by (auto simp: sp(2))
    with mins have "mget0 0 plan1 n \<le> MinReplicas q" by fastforce
    then show ?thesis
      by (auto simp: Some keepable_def min_for_def running_for_def capped_def mget0_def
          split: option.split)
  qed
  have "r1 + psum clusters plan1 = TotalReplicas spec"
    using mins by (simp add: phase_inv_def)
  moreover have "psum clusters plan1 + (\<Sum>p\<leftarrow>ps. keepable current cap plan1 p)
      \<le> (\<Sum>c\<leftarrow>clusters. max (min_for (Clusters spec) c) (running_for (Clusters spec) current c))"
    unfolding psum_def ps_def start_prefs_sum [OF srt] sum_list_addf [symmetric]
    by (intro sum_list_mono) (use le in simp)
  ultimately have "(\<Sum>p\<leftarrow>ps. keepable current cap plan1 p) \<le> r1"
    using fits by linarith
  moreover have "named key c p \<in> set ps"
    using c by (auto simp: sp(2))
  ultimately have "mget0 0 plan2 c = mget0 0 plan1 c + keepable current cap plan1 (named key c p)"
    using pre by fastforce
  moreover have "(case MaxReplicas p of None \<Rightarrow> cnt | Some mx \<Rightarrow> min mx cnt) = cnt"
    using c(4) by (auto split: option.split)
  moreover have "capped cap c cnt = cnt"
    using c(5) by (auto simp: capped_def split: option.split)
  ultimately show ?thesis
    using c(3) by (simp add: start keepable_def)
qed

subsection \<open>A concrete run\<close>

text \<open>Three clusters, two of them at their capacity, and running replicas that must stay.\<close>

definition demo_spec :: ReplicaSchedulingPreferenceSpec where
  "demo_spec = \<lparr>TargetKind = ''FederatedDeployment'', TotalReplicas = 20, Rebalance = False,
     Clusters = [(''A'', \<lparr>MinReplicas = 2, MaxReplicas = Some 8, Weight = 1\<rparr>),
                 (''*'', \<lparr>MinReplicas = 1, MaxReplicas = None, Weight = 2\<rparr>)]\<rparr>"

abbreviation demo_clusters :: "string list" where
  "demo_clusters \<equiv> [''A'', ''B'', ''C'']"

abbreviation demo_current :: "(string, int) gomap" where
  "demo_current \<equiv> [(''A'', 5)]"

abbreviation demo_cap :: "(string, int) gomap" where
  "demo_cap \<equiv> [(''B'', 4), (''C'', 3)]"

definition demo_plan :: "((string, int) gomap \<times> (string, int) gomap) option" where
  "demo_plan = Plan (go_sort byWeight_Less) demo_spec demo_clusters demo_current demo_cap ''ns/name''"

lemma demo_input_ok: "plan_input_ok demo_spec demo_clusters demo_current demo_cap"
  by code_simp

lemma demo_plan_eq:
  "Plan (go_sort byWeight_Less) demo_spec demo_clusters demo_current demo_cap ''ns/name''
    = Some ([(''B'', 4), (''C'', 3), (''A'', 8)], [(''B'', 3), (''C'', 4)])"
  by code_simp

lemma demo_min_max_ok: "min_max_ok demo_spec"
  by code_simp

lemmas demo_facts = byWeight_go_sort demo_input_ok

subsection \<open>Properties\<close>

text \<open>
  C12. \<open>Plan\<close> returns: the loop "for modified \&\& remainingReplicas > 0" ends on every input
  with non-negative quantities whose weights sum to at most \<open>2^31\<close>, whatever permutation
  \<open>sort.Sort\<close> picks among equal clusters.
\<close>

theorem Plan_returns:
  assumes "go_sorter byWeight_Less srt" and "plan_input_ok spec clusters current cap"
  shows "\<exists>pl ov. Plan srt spec clusters current cap key = Some (pl, ov)"
  by (rule Plan_returns_ex [OF assms])

theorem Plan_returns_witness:
  "\<exists>pl ov. Plan (go_sort byWeight_Less) demo_spec demo_clusters demo_current demo_cap ''k'' = Some (pl, ov)"
  by (rule Plan_returns [OF demo_facts])

text \<open>
  C1. The plan has exactly the available clusters as keys, never a negative number of replicas,
  never more in all than \<open>TotalReplicas\<close>, and never more in a cluster than its estimated
  capacity.
\<close>

theorem Plan_conserves_replicas:
  assumes "go_sorter byWeight_Less srt" and "plan_input_ok spec clusters current cap"
    and "Plan srt spec clusters current cap key = Some (pl, ov)"
  shows "set (mkeys pl) = set clusters \<and> (\<Sum>c\<leftarrow>clusters. mget0 0 pl c) \<le> TotalReplicas spec
    \<and> (\<forall>c \<in> set clusters. 0 \<le> mget0 0 pl c \<and> (\<forall>k. mget cap c = Some k \<longrightarrow> mget0 0 pl c \<le> k))"
proof -
  obtain s s' where "pl = d_plan s'" "loop_inv clusters (TotalReplicas spec) cap s'"
    "dom (mget pl) = set clusters"
    by (rule Plan_run [OF assms]) blast
  then show ?thesis
    unfolding set_mkeys_dom by (auto simp: loop_inv_def dist_inv_def psum_def)
qed

theorem Plan_conserves_replicas_witness:
  "set (mkeys [(''B'', 4::int), (''C'', 3), (''A'', 8)]) = set demo_clusters
    \<and> (\<Sum>c\<leftarrow>demo_clusters. mget0 0 [(''B'', 4), (''C'', 3), (''A'', 8)] c) \<le> TotalReplicas demo_spec"
  using Plan_conserves_replicas [OF demo_facts demo_plan_eq] by blast

text \<open>
  C14. \<open>Plan\<close> is maximal: when it places fewer replicas than \<open>TotalReplicas\<close>, every cluster with
  a positive weight is at its maximum or at its estimated capacity.
\<close>

theorem Plan_saturates:
  assumes "go_sorter byWeight_Less srt" and "plan_input_ok spec clusters current cap"
    and "Plan srt spec clusters current cap key = Some (pl, ov)"
    and "(\<Sum>c\<leftarrow>clusters. mget0 0 pl c) < TotalReplicas spec"
    and "c \<in> set clusters" "pref_for (Clusters spec) c = Some p" "0 < Weight p"
  shows "MaxReplicas p = Some (mget0 0 pl c) \<or> mget cap c = Some (mget0 0 pl c)"
proof -
  obtain s s' where s': "pl = d_plan s'" "loop_inv clusters (TotalReplicas spec) cap s'"
    and sat: "\<And>c p. 0 < d_remaining s' \<Longrightarrow> c \<in> set clusters \<Longrightarrow> pref_for (Clusters spec) c = Some p \<Longrightarrow>
       0 < Weight p \<Longrightarrow> MaxReplicas p = Some (mget0 0 pl c) \<or> mget cap c = Some (mget0 0 pl c)"
    by (rule Plan_run [OF assms(1-3)]) blast
  have "0 < d_remaining s'"
    using s' assms(4) by (simp add: loop_inv_def dist_inv_def psum_def)
  from sat [OF this assms(5-7)] show ?thesis .
qed

theorem Plan_saturates_witness:
  "MaxReplicas \<lparr>MinReplicas = 2, MaxReplicas = Some 8, Weight = 1\<rparr> = Some (8::int)"
  using Plan_saturates [OF demo_facts demo_plan_eq, of "''A''" "\<lparr>MinReplicas = 2, MaxReplicas = Some 8, Weight = 1\<rparr>"]
  by (simp add: demo_spec_def pref_for_def mget0_def)

text \<open>
  C13. Maximums and minimums: when no cluster's minimum exceeds its maximum, no cluster gets more
  than its \<open>MaxReplicas\<close>, and when all minimums together fit in \<open>TotalReplicas\<close> each cluster
  gets its \<open>MinReplicas\<close> (or its capacity, where that is smaller).
\<close>

theorem Plan_min_max:
  assumes "go_sorter byWeight_Less srt" and "plan_input_ok spec clusters current cap"
    and "Plan srt spec clusters current cap key = Some (pl, ov)" and "min_max_ok spec"
    and "c \<in> set clusters" "pref_for (Clusters spec) c = Some p"
  shows "(\<forall>mx. MaxReplicas p = Some mx \<longrightarrow> mget0 0 pl c \<le> mx) \<and>
    ((\<Sum>c\<leftarrow>clusters. min_for (Clusters spec) c) \<le> TotalReplicas spec \<longrightarrow>
       (case mget cap c of Some k \<Rightarrow> min (MinReplicas p) k | None \<Rightarrow> MinReplicas p) \<le> mget0 0 pl c)"
proof (intro conjI allI impI)
  show "mget0 0 pl c \<le> mx" if "MaxReplicas p = Some mx" for mx
    using Plan_bounds(2) [OF assms(1,2,4,3,5,6) that] .
  assume fits: "(\<Sum>c\<leftarrow>clusters. min_for (Clusters spec) c) \<le> TotalReplicas spec"
  have "named key c p \<in> set (start_prefs srt spec clusters key)"
    using assms(5,6) by (auto simp: start_prefs_facts(2) [OF assms(1,2)])
  moreover have "(\<Sum>q\<leftarrow>start_prefs srt spec clusters key. MinReplicas q) \<le> TotalReplicas spec"
    using fits by (simp add: start_prefs_sum [OF assms(1)] min_for_def cong: option.case_cong)
  ultimately have "capped cap c (MinReplicas p)
      \<le> mget0 0 (d_plan (plan_start srt spec clusters current cap key)) c"
    using plan_start_facts(6) [OF assms(1,2) refl refl] by fastforce
  also have "\<dots> \<le> mget0 0 pl c"
    by (rule Plan_bounds(1) [OF assms(1,2,4,3)])
  finally show "(case mget cap c of Some k \<Rightarrow> min (MinReplicas p) k | None \<Rightarrow> MinReplicas p) \<le> mget0 0 pl c"
    by (simp add: capped_def)
qed

theorem Plan_min_max_witness:
  "mget0 0 [(''B'', 4), (''C'', 3), (''A'', 8)] ''A'' \<le> (8::int) \<and> 2 \<le> mget0 0 [(''B'', 4), (''C'', 3), (''A'', 8::int)] ''A''"
  using Plan_min_max [OF demo_facts demo_plan_eq demo_min_max_ok, of "''A''"
      "\<lparr>MinReplicas = 2, MaxReplicas = Some 8, Weight = 1\<rparr>"]
  by (simp add: demo_spec_def pref_for_def min_for_def)

text \<open>
  C26. With \<open>Rebalance\<close> off, no running replica is moved: when the minimums and the running
  replicas of all clusters fit in \<open>TotalReplicas\<close>, a cluster whose running replicas are within
  its maximum and its capacity is planned at least as many as it runs.
\<close>

theorem Plan_keeps_running_replicas:
  assumes "go_sorter byWeight_Less srt" and "plan_input_ok spec clusters current cap"
    and "Plan srt spec clusters current cap key = Some (pl, ov)" and "min_max_ok spec"
    and "\<not> Rebalance spec"
    and "(\<Sum>c\<leftarrow>clusters. max (min_for (Clusters spec) c) (running_for (Clusters spec) current c))
      \<le> TotalReplicas spec"
    and "c \<in> set clusters" "pref_for (Clusters spec) c = Some p" "mget current c = Some cnt"
    and "\<And>mx. MaxReplicas p = Some mx \<Longrightarrow> cnt \<le> mx" "\<And>k. mget cap c = Some k \<Longrightarrow> cnt \<le> k"
  shows "cnt \<le> mget0 0 pl c"
  using plan_start_keeps [OF assms(1,2,5-11)] Plan_bounds(1) [OF assms(1,2,4,3)]
  by (rule order_trans)

theorem Plan_keeps_running_replicas_witness:
  "5 \<le> mget0 0 [(''B'', 4), (''C'', 3), (''A'', 8::int)] ''A''"
  by (rule Plan_keeps_running_replicas [OF demo_facts demo_plan_eq demo_min_max_ok, where p =
      "\<lparr>MinReplicas = 2, MaxReplicas = Some 8, Weight = 1\<rparr>"])
    (simp_all add: demo_spec_def pref_for_def min_for_def running_for_def mget0_def)

text \<open>
  C27. The overflow: it names only clusters whose plan is at their estimated capacity, always
  with a positive number; a cluster's planned and overflowing replicas together stay within
  \<open>TotalReplicas\<close> (so they still fit an \<open>int32\<close>), and with \<open>Rebalance\<close> off the overflow of a
  cluster is at most what the plan leaves unplaced.
\<close>

theorem Plan_overflow:
  assumes "go_sorter byWeight_Less srt" and "plan_input_ok spec clusters current cap"
    and "Plan srt spec clusters current cap key = Some (pl, ov)" and "mget ov c = Some v"
  shows "0 < v \<and> mget cap c = Some (mget0 0 pl c) \<and>
    (c \<in> set clusters \<longrightarrow> mget0 0 pl c + v \<le> TotalReplicas spec) \<and>
    (\<not> Rebalance spec \<longrightarrow> v \<le> TotalReplicas spec - (\<Sum>c\<leftarrow>clusters. mget0 0 pl c))"
  using Plan_overflow_facts [OF assms] by (auto simp: psum_def)

theorem Plan_overflow_witness:
  "(3::int) \<le> TotalReplicas demo_spec
    - (\<Sum>c\<leftarrow>demo_clusters. mget0 0 [(''B'', 4), (''C'', 3), (''A'', 8)] c)"
  using Plan_overflow [OF demo_facts demo_plan_eq, of "''B''"] by (simp add: demo_spec_def)

text \<open>
  The bound on the weights is needed: \<open>Weight\<close> is an unchecked \<open>int64\<close> and the share is
  computed from "distributeInTheLoop * preference.Weight", which wraps around. Two unbounded
  clusters of weights \<open>4 * 10^18\<close> and \<open>10^18\<close> get none of seven replicas, with no overflow.
\<close>

lemma Plan_weight_overflow:
  "Plan (go_sort byWeight_Less)
     \<lparr>TargetKind = ''FederatedDeployment'', TotalReplicas = 7, Rebalance = True,
      Clusters = [(''heavy'', \<lparr>MinReplicas = 0, MaxReplicas = None, Weight = 4000000000000000000\<rparr>),
                  (''light'', \<lparr>MinReplicas = 0, MaxReplicas = None, Weight = 1000000000000000000\<rparr>)]\<rparr>
     [''heavy'', ''light''] [] [] ''ns/name''
   = Some ([(''heavy'', 0), (''light'', 0)], [])"
  by code_simp

end
