(* ===== verification/Util_Strings.thy ===== *)
theory Util_Strings
  imports Fed_Prelude
begin

section \<open>Strings and string sets\<close>

text \<open>
  The functions of Go's \<open>strings\<close> and \<open>strconv\<close> the source calls, on byte strings, and
  \<open>sets.String\<close> (\<open>vendor/k8s.io/apimachinery/pkg/util/sets/string.go\<close>). A set is the list
  of its elements without duplicates, in the order in which one \<open>range\<close> over the Go map visits
  them; \<open>sset_list\<close> is \<open>List()\<close>, which sorts. The locale \<open>string_set\<close> states what clients
  rely on, and the operations here are its interpretation.
\<close>

subsection \<open>Strings\<close>

definition char_lower :: "char \<Rightarrow> char" where
  "char_lower c = (let n = of_char c :: nat in if 65 \<le> n \<and> n \<le> 90 then char_of (n + 32) else c)"

definition to_lower :: "string \<Rightarrow> string" where
  "to_lower s = map char_lower s"

definition has_suffix :: "string \<Rightarrow> string \<Rightarrow> bool" where
  "has_suffix s suf \<longleftrightarrow> length suf \<le> length s \<and> drop (length s - length suf) s = suf"

definition has_prefix :: "string \<Rightarrow> string \<Rightarrow> bool" where
  "has_prefix s pre \<longleftrightarrow> take (length pre) s = pre"

fun join :: "string \<Rightarrow> string list \<Rightarrow> string" where
  "join sep [] = []"
| "join sep [x] = x"
| "join sep (x # y # ys) = x @ sep @ join sep (y # ys)"

text \<open>\<open>strings.Split\<close> at one character.\<close>

fun split_char :: "char \<Rightarrow> string \<Rightarrow> string list" where
  "split_char c [] = [[]]"
| "split_char c (x # xs) =
     (if x = c then [] # split_char c xs
      else (case split_char c xs of [] \<Rightarrow> [[x]] | w # ws \<Rightarrow> (x # w) # ws))"

text \<open>\<open>strings.SplitN(s, sep, 2)\<close>: the part before the first separator, and the rest if any.\<close>

definition splitn2 :: "char \<Rightarrow> string \<Rightarrow> string list" where
  "splitn2 c s = (let pre = takeWhile (\<lambda>x. x \<noteq> c) s
     in if length pre < length s then [pre, drop (Suc (length pre)) s] else [pre])"

fun digits :: "nat \<Rightarrow> string" where
  "digits n = (if n < 10 then [char_of (48 + n)] else digits (n div 10) @ [char_of (48 + n mod 10)])"

declare digits.simps [simp del]

definition format_int :: "int \<Rightarrow> string" where
  "format_int i = (if i < 0 then CHR ''-'' # digits (nat (- i)) else digits (nat i))"

text \<open>Reading the digits back, to show that \<open>format_int\<close> is injective.\<close>

definition digit_val :: "char \<Rightarrow> nat" where
  "digit_val c = of_char c - 48"

definition undigits :: "string \<Rightarrow> nat" where
  "undigits s = foldl (\<lambda>a c. 10 * a + digit_val c) 0 s"

lemma digit_val_char: "n < 10 \<Longrightarrow> digit_val (char_of (48 + n)) = n"
  by (simp add: digit_val_def)

lemma undigits_digits: "undigits (digits n) = n"
proof (induction n rule: digits.induct)
  case (1 n)
  show ?case
  proof (cases "n < 10")
    case True
    then show ?thesis
      by (subst digits.simps) (simp add: undigits_def digit_val_char)
  next
    case False
    then have "undigits (digits n) = 10 * undigits (digits (n div 10)) + n mod 10"
      by (subst digits.simps) (simp add: undigits_def digit_val_char)
    with 1 False show ?thesis by simp
  qed
qed

lemma digits_hd: "\<exists>c cs. digits n = c # cs \<and> c \<noteq> CHR ''-''"
proof (induction n rule: digits.induct)
  case (1 n)
  show ?case
  proof (cases "n < 10")
    case True
    have "of_char (char_of (48 + n) :: char) = 48 + n"
      using True by simp
    moreover have "of_char CHR ''-'' = (45 :: nat)"
      by simp
    ultimately have "char_of (48 + n) \<noteq> CHR ''-''"
      by (intro notI) simp
    with True show ?thesis by (subst digits.simps) simp
  next
    case False
    with 1 show ?thesis by (subst digits.simps) auto
  qed
qed

lemma hd_format_int: "hd (format_int i) = CHR ''-'' \<longleftrightarrow> i < 0"
proof (cases "i < 0")
  case False
  obtain c cs where "digits (nat i) = c # cs" "c \<noteq> CHR ''-''"
    using digits_hd by blast
  with False show ?thesis unfolding format_int_def by (simp del: char.inject)
qed (simp add: format_int_def)

lemma format_int_inject: "format_int i = format_int j \<longleftrightarrow> i = j"
proof
  assume eq: "format_int i = format_int j"
  then have "(i < 0) = (j < 0)"
    using hd_format_int by metis
  moreover have "digits (nat i) = digits (nat j)" if "\<not> i < 0" "\<not> j < 0"
    using eq that by (simp only: format_int_def if_False)
  moreover have "digits (nat (- i)) = digits (nat (- j))" if "i < 0" "j < 0"
    using eq that by (simp only: format_int_def if_True list.inject)
  moreover have "m = n" if "digits m = digits n" for m n
    using that undigits_digits by metis
  ultimately show "i = j"
    by (metis add.inverse_inverse int_nat_eq linorder_not_less neg_less_0_iff_less order_less_imp_le)
qed simp

subsection \<open>sets.String\<close>

type_synonym sset = "string list"

definition sset_insert :: "string \<Rightarrow> sset \<Rightarrow> sset" where
  "sset_insert x s = (if x \<in> set s then s else s @ [x])"

definition sset_of :: "string list \<Rightarrow> sset" where
  "sset_of items = foldl (\<lambda>s x. sset_insert x s) [] items"

definition sset_delete :: "string \<Rightarrow> sset \<Rightarrow> sset" where
  "sset_delete x s = filter (\<lambda>y. y \<noteq> x) s"

definition sset_has :: "sset \<Rightarrow> string \<Rightarrow> bool" where
  "sset_has s x \<longleftrightarrow> x \<in> set s"

definition sset_difference :: "sset \<Rightarrow> sset \<Rightarrow> sset" where
  "sset_difference s1 s2 = filter (\<lambda>x. \<not> sset_has s2 x) s1"

definition sset_union :: "sset \<Rightarrow> sset \<Rightarrow> sset" where
  "sset_union s1 s2 = sset_of (s1 @ s2)"

definition sset_intersection :: "sset \<Rightarrow> sset \<Rightarrow> sset" where
  "sset_intersection s1 s2 =
     (if length s1 < length s2 then filter (sset_has s2) s1 else filter (sset_has s1) s2)"

definition sset_superset :: "sset \<Rightarrow> sset \<Rightarrow> bool" where
  "sset_superset s1 s2 \<longleftrightarrow> (\<forall>x \<in> set s2. sset_has s1 x)"

definition sset_equal :: "sset \<Rightarrow> sset \<Rightarrow> bool" where
  "sset_equal s1 s2 \<longleftrightarrow> length s1 = length s2 \<and> sset_superset s1 s2"

definition sset_list :: "sset \<Rightarrow> string list" where
  "sset_list s = sort s"

text \<open>What the clients of \<open>sets.String\<close> use, with \<open>elems\<close> the abstraction to a set.\<close>

locale string_set =
  fixes ok :: "'s \<Rightarrow> bool" and elems :: "'s \<Rightarrow> string set"
    and from_list :: "string list \<Rightarrow> 's" and insert_s delete_s :: "string \<Rightarrow> 's \<Rightarrow> 's"
    and has :: "'s \<Rightarrow> string \<Rightarrow> bool" and diff inter union_s :: "'s \<Rightarrow> 's \<Rightarrow> 's"
    and list_of :: "'s \<Rightarrow> string list"
  assumes from_list: "ok (from_list xs)" "elems (from_list xs) = set xs"
    and insert_s: "ok s \<Longrightarrow> ok (insert_s x s)" "elems (insert_s x s) = insert x (elems s)"
    and delete_s: "ok s \<Longrightarrow> ok (delete_s x s)" "elems (delete_s x s) = elems s - {x}"
    and has: "has s x \<longleftrightarrow> x \<in> elems s"
    and diff: "ok s \<Longrightarrow> ok (diff s t)" "elems (diff s t) = elems s - elems t"
    and inter: "ok s \<Longrightarrow> ok t \<Longrightarrow> ok (inter s t)" "elems (inter s t) = elems s \<inter> elems t"
    and union_s: "ok (union_s s t)" "elems (union_s s t) = elems s \<union> elems t"
    and list_of: "set (list_of s) = elems s" "sorted (list_of s)" "ok s \<Longrightarrow> distinct (list_of s)"
begin

text \<open>Splitting a set by another one partitions it, with nothing twice.\<close>

lemma split_partition:
  assumes "ok s" "ok t"
  shows "set (list_of (inter s t)) \<union> set (list_of (diff s t)) = elems s"
    and "set (list_of (inter s t)) \<inter> set (list_of (diff s t)) = {}"
    and "distinct (list_of (inter s t) @ list_of (diff s t))"
  using assms by (auto simp: list_of inter diff)

lemma list_of_cong: "ok s \<Longrightarrow> ok t \<Longrightarrow> elems s = elems t \<Longrightarrow> list_of s = list_of t"
  by (metis list_of sorted_distinct_set_unique)

end

lemma set_sset_insert [simp]: "set (sset_insert x s) = insert x (set s)"
  by (auto simp: sset_insert_def)

lemma distinct_sset_insert [simp]: "distinct s \<Longrightarrow> distinct (sset_insert x s)"
  by (simp add: sset_insert_def)

lemma sset_of_aux:
  "distinct s \<Longrightarrow> distinct (foldl (\<lambda>s x. sset_insert x s) s items)
    \<and> set (foldl (\<lambda>s x. sset_insert x s) s items) = set s \<union> set items"
  by (induction items arbitrary: s) auto

lemma set_sset_of [simp]: "set (sset_of items) = set items"
  and distinct_sset_of [simp]: "distinct (sset_of items)"
  using sset_of_aux [of "[]" items] by (simp_all add: sset_of_def)

interpretation sset: string_set distinct set sset_of sset_insert sset_delete sset_has
  sset_difference sset_intersection sset_union sset_list
  by unfold_locales
    (auto simp: sset_delete_def sset_has_def sset_difference_def sset_intersection_def
      sset_union_def sset_list_def)

end
