(* ===== verification/Unstructured.thy ===== *)
theory Unstructured
  imports Util_Strings "HOL-Library.Word"
begin

section \<open>Unstructured objects\<close>

text \<open>
  Objects of the dynamic client are decoded JSON: \<open>map[string]interface{}\<close>. \<open>json\<close> is
  \<open>interface{}\<close> with the dynamic types the decoder makes (a \<open>float64\<close> is its bit pattern),
  \<open>jobj\<close> the map. The operations are those of
  \<open>vendor/k8s.io/apimachinery/pkg/apis/meta/v1/unstructured/helpers.go\<close> and \<open>unstructured.go\<close>
  that the controllers call. A getter that returns \<open>(value, found, error)\<close> returns an option on
  the right or the error on the left. Deep copies are the identity here: every definition
  returns a new value, and where the source mutates in place the new value is threaded on. That the
  operations on shared memory do the same is the subject of \<open>Go_Memory\<close> and \<open>Operations_Memory\<close>.
\<close>

datatype json =
    JNull
  | JBool bool
  | JInt int
  | JFloat "64 word"
  | JString string
  | JArr "json list"
  | JObj "(string \<times> json) list"

type_synonym jobj = "(string, json) gomap"

subsection \<open>Nested fields\<close>

text \<open>Walking down a path: a missing key is "not found", a non-map on the way an error.\<close>

fun nested_from :: "json \<Rightarrow> string list \<Rightarrow> json option go_result" where
  "nested_from v [] = Inr (Some v)"
| "nested_from v (f # fs) =
     (case v of
        JObj m \<Rightarrow> (case mget m f of None \<Rightarrow> Inr None | Some v' \<Rightarrow> nested_from v' fs)
      | _ \<Rightarrow> Inl (ErrOther ''accessor error: expected map[string]interface{}''))"

definition nestedFieldNoCopy :: "jobj \<Rightarrow> string list \<Rightarrow> json option go_result" where
  "nestedFieldNoCopy obj fields = nested_from (JObj obj) fields"

definition NestedString :: "jobj \<Rightarrow> string list \<Rightarrow> string option go_result" where
  "NestedString obj fields =
     (case nestedFieldNoCopy obj fields of
        Inl e \<Rightarrow> Inl e
      | Inr None \<Rightarrow> Inr None
      | Inr (Some (JString s)) \<Rightarrow> Inr (Some s)
      | Inr (Some _) \<Rightarrow> Inl (ErrOther ''accessor error: expected string''))"

definition NestedInt64 :: "jobj \<Rightarrow> string list \<Rightarrow> int option go_result" where
  "NestedInt64 obj fields =
     (case nestedFieldNoCopy obj fields of
        Inl e \<Rightarrow> Inl e
      | Inr None \<Rightarrow> Inr None
      | Inr (Some (JInt i)) \<Rightarrow> Inr (Some i)
      | Inr (Some _) \<Rightarrow> Inl (ErrOther ''accessor error: expected int64''))"

fun json_strings :: "json list \<Rightarrow> string list option" where
  "json_strings [] = Some []"
| "json_strings (JString s # vs) = map_option ((#) s) (json_strings vs)"
| "json_strings (_ # vs) = None"

definition NestedStringSlice :: "jobj \<Rightarrow> string list \<Rightarrow> string list option go_result" where
  "NestedStringSlice obj fields =
     (case nestedFieldNoCopy obj fields of
        Inl e \<Rightarrow> Inl e
      | Inr None \<Rightarrow> Inr None
      | Inr (Some (JArr vs)) \<Rightarrow>
          (case json_strings vs of
             Some ss \<Rightarrow> Inr (Some ss)
           | None \<Rightarrow> Inl (ErrOther ''accessor error: contains non-string key in the slice''))
      | Inr (Some _) \<Rightarrow> Inl (ErrOther ''accessor error: expected []interface{}''))"

definition NestedSlice :: "jobj \<Rightarrow> string list \<Rightarrow> json list option go_result" where
  "NestedSlice obj fields =
     (case nestedFieldNoCopy obj fields of
        Inl e \<Rightarrow> Inl e
      | Inr None \<Rightarrow> Inr None
      | Inr (Some (JArr vs)) \<Rightarrow> Inr (Some vs)
      | Inr (Some _) \<Rightarrow> Inl (ErrOther ''accessor error: expected []interface{}''))"

definition NestedMap :: "jobj \<Rightarrow> string list \<Rightarrow> jobj option go_result" where
  "NestedMap obj fields =
     (case nestedFieldNoCopy obj fields of
        Inl e \<Rightarrow> Inl e
      | Inr None \<Rightarrow> Inr None
      | Inr (Some (JObj m)) \<Rightarrow> Inr (Some m)
      | Inr (Some _) \<Rightarrow> Inl (ErrOther ''accessor error: expected map[string]interface{}''))"

fun json_string_map :: "(string \<times> json) list \<Rightarrow> (string, string) gomap option" where
  "json_string_map [] = Some []"
| "json_string_map ((k, JString s) # kvs) = map_option ((#) (k, s)) (json_string_map kvs)"
| "json_string_map (_ # kvs) = None"

definition NestedStringMap :: "jobj \<Rightarrow> string list \<Rightarrow> (string, string) gomap option go_result" where
  "NestedStringMap obj fields =
     (case NestedMap obj fields of
        Inl e \<Rightarrow> Inl e
      | Inr None \<Rightarrow> Inr None
      | Inr (Some m) \<Rightarrow>
          (case json_string_map m of
             Some sm \<Rightarrow> Inr (Some sm)
           | None \<Rightarrow> Inl (ErrOther ''accessor error: contains non-string key in the map'')))"

text \<open>
  Setting a nested field creates the missing maps on the way. The source writes into the map;
  it fails before it has changed anything, so on the left the object is unchanged. An empty
  path indexes out of range.
\<close>

fun setNestedFieldNoCopy :: "jobj \<Rightarrow> json \<Rightarrow> string list \<Rightarrow> jobj go_result" where
  "setNestedFieldNoCopy m v [] = Inl (GoPanic ''slice bounds out of range'')"
| "setNestedFieldNoCopy m v [f] = Inr (mput f v m)"
| "setNestedFieldNoCopy m v (f # g # fs) =
     (case mget m f of
        None \<Rightarrow> rbind (setNestedFieldNoCopy [] v (g # fs)) (\<lambda>m'. Inr (mput f (JObj m') m))
      | Some (JObj m1) \<Rightarrow> rbind (setNestedFieldNoCopy m1 v (g # fs)) (\<lambda>m'. Inr (mput f (JObj m') m))
      | Some _ \<Rightarrow> Inl (ErrOther ''value cannot be set: not a map[string]interface{}''))"

definition SetNestedField :: "jobj \<Rightarrow> json \<Rightarrow> string list \<Rightarrow> jobj go_result" where
  "SetNestedField obj v fields = setNestedFieldNoCopy obj v fields"

definition SetNestedSlice :: "jobj \<Rightarrow> json list \<Rightarrow> string list \<Rightarrow> jobj go_result" where
  "SetNestedSlice obj vs fields = SetNestedField obj (JArr vs) fields"

definition SetNestedStringSlice :: "jobj \<Rightarrow> string list \<Rightarrow> string list \<Rightarrow> jobj go_result" where
  "SetNestedStringSlice obj ss fields = setNestedFieldNoCopy obj (JArr (map JString ss)) fields"

subsection \<open>Accessors of Unstructured\<close>

definition getNestedString :: "jobj \<Rightarrow> string list \<Rightarrow> string" where
  "getNestedString obj fields = (case NestedString obj fields of Inr (Some s) \<Rightarrow> s | _ \<Rightarrow> [])"

text \<open>The setters of \<open>Unstructured\<close> drop the error: then the object stays as it is.\<close>

definition set_or_keep :: "jobj \<Rightarrow> jobj go_result \<Rightarrow> jobj" where
  "set_or_keep obj r = (case r of Inr obj' \<Rightarrow> obj' | Inl _ \<Rightarrow> obj)"

definition setNestedField :: "jobj \<Rightarrow> json \<Rightarrow> string list \<Rightarrow> jobj" where
  "setNestedField obj v fields = set_or_keep obj (SetNestedField obj v fields)"

definition GetName :: "jobj \<Rightarrow> string" where
  "GetName obj = getNestedString obj [''metadata'', ''name'']"

definition GetNamespace :: "jobj \<Rightarrow> string" where
  "GetNamespace obj = getNestedString obj [''metadata'', ''namespace'']"

definition GetUID :: "jobj \<Rightarrow> string" where
  "GetUID obj = getNestedString obj [''metadata'', ''uid'']"

definition GetResourceVersion :: "jobj \<Rightarrow> string" where
  "GetResourceVersion obj = getNestedString obj [''metadata'', ''resourceVersion'']"

definition GetGeneration :: "jobj \<Rightarrow> int" where
  "GetGeneration obj =
     (case NestedInt64 obj [''metadata'', ''generation''] of Inr (Some i) \<Rightarrow> i | _ \<Rightarrow> 0)"

text \<open>A nil map of the source is \<open>[]\<close>: only its length and its entries are looked at.\<close>

definition GetLabels :: "jobj \<Rightarrow> (string, string) gomap" where
  "GetLabels obj =
     (case NestedStringMap obj [''metadata'', ''labels''] of Inr (Some m) \<Rightarrow> m | _ \<Rightarrow> [])"

definition GetAnnotations :: "jobj \<Rightarrow> (string, string) gomap" where
  "GetAnnotations obj =
     (case NestedStringMap obj [''metadata'', ''annotations''] of Inr (Some m) \<Rightarrow> m | _ \<Rightarrow> [])"

definition GetFinalizers :: "jobj \<Rightarrow> string list" where
  "GetFinalizers obj =
     (case NestedStringSlice obj [''metadata'', ''finalizers''] of Inr (Some fs) \<Rightarrow> fs | _ \<Rightarrow> [])"

definition SetFinalizers :: "jobj \<Rightarrow> string list \<Rightarrow> jobj" where
  "SetFinalizers obj fs =
     set_or_keep obj (SetNestedStringSlice obj fs [''metadata'', ''finalizers''])"

definition SetName :: "jobj \<Rightarrow> string \<Rightarrow> jobj" where
  "SetName obj name = setNestedField obj (JString name) [''metadata'', ''name'']"

definition SetNamespace :: "jobj \<Rightarrow> string \<Rightarrow> jobj" where
  "SetNamespace obj ns = setNestedField obj (JString ns) [''metadata'', ''namespace'']"

definition SetResourceVersion :: "jobj \<Rightarrow> string \<Rightarrow> jobj" where
  "SetResourceVersion obj v = setNestedField obj (JString v) [''metadata'', ''resourceVersion'']"

definition SetKind :: "jobj \<Rightarrow> string \<Rightarrow> jobj" where
  "SetKind obj k = setNestedField obj (JString k) [''kind'']"

definition SetAPIVersion :: "jobj \<Rightarrow> string \<Rightarrow> jobj" where
  "SetAPIVersion obj v = setNestedField obj (JString v) [''apiVersion'']"

text \<open>
  \<open>GetDeletionTimestamp\<close> is not nil when the field parses to a non-zero time; \<open>parses\<close> is
  \<open>time.Parse(time.RFC3339, _)\<close> on a non-empty string other than "null".
\<close>

definition is_deleting :: "(string \<Rightarrow> bool) \<Rightarrow> jobj \<Rightarrow> bool" where
  "is_deleting parses obj =
     (let s = getNestedString obj [''metadata'', ''deletionTimestamp'']
      in s \<noteq> [] \<and> s \<noteq> ''null'' \<and> parses s)"

text \<open>
  Comparing two \<open>interface{}\<close> values with \<open>==\<close>: different dynamic types are unequal, and two
  maps or two slices panic. A float is its IEEE 754 bit pattern: no NaN is equal to anything, and
  the two zeros are equal.
\<close>

definition float_nan :: "64 word \<Rightarrow> bool" where
  "float_nan w \<longleftrightarrow> 0x7FF0000000000000 < take_bit 63 w"

definition float_eq :: "64 word \<Rightarrow> 64 word \<Rightarrow> bool" where
  "float_eq a b \<longleftrightarrow> \<not> float_nan a \<and> \<not> float_nan b \<and> (a = b \<or> take_bit 63 a = 0 \<and> take_bit 63 b = 0)"

lemma float_eq_examples:
  "float_eq 0 0x8000000000000000" "\<not> float_eq 0x7FF8000000000001 0x7FF8000000000001"
  "float_eq 0x3FF0000000000000 0x3FF0000000000000" "float_eq 0xFFF0000000000000 0xFFF0000000000000"
  by code_simp+

fun iface_eq :: "json \<Rightarrow> json \<Rightarrow> bool go_result" where
  "iface_eq (JArr _) (JArr _) = Inl (GoPanic ''comparing uncomparable type'')"
| "iface_eq (JObj _) (JObj _) = Inl (GoPanic ''comparing uncomparable type'')"
| "iface_eq (JFloat a) (JFloat b) = Inr (float_eq a b)"
| "iface_eq a b = Inr (a = b)"

text \<open>Reading a missing key of a \<open>map[string]interface{}\<close> gives nil.\<close>

definition jget :: "jobj \<Rightarrow> string \<Rightarrow> json" where
  "jget m k = mget0 JNull m k"

subsection \<open>Laws\<close>

lemma setNested_Cons_Cons:
  "setNestedFieldNoCopy m v (f # g # fs) = Inr obj' \<longleftrightarrow>
    (\<exists>m1 m'. (mget m f = None \<and> m1 = [] \<or> mget m f = Some (JObj m1)) \<and>
       setNestedFieldNoCopy m1 v (g # fs) = Inr m' \<and> obj' = mput f (JObj m') m)"
  by (auto simp: rbind_Inr_iff split: option.splits json.splits)

lemma nested_after_set_same:
  "setNestedFieldNoCopy obj v fields = Inr obj' \<Longrightarrow> nested_from (JObj obj') fields = Inr (Some v)"
proof (induction fields arbitrary: obj obj')
  case (Cons f fs)
  show ?case
  proof (cases fs)
    case (Cons g gs)
    with Cons.prems obtain m1 m' where "setNestedFieldNoCopy m1 v fs = Inr m'" "obj' = mput f (JObj m') obj"
      using setNested_Cons_Cons by metis
    with Cons.IH show ?thesis by simp
  qed (use Cons.prems in auto)
qed simp

lemma set_nested_top:
  assumes "setNestedFieldNoCopy obj v (f # fs) = Inr obj'" and "k \<noteq> f"
  shows "mget obj' k = mget obj k"
  using assms by (cases fs) (auto simp: rbind_Inr_iff split: option.splits json.splits)

text \<open>Two paths are apart when they differ before either ends.\<close>

fun apart :: "string list \<Rightarrow> string list \<Rightarrow> bool" where
  "apart (f # fs) (g # gs) \<longleftrightarrow> f \<noteq> g \<or> apart fs gs"
| "apart _ _ \<longleftrightarrow> False"

lemma nested_after_set_apart:
  "setNestedFieldNoCopy obj v fields = Inr obj' \<Longrightarrow> apart fields path \<Longrightarrow>
    nested_from (JObj obj) path = Inr r \<Longrightarrow> nested_from (JObj obj') path = Inr r"
proof (induction fields arbitrary: obj obj' path r)
  case (Cons f fs)
  obtain h hs where path: "path = h # hs" using Cons.prems(2) by (cases path) auto
  show ?case
  proof (cases "f = h")
    case False
    then show ?thesis
      using Cons.prems set_nested_top [OF Cons.prems(1), of h] by (simp add: path)
  next
    case True
    with Cons.prems(2) have ap: "apart fs hs" by (simp add: path)
    then obtain g gs k ks where fs: "fs = g # gs" and hs: "hs = k # ks"
      by (cases fs; cases hs) auto
    from Cons.prems(1) obtain m1 m' where m: "mget obj f = None \<and> m1 = [] \<or> mget obj f = Some (JObj m1)"
      "setNestedFieldNoCopy m1 v fs = Inr m'" "obj' = mput f (JObj m') obj"
      unfolding fs setNested_Cons_Cons by blast
    have "nested_from (JObj m1) hs = Inr r"
      using m(1) Cons.prems(3) True by (auto simp: path hs)
    from Cons.IH [OF m(2) ap this] show ?thesis
      by (simp add: path m(3) True)
  qed
qed simp

lemma set_or_keep_apart:
  assumes "apart fields path" and "nested_from (JObj obj) path = Inr r"
  shows "nested_from (JObj (set_or_keep obj (setNestedFieldNoCopy obj v fields))) path = Inr r"
  using assms nested_after_set_apart
  by (cases "setNestedFieldNoCopy obj v fields") (auto simp: set_or_keep_def)

text \<open>An object whose \<open>metadata\<close> is a map, or missing: the setters below it work.\<close>

definition meta_ok :: "jobj \<Rightarrow> bool" where
  "meta_ok obj \<longleftrightarrow> (case mget obj ''metadata'' of None \<Rightarrow> True | Some (JObj _) \<Rightarrow> True | _ \<Rightarrow> False)"

lemma set_meta_ok:
  assumes "meta_ok obj"
  obtains m m' where "setNestedFieldNoCopy obj v [''metadata'', k] = Inr (mput ''metadata'' (JObj (mput k v m)) obj)"
    "mget obj ''metadata'' = None \<and> m = [] \<or> mget obj ''metadata'' = Some (JObj m)"
  using assms that by (auto simp: meta_ok_def split: option.splits json.splits)

end
