(* ===== verification/Api_Types.thy ===== *)
theory Api_Types
  imports Unstructured
begin

section \<open>API types\<close>

text \<open>
  The types of \<open>pkg/apis/core\<close> that the controllers read and write, with the defaulting and the
  accessors of \<open>FederatedTypeConfig\<close>, and the constants of \<open>pkg/controller/util/constants.go\<close>.
  \<open>ObjectMeta\<close> holds the fields of \<open>metav1.ObjectMeta\<close> that the source uses; nil maps and
  slices are \<open>[]\<close>.
\<close>

record ObjectMeta =
  om_Name :: string
  om_Namespace :: string
  om_UID :: string
  om_ResourceVersion :: string
  om_Generation :: int
  om_Labels :: "(string, string) gomap"
  om_Annotations :: "(string, string) gomap"
  om_Finalizers :: "string list"
  om_DeletionTimestamp :: "string option"

definition empty_meta :: ObjectMeta where
  "empty_meta = \<lparr>om_Name = [], om_Namespace = [], om_UID = [], om_ResourceVersion = [],
     om_Generation = 0, om_Labels = [], om_Annotations = [], om_Finalizers = [],
     om_DeletionTimestamp = None\<rparr>"

subsection \<open>Constants\<close>

definition NamespaceKind :: string where "NamespaceKind = ''Namespace''"
definition ServiceKind :: string where "ServiceKind = ''Service''"

datatype ReconciliationStatus = StatusAllOK | StatusNeedsRecheck | StatusError | StatusNotSynced

definition PropagatedVersionName :: "string \<Rightarrow> string \<Rightarrow> string" where
  "PropagatedVersionName kind resourceName = to_lower kind @ ''-'' @ resourceName"

subsection \<open>FederatedTypeConfig\<close>

record APIResource =
  ar_Group :: string
  ar_Version :: string
  ar_Kind :: string
  ar_PluralName :: string

record FederatedTypeConfigSpec =
  ts_Target :: APIResource
  ts_Namespaced :: bool
  ts_ComparisonField :: string
  ts_PropagationEnabled :: bool
  ts_Template :: APIResource
  ts_Placement :: APIResource
  ts_Override :: "APIResource option"
  ts_OverridePath :: "string list"

record FederatedTypeConfig =
  tc_Meta :: ObjectMeta
  tc_Spec :: FederatedTypeConfigSpec

text \<open>\<open>metav1.APIResource\<close>, with \<open>Name\<close> the plural name.\<close>

record MetaAPIResource =
  mr_Group :: string
  mr_Version :: string
  mr_Kind :: string
  mr_Name :: string
  mr_Namespaced :: bool

definition setStringDefault :: "string \<Rightarrow> string \<Rightarrow> string" where
  "setStringDefault val defaultValue = (if length val > 0 then val else defaultValue)"

definition pluralName :: "string \<Rightarrow> string" where
  "pluralName kind =
     (let lowerKind = to_lower kind
      in if has_suffix lowerKind ''overrides'' then lowerKind @ ''es'' else lowerKind @ ''s'')"

definition default_related :: "APIResource \<Rightarrow> APIResource \<Rightarrow> APIResource" where
  "default_related template r =
     r\<lparr>ar_PluralName := setStringDefault (ar_PluralName r) (pluralName (ar_Kind r)),
       ar_Group := setStringDefault (ar_Group r) (ar_Group template),
       ar_Version := setStringDefault (ar_Version r) (ar_Version template)\<rparr>"

definition default_target :: "string \<Rightarrow> APIResource \<Rightarrow> APIResource" where
  "default_target name target =
     (let nameParts = splitn2 CHR ''.'' name;
          target1 = target\<lparr>ar_PluralName := setStringDefault (ar_PluralName target) (nameParts ! 0)\<rparr>
      in if length nameParts > 1
         then target1\<lparr>ar_Group := setStringDefault (ar_Group target1) (nameParts ! 1)\<rparr>
         else target1)"

definition SetFederatedTypeConfigDefaults :: "FederatedTypeConfig \<Rightarrow> FederatedTypeConfig" where
  "SetFederatedTypeConfigDefaults obj =
     (let spec = tc_Spec obj;
          template = (ts_Template spec)
            \<lparr>ar_PluralName := setStringDefault (ar_PluralName (ts_Template spec)) (pluralName (ar_Kind (ts_Template spec)))\<rparr>
      in obj\<lparr>tc_Spec := spec
           \<lparr>ts_Target := default_target (om_Name (tc_Meta obj)) (ts_Target spec),
            ts_Template := template,
            ts_Placement := default_related template (ts_Placement spec),
            ts_Override := map_option (default_related template) (ts_Override spec)\<rparr>\<rparr>)"

definition apiResourceToMeta :: "APIResource \<Rightarrow> bool \<Rightarrow> MetaAPIResource" where
  "apiResourceToMeta r namespaced =
     \<lparr>mr_Group = ar_Group r, mr_Version = ar_Version r, mr_Kind = ar_Kind r,
      mr_Name = ar_PluralName r, mr_Namespaced = namespaced\<rparr>"

definition GetTarget :: "FederatedTypeConfig \<Rightarrow> MetaAPIResource" where
  "GetTarget f = apiResourceToMeta (ts_Target (tc_Spec f)) (ts_Namespaced (tc_Spec f))"

definition GetTemplate :: "FederatedTypeConfig \<Rightarrow> MetaAPIResource" where
  "GetTemplate f = apiResourceToMeta (ts_Template (tc_Spec f)) (ts_Namespaced (tc_Spec f))"

definition GetPlacement :: "FederatedTypeConfig \<Rightarrow> MetaAPIResource" where
  "GetPlacement f = apiResourceToMeta (ts_Placement (tc_Spec f)) (ts_Namespaced (tc_Spec f))"

definition GetOverride :: "FederatedTypeConfig \<Rightarrow> MetaAPIResource option" where
  "GetOverride f =
     map_option (\<lambda>r. apiResourceToMeta r (ts_Namespaced (tc_Spec f))) (ts_Override (tc_Spec f))"

definition GetOverridePath :: "FederatedTypeConfig \<Rightarrow> string list" where
  "GetOverridePath f = ts_OverridePath (tc_Spec f)"

definition GetComparisonField :: "FederatedTypeConfig \<Rightarrow> string" where
  "GetComparisonField f = ts_ComparisonField (tc_Spec f)"

definition GetPropagationEnabled :: "FederatedTypeConfig \<Rightarrow> bool" where
  "GetPropagationEnabled f = ts_PropagationEnabled (tc_Spec f)"

subsection \<open>PropagatedVersion\<close>

record ClusterObjectVersion =
  cv_ClusterName :: string
  cv_Version :: string

record PropagatedVersionStatus =
  pvs_TemplateVersion :: string
  pvs_OverrideVersion :: string
  pvs_ClusterVersions :: "ClusterObjectVersion list"

record PropagatedVersion =
  pv_Meta :: ObjectMeta
  pv_Status :: PropagatedVersionStatus

subsection \<open>Laws of the defaults\<close>

lemma setStringDefault_idem [simp]:
  "setStringDefault (setStringDefault v d) d = setStringDefault v d"
  by (simp add: setStringDefault_def)

lemma default_related_idem: "default_related t (default_related t r) = default_related t r"
  by (simp add: default_related_def)

lemma default_target_idem: "default_target n (default_target n t) = default_target n t"
  by (simp add: default_target_def Let_def)

lemma pluralName_nonempty: "pluralName k \<noteq> []"
  by (simp add: pluralName_def Let_def)

lemma setStringDefault_nonempty: "setStringDefault v d = [] \<longleftrightarrow> v = [] \<and> d = []"
  by (simp add: setStringDefault_def)

end
