(* ===== verification/Cluster_Config.thy ===== *)
theory Cluster_Config
  imports Api_Types
begin

section \<open>Federated clusters and how to reach them\<close>

text \<open>
  \<open>pkg/apis/core/v1alpha1/federatedcluster_types.go\<close>, \<open>pkg/apis/core/common/constants.go\<close> and
  \<open>BuildClusterConfig\<close> of \<open>pkg/controller/util/cluster_util.go\<close>. Timestamps are integers. The
  cluster registry, the secrets, the host's address and client-go's \<open>clientcmd\<close> are the
  parameter \<open>config_env\<close>. Go's \<open>net.ParseIP\<close>, \<open>net.ParseCIDR\<close> and \<open>IPNet.Contains\<close> (as of Go
  1.10, which the build uses) are modelled on lists of bytes.
\<close>

record ClusterCondition =
  cn_Type :: string
  cn_Status :: string
  cn_LastProbeTime :: int
  cn_LastTransitionTime :: int
  cn_Reason :: string
  cn_Message :: string

record FederatedClusterSpec =
  fs_ClusterRef :: string
  fs_SecretRef :: "string option"

record FederatedClusterStatus =
  fst_Conditions :: "ClusterCondition list"
  fst_Zone :: string
  fst_Region :: string

record FederatedCluster =
  fc_Meta :: ObjectMeta
  fc_Spec :: FederatedClusterSpec
  fc_Status :: FederatedClusterStatus

definition ClusterReady :: string where "ClusterReady = ''Ready''"
definition ClusterOffline :: string where "ClusterOffline = ''Offline''"
definition ConditionTrue :: string where "ConditionTrue = ''True''"
definition ConditionFalse :: string where "ConditionFalse = ''False''"
definition FederationSystemNamespace :: string where "FederationSystemNamespace = ''federation-system''"
definition MulticlusterPublicNamespace :: string where "MulticlusterPublicNamespace = ''kube-multicluster-public''"

fun ready_loop :: "ClusterCondition list \<Rightarrow> bool" where
  "ready_loop [] = False"
| "ready_loop (condition # rest) =
     (if cn_Type condition = ClusterReady then
        (if cn_Status condition = ConditionTrue then True else ready_loop rest)
      else ready_loop rest)"

definition isClusterReady :: "FederatedCluster \<Rightarrow> bool" where
  "isClusterReady cluster = ready_loop (fst_Conditions (fc_Status cluster))"

lemma isClusterReady_iff:
  "isClusterReady c \<longleftrightarrow>
     (\<exists>cn \<in> set (fst_Conditions (fc_Status c)). cn_Type cn = ClusterReady \<and> cn_Status cn = ConditionTrue)"
proof -
  have "ready_loop cs \<longleftrightarrow> (\<exists>cn \<in> set cs. cn_Type cn = ClusterReady \<and> cn_Status cn = ConditionTrue)" for cs
    by (induction cs) auto
  then show ?thesis by (simp add: isClusterReady_def)
qed

abbreviation cluster_name :: "FederatedCluster \<Rightarrow> string" where
  "cluster_name c \<equiv> om_Name (fc_Meta c)"

subsection \<open>Package net\<close>

text \<open>
  The number in base \<open>b\<close> at the front of a string, below the limit \<open>0xFFFFFF\<close>, and the rest;
  \<open>None\<close> is \<open>!ok\<close>.
\<close>

definition hex_val :: "char \<Rightarrow> int option" where
  "hex_val c = (let n = of_char c :: int in
     if 48 \<le> n \<and> n \<le> 57 then Some (n - 48)
     else if 97 \<le> n \<and> n \<le> 102 then Some (n - 87)
     else if 65 \<le> n \<and> n \<le> 70 then Some (n - 55) else None)"

definition dec_val :: "char \<Rightarrow> int option" where
  "dec_val c = (let n = of_char c :: int in if 48 \<le> n \<and> n \<le> 57 then Some (n - 48) else None)"

fun number_loop :: "int \<Rightarrow> (char \<Rightarrow> int option) \<Rightarrow> int \<Rightarrow> string \<Rightarrow> (int \<times> string) option" where
  "number_loop b val n [] = Some (n, [])"
| "number_loop b val n (c # s) =
     (case val c of
        None \<Rightarrow> Some (n, c # s)
      | Some d \<Rightarrow> if n * b + d \<ge> 16777215 then None else number_loop b val (n * b + d) s)"

definition read_number :: "int \<Rightarrow> (char \<Rightarrow> int option) \<Rightarrow> string \<Rightarrow> (int \<times> string) option" where
  "read_number b val s = (case s of [] \<Rightarrow> None
     | c # cs \<Rightarrow> if val c = None then None else number_loop b val 0 s)"

abbreviation dtoi :: "string \<Rightarrow> (int \<times> string) option" where "dtoi \<equiv> read_number 10 dec_val"
abbreviation xtoi :: "string \<Rightarrow> (int \<times> string) option" where "xtoi \<equiv> read_number 16 hex_val"

lemma number_loop_rest: "number_loop b val n s = Some (m, r) \<Longrightarrow> length r \<le> length s"
  by (induction s arbitrary: n) (fastforce split: option.splits if_splits)+

lemma read_number_rest: "read_number b val s = Some (m, r) \<Longrightarrow> length r < length s"
  by (cases s) (fastforce simp: read_number_def dest: number_loop_rest split: option.splits if_splits)+

text \<open>\<open>i\<close> more numbers of an IPv4 address, each but the first after a dot.\<close>

fun v4_loop :: "nat \<Rightarrow> bool \<Rightarrow> string \<Rightarrow> int list option" where
  "v4_loop 0 first s = (if s = [] then Some [] else None)"
| "v4_loop (Suc i) first s =
     (if s = [] then None
      else if \<not> first \<and> hd s \<noteq> CHR ''.'' then None
      else (case dtoi (if first then s else tl s) of
              None \<Rightarrow> None
            | Some (n, rest) \<Rightarrow> if n > 255 then None else map_option (Cons n) (v4_loop i False rest)))"

definition parseIPv4 :: "string \<Rightarrow> int list option" where
  "parseIPv4 s = v4_loop 4 True s"

definition to16 :: "int list \<Rightarrow> int list" where
  "to16 ip4 = replicate 10 0 @ [255, 255] @ ip4"

definition To4 :: "int list \<Rightarrow> int list option" where
  "To4 ip = (if length ip = 4 then Some ip
     else if length ip = 16 \<and> take 12 ip = replicate 10 0 @ [255, 255] then Some (drop 12 ip) else None)"

text \<open>The groups of an IPv6 address: the bytes read so far, and where the ellipsis was.\<close>

function v6_loop :: "string \<Rightarrow> int list \<Rightarrow> nat option \<Rightarrow> (int list \<times> nat option) option" where
  "v6_loop s ip ellipsis =
     (if length ip \<ge> 16 then (if s = [] then Some (ip, ellipsis) else None)
      else case xtoi s of
        None \<Rightarrow> None
      | Some (n, rest) \<Rightarrow>
          if n > 65535 then None
          else if rest \<noteq> [] \<and> hd rest = CHR ''.'' then
            (if ellipsis = None \<and> length ip \<noteq> 12 then None
             else if length ip + 4 > 16 then None
             else map_option (\<lambda>ip4. (ip @ ip4, ellipsis)) (parseIPv4 s))
          else
            (let ip1 = ip @ [n div 256, n mod 256] in
             if rest = [] then Some (ip1, ellipsis)
             else if hd rest \<noteq> CHR '':'' \<or> length rest = 1 then None
             else (let s1 = tl rest in
               if hd s1 = CHR '':'' then
                 (if ellipsis \<noteq> None then None
                  else if tl s1 = [] then Some (ip1, Some (length ip1))
                  else v6_loop (tl s1) ip1 (Some (length ip1)))
               else v6_loop s1 ip1 ellipsis)))"
  by pat_completeness auto

termination
proof (relation "measure (\<lambda>(s, ip, e). length s)", goal_cases)
  case 1
  then show ?case by simp
next
  case (2 s ip e nr n rest)
  then show ?case using read_number_rest [of 16 hex_val s n rest] by (cases rest) auto
next
  case (3 s ip e nr n rest)
  then show ?case using read_number_rest [of 16 hex_val s n rest] by (cases rest) auto
qed

declare v6_loop.simps [simp del]

definition parseIPv6 :: "string \<Rightarrow> int list option" where
  "parseIPv6 s =
     (let leading = take 2 s = ''::''; s1 = (if leading then drop 2 s else s)
      in if leading \<and> s1 = [] then Some (replicate 16 0)
         else case v6_loop s1 [] (if leading then Some 0 else None) of
           None \<Rightarrow> None
         | Some (ip, ellipsis) \<Rightarrow>
             if length ip < 16 then
               (case ellipsis of
                  None \<Rightarrow> None
                | Some e \<Rightarrow> Some (take e ip @ replicate (16 - length ip) 0 @ drop e ip))
             else if ellipsis \<noteq> None then None
             else Some ip)"

fun first_sep :: "string \<Rightarrow> char option" where
  "first_sep [] = None"
| "first_sep (c # s) = (if c = CHR ''.'' \<or> c = CHR '':'' then Some c else first_sep s)"

definition ParseIP :: "string \<Rightarrow> int list option" where
  "ParseIP s = (case first_sep s of
     None \<Rightarrow> None
   | Some c \<Rightarrow> if c = CHR ''.'' then map_option to16 (parseIPv4 s) else parseIPv6 s)"

text \<open>Networks: the address, masked, and the mask of the given number of ones, both as bytes.\<close>

definition CIDRMask :: "nat \<Rightarrow> nat \<Rightarrow> int list" where
  "CIDRMask ones l = map (\<lambda>i. 256 - 2 ^ (8 - min 8 (ones - 8 * i))) [0..<l]"

definition mask_bytes :: "int list \<Rightarrow> int list \<Rightarrow> int list" where
  "mask_bytes ip m = map2 (\<lambda>a b. and a b) ip m"

record IPNet =
  net_IP :: "int list"
  net_Mask :: "int list"

definition ParseCIDR :: "string \<Rightarrow> IPNet option" where
  "ParseCIDR s =
     (case splitn2 CHR ''/'' s of
        [addr, bits] \<Rightarrow>
          (let (iplen, ip) = (case parseIPv4 addr of Some ip \<Rightarrow> (4, Some ip) | None \<Rightarrow> (16, parseIPv6 addr))
           in case (ip, dtoi bits) of
                (Some ip, Some (n, rest)) \<Rightarrow>
                  if rest \<noteq> [] \<or> n > 8 * int iplen then None
                  else Some \<lparr>net_IP = mask_bytes ip (CIDRMask (nat n) iplen), net_Mask = CIDRMask (nat n) iplen\<rparr>
              | _ \<Rightarrow> None)
      | _ \<Rightarrow> None)"

text \<open>An IPv6 network whose masked address is an IPv4 one in IPv6 form uses the last four bytes.\<close>

definition networkNumberAndMask :: "IPNet \<Rightarrow> int list \<times> int list" where
  "networkNumberAndMask n =
     (case To4 (net_IP n) of
        None \<Rightarrow> (net_IP n, net_Mask n)
      | Some ip \<Rightarrow> (ip, if length (net_Mask n) = 16 then drop 12 (net_Mask n) else net_Mask n))"

definition Contains :: "IPNet \<Rightarrow> int list option \<Rightarrow> bool" where
  "Contains n ip =
     (let (nn, m) = networkNumberAndMask n;
          addr = (case ip of None \<Rightarrow> [] | Some x \<Rightarrow> (case To4 x of Some y \<Rightarrow> y | None \<Rightarrow> x))
      in length addr = length nn \<and> mask_bytes nn m = mask_bytes addr m)"

subsection \<open>BuildClusterConfig\<close>

record rest_config =
  rc_Host :: string
  rc_CAData :: string
  rc_BearerToken :: string
  rc_QPS :: nat
  rc_Burst :: nat

record ServerAddressByClientCIDR =
  sa_ClientCIDR :: string
  sa_ServerAddress :: string

record 'kc config_env =
  ce_getCluster :: "string \<Rightarrow> string \<Rightarrow> ServerAddressByClientCIDR list go_result"
  ce_hostIP :: "string go_result"
  ce_getSecret :: "string \<Rightarrow> string \<Rightarrow> (string, string) gomap go_result"
  ce_fromFlags :: "string \<Rightarrow> rest_config go_result"
  ce_fromGetter :: "string \<Rightarrow> 'kc go_result \<Rightarrow> rest_config go_result"
  ce_load :: "string \<Rightarrow> 'kc go_result"

definition KubeAPIQPS :: nat where "KubeAPIQPS = 20"
definition KubeAPIBurst :: nat where "KubeAPIBurst = 30"

definition KubeconfigGetterForSecret :: "'kc config_env \<Rightarrow> (string, string) gomap \<Rightarrow> 'kc go_result" where
  "KubeconfigGetterForSecret env secret =
     (case mget secret ''kubeconfig'' of
        None \<Rightarrow> Inl (ErrOther ''secret does not have data with key'')
      | Some data \<Rightarrow> ce_load env data)"

text \<open>The endpoint loop; an address is empty when none matched.\<close>

fun serverAddress :: "string \<Rightarrow> ServerAddressByClientCIDR list \<Rightarrow> string go_result" where
  "serverAddress hostIP [] = Inr []"
| "serverAddress hostIP (item # rest) =
     (case ParseCIDR (sa_ClientCIDR item) of
        None \<Rightarrow> Inl (ErrOther ''invalid CIDR address'')
      | Some cidrnet \<Rightarrow>
          if Contains cidrnet (ParseIP hostIP) then Inr (sa_ServerAddress item)
          else serverAddress hostIP rest)"

text \<open>The fields of the configuration are set before its error is looked at.\<close>

definition secret_config :: "'kc config_env \<Rightarrow> string \<Rightarrow> (string, string) gomap \<Rightarrow> rest_config go_result" where
  "secret_config env address secret =
     (case (mget secret ''token'', mget secret ''ca.crt'') of
        (Some token, Some ca) \<Rightarrow>
          (case ce_fromFlags env address of
             Inl _ \<Rightarrow> Inl (GoPanic ''nil clusterConfig'')
           | Inr config \<Rightarrow> Inr (config\<lparr>rc_CAData := ca, rc_BearerToken := token\<rparr>))
      | (None, None) \<Rightarrow> ce_fromGetter env address (KubeconfigGetterForSecret env secret)
      | _ \<Rightarrow> Inl (ErrOther ''secret should have values for either both or neither''))"

definition BuildClusterConfig :: "'kc config_env \<Rightarrow> FederatedCluster \<Rightarrow> rest_config go_result" where
  "BuildClusterConfig env fedCluster =
     rbind (ce_getCluster env MulticlusterPublicNamespace (cluster_name fedCluster)) (\<lambda>endpoints.
     rbind (ce_hostIP env) (\<lambda>hostIP.
     rbind (serverAddress hostIP endpoints) (\<lambda>address.
     if address = [] then Inl (ErrOther ''Unable to find address for cluster'')
     else
       rbind (case fs_SecretRef (fc_Spec fedCluster) of
            None \<Rightarrow> ce_fromFlags env address
          | Some name \<Rightarrow>
              if name = [] then Inl (ErrOther ''found secretRef but no secret name'')
              else rbind (ce_getSecret env FederationSystemNamespace name) (secret_config env address))
        (\<lambda>config. Inr (config\<lparr>rc_QPS := KubeAPIQPS, rc_Burst := KubeAPIBurst\<rparr>)))))"

end
