(* ===== verification/Federated_Informer.thy ===== *)
theory Federated_Informer
  imports Cluster_Config
begin

section \<open>The federated informer\<close>

text \<open>
  \<open>pkg/controller/util/federated_informer.go\<close>: an informer on the federated clusters and one target
  informer per ready cluster. Stop channels are numbered in the order they are made;
  \<open>fi_closed\<close> is the list of closed ones, and closing one twice panics. A target informer runs until its
  channel is closed. The clients are made by the parameter \<open>factory\<close>. Every method takes the
  lock first, so methods are atomic steps; \<open>cluster_delta\<close> is the processing of one delta of the
  cluster informer (\<open>NewInformer\<close> in \<open>vendor/k8s.io/client-go/tools/cache/controller.go\<close>): it
  changes the store and then calls the handler. Only the handler takes the lock: a reader that comes
  between the two, which are one step here, sees the new clusters with the old target informers. Items of the store that are no clusters, such as
  the tombstones \<open>DeletedFinalStateUnknown\<close>, are \<open>OtherItem\<close>.
\<close>

datatype store_item = ClusterItem FederatedCluster | OtherItem

record ('o, 'cl) informer =
  inf_store :: "(string, 'o) gomap"
  inf_synced :: bool
  inf_stopChan :: nat
  inf_cluster :: FederatedCluster
  inf_client :: 'cl

record ('o, 'cl) federated_informer =
  fi_clusters :: "(string, store_item) gomap"
  fi_clustersSynced :: bool
  fi_clusterStop :: "nat option"
  fi_targets :: "(string, ('o, 'cl) informer) gomap"
  fi_closed :: "nat list"
  fi_chans :: nat

text \<open>The objects of the target stores are unstructured, or of some other Go type.\<close>

datatype target_obj = Unstructured jobj | OtherType

record 'o federated_object =
  fo_ClusterName :: string
  fo_Object :: 'o

record lifecycle_handlers =
  lh_available :: bool
  lh_unavailable :: bool

datatype 'o lifecycle_call =
    ClusterAvailable FederatedCluster
  | ClusterUnavailable FederatedCluster "'o list"

type_synonym 'cl client_factory = "FederatedCluster \<Rightarrow> 'cl go_result"

definition NewFederatedInformer :: "('o, 'cl) federated_informer" where
  "NewFederatedInformer = \<lparr>fi_clusters = [], fi_clustersSynced = False, fi_clusterStop = None,
     fi_targets = [], fi_closed = [], fi_chans = 0\<rparr>"

text \<open>\<open>cache.Store.GetByKey\<close>, whose error is always nil.\<close>

definition store_GetByKey :: "(string, 'o) gomap \<Rightarrow> string \<Rightarrow> 'o option go_result" where
  "store_GetByKey store key = Inr (mget store key)"

definition close_chan :: "nat option \<Rightarrow> ('o, 'cl) federated_informer \<Rightarrow> ('o, 'cl) federated_informer go_result" where
  "close_chan ch f = (case ch of
     None \<Rightarrow> Inl (GoPanic ''close of nil channel'')
   | Some c \<Rightarrow> if c \<in> set (fi_closed f) then Inl (GoPanic ''close of closed channel'')
               else Inr (f\<lparr>fi_closed := fi_closed f @ [c]\<rparr>))"

subsection \<open>Cluster view\<close>

fun clusters_loop :: "(FederatedCluster \<Rightarrow> bool) \<Rightarrow> store_item list \<Rightarrow> FederatedCluster list go_result" where
  "clusters_loop sel [] = Inr []"
| "clusters_loop sel (OtherItem # items) = Inl (ErrOther ''wrong data in FederatedInformerImpl cluster store'')"
| "clusters_loop sel (ClusterItem cluster # items) =
     rbind (clusters_loop sel items) (\<lambda>rest. Inr (if sel cluster then cluster # rest else rest))"

definition GetReadyClusters :: "('o, 'cl) federated_informer \<Rightarrow> FederatedCluster list go_result" where
  "GetReadyClusters f = clusters_loop isClusterReady (map snd (fi_clusters f))"

definition GetUnreadyClusters :: "('o, 'cl) federated_informer \<Rightarrow> FederatedCluster list go_result" where
  "GetUnreadyClusters f = clusters_loop (\<lambda>c. \<not> isClusterReady c) (map snd (fi_clusters f))"

definition cluster_key :: "string \<Rightarrow> string" where
  "cluster_key name = FederationSystemNamespace @ ''/'' @ name"

definition GetReadyCluster :: "('o, 'cl) federated_informer \<Rightarrow> string \<Rightarrow> FederatedCluster option go_result" where
  "GetReadyCluster f name =
     (case store_GetByKey (fi_clusters f) (cluster_key name) of
        Inl e \<Rightarrow> Inl e
      | Inr None \<Rightarrow> Inr None
      | Inr (Some (ClusterItem cluster)) \<Rightarrow> if isClusterReady cluster then Inr (Some cluster) else Inr None
      | Inr (Some OtherItem) \<Rightarrow> Inl (ErrOther ''wrong data in FederatedInformerImpl cluster store''))"

definition GetClientForCluster :: "'cl client_factory \<Rightarrow> ('o, 'cl) federated_informer \<Rightarrow> string \<Rightarrow> 'cl go_result" where
  "GetClientForCluster factory f clusterName =
     (case GetReadyCluster f clusterName of
        Inr (Some cluster) \<Rightarrow> factory cluster
      | Inl e \<Rightarrow> Inl e
      | Inr None \<Rightarrow> Inl (ErrOther ''cluster not found''))"

subsection \<open>Adding and removing clusters\<close>

definition addCluster :: "'cl client_factory \<Rightarrow> FederatedCluster \<Rightarrow> ('o, 'cl) federated_informer \<Rightarrow> ('o, 'cl) federated_informer" where
  "addCluster factory cluster f =
     (let name = cluster_name cluster in
      case GetClientForCluster factory f name of
        Inl _ \<Rightarrow> f
      | Inr client \<Rightarrow>
          f\<lparr>fi_targets := mput name
               \<lparr>inf_store = [], inf_synced = False, inf_stopChan = fi_chans f,
                inf_cluster = cluster, inf_client = client\<rparr> (fi_targets f),
            fi_chans := Suc (fi_chans f)\<rparr>)"

definition deleteCluster :: "FederatedCluster \<Rightarrow> ('o, 'cl) federated_informer \<Rightarrow> ('o, 'cl) federated_informer go_result" where
  "deleteCluster cluster f =
     (let name = cluster_name cluster in
      case mget (fi_targets f) name of
        Some targetInformer \<Rightarrow>
          rbind (close_chan (Some (inf_stopChan targetInformer)) f)
            (\<lambda>f1. Inr (f1\<lparr>fi_targets := mdel name (fi_targets f1)\<rparr>))
      | None \<Rightarrow> Inr (f\<lparr>fi_targets := mdel name (fi_targets f)\<rparr>))"

definition ListFromCluster :: "('o, 'cl) federated_informer \<Rightarrow> string \<Rightarrow> 'o list" where
  "ListFromCluster f clusterName =
     (case mget (fi_targets f) clusterName of None \<Rightarrow> [] | Some i \<Rightarrow> map snd (inf_store i))"

definition make_unavailable :: "lifecycle_handlers \<Rightarrow> FederatedCluster
    \<Rightarrow> ('o, 'cl) federated_informer \<Rightarrow> (('o, 'cl) federated_informer \<times> 'o lifecycle_call list) go_result" where
  "make_unavailable lh oldCluster f =
     (let data = ListFromCluster f (cluster_name oldCluster)
      in rbind (deleteCluster oldCluster f)
           (\<lambda>f1. Inr (f1, if lh_unavailable lh then [ClusterUnavailable oldCluster data] else [])))"

definition make_available :: "lifecycle_handlers \<Rightarrow> 'cl client_factory \<Rightarrow> FederatedCluster
    \<Rightarrow> ('o, 'cl) federated_informer \<Rightarrow> ('o, 'cl) federated_informer \<times> 'o lifecycle_call list" where
  "make_available lh factory curCluster f =
     (addCluster factory curCluster f,
      if lh_available lh then [ClusterAvailable curCluster] else [])"

fun on_add :: "lifecycle_handlers \<Rightarrow> 'cl client_factory \<Rightarrow> store_item
    \<Rightarrow> ('o, 'cl) federated_informer \<Rightarrow> (('o, 'cl) federated_informer \<times> 'o lifecycle_call list) go_result" where
  "on_add lh factory (ClusterItem curCluster) f =
     (if isClusterReady curCluster then Inr (make_available lh factory curCluster f) else Inr (f, []))"
| "on_add lh factory OtherItem f = Inr (f, [])"

fun on_delete :: "lifecycle_handlers \<Rightarrow> store_item
    \<Rightarrow> ('o, 'cl) federated_informer \<Rightarrow> (('o, 'cl) federated_informer \<times> 'o lifecycle_call list) go_result" where
  "on_delete lh (ClusterItem oldCluster) f = make_unavailable lh oldCluster f"
| "on_delete lh OtherItem f = Inr (f, [])"

text \<open>
  \<open>reflect.DeepEqual\<close> on the specs is equality of the fields, on annotations equality as maps. (It also
  tells a nil map from an empty one, but what the API serves has no empty annotations: they are
  left out and decoded as nil.)
\<close>

definition cluster_changed :: "FederatedCluster \<Rightarrow> FederatedCluster \<Rightarrow> bool" where
  "cluster_changed oldCluster curCluster \<longleftrightarrow>
     isClusterReady oldCluster \<noteq> isClusterReady curCluster \<or> fc_Spec oldCluster \<noteq> fc_Spec curCluster \<or>
     \<not> gomap_eq (om_Annotations (fc_Meta oldCluster)) (om_Annotations (fc_Meta curCluster))"

fun on_update :: "lifecycle_handlers \<Rightarrow> 'cl client_factory \<Rightarrow> store_item \<Rightarrow> store_item
    \<Rightarrow> ('o, 'cl) federated_informer \<Rightarrow> (('o, 'cl) federated_informer \<times> 'o lifecycle_call list) go_result" where
  "on_update lh factory (ClusterItem oldCluster) (ClusterItem curCluster) f =
     (if cluster_changed oldCluster curCluster
      then rbind (make_unavailable lh oldCluster f) (\<lambda>(f1, calls).
        if isClusterReady curCluster
        then (let (f2, calls2) = make_available lh factory curCluster f1 in Inr (f2, calls @ calls2))
        else Inr (f1, calls))
      else Inr (f, []))"
| "on_update lh factory _ _ f = Inr (f, [])"

datatype cluster_delta = Changed string store_item | Gone string store_item

fun process_delta :: "lifecycle_handlers \<Rightarrow> 'cl client_factory \<Rightarrow> cluster_delta
    \<Rightarrow> ('o, 'cl) federated_informer \<Rightarrow> (('o, 'cl) federated_informer \<times> 'o lifecycle_call list) go_result" where
  "process_delta lh factory (Changed key item) f =
     (let f1 = f\<lparr>fi_clusters := mput key item (fi_clusters f)\<rparr>
      in case mget (fi_clusters f) key of
           Some old \<Rightarrow> on_update lh factory old item f1
         | None \<Rightarrow> on_add lh factory item f1)"
| "process_delta lh factory (Gone key item) f =
     on_delete lh item (f\<lparr>fi_clusters := mdel key (fi_clusters f)\<rparr>)"

subsection \<open>Start and Stop\<close>

definition Start :: "('o, 'cl) federated_informer \<Rightarrow> ('o, 'cl) federated_informer" where
  "Start f = f\<lparr>fi_clusterStop := Some (fi_chans f), fi_chans := Suc (fi_chans f)\<rparr>"

fun stop_targets :: "(string \<times> ('o, 'cl) informer) list \<Rightarrow> ('o, 'cl) federated_informer \<Rightarrow> ('o, 'cl) federated_informer go_result" where
  "stop_targets [] f = Inr f"
| "stop_targets ((key, informer) # rest) f =
     rbind (close_chan (Some (inf_stopChan informer)) f)
       (\<lambda>f1. stop_targets rest (f1\<lparr>fi_targets := mdel key (fi_targets f1)\<rparr>))"

definition Stop :: "('o, 'cl) federated_informer \<Rightarrow> ('o, 'cl) federated_informer go_result" where
  "Stop f = rbind (close_chan (fi_clusterStop f) f) (\<lambda>f1. stop_targets (fi_targets f1) f1)"

subsection \<open>The federated store\<close>

definition store_List :: "('o, 'cl) federated_informer \<Rightarrow> 'o federated_object list" where
  "store_List f = concat (map (\<lambda>(clusterName, i).
     map (\<lambda>(_, value). \<lparr>fo_ClusterName = clusterName, fo_Object = value\<rparr>) (inf_store i)) (fi_targets f))"

definition GetByKey :: "('o, 'cl) federated_informer \<Rightarrow> string \<Rightarrow> string \<Rightarrow> 'o option go_result" where
  "GetByKey f clusterName key =
     (case mget (fi_targets f) clusterName of
        Some targetInformer \<Rightarrow> store_GetByKey (inf_store targetInformer) key
      | None \<Rightarrow> Inr None)"

fun all_clusters_loop :: "string \<Rightarrow> (string \<times> ('o, 'cl) informer) list \<Rightarrow> 'o federated_object list go_result" where
  "all_clusters_loop key [] = Inr []"
| "all_clusters_loop key ((clusterName, i) # rest) =
     (case store_GetByKey (inf_store i) key of
        Inl err \<Rightarrow> Inl err
      | Inr value \<Rightarrow> rbind (all_clusters_loop key rest) (\<lambda>result. Inr (case value of
            Some obj \<Rightarrow> \<lparr>fo_ClusterName = clusterName, fo_Object = obj\<rparr> # result
          | None \<Rightarrow> result)))"

definition GetFromAllClusters :: "('o, 'cl) federated_informer \<Rightarrow> string \<Rightarrow> 'o federated_object list go_result" where
  "GetFromAllClusters f key = all_clusters_loop key (fi_targets f)"

fun informers_to_check :: "('o, 'cl) federated_informer \<Rightarrow> FederatedCluster list \<Rightarrow> ('o, 'cl) informer list option" where
  "informers_to_check f [] = Some []"
| "informers_to_check f (cluster # rest) =
     (case mget (fi_targets f) (cluster_name cluster) of
        Some i \<Rightarrow> map_option (Cons i) (informers_to_check f rest)
      | None \<Rightarrow> None)"

definition store_ClustersSynced :: "('o, 'cl) federated_informer \<Rightarrow> FederatedCluster list \<Rightarrow> bool" where
  "store_ClustersSynced f clusters =
     (if length (fi_targets f) \<noteq> length clusters then False
      else case informers_to_check f clusters of
        None \<Rightarrow> False
      | Some informers \<Rightarrow> \<not> list_ex (\<lambda>i. \<not> inf_synced i) informers)"

subsection \<open>Runs\<close>

text \<open>
  From \<open>Start\<close> on: deltas of the cluster informer, in which a deletion comes with the last state of
  the cluster, the first sync, and target informers that fill their stores.
\<close>

fun delta_ok :: "cluster_delta \<Rightarrow> bool" where
  "delta_ok (Changed key (ClusterItem c)) \<longleftrightarrow> key = cluster_key (cluster_name c)"
| "delta_ok (Gone key (ClusterItem c)) \<longleftrightarrow> key = cluster_key (cluster_name c)"
| "delta_ok (Changed _ OtherItem) \<longleftrightarrow> False"
| "delta_ok (Gone _ OtherItem) \<longleftrightarrow> False"

inductive informer_run :: "('o, 'cl) federated_informer \<Rightarrow> bool" where
  started: "informer_run (Start NewFederatedInformer)"
| delta: "informer_run f \<Longrightarrow> delta_ok d \<Longrightarrow> process_delta lh factory d f = Inr (f', calls) \<Longrightarrow> informer_run f'"
| clusters: "informer_run f \<Longrightarrow> informer_run (f\<lparr>fi_clustersSynced := True\<rparr>)"
| target: "informer_run f \<Longrightarrow> mget (fi_targets f) name = Some i \<Longrightarrow>
    informer_run (f\<lparr>fi_targets := mput name (i\<lparr>inf_store := store, inf_synced := synced\<rparr>) (fi_targets f)\<rparr>)"

text \<open>The channels that are open: what still runs.\<close>

definition open_chans :: "('o, 'cl) federated_informer \<Rightarrow> nat list" where
  "open_chans f = filter (\<lambda>c. c \<notin> set (fi_closed f)) [0..<fi_chans f]"

abbreviation target_chans :: "('o, 'cl) federated_informer \<Rightarrow> nat list" where
  "target_chans f \<equiv> map (inf_stopChan \<circ> snd) (fi_targets f)"

definition targets_match :: "('o, 'cl) federated_informer \<Rightarrow> bool" where
  "targets_match f \<longleftrightarrow> (\<forall>name i. mget (fi_targets f) name = Some i \<longrightarrow>
     (\<exists>c. mget (fi_clusters f) (cluster_key name) = Some (ClusterItem c) \<and> isClusterReady c \<and>
        \<not> cluster_changed (inf_cluster i) c \<and> cluster_name c = name))"

definition clusters_ok :: "('o, 'cl) federated_informer \<Rightarrow> bool" where
  "clusters_ok f \<longleftrightarrow> gomap_ok (fi_clusters f) \<and>
     (\<forall>key item. mget (fi_clusters f) key = Some item \<longrightarrow>
        (\<exists>c. item = ClusterItem c \<and> key = cluster_key (cluster_name c)))"

definition chans_ok :: "('o, 'cl) federated_informer \<Rightarrow> bool" where
  "chans_ok f \<longleftrightarrow> gomap_ok (fi_targets f) \<and>
     (\<exists>ch. fi_clusterStop f = Some ch \<and> distinct (ch # target_chans f) \<and>
        set (ch # target_chans f) = set (open_chans f)) \<and>
     (\<forall>c \<in> set (fi_closed f). c < fi_chans f)"

definition informer_ok :: "('o, 'cl) federated_informer \<Rightarrow> bool" where
  "informer_ok f \<longleftrightarrow> clusters_ok f \<and> targets_match f \<and> chans_ok f"

subsection \<open>The invariant\<close>

lemma mput_new: "mget m k = None \<Longrightarrow> mput k v m = m @ [(k, v)]"
  by (induction m) (auto split: if_splits)

lemma map_mput_same: "mget m k = Some v0 \<Longrightarrow> g v = g v0 \<Longrightarrow> map (g \<circ> snd) (mput k v m) = map (g \<circ> snd) m"
  by (induction m) auto

lemma mdel_image:
  assumes "gomap_ok m" "mget m k = Some v" "distinct (map (g \<circ> snd) m)"
  shows "distinct (map (g \<circ> snd) (mdel k m))" "set (map (g \<circ> snd) (mdel k m)) = set (map (g \<circ> snd) m) - {g v}"
  using assms
proof (induction m)
  case (Cons p m)
  obtain k' v' where p: "p = (k', v')" by (cases p)
  {
    case 1
    show ?case
    proof (cases "k' = k")
      case True
      then have "k \<notin> fst ` set m" using 1(1) by (auto simp: p gomap_ok_def)
      then have "mdel k m = m" by (simp add: delete_idem)
      with True 1 show ?thesis by (simp add: p)
    next
      case False
      then have m: "gomap_ok m" "mget m k = Some v" "distinct (map (g \<circ> snd) m)"
        using 1 by (simp_all add: p gomap_ok_def comp_def)
      note IH = Cons.IH(1) [OF m] Cons.IH(2) [OF m]
      have "g v' \<notin> set (map (g \<circ> snd) (mdel k m))"
        using 1(3) unfolding IH(2) by (simp add: p)
      with False IH(1) show ?thesis by (simp add: p)
    qed
  next
    case 2
    show ?case
    proof (cases "k' = k")
      case True
      then have "k \<notin> fst ` set m" using 2(1) by (auto simp: p gomap_ok_def)
      then have "mdel k m = m" by (simp add: delete_idem)
      with True 2 show ?thesis by (auto simp: p)
    next
      case False
      with 2 have IH: "set (map (g \<circ> snd) (mdel k m)) = set (map (g \<circ> snd) m) - {g v}"
        by (intro Cons.IH(2)) (auto simp: p gomap_ok_def)
      have "mget m k = Some v" using False 2(2) by (simp add: p)
      then have "(k, v) \<in> set m" by (rule map_of_SomeD)
      then have "g v' \<noteq> g v" using 2(3) by (force simp: p)
      with False IH show ?thesis by (auto simp: p)
    qed
  }
qed simp_all

lemma open_chans_iff: "c \<in> set (open_chans f) \<longleftrightarrow> c < fi_chans f \<and> c \<notin> set (fi_closed f)"
  by (auto simp: open_chans_def)

lemma deleteCluster_ok:
  assumes "chans_ok f"
  shows "\<exists>f'. deleteCluster c f = Inr f' \<and> chans_ok f' \<and> fi_clusters f' = fi_clusters f \<and>
    fi_targets f' = mdel (cluster_name c) (fi_targets f)"
proof -
  obtain ch where ok: "gomap_ok (fi_targets f)" "fi_clusterStop f = Some ch" "distinct (ch # target_chans f)"
    "set (ch # target_chans f) = set (open_chans f)" and closed: "\<forall>c \<in> set (fi_closed f). c < fi_chans f"
    using assms unfolding chans_ok_def by blast
  show ?thesis
  proof (cases "mget (fi_targets f) (cluster_name c)")
    case None
    then have "mdel (cluster_name c) (fi_targets f) = fi_targets f"
      by (simp add: map_of_eq_None_iff delete_idem)
    with None assms show ?thesis by (simp add: deleteCluster_def)
  next
    case (Some i)
    note del = mdel_image [OF ok(1) Some, where g = inf_stopChan]
    have mem: "inf_stopChan i \<in> set (target_chans f)" using map_of_SomeD [OF Some] by force
    then have "inf_stopChan i \<in> set (open_chans f)" using ok(4) by auto
    then have open_i: "inf_stopChan i \<notin> set (fi_closed f)" and mem': "inf_stopChan i < fi_chans f"
      by (simp_all add: open_chans_iff)
    let ?f' = "f\<lparr>fi_closed := fi_closed f @ [inf_stopChan i], fi_targets := mdel (cluster_name c) (fi_targets f)\<rparr>"
    have run: "deleteCluster c f = Inr ?f'"
      using open_i by (simp add: deleteCluster_def Some close_chan_def)
    have opens: "set (open_chans ?f') = set (open_chans f) - {inf_stopChan i}"
      by (auto simp: open_chans_iff)
    have "ch \<noteq> inf_stopChan i" using ok(3) mem by auto
    then have "chans_ok ?f'"
      unfolding chans_ok_def opens ok(4) [symmetric]
      using ok(1-3) del closed mem' by auto
    with run show ?thesis by auto
  qed
qed

lemma addCluster_ok:
  fixes f :: "('o, 'cl) federated_informer"
  assumes "chans_ok f" "mget (fi_targets f) (cluster_name c) = None"
  shows "chans_ok (addCluster factory c f)" and "fi_clusters (addCluster factory c f) = fi_clusters f"
    and "fi_targets (addCluster factory c f) = fi_targets f \<or>
      (\<exists>i. inf_cluster i = c \<and> fi_targets (addCluster factory c f) = mput (cluster_name c) i (fi_targets f))"
proof -
  show "chans_ok (addCluster factory c f)"
  proof (cases "GetClientForCluster factory f (cluster_name c)")
    case (Inl e)
    with assms show ?thesis by (simp add: addCluster_def)
  next
    case (Inr client)
    obtain ch where ok: "gomap_ok (fi_targets f)" "fi_clusterStop f = Some ch" "distinct (ch # target_chans f)"
      "set (ch # target_chans f) = set (open_chans f)" and closed: "\<forall>c \<in> set (fi_closed f). c < fi_chans f"
      using assms(1) unfolding chans_ok_def by blast
    let ?f' = "addCluster factory c f"
    have t: "target_chans ?f' = target_chans f @ [fi_chans f]"
      using Inr by (simp add: addCluster_def mput_new [OF assms(2)])
    have fresh: "fi_chans f \<notin> set (ch # target_chans f)"
      unfolding ok(4) by (simp add: open_chans_iff)
    have "set (open_chans ?f') = insert (fi_chans f) (set (open_chans f)) \<or> fi_chans f \<in> set (fi_closed f)"
      using Inr by (auto simp: addCluster_def open_chans_iff less_Suc_eq)
    moreover have "fi_chans f \<notin> set (fi_closed f)" using closed by auto
    ultimately have opens: "set (open_chans ?f') = insert (fi_chans f) (set (open_chans f))" by blast
    have "fi_clusterStop ?f' = Some ch" "gomap_ok (fi_targets ?f')" "\<forall>c \<in> set (fi_closed ?f'). c < fi_chans ?f'"
      using Inr ok(1,2) closed by (auto simp: addCluster_def less_Suc_eq)
    moreover have "distinct (ch # target_chans ?f')" "set (ch # target_chans ?f') = set (open_chans ?f')"
      unfolding t opens ok(4) [symmetric] using ok(3) fresh by auto
    ultimately show ?thesis unfolding chans_ok_def by blast
  qed
  show "fi_clusters (addCluster factory c f) = fi_clusters f"
    by (simp add: addCluster_def Let_def split: sum.split)
  show "fi_targets (addCluster factory c f) = fi_targets f \<or>
      (\<exists>i. inf_cluster i = c \<and> fi_targets (addCluster factory c f) = mput (cluster_name c) i (fi_targets f))"
    by (force simp: addCluster_def Let_def split: sum.split)
qed


lemma cluster_key_inj: "cluster_key a = cluster_key b \<longleftrightarrow> a = b"
  by (simp add: cluster_key_def)

lemma cluster_changed_trans:
  "\<not> cluster_changed a b \<Longrightarrow> \<not> cluster_changed b c \<Longrightarrow> \<not> cluster_changed a c"
  by (simp add: cluster_changed_def gomap_eq_iff)

lemma cluster_changed_refl: "\<not> cluster_changed c c"
  by (simp add: cluster_changed_def)

lemma clusters_ok_mput:
  assumes "clusters_ok f" "key = cluster_key (cluster_name c)"
    and "fi_clusters f' = mput key (ClusterItem c) (fi_clusters f)"
  shows "clusters_ok f'"
  using assms by (auto simp: clusters_ok_def)

lemma clusters_ok_mdel:
  assumes "clusters_ok f" "fi_clusters f' = mdel key (fi_clusters f)"
  shows "clusters_ok f'"
  using assms by (auto simp: clusters_ok_def)

lemma clusters_ok_cong: "clusters_ok f \<Longrightarrow> fi_clusters f' = fi_clusters f \<Longrightarrow> clusters_ok f'"
  by (simp add: clusters_ok_def)

lemma chans_ok_clusters [simp]: "chans_ok (f\<lparr>fi_clusters := m\<rparr>) = chans_ok f"
  by (simp add: chans_ok_def open_chans_def)

text \<open>The targets after a cluster was changed: those of the others, and possibly one for it.\<close>

lemma targets_match_change:
  assumes match: "targets_match f" and clusters: "fi_clusters f' = mput (cluster_key (cluster_name c)) (ClusterItem c) (fi_clusters f)"
    and others: "\<And>name. name \<noteq> cluster_name c \<Longrightarrow> mget (fi_targets f') name = mget (fi_targets f) name"
    and own: "\<And>i. mget (fi_targets f') (cluster_name c) = Some i \<Longrightarrow> isClusterReady c \<and> \<not> cluster_changed (inf_cluster i) c"
  shows "targets_match f'"
  unfolding targets_match_def
proof (intro allI impI)
  fix name i
  assume i: "mget (fi_targets f') name = Some i"
  show "\<exists>c. mget (fi_clusters f') (cluster_key name) = Some (ClusterItem c) \<and> isClusterReady c \<and>
      \<not> cluster_changed (inf_cluster i) c \<and> cluster_name c = name"
  proof (cases "name = cluster_name c")
    case True
    then show ?thesis using own [of i] i by (simp add: clusters)
  next
    case False
    then show ?thesis using match others [OF False] i by (simp add: targets_match_def clusters cluster_key_inj)
  qed
qed

lemma targets_matchD:
  assumes "targets_match f" "mget (fi_targets f) name = Some i" "mget (fi_clusters f) (cluster_key name) = Some (ClusterItem c)"
  shows "isClusterReady c \<and> \<not> cluster_changed (inf_cluster i) c \<and> cluster_name c = name"
proof -
  obtain d where "mget (fi_clusters f) (cluster_key name) = Some (ClusterItem d)"
    "isClusterReady d \<and> \<not> cluster_changed (inf_cluster i) d \<and> cluster_name d = name"
    using assms(1,2) unfolding targets_match_def by blast
  with assms(3) show ?thesis by simp
qed

lemma process_Changed_ok:
  fixes f :: "('o, 'cl) federated_informer"
  assumes ok: "informer_ok f" and key_def: "key = cluster_key (cluster_name c)"
  shows "\<exists>f' calls. process_delta lh factory (Changed key (ClusterItem c)) f = Inr (f', calls) \<and> informer_ok f'"
proof -
  let ?m = "mput key (ClusterItem c) (fi_clusters f)"
  let ?f1 = "f\<lparr>fi_clusters := ?m\<rparr>"
  have parts: "clusters_ok f" "targets_match f" "chans_ok f" using ok by (simp_all add: informer_ok_def)
  have cok: "clusters_ok f'" if "fi_clusters f' = ?m" for f' :: "('o, 'cl) federated_informer"
    using clusters_ok_mput [OF parts(1) refl, of f'] that by (simp add: key_def)
  note change = targets_match_change [OF parts(2), of _ c, folded key_def]
  show ?thesis
  proof (cases "mget (fi_clusters f) key")
    case None
    have no: "mget (fi_targets f) (cluster_name c) = None"
      using parts(2) None unfolding targets_match_def key_def
      by (metis option.distinct(1) not_Some_eq)
    show ?thesis
    proof (cases "isClusterReady c")
      case False
      have "targets_match ?f1" by (rule change) (use no in simp_all)
      with False None parts cok [of ?f1] show ?thesis by (simp add: Let_def informer_ok_def)
    next
      case True
      let ?f2 = "addCluster factory c ?f1"
      note add = addCluster_ok [of ?f1 c factory]
      have add': "chans_ok ?f2" "fi_clusters ?f2 = ?m" using add(1,2) parts(3) no by simp_all
      have "targets_match ?f2"
        by (rule change) (use add(2,3) parts(3) no True cluster_changed_refl in auto)
      with True None add' cok [of ?f2] show ?thesis
        by (simp add: Let_def informer_ok_def make_available_def)
    qed
  next
    case (Some item)
    then obtain old where old: "item = ClusterItem old" "cluster_name old = cluster_name c"
      using parts(1) unfolding clusters_ok_def key_def by (metis cluster_key_inj)
    show ?thesis
    proof (cases "cluster_changed old c")
      case False
      have "targets_match ?f1"
      proof (rule change)
        fix i
        assume "mget (fi_targets ?f1) (cluster_name c) = Some i"
        then have "isClusterReady old" "\<not> cluster_changed (inf_cluster i) old"
          using targets_matchD [OF parts(2), of "cluster_name c" i old] Some old by (simp_all add: key_def)
        with False show "isClusterReady c \<and> \<not> cluster_changed (inf_cluster i) c"
          using cluster_changed_trans [of "inf_cluster i" old c] by (auto simp: cluster_changed_def)
      qed simp_all
      with False Some old parts cok [of ?f1] show ?thesis by (simp add: Let_def informer_ok_def)
    next
      case True
      obtain f2 where f2: "deleteCluster old ?f1 = Inr f2" "chans_ok f2" "fi_clusters f2 = ?m"
        "fi_targets f2 = mdel (cluster_name c) (fi_targets f)"
        using deleteCluster_ok [of ?f1 old] parts(3) old(2) by auto
      show ?thesis
      proof (cases "isClusterReady c")
        case False
        have "targets_match f2" by (rule change) (use f2 in simp_all)
        with False True Some old f2 cok [of f2] show ?thesis
          by (simp add: Let_def informer_ok_def make_unavailable_def)
      next
        case ready: True
        let ?f3 = "addCluster factory c f2"
        have no: "mget (fi_targets f2) (cluster_name c) = None" by (simp add: f2)
        note add = addCluster_ok [OF f2(2) no, of factory]
        have "targets_match ?f3"
          by (rule change) (use add(2,3) f2 ready cluster_changed_refl in auto)
        with ready True Some old f2 add cok [of ?f3] show ?thesis
          by (simp add: Let_def informer_ok_def make_unavailable_def make_available_def)
      qed
    qed
  qed
qed

lemma process_Gone_ok:
  assumes ok: "informer_ok f"
  shows "\<exists>f' calls. process_delta lh factory (Gone (cluster_key (cluster_name c)) (ClusterItem c)) f = Inr (f', calls) \<and> informer_ok f'"
proof -
  let ?m = "mdel (cluster_key (cluster_name c)) (fi_clusters f)"
  let ?f1 = "f\<lparr>fi_clusters := ?m\<rparr>"
  have parts: "clusters_ok f" "targets_match f" "chans_ok f" using ok by (simp_all add: informer_ok_def)
  obtain f2 where f2: "deleteCluster c ?f1 = Inr f2" "chans_ok f2" "fi_clusters f2 = ?m"
    "fi_targets f2 = mdel (cluster_name c) (fi_targets f)"
    using deleteCluster_ok [of ?f1 c] parts(3) by auto
  have "targets_match f2"
    using parts(2) by (simp add: targets_match_def f2 cluster_key_inj)
  with f2 clusters_ok_mdel [OF parts(1) f2(3)] show ?thesis
    by (simp add: Let_def informer_ok_def make_unavailable_def)
qed

lemma process_delta_ok:
  assumes "informer_ok f" "delta_ok d"
  shows "\<exists>f' calls. process_delta lh factory d f = Inr (f', calls) \<and> informer_ok f'"
  using assms(2)
proof (cases d rule: delta_ok.cases)
  case (1 key c)
  with assms show ?thesis using process_Changed_ok [OF assms(1) refl, where c = c] by auto
next
  case (2 key c)
  with assms show ?thesis using process_Gone_ok [OF assms(1), where c = c] by auto
qed auto

lemma informer_ok_Start: "informer_ok (Start NewFederatedInformer)"
  by (simp add: informer_ok_def clusters_ok_def targets_match_def chans_ok_def open_chans_def
      Start_def NewFederatedInformer_def)

lemma informer_ok_target:
  assumes "informer_ok f" "mget (fi_targets f) name = Some i"
  shows "informer_ok (f\<lparr>fi_targets := mput name (i\<lparr>inf_store := st, inf_synced := s\<rparr>) (fi_targets f)\<rparr>)"
    (is "informer_ok ?f'")
proof -
  have t: "target_chans ?f' = target_chans f"
    using map_mput_same [OF assms(2), of inf_stopChan] by simp
  have "chans_ok f" using assms(1) by (simp add: informer_ok_def)
  then have "chans_ok ?f'" unfolding chans_ok_def t by (simp add: open_chans_def)
  moreover have "targets_match ?f'" "clusters_ok ?f'"
    using assms by (auto simp: informer_ok_def targets_match_def clusters_ok_def)
  ultimately show ?thesis by (simp add: informer_ok_def)
qed

theorem informer_run_ok: "informer_run f \<Longrightarrow> informer_ok f"
proof (induction rule: informer_run.induct)
  case started
  show ?case by (rule informer_ok_Start)
next
  case (delta f d lh factory f' calls)
  then show ?case using process_delta_ok [of f d lh factory] by auto
next
  case (clusters f)
  then show ?case
    by (simp add: informer_ok_def clusters_ok_def targets_match_def chans_ok_def open_chans_def)
next
  case (target f name i store synced)
  then show ?case by (intro informer_ok_target)
qed

lemma stop_targets_ok:
  assumes "distinct (map (inf_stopChan \<circ> snd) l)" "set (map (inf_stopChan \<circ> snd) l) \<inter> set (fi_closed f) = {}"
  shows "\<exists>f'. stop_targets l f = Inr f' \<and> fi_chans f' = fi_chans f \<and>
    set (fi_closed f') = set (fi_closed f) \<union> set (map (inf_stopChan \<circ> snd) l) \<and>
    fi_targets f' = foldl (\<lambda>m k. mdel k m) (fi_targets f) (map fst l)"
  using assms
proof (induction l arbitrary: f)
  case (Cons p l)
  obtain k i where p: "p = (k, i)" by (cases p)
  let ?f1 = "f\<lparr>fi_closed := fi_closed f @ [inf_stopChan i], fi_targets := mdel k (fi_targets f)\<rparr>"
  have "inf_stopChan i \<notin> set (fi_closed f)" using Cons.prems(2) by (auto simp: p)
  then have "stop_targets (p # l) f = stop_targets l ?f1" by (simp add: p close_chan_def)
  moreover have "\<exists>f'. stop_targets l ?f1 = Inr f' \<and> fi_chans f' = fi_chans ?f1 \<and>
    set (fi_closed f') = set (fi_closed ?f1) \<union> set (map (inf_stopChan \<circ> snd) l) \<and>
    fi_targets f' = foldl (\<lambda>m k. mdel k m) (fi_targets ?f1) (map fst l)"
    using Cons.prems by (intro Cons.IH) (auto simp: p)
  ultimately show ?case by (auto simp: p)
qed simp

lemma foldl_mdel_nil: "foldl (\<lambda>m k. mdel k m) [] ks = []"
  by (induction ks) simp_all

lemma foldl_mdel_all: "foldl (\<lambda>m k. mdel k m) m (map fst m @ ks) = []"
proof -
  have "mget (foldl (\<lambda>m k. mdel k m) m ks) x = (if x \<in> set ks then None else mget m x)" for x ks and m :: "('a \<times> 'b) list"
    by (induction ks arbitrary: m) auto
  then have "mget (foldl (\<lambda>m k. mdel k m) m (map fst m @ ks)) x = None" for x
    by (auto simp: map_of_eq_None_iff simp del: foldl_append)
  then show ?thesis by (metis map_of_eq_empty_iff ext)
qed

lemma Stop_ok:
  assumes "chans_ok f"
  shows "\<exists>f'. Stop f = Inr f' \<and> open_chans f' = [] \<and> fi_targets f' = []"
proof -
  obtain ch where ok: "fi_clusterStop f = Some ch" "distinct (ch # target_chans f)"
    "set (ch # target_chans f) = set (open_chans f)"
    using assms unfolding chans_ok_def by blast
  have opens: "\<And>c. c \<in> set (ch # target_chans f) \<Longrightarrow> c \<notin> set (fi_closed f)"
    unfolding ok(3) by (simp add: open_chans_iff)
  then have ch: "ch \<notin> set (fi_closed f)" by simp
  let ?f1 = "f\<lparr>fi_closed := fi_closed f @ [ch]\<rparr>"
  obtain f' where f': "stop_targets (fi_targets f) ?f1 = Inr f'" "fi_chans f' = fi_chans f"
    "set (fi_closed f') = set (fi_closed f) \<union> set (ch # target_chans f)"
    "fi_targets f' = foldl (\<lambda>m k. mdel k m) (fi_targets f) (map fst (fi_targets f))"
    using stop_targets_ok [of "fi_targets f" ?f1] ok(2) opens by (auto simp: Int_Un_distrib)
  have "Stop f = Inr f'" by (simp add: Stop_def close_chan_def ok(1) ch f'(1))
  moreover have "set (open_chans f') = {}"
    using f'(2,3) ok(3) by (auto simp: open_chans_iff set_eq_iff simp del: set_simps)
  moreover have "fi_targets f' = []" using f'(4) foldl_mdel_all [of "fi_targets f" "[]"] by simp
  ultimately show ?thesis by auto
qed

end
