(* ===== verification/Cluster_Controller.thy ===== *)
theory Cluster_Controller
  imports Federated_Informer
begin

section \<open>The federated cluster controller\<close>

text \<open>
  \<open>pkg/controller/federatedcluster\<close>: \<open>clusterclient.go\<close>, which turns a health probe and the
  labels of a node into a status, and \<open>controller.go\<close>, which tracks the clusters and writes their
  status periodically. Responses of the clusters and the API are the parameter \<open>cluster_env\<close>;
  the handlers that run while a cluster is probed are \<open>env_meanwhile\<close>.
\<close>

subsection \<open>The cluster client\<close>

record Node =
  nd_Name :: string
  nd_Labels :: "(string, string) gomap"

definition LabelZoneFailureDomain :: string where
  "LabelZoneFailureDomain = ''failure-domain.beta.kubernetes.io/zone''"

definition LabelZoneRegion :: string where
  "LabelZoneRegion = ''failure-domain.beta.kubernetes.io/region''"

text \<open>\<open>strings.EqualFold\<close> on ASCII strings.\<close>

definition EqualFold :: "string \<Rightarrow> string \<Rightarrow> bool" where
  "EqualFold s t \<longleftrightarrow> to_lower s = to_lower t"

definition health_condition :: "int \<Rightarrow> string \<Rightarrow> string \<Rightarrow> string \<Rightarrow> string \<Rightarrow> ClusterCondition" where
  "health_condition currentTime ty status reason message =
     \<lparr>cn_Type = ty, cn_Status = status, cn_LastProbeTime = currentTime,
      cn_LastTransitionTime = currentTime, cn_Reason = reason, cn_Message = message\<rparr>"

definition GetClusterHealthStatus :: "int \<Rightarrow> string go_result \<Rightarrow> FederatedClusterStatus" where
  "GetClusterHealthStatus currentTime healthz =
     (let ready = health_condition currentTime ClusterReady ConditionTrue ''ClusterReady''
            ''/healthz responded with ok'';
          notReady = health_condition currentTime ClusterReady ConditionFalse ''ClusterNotReady''
            ''/healthz responded without ok'';
          offline = health_condition currentTime ClusterOffline ConditionTrue ''ClusterNotReachable''
            ''cluster is not reachable'';
          notOffline = health_condition currentTime ClusterOffline ConditionFalse ''ClusterReachable''
            ''cluster is reachable''
      in \<lparr>fst_Conditions = (case healthz of
             Inl _ \<Rightarrow> [offline]
           | Inr body \<Rightarrow> if \<not> EqualFold body ''ok'' then [notReady, notOffline] else [ready]),
          fst_Zone = [], fst_Region = []\<rparr>)"

fun label_loop :: "string \<Rightarrow> (string, string) gomap \<Rightarrow> string go_result" where
  "label_loop l [] = Inl (ErrOther ''No label with key'')"
| "label_loop l ((key, v) # rest) = (if key = l then Inr v else label_loop l rest)"

definition getZoneNameForNode :: "Node \<Rightarrow> string go_result" where
  "getZoneNameForNode node = label_loop LabelZoneFailureDomain (nd_Labels node)"

definition getRegionNameForNode :: "Node \<Rightarrow> string go_result" where
  "getRegionNameForNode node = label_loop LabelZoneRegion (nd_Labels node)"

text \<open>The loop over the nodes ends with the first one.\<close>

definition GetClusterZones :: "Node list go_result \<Rightarrow> (string \<times> string) go_result" where
  "GetClusterZones nodes =
     (case nodes of
        Inl err \<Rightarrow> Inl err
      | Inr [] \<Rightarrow> Inr ([], [])
      | Inr (node # _) \<Rightarrow>
          rbind (getZoneNameForNode node) (\<lambda>zone.
          rbind (getRegionNameForNode node) (\<lambda>region. Inr (zone, region))))"

subsection \<open>The known clusters\<close>

record 'cl cluster_controller =
  knownClusterSet :: sset
  clusterClusterStatusMap :: "(string, FederatedClusterStatus) gomap"
  clusterKubeClientMap :: "(string, 'cl) gomap"

definition newClusterController :: "'cl cluster_controller" where
  "newClusterController =
     \<lparr>knownClusterSet = [], clusterClusterStatusMap = [], clusterKubeClientMap = []\<rparr>"

text \<open>
  \<open>NewForConfigOrDie\<close> panics on a bad configuration; a nil client gives a nil result.
\<close>

definition NewClusterClientSet :: "'kc config_env \<Rightarrow> (rest_config \<Rightarrow> 'cl option go_result) \<Rightarrow> FederatedCluster
    \<Rightarrow> 'cl option go_result" where
  "NewClusterClientSet cenv newForConfigOrDie c =
     rbind (BuildClusterConfig cenv c) (\<lambda>clusterConfig. newForConfigOrDie clusterConfig)"

definition delFromClusterSetByName :: "string \<Rightarrow> 'cl cluster_controller \<Rightarrow> 'cl cluster_controller" where
  "delFromClusterSetByName clusterName cc =
     cc\<lparr>knownClusterSet := sset_delete clusterName (knownClusterSet cc),
        clusterKubeClientMap := mdel clusterName (clusterKubeClientMap cc),
        clusterClusterStatusMap := mdel clusterName (clusterClusterStatusMap cc)\<rparr>"

fun delFromClusterSet :: "store_item \<Rightarrow> 'cl cluster_controller \<Rightarrow> 'cl cluster_controller go_result" where
  "delFromClusterSet (ClusterItem cluster) cc = Inr (delFromClusterSetByName (cluster_name cluster) cc)"
| "delFromClusterSet OtherItem cc = Inl (GoPanic ''interface conversion'')"

text \<open>\<open>newClient\<close> is the result of \<open>NewClusterClientSet\<close> for the cluster.\<close>

definition addToClusterSetWithoutLock :: "'cl option go_result \<Rightarrow> FederatedCluster \<Rightarrow> 'cl cluster_controller
    \<Rightarrow> 'cl cluster_controller go_result" where
  "addToClusterSetWithoutLock newClient cluster cc =
     (if sset_has (knownClusterSet cc) (cluster_name cluster) then Inr cc
      else
        (let cc1 = cc\<lparr>knownClusterSet := sset_insert (cluster_name cluster) (knownClusterSet cc)\<rparr>
         in case newClient of
              Inl err \<Rightarrow> if is_panic err then Inl err else Inr cc1
            | Inr None \<Rightarrow> Inr cc1
            | Inr (Some restClient) \<Rightarrow>
                Inr (cc1\<lparr>clusterKubeClientMap := mput (cluster_name cluster) restClient (clusterKubeClientMap cc1)\<rparr>)))"

fun addToClusterSet :: "'cl option go_result \<Rightarrow> store_item \<Rightarrow> 'cl cluster_controller
    \<Rightarrow> 'cl cluster_controller go_result" where
  "addToClusterSet newClient (ClusterItem cluster) cc = addToClusterSetWithoutLock newClient cluster cc"
| "addToClusterSet newClient OtherItem cc = Inl (GoPanic ''interface conversion'')"

subsection \<open>Monitoring\<close>

fun conditions_differ :: "ClusterCondition list \<Rightarrow> ClusterCondition list \<Rightarrow> bool" where
  "conditions_differ (new # news) (old # olds) =
     (if \<not> (EqualFold (cn_Type new) (cn_Type old) \<and> EqualFold (cn_Status new) (cn_Status old))
      then True else conditions_differ news olds)"
| "conditions_differ _ _ = False"

definition hasTransition :: "FederatedClusterStatus \<Rightarrow> FederatedClusterStatus \<Rightarrow> bool" where
  "hasTransition new old =
     (if length (fst_Conditions new) \<noteq> length (fst_Conditions old) then True
      else conditions_differ (fst_Conditions new) (fst_Conditions old))"

definition keep_transition_times :: "FederatedClusterStatus \<Rightarrow> FederatedClusterStatus \<Rightarrow> FederatedClusterStatus" where
  "keep_transition_times new old =
     new\<lparr>fst_Conditions := map2 (\<lambda>n o'. n\<lparr>cn_LastTransitionTime := cn_LastTransitionTime o'\<rparr>)
       (fst_Conditions new) (fst_Conditions old)\<rparr>"

text \<open>The new status of a cluster: its probe against the status recorded before, if any.\<close>

definition probe_status :: "int \<Rightarrow> string go_result \<Rightarrow> Node list go_result \<Rightarrow> FederatedCluster
    \<Rightarrow> FederatedClusterStatus option \<Rightarrow> FederatedClusterStatus" where
  "probe_status now healthz nodes cluster statusOld =
     (let status = GetClusterHealthStatus now healthz;
          status1 = (case statusOld of
             None \<Rightarrow> status
           | Some old \<Rightarrow> if \<not> hasTransition status old then keep_transition_times status old else status)
      in case GetClusterZones nodes of
           Inl _ \<Rightarrow> status1
         | Inr (zone, region) \<Rightarrow>
             status1\<lparr>fst_Zone := if length zone = 0 then fst_Zone (fc_Status cluster) else zone,
                     fst_Region := if length region = 0 then fst_Region (fc_Status cluster) else region\<rparr>)"

record 'cl cluster_env =
  env_now :: int
  env_healthz :: "'cl \<Rightarrow> string go_result"
  env_nodes :: "'cl \<Rightarrow> Node list go_result"
  env_meanwhile :: "string \<Rightarrow> 'cl cluster_controller \<Rightarrow> 'cl cluster_controller"

text \<open>
  The body of the loop: the cluster whose status is written, or none when it is skipped. A failed
  \<open>UpdateStatus\<close> is logged only, so its result has no effect.
\<close>

definition monitor_cluster :: "'cl cluster_env \<Rightarrow> FederatedCluster \<Rightarrow> 'cl cluster_controller
    \<Rightarrow> FederatedCluster list \<times> 'cl cluster_controller" where
  "monitor_cluster env cluster cc =
     (if \<not> sset_has (knownClusterSet cc) (cluster_name cluster) then ([], cc)
      else case mget (clusterKubeClientMap cc) (cluster_name cluster) of
        None \<Rightarrow> ([], cc)
      | Some clusterClient \<Rightarrow>
          (let statusOld = mget (clusterClusterStatusMap cc) (cluster_name cluster);
               statusNew = probe_status (env_now env) (env_healthz env clusterClient)
                 (env_nodes env clusterClient) cluster statusOld;
               cc1 = env_meanwhile env (cluster_name cluster) cc
           in ([cluster\<lparr>fc_Status := statusNew\<rparr>],
               cc1\<lparr>clusterClusterStatusMap :=
                 mput (cluster_name cluster) statusNew (clusterClusterStatusMap cc1)\<rparr>)))"

fun monitor_clusters :: "'cl cluster_env \<Rightarrow> FederatedCluster list \<Rightarrow> 'cl cluster_controller
    \<Rightarrow> FederatedCluster list \<times> 'cl cluster_controller" where
  "monitor_clusters env [] cc = ([], cc)"
| "monitor_clusters env (cluster # rest) cc =
     (let (updates, cc1) = monitor_cluster env cluster cc;
          (updates2, cc2) = monitor_clusters env rest cc1
      in (updates @ updates2, cc2))"

definition updateClusterStatus :: "'cl cluster_env \<Rightarrow> FederatedCluster list go_result \<Rightarrow> 'cl cluster_controller
    \<Rightarrow> go_error option \<times> FederatedCluster list \<times> 'cl cluster_controller" where
  "updateClusterStatus env clusters cc =
     (case clusters of
        Inl err \<Rightarrow> (Some err, [], cc)
      | Inr items \<Rightarrow> (let (updates, cc1) = monitor_clusters env items cc in (None, updates, cc1)))"

subsection \<open>Facts\<close>

lemma label_loop_iff: "label_loop l m = (case mget m l of Some v \<Rightarrow> Inr v | None \<Rightarrow> Inl (ErrOther ''No label with key''))"
  by (induction l m rule: label_loop.induct) auto

text \<open>The outcomes of a probe, and the conditions each gives.\<close>

datatype health = Healthy | Unhealthy | Unreachable

fun health_of :: "string go_result \<Rightarrow> health" where
  "health_of (Inl _) = Unreachable"
| "health_of (Inr body) = (if EqualFold body ''ok'' then Healthy else Unhealthy)"

definition kinds :: "ClusterCondition list \<Rightarrow> (string \<times> string) list" where
  "kinds = map (\<lambda>c. (cn_Type c, cn_Status c))"

fun health_kinds :: "health \<Rightarrow> (string \<times> string) list" where
  "health_kinds Healthy = [(ClusterReady, ConditionTrue)]"
| "health_kinds Unhealthy = [(ClusterReady, ConditionFalse), (ClusterOffline, ConditionFalse)]"
| "health_kinds Unreachable = [(ClusterOffline, ConditionTrue)]"

lemma GetClusterHealthStatus_kinds:
  "kinds (fst_Conditions (GetClusterHealthStatus t r)) = health_kinds (health_of r)"
  "\<forall>c \<in> set (fst_Conditions (GetClusterHealthStatus t r)). cn_LastProbeTime c = t \<and> cn_LastTransitionTime c = t"
  by (cases r; simp add: GetClusterHealthStatus_def kinds_def health_condition_def)+

lemma conditions_differ_iff:
  "length news = length olds \<Longrightarrow> conditions_differ news olds \<longleftrightarrow>
     map (\<lambda>(a, b). (to_lower a, to_lower b)) (kinds news) \<noteq> map (\<lambda>(a, b). (to_lower a, to_lower b)) (kinds olds)"
  by (induction news olds rule: list_induct2) (auto simp: EqualFold_def kinds_def)

lemma health_kinds_fold:
  "map (\<lambda>(a, b). (to_lower a, to_lower b)) (health_kinds h) = map (\<lambda>(a, b). (to_lower a, to_lower b)) (health_kinds h') \<longleftrightarrow> h = h'"
  by (cases h; cases h')
    (simp_all add: ClusterReady_def ClusterOffline_def ConditionTrue_def ConditionFalse_def to_lower_def char_lower_def)

lemma hasTransition_iff:
  assumes "kinds (fst_Conditions new) = health_kinds h" "kinds (fst_Conditions old) = health_kinds h'"
  shows "hasTransition new old \<longleftrightarrow> h \<noteq> h'"
proof (cases "length (fst_Conditions new) = length (fst_Conditions old)")
  case True
  then show ?thesis
    using conditions_differ_iff [OF True] by (simp add: hasTransition_def assms health_kinds_fold)
next
  case False
  then have "health_kinds h \<noteq> health_kinds h'" using assms by (metis kinds_def length_map)
  with False show ?thesis by (auto simp: hasTransition_def)
qed

lemma keep_transition_times_kinds:
  assumes "length (fst_Conditions new) = length (fst_Conditions old)"
  shows "kinds (fst_Conditions (keep_transition_times new old)) = kinds (fst_Conditions new)"
    "map cn_LastProbeTime (fst_Conditions (keep_transition_times new old)) = map cn_LastProbeTime (fst_Conditions new)"
    "map cn_LastTransitionTime (fst_Conditions (keep_transition_times new old)) = map cn_LastTransitionTime (fst_Conditions old)"
  using assms by (auto simp: keep_transition_times_def kinds_def list_eq_iff_nth_eq)

lemma probe_status_conditions:
  "fst_Conditions (probe_status t r nodes c old) =
    fst_Conditions (case old of None \<Rightarrow> GetClusterHealthStatus t r
      | Some old \<Rightarrow> if \<not> hasTransition (GetClusterHealthStatus t r) old
                    then keep_transition_times (GetClusterHealthStatus t r) old else GetClusterHealthStatus t r)"
  by (simp add: probe_status_def Let_def split: option.split sum.split)

end
