(* ===== verification/Informer_Claims.thy ===== *)
theory Informer_Claims
  imports Federated_Informer
begin

section \<open>Properties of the federated informer\<close>

subsection \<open>Demonstration values\<close>

definition demo_cluster :: "string \<Rightarrow> bool \<Rightarrow> FederatedCluster" where
  "demo_cluster name ready =
     \<lparr>fc_Meta = empty_meta\<lparr>om_Name := name, om_Namespace := FederationSystemNamespace\<rparr>,
      fc_Spec = \<lparr>fs_ClusterRef = name, fs_SecretRef = None\<rparr>,
      fc_Status = \<lparr>fst_Conditions = [\<lparr>cn_Type = ClusterReady,
          cn_Status = (if ready then ConditionTrue else ConditionFalse), cn_LastProbeTime = 0,
          cn_LastTransitionTime = 0, cn_Reason = [], cn_Message = []\<rparr>],
        fst_Zone = [], fst_Region = []\<rparr>\<rparr>"

definition demo_lh :: lifecycle_handlers where
  "demo_lh = \<lparr>lh_available = True, lh_unavailable = True\<rparr>"

definition demo_factory :: "nat client_factory" where
  "demo_factory c = Inr (length (cluster_name c))"

definition demo_delta :: "('o, nat) federated_informer \<Rightarrow> cluster_delta \<Rightarrow> ('o, nat) federated_informer" where
  "demo_delta f d = (case process_delta demo_lh demo_factory d f of Inl _ \<Rightarrow> f | Inr (f', _) \<Rightarrow> f')"

abbreviation demo_changed :: "string \<Rightarrow> bool \<Rightarrow> cluster_delta" where
  "demo_changed name ready \<equiv> Changed (cluster_key name) (ClusterItem (demo_cluster name ready))"

lemma demo_cluster_name [simp]: "cluster_name (demo_cluster name r) = name"
  by (simp add: demo_cluster_def)

lemma demo_delta_run:
  assumes "informer_run f" "delta_ok d"
  shows "informer_run (demo_delta f d)"
proof -
  obtain f' calls where "process_delta demo_lh demo_factory d f = Inr (f', calls)"
    using process_delta_ok [OF informer_run_ok [OF assms(1)] assms(2)] by blast
  then show ?thesis using informer_run.delta [OF assms] by (simp add: demo_delta_def)
qed

definition demo_informer :: "(nat, nat) federated_informer" where
  "demo_informer = demo_delta (demo_delta (Start NewFederatedInformer)
     (demo_changed ''c1'' True)) (demo_changed ''c2'' False)"

lemma demo_informer_run: "informer_run demo_informer"
  unfolding demo_informer_def by (intro demo_delta_run informer_run.started) simp_all

subsection \<open>Safety\<close>

text \<open>
  C17. From \<open>Start\<close> on, as long as no deletion of a cluster is missed, so that every delta comes with
  a cluster under its key and none is a tombstone, the federated informer never panics and leaks
  nothing: every such delta is processed, exactly the cluster informer and the registered target
  informers run, each target belongs to a ready cluster with the spec and annotations it was made
  for, and \<open>Stop\<close> closes every channel. After a tombstone a target informer may outlive \<open>Stop\<close>
  (C33), but there is still no panic (\<open>informer_never_panics\<close>).
\<close>

theorem informer_no_leak:
  assumes "informer_run f" and "delta_ok d"
  shows "(\<exists>f' calls. process_delta lh factory d f = Inr (f', calls) \<and> informer_run f') \<and>
    (\<exists>ch. fi_clusterStop f = Some ch \<and> set (open_chans f) = insert ch (set (target_chans f))) \<and>
    (\<forall>name i. mget (fi_targets f) name = Some i \<longrightarrow>
       (\<exists>c. GetReadyCluster f name = Inr (Some c) \<and> fc_Spec c = fc_Spec (inf_cluster i) \<and>
          mget (om_Annotations (fc_Meta c)) = mget (om_Annotations (fc_Meta (inf_cluster i))))) \<and>
    (\<exists>f'. Stop f = Inr f' \<and> open_chans f' = [] \<and> fi_targets f' = [])"
proof (intro conjI)
  have ok: "targets_match f" "chans_ok f"
    using informer_run_ok [OF assms(1)] by (simp_all add: informer_ok_def)
  show "\<exists>f' calls. process_delta lh factory d f = Inr (f', calls) \<and> informer_run f'"
    using process_delta_ok [OF informer_run_ok [OF assms(1)] assms(2), of lh factory]
      informer_run.delta [OF assms, of lh factory] by blast
  show "\<exists>ch. fi_clusterStop f = Some ch \<and> set (open_chans f) = insert ch (set (target_chans f))"
    using ok(2) unfolding chans_ok_def by auto
  show "\<forall>name i. mget (fi_targets f) name = Some i \<longrightarrow>
       (\<exists>c. GetReadyCluster f name = Inr (Some c) \<and> fc_Spec c = fc_Spec (inf_cluster i) \<and>
          mget (om_Annotations (fc_Meta c)) = mget (om_Annotations (fc_Meta (inf_cluster i))))"
  proof (intro allI impI)
    fix name i
    assume "mget (fi_targets f) name = Some i"
    then obtain c where "mget (fi_clusters f) (cluster_key name) = Some (ClusterItem c)" "isClusterReady c"
      "\<not> cluster_changed (inf_cluster i) c"
      using ok(1) unfolding targets_match_def by blast
    then show "\<exists>c. GetReadyCluster f name = Inr (Some c) \<and> fc_Spec c = fc_Spec (inf_cluster i) \<and>
          mget (om_Annotations (fc_Meta c)) = mget (om_Annotations (fc_Meta (inf_cluster i)))"
      by (intro exI [of _ c]) (simp add: GetReadyCluster_def store_GetByKey_def cluster_changed_def gomap_eq_iff)
  qed
  show "\<exists>f'. Stop f = Inr f' \<and> open_chans f' = [] \<and> fi_targets f' = []"
    by (rule Stop_ok [OF ok(2)])
qed

theorem informer_no_leak_witness: "\<exists>f'. Stop demo_informer = Inr f' \<and> open_chans f' = []"
proof -
  have "delta_ok (demo_changed ''c1'' False)" by simp
  from informer_no_leak [OF demo_informer_run this] show ?thesis by blast
qed

lemma mput_split: "mget m k = Some v0 \<Longrightarrow> \<exists>xs ys. m = xs @ (k, v0) # ys \<and> (\<forall>v. mput k v m = xs @ (k, v) # ys)"
proof (induction m)
  case (Cons p m)
  obtain a b where p: "p = (a, b)" by (cases p)
  show ?case
  proof (cases "a = k")
    case True
    with Cons.prems show ?thesis by (intro exI [of _ "[]"] exI [of _ m]) (simp add: p)
  next
    case False
    with Cons obtain xs ys where "m = xs @ (k, v0) # ys" "\<forall>v. mput k v m = xs @ (k, v) # ys" by (auto simp: p)
    with False show ?thesis by (intro exI [of _ "p # xs"] exI [of _ ys]) (simp add: p)
  qed
qed simp

lemma open_chans_single: "set (open_chans f) = {x} \<Longrightarrow> open_chans f = [x]"
proof -
  assume s: "set (open_chans f) = {x}"
  have d: "distinct (open_chans f)" by (simp add: open_chans_def)
  show ?thesis using s d by (cases "open_chans f"; cases "tl (open_chans f)") auto
qed

subsection \<open>Any deltas\<close>

text \<open>
  Runs in which deltas are arbitrary, tombstones and foreign items included. The channels of the
  registered informers are still open and distinct, although others may be open too.
\<close>

inductive any_run :: "('o, 'cl) federated_informer \<Rightarrow> bool" where
  started: "any_run (Start NewFederatedInformer)"
| delta: "any_run f \<Longrightarrow> process_delta lh factory d f = Inr (f', calls) \<Longrightarrow> any_run f'"
| clusters: "any_run f \<Longrightarrow> any_run (f\<lparr>fi_clustersSynced := True\<rparr>)"
| target: "any_run f \<Longrightarrow> mget (fi_targets f) name = Some i \<Longrightarrow>
    any_run (f\<lparr>fi_targets := mput name (i\<lparr>inf_store := store, inf_synced := synced\<rparr>) (fi_targets f)\<rparr>)"

definition chans_safe :: "('o, 'cl) federated_informer \<Rightarrow> bool" where
  "chans_safe f \<longleftrightarrow> gomap_ok (fi_targets f) \<and> (\<exists>ch. fi_clusterStop f = Some ch \<and>
     distinct (ch # target_chans f) \<and> set (ch # target_chans f) \<subseteq> set (open_chans f)) \<and>
     (\<forall>c \<in> set (fi_closed f). c < fi_chans f)"

lemma chans_safe_clusters [simp]:
  "chans_safe (f\<lparr>fi_clusters := m\<rparr>) = chans_safe f" "chans_safe (f\<lparr>fi_clustersSynced := s\<rparr>) = chans_safe f"
  by (simp_all add: chans_safe_def open_chans_def)

lemma chans_safe_delete:
  assumes "chans_safe f"
  shows "\<exists>f'. deleteCluster c f = Inr f' \<and> chans_safe f'"
proof (cases "mget (fi_targets f) (cluster_name c)")
  case None
  then have "mdel (cluster_name c) (fi_targets f) = fi_targets f"
    by (simp add: map_of_eq_None_iff delete_idem)
  with None assms show ?thesis by (simp add: deleteCluster_def)
next
  case (Some i)
  obtain ch where ok: "gomap_ok (fi_targets f)" "fi_clusterStop f = Some ch" "distinct (ch # target_chans f)"
    "set (ch # target_chans f) \<subseteq> set (open_chans f)" "\<forall>c \<in> set (fi_closed f). c < fi_chans f"
    using assms unfolding chans_safe_def by blast
  note del = mdel_image [OF ok(1) Some, where g = inf_stopChan]
  have mem: "inf_stopChan i \<in> set (target_chans f)" using map_of_SomeD [OF Some] by force
  then have open_i: "inf_stopChan i \<in> set (open_chans f)" using ok(4) by auto
  then have run: "deleteCluster c f = Inr (f\<lparr>fi_closed := fi_closed f @ [inf_stopChan i],
      fi_targets := mdel (cluster_name c) (fi_targets f)\<rparr>)" (is "_ = Inr ?f'")
    by (simp add: deleteCluster_def Some close_chan_def open_chans_iff)
  have "set (open_chans ?f') = set (open_chans f) - {inf_stopChan i}" by (auto simp: open_chans_iff)
  moreover have "ch \<noteq> inf_stopChan i" using ok(3) mem by auto
  ultimately have "chans_safe ?f'" unfolding chans_safe_def using ok del open_i by (auto simp: open_chans_iff)
  with run show ?thesis by blast
qed

lemma chans_safe_add:
  assumes "chans_safe f"
  shows "chans_safe (addCluster factory c f)"
proof (cases "GetClientForCluster factory f (cluster_name c)")
  case (Inl e)
  with assms show ?thesis by (simp add: addCluster_def)
next
  case (Inr client)
  obtain ch where ok: "gomap_ok (fi_targets f)" "fi_clusterStop f = Some ch" "distinct (ch # target_chans f)"
    "set (ch # target_chans f) \<subseteq> set (open_chans f)" "\<forall>c \<in> set (fi_closed f). c < fi_chans f"
    using assms unfolding chans_safe_def by blast
  let ?f' = "addCluster factory c f"
  let ?new = "\<lparr>inf_store = [], inf_synced = False, inf_stopChan = fi_chans f, inf_cluster = c, inf_client = client\<rparr>"
  have fresh: "fi_chans f \<notin> set (ch # target_chans f)" using ok(4) by (auto simp: open_chans_iff)
  have t: "distinct (ch # target_chans ?f') \<and> set (target_chans ?f') \<subseteq> insert (fi_chans f) (set (target_chans f))"
  proof (cases "mget (fi_targets f) (cluster_name c)")
    case None
    then have "target_chans ?f' = target_chans f @ [fi_chans f]"
      using Inr by (simp add: addCluster_def mput_new)
    with ok(3) fresh show ?thesis by auto
  next
    case (Some old)
    from mput_split [OF this] obtain xs ys where "fi_targets f = xs @ (cluster_name c, old) # ys"
      "fi_targets ?f' = xs @ (cluster_name c, ?new) # ys"
      using Inr by (auto simp: addCluster_def)
    with ok(3) fresh show ?thesis by auto
  qed
  have "fi_chans f \<notin> set (fi_closed f)" using ok(5) by blast
  then have opens: "set (open_chans ?f') = insert (fi_chans f) (set (open_chans f))"
    using Inr by (auto simp: addCluster_def open_chans_iff less_Suc_eq)
  have "set (ch # target_chans ?f') \<subseteq> set (open_chans ?f')" using t ok(4) unfolding opens list.set(2) by blast
  moreover have "fi_clusterStop ?f' = Some ch" "gomap_ok (fi_targets ?f')" "\<forall>c \<in> set (fi_closed ?f'). c < fi_chans ?f'"
    using Inr ok(1,2,5) by (auto simp: addCluster_def less_Suc_eq)
  ultimately show ?thesis unfolding chans_safe_def using t by blast
qed

lemma on_delete_safe: "chans_safe f \<Longrightarrow> \<exists>f' calls. on_delete lh item f = Inr (f', calls) \<and> chans_safe f'"
proof (cases item)
  case (ClusterItem c)
  assume "chans_safe f"
  then obtain f' where "deleteCluster c f = Inr f'" "chans_safe f'" using chans_safe_delete by blast
  then show ?thesis by (simp add: ClusterItem make_unavailable_def)
qed simp

lemma on_add_safe: "chans_safe f \<Longrightarrow> \<exists>f' calls. on_add lh factory item f = Inr (f', calls) \<and> chans_safe f'"
  by (cases item) (auto simp: make_available_def chans_safe_add)

lemma on_update_safe:
  assumes "chans_safe f"
  shows "\<exists>f' calls. on_update lh factory old item f = Inr (f', calls) \<and> chans_safe f'"
proof (cases "\<exists>c d. old = ClusterItem c \<and> item = ClusterItem d")
  case True
  then obtain c d where i: "old = ClusterItem c" "item = ClusterItem d" by blast
  obtain f1 calls where "make_unavailable lh c f = Inr (f1, calls)" "chans_safe f1"
    using on_delete_safe [OF assms, of lh "ClusterItem c"] by auto
  then show ?thesis using assms by (auto simp: i make_available_def chans_safe_add)
next
  case False
  with assms show ?thesis by (cases old; cases item) auto
qed

lemma process_delta_safe:
  "chans_safe f \<Longrightarrow> \<exists>f' calls. process_delta lh factory d f = Inr (f', calls) \<and> chans_safe f'"
  using on_delete_safe [of "f\<lparr>fi_clusters := m\<rparr>" for m] on_add_safe [of "f\<lparr>fi_clusters := m\<rparr>" for m]
    on_update_safe [of "f\<lparr>fi_clusters := m\<rparr>" for m]
  by (cases d) (auto simp: Let_def split: option.split)

lemma any_run_safe: "any_run f \<Longrightarrow> chans_safe f"
proof (induction rule: any_run.induct)
  case started
  show ?case by (simp add: chans_safe_def Start_def NewFederatedInformer_def open_chans_def)
next
  case (delta f lh factory d f' calls)
  then show ?case using process_delta_safe [of f lh factory d] by auto
next
  case (target f name i synced store)
  let ?f' = "f\<lparr>fi_targets := mput name (i\<lparr>inf_store := store, inf_synced := synced\<rparr>) (fi_targets f)\<rparr>"
  have "target_chans ?f' = target_chans f"
    using map_mput_same [OF target(2), of inf_stopChan] by simp
  then show ?case using target(3) unfolding chans_safe_def by (simp add: open_chans_def)
qed simp

text \<open>No handler and no \<open>Stop\<close> panics, whatever the deltas: no channel is closed twice.\<close>

lemma informer_never_panics:
  assumes "any_run f"
  shows "(\<exists>f' calls. process_delta lh factory d f = Inr (f', calls)) \<and> (\<exists>f'. Stop f = Inr f')"
proof
  note safe = any_run_safe [OF assms]
  show "\<exists>f' calls. process_delta lh factory d f = Inr (f', calls)" using process_delta_safe [OF safe] by blast
  obtain ch where ok: "fi_clusterStop f = Some ch" "distinct (ch # target_chans f)"
    "set (ch # target_chans f) \<subseteq> set (open_chans f)"
    using safe unfolding chans_safe_def by blast
  then have opens: "\<And>c. c \<in> set (ch # target_chans f) \<Longrightarrow> c \<notin> set (fi_closed f)"
    by (auto simp: open_chans_iff)
  let ?f1 = "f\<lparr>fi_closed := fi_closed f @ [ch]\<rparr>"
  obtain f' where "stop_targets (fi_targets f) ?f1 = Inr f'"
    using stop_targets_ok [of "fi_targets f" ?f1] ok(2) opens by (auto simp: Int_Un_distrib)
  then show "\<exists>f'. Stop f = Inr f'" using opens [of ch] by (simp add: Stop_def close_chan_def ok(1))
qed

subsection \<open>Missed deletions\<close>

text \<open>
  C33. A deletion that the watch missed arrives as a tombstone, which the handler ignores: when the cluster
  comes back, its target informer, in whatever state the federated informer was, is replaced without being
  stopped, and after \<open>Stop\<close> it is what is left running.
\<close>

theorem tombstone_leaks:
  fixes f :: "('o, 'cl) federated_informer"
  assumes "informer_run f" and "mget (fi_targets f) (cluster_name c) = Some i"
    and "isClusterReady c" and "factory c = Inr client"
  shows "\<exists>f1 calls1 f2 calls2 f3.
    process_delta lh factory (Gone (cluster_key (cluster_name c)) OtherItem) f = Inr (f1, calls1) \<and>
    process_delta lh factory (Changed (cluster_key (cluster_name c)) (ClusterItem c)) f1 = Inr (f2, calls2) \<and>
    Stop f2 = Inr f3 \<and> open_chans f3 = [inf_stopChan i]"
proof -
  let ?k = "cluster_key (cluster_name c)"
  obtain ch where ok: "fi_clusterStop f = Some ch" "distinct (ch # target_chans f)"
    "set (ch # target_chans f) = set (open_chans f)" "\<forall>x \<in> set (fi_closed f). x < fi_chans f"
    using informer_run_ok [OF assms(1)] unfolding informer_ok_def chans_ok_def by blast
  define new :: "('o, 'cl) informer" where
    "new = \<lparr>inf_store = [], inf_synced = False, inf_stopChan = fi_chans f, inf_cluster = c, inf_client = client\<rparr>"
  define f1 where "f1 = f\<lparr>fi_clusters := mdel ?k (fi_clusters f)\<rparr>"
  define f2 where "f2 = f1\<lparr>fi_clusters := mput ?k (ClusterItem c) (fi_clusters f1),
    fi_targets := mput (cluster_name c) new (fi_targets f), fi_chans := Suc (fi_chans f)\<rparr>"
  have gone: "process_delta lh factory (Gone ?k OtherItem) f = Inr (f1, [])" by (simp add: f1_def)
  have "mget (fi_clusters f1) ?k = None" by (simp add: f1_def)
  then obtain calls2 where again: "process_delta lh factory (Changed ?k (ClusterItem c)) f1 = Inr (f2, calls2)"
    using assms(3,4) by (auto simp: make_available_def addCluster_def GetClientForCluster_def GetReadyCluster_def
        store_GetByKey_def Let_def f2_def f1_def new_def)
  obtain xs ys where split: "fi_targets f = xs @ (cluster_name c, i) # ys" "fi_targets f2 = xs @ (cluster_name c, new) # ys"
    using mput_split [OF assms(2)] by (auto simp: f2_def)
  define A where "A = map (inf_stopChan \<circ> snd) xs"
  define B where "B = map (inf_stopChan \<circ> snd) ys"
  have t: "target_chans f = A @ inf_stopChan i # B" "target_chans f2 = A @ fi_chans f # B"
    by (simp_all add: split A_def B_def new_def)
  have live: "x \<in> {ch, inf_stopChan i} \<union> set A \<union> set B \<longleftrightarrow> x < fi_chans f \<and> x \<notin> set (fi_closed f)" for x
    using ok(3) unfolding t by (simp add: open_chans_iff set_eq_iff)
  have fresh: "fi_chans f \<notin> {ch, inf_stopChan i} \<union> set A \<union> set B" using live [of "fi_chans f"] by blast
  have dist: "distinct (target_chans f2)" using ok(2) fresh unfolding t by simp
  let ?f = "f2\<lparr>fi_closed := fi_closed f @ [ch]\<rparr>"
  have "fi_chans f \<notin> set (fi_closed f)" using ok(4) by blast
  then have "set (target_chans f2) \<inter> set (fi_closed ?f) = {}"
    using live ok(2) fresh unfolding t by auto
  then obtain f3 where f3: "stop_targets (fi_targets f2) ?f = Inr f3" "fi_chans f3 = fi_chans f2"
    "set (fi_closed f3) = set (fi_closed ?f) \<union> set (target_chans f2)"
    using stop_targets_ok [of "fi_targets f2" ?f] dist by auto
  have stop: "Stop f2 = Inr f3"
    using f3(1) ok(1) live [of ch] by (simp add: Stop_def close_chan_def f2_def f1_def)
  have "x \<in> set (open_chans f3) \<longleftrightarrow> x = inf_stopChan i" for x
    using live [of x] ok(2) fresh unfolding open_chans_iff f3(2,3) t by (auto simp: t f2_def f1_def less_Suc_eq)
  then have "open_chans f3 = [inf_stopChan i]" by (intro open_chans_single) auto
  with gone again stop show ?thesis by blast
qed

theorem tombstone_leaks_witness:
  "\<exists>f1 calls1 f2 calls2 f3.
    process_delta demo_lh demo_factory (Gone (cluster_key ''c1'') OtherItem) demo_informer = Inr (f1, calls1) \<and>
    process_delta demo_lh demo_factory (demo_changed ''c1'' True) f1 = Inr (f2, calls2) \<and>
    Stop f2 = Inr f3 \<and> open_chans f3 = [1]"
proof -
  have "map_option inf_stopChan (mget (fi_targets demo_informer) ''c1'') = Some 1" by code_simp
  then obtain i where i: "mget (fi_targets demo_informer) (cluster_name (demo_cluster ''c1'' True)) = Some i" "inf_stopChan i = 1"
    by auto
  have "isClusterReady (demo_cluster ''c1'' True)" "demo_factory (demo_cluster ''c1'' True) = Inr 2" by code_simp+
  from tombstone_leaks [where factory = demo_factory and lh = demo_lh, OF demo_informer_run i(1) this] show ?thesis by (simp only: i(2) demo_cluster_name)
qed

subsection \<open>The federated store\<close>

lemma clusters_loop_Inr:
  "clusters_loop sel items = Inr cs \<Longrightarrow> items = map ClusterItem (map (\<lambda>i. case i of ClusterItem c \<Rightarrow> c) items)
     \<and> cs = filter sel (map (\<lambda>i. case i of ClusterItem c \<Rightarrow> c) items)"
proof (induction items arbitrary: cs)
  case (Cons i items)
  then show ?case by (cases i) (auto simp: rbind_Inr_iff)
qed simp

lemma ready_names:
  assumes "clusters_ok f" "GetReadyClusters f = Inr cs"
  shows "c \<in> set cs \<longleftrightarrow> isClusterReady c \<and> mget (fi_clusters f) (cluster_key (cluster_name c)) = Some (ClusterItem c)"
    and "distinct (map cluster_name cs)"
proof -
  let ?get = "\<lambda>i. case i of ClusterItem c \<Rightarrow> c"
  note l = clusters_loop_Inr [OF assms(2) [unfolded GetReadyClusters_def]]
  have ok: "gomap_ok (fi_clusters f)" "\<And>key item. (key, item) \<in> set (fi_clusters f) \<Longrightarrow>
      \<exists>c. item = ClusterItem c \<and> key = cluster_key (cluster_name c)"
    using assms(1) by (auto simp: clusters_ok_def gomap_ok_def)
  have keys: "map fst (fi_clusters f) = map (cluster_key \<circ> cluster_name \<circ> ?get \<circ> snd) (fi_clusters f)"
    using ok(2) by (fastforce intro: map_cong)
  have "distinct (map cluster_key (map (cluster_name \<circ> ?get \<circ> snd) (fi_clusters f)))"
    using ok(1) unfolding gomap_ok_def keys by (simp add: comp_assoc)
  then have "distinct (map cluster_name (map ?get (map snd (fi_clusters f))))"
    by (metis comp_assoc distinct_map inj_on_imageI2 list.map_comp)
  then show "distinct (map cluster_name cs)"
    using l by (simp add: distinct_map_filter)
  show "c \<in> set cs \<longleftrightarrow> isClusterReady c \<and> mget (fi_clusters f) (cluster_key (cluster_name c)) = Some (ClusterItem c)"
  proof -
    have "ClusterItem c \<in> snd ` set (fi_clusters f) \<longleftrightarrow> mget (fi_clusters f) (cluster_key (cluster_name c)) = Some (ClusterItem c)"
      using ok by (force simp: gomap_ok_def map_of_eq_Some_iff)
    moreover have "c \<in> ?get ` snd ` set (fi_clusters f) \<longleftrightarrow> ClusterItem c \<in> snd ` set (fi_clusters f)"
      using ok(2) by force
    ultimately show ?thesis using l by auto
  qed
qed

lemma unready_names:
  assumes "clusters_ok f" "GetUnreadyClusters f = Inr cs" "c \<in> set cs"
  shows "\<not> isClusterReady c \<and> mget (fi_clusters f) (cluster_key (cluster_name c)) = Some (ClusterItem c)"
proof -
  note l = clusters_loop_Inr [OF assms(2) [unfolded GetUnreadyClusters_def]]
  have "c \<in> (\<lambda>i. case i of ClusterItem c \<Rightarrow> c) ` snd ` set (fi_clusters f)" "\<not> isClusterReady c"
    using l assms(3) by auto
  then obtain key item where item: "(key, item) \<in> set (fi_clusters f)" "c = (case item of ClusterItem c \<Rightarrow> c)" by force
  then have "mget (fi_clusters f) key = Some item"
    using assms(1) by (simp add: clusters_ok_def gomap_ok_def)
  with assms(1) item(2) \<open>\<not> isClusterReady c\<close> show ?thesis by (fastforce simp: clusters_ok_def)
qed

lemma informers_to_check_Some:
  "informers_to_check f cs = (if \<forall>c \<in> set cs. mget (fi_targets f) (cluster_name c) \<noteq> None
     then Some (map (\<lambda>c. the (mget (fi_targets f) (cluster_name c))) cs) else None)"
  by (induction cs) (auto split: option.split)

lemma all_clusters_loop_spec:
  "\<exists>objs. all_clusters_loop key l = Inr objs \<and> set objs =
     {\<lparr>fo_ClusterName = name, fo_Object = obj\<rparr> | name obj i. (name, i) \<in> set l \<and> mget (inf_store i) key = Some obj}"
proof (induction l)
  case (Cons p l)
  obtain name i where p: "p = (name, i)" by (cases p)
  from Cons obtain objs where objs: "all_clusters_loop key l = Inr objs" "set objs =
     {\<lparr>fo_ClusterName = name, fo_Object = obj\<rparr> | name obj i. (name, i) \<in> set l \<and> mget (inf_store i) key = Some obj}"
    by blast
  then show ?case
    by (cases "mget (inf_store i) key") (auto simp: p store_GetByKey_def)
qed simp

text \<open>
  The store's \<open>ClustersSynced\<close> on the ready clusters: although it compares lengths and looks up
  names only, it holds exactly when every ready cluster has a synced target informer, and then
  \<open>GetFromAllClusters\<close> returns what \<open>GetByKey\<close> finds in the ready clusters and nothing else.
\<close>

lemma store_ClustersSynced_spec:
  assumes "informer_run f" and "GetReadyClusters f = Inr cs"
  shows "(store_ClustersSynced f cs \<longleftrightarrow>
      (\<forall>c \<in> set cs. \<exists>i. mget (fi_targets f) (cluster_name c) = Some i \<and> inf_synced i)) \<and>
    (\<exists>objs. GetFromAllClusters f key = Inr objs \<and>
      (store_ClustersSynced f cs \<longrightarrow> (\<forall>name obj. \<lparr>fo_ClusterName = name, fo_Object = obj\<rparr> \<in> set objs \<longleftrightarrow>
        name \<in> cluster_name ` set cs \<and> GetByKey f name key = Inr (Some obj))))"
proof -
  have ok: "clusters_ok f" "targets_match f" "gomap_ok (fi_targets f)"
    using informer_run_ok [OF assms(1)] by (simp_all add: informer_ok_def chans_ok_def)
  note ready = ready_names [OF ok(1) assms(2)]
  have sub: "fst ` set (fi_targets f) \<subseteq> cluster_name ` set cs"
  proof
    fix name
    assume "name \<in> fst ` set (fi_targets f)"
    then obtain i where "mget (fi_targets f) name = Some i"
      using ok(3) by (auto simp: gomap_ok_def)
    then obtain c where "mget (fi_clusters f) (cluster_key name) = Some (ClusterItem c)" "isClusterReady c"
      "cluster_name c = name"
      using ok(2) unfolding targets_match_def by blast
    then show "name \<in> cluster_name ` set cs" using ready(1) by blast
  qed
  have card: "card (fst ` set (fi_targets f)) = length (fi_targets f)" "card (cluster_name ` set cs) = length cs"
    using ok(3) ready(2) by (metis distinct_card gomap_ok_def length_map list.set_map)+
  have all: "(\<forall>c \<in> set cs. mget (fi_targets f) (cluster_name c) \<noteq> None) \<longleftrightarrow>
      cluster_name ` set cs \<subseteq> fst ` set (fi_targets f)"
    by (auto simp: map_of_eq_None_iff image_subset_iff)
  have len: "length (fi_targets f) = length cs" if "cluster_name ` set cs \<subseteq> fst ` set (fi_targets f)"
    using that sub card by (metis subset_antisym)
  have synced: "store_ClustersSynced f cs \<longleftrightarrow>
      (\<forall>c \<in> set cs. \<exists>i. mget (fi_targets f) (cluster_name c) = Some i \<and> inf_synced i)"
  proof (cases "\<forall>c \<in> set cs. mget (fi_targets f) (cluster_name c) \<noteq> None")
    case True
    then have "store_ClustersSynced f cs \<longleftrightarrow> (\<forall>c \<in> set cs. inf_synced (the (mget (fi_targets f) (cluster_name c))))"
      using all len by (simp add: store_ClustersSynced_def informers_to_check_Some list_ex_iff)
    also have "\<dots> \<longleftrightarrow> (\<forall>c \<in> set cs. \<exists>i. mget (fi_targets f) (cluster_name c) = Some i \<and> inf_synced i)"
      by (rule ball_cong [OF refl]) (use True in fastforce)
    finally show ?thesis .
  next
    case False
    then have "\<not> store_ClustersSynced f cs"
      unfolding store_ClustersSynced_def informers_to_check_Some by (simp only: if_False option.case if_cancel) simp
    with False show ?thesis by force
  qed
  obtain objs where objs: "GetFromAllClusters f key = Inr objs" "set objs =
     {\<lparr>fo_ClusterName = name, fo_Object = obj\<rparr> | name obj i. (name, i) \<in> set (fi_targets f) \<and> mget (inf_store i) key = Some obj}"
    using all_clusters_loop_spec [of key "fi_targets f"] by (auto simp: GetFromAllClusters_def)
  have mem: "\<lparr>fo_ClusterName = name, fo_Object = obj\<rparr> \<in> set objs \<longleftrightarrow>
      name \<in> fst ` set (fi_targets f) \<and> GetByKey f name key = Inr (Some obj)" for name obj
  proof -
    have "\<lparr>fo_ClusterName = name, fo_Object = obj\<rparr> \<in> set objs \<longleftrightarrow>
        (\<exists>i. mget (fi_targets f) name = Some i \<and> mget (inf_store i) key = Some obj)"
      using ok(3) by (auto simp: objs(2) gomap_ok_def map_of_eq_Some_iff)
    also have "\<dots> \<longleftrightarrow> name \<in> fst ` set (fi_targets f) \<and> GetByKey f name key = Inr (Some obj)"
      by (cases "mget (fi_targets f) name")
        (force simp: GetByKey_def store_GetByKey_def map_of_eq_None_iff dest: map_of_SomeD)+
    finally show ?thesis .
  qed
  have names: "fst ` set (fi_targets f) = cluster_name ` set cs" if "store_ClustersSynced f cs"
  proof -
    have "\<forall>c \<in> set cs. mget (fi_targets f) (cluster_name c) \<noteq> None"
      using that unfolding synced by force
    then show ?thesis using all sub by blast
  qed
  have "\<exists>objs. GetFromAllClusters f key = Inr objs \<and>
      (store_ClustersSynced f cs \<longrightarrow> (\<forall>name obj. \<lparr>fo_ClusterName = name, fo_Object = obj\<rparr> \<in> set objs \<longleftrightarrow>
        name \<in> cluster_name ` set cs \<and> GetByKey f name key = Inr (Some obj)))"
    using objs(1) mem names by (intro exI [of _ objs]) simp
  with synced show ?thesis by blast
qed

lemma store_ClustersSynced_spec_example: "\<not> store_ClustersSynced demo_informer [demo_cluster ''c1'' True]"
proof -
  have "GetReadyClusters demo_informer = Inr [demo_cluster ''c1'' True]" by code_simp
  note store_ClustersSynced_spec [OF demo_informer_run this]
  moreover have "map_option inf_synced (mget (fi_targets demo_informer) ''c1'') = Some False" by code_simp
  ultimately show ?thesis by auto
qed

end
