(* ===== verification/Cluster_Claims.thy ===== *)
theory Cluster_Claims
  imports Cluster_Controller Informer_Claims
begin

section \<open>Properties of the cluster configuration and the cluster controller\<close>

subsection \<open>Reaching a cluster\<close>

lemma serverAddress_Inr:
  "serverAddress hostIP l = Inr a \<Longrightarrow> a \<noteq> [] \<Longrightarrow>
     (\<exists>i < length l. a = sa_ServerAddress (l ! i) \<and>
        (\<exists>net. ParseCIDR (sa_ClientCIDR (l ! i)) = Some net \<and> Contains net (ParseIP hostIP)) \<and>
        (\<forall>j < i. \<exists>net. ParseCIDR (sa_ClientCIDR (l ! j)) = Some net \<and> \<not> Contains net (ParseIP hostIP)))"
proof (induction l)
  case (Cons item l)
  from Cons.prems(1) obtain net where net: "ParseCIDR (sa_ClientCIDR item) = Some net"
    by (auto split: option.splits)
  show ?case
  proof (cases "Contains net (ParseIP hostIP)")
    case True
    with Cons.prems net show ?thesis by (intro exI [of _ 0]) auto
  next
    case False
    with Cons net obtain i where i: "i < length l" "a = sa_ServerAddress (l ! i)"
      "\<exists>net. ParseCIDR (sa_ClientCIDR (l ! i)) = Some net \<and> Contains net (ParseIP hostIP)"
      "\<forall>j < i. \<exists>net. ParseCIDR (sa_ClientCIDR (l ! j)) = Some net \<and> \<not> Contains net (ParseIP hostIP)"
      by auto
    have "\<forall>j < Suc i. \<exists>net. ParseCIDR (sa_ClientCIDR ((item # l) ! j)) = Some net \<and> \<not> Contains net (ParseIP hostIP)"
      using i(4) net False by (auto simp: less_Suc_eq_0_disj)
    with i show ?thesis by (intro exI [of _ "Suc i"]) simp
  qed
qed simp

text \<open>
  C34. A configuration that \<open>BuildClusterConfig\<close> returns is for the first endpoint of the registered
  cluster whose client range contains the host, with the fixed rate limits; with a secret
  holding both a token and a certificate authority it carries exactly these, and a secret with
  only one of them never gives a configuration.
\<close>

theorem BuildClusterConfig_spec:
  assumes "BuildClusterConfig env c = Inr config"
    and "\<And>a cf. ce_fromFlags env a = Inr cf \<Longrightarrow> rc_Host cf = a"
    and "\<And>a g cf. ce_fromGetter env a g = Inr cf \<Longrightarrow> rc_Host cf = a"
  shows "rc_QPS config = 20 \<and> rc_Burst config = 30 \<and>
    (\<exists>endpoints hostIP i. ce_getCluster env MulticlusterPublicNamespace (cluster_name c) = Inr endpoints \<and>
      ce_hostIP env = Inr hostIP \<and> i < length endpoints \<and> rc_Host config = sa_ServerAddress (endpoints ! i) \<and>
      (\<exists>net. ParseCIDR (sa_ClientCIDR (endpoints ! i)) = Some net \<and> Contains net (ParseIP hostIP)) \<and>
      (\<forall>j < i. \<exists>net. ParseCIDR (sa_ClientCIDR (endpoints ! j)) = Some net \<and> \<not> Contains net (ParseIP hostIP))) \<and>
    (\<forall>name. fs_SecretRef (fc_Spec c) = Some name \<longrightarrow>
      (\<exists>secret. ce_getSecret env FederationSystemNamespace name = Inr secret \<and>
        (mget secret ''token'' = None \<longleftrightarrow> mget secret ''ca.crt'' = None) \<and>
        (\<forall>token ca. mget secret ''token'' = Some token \<longrightarrow> mget secret ''ca.crt'' = Some ca \<longrightarrow>
          rc_BearerToken config = token \<and> rc_CAData config = ca)))"
proof -
  let ?creds = "\<lambda>address. case fs_SecretRef (fc_Spec c) of
            None \<Rightarrow> ce_fromFlags env address
          | Some name \<Rightarrow>
              if name = [] then Inl (ErrOther ''found secretRef but no secret name'')
              else rbind (ce_getSecret env FederationSystemNamespace name) (secret_config env address)"
  from assms(1) obtain endpoints hostIP address cf where
    e: "ce_getCluster env MulticlusterPublicNamespace (cluster_name c) = Inr endpoints" and
    h: "ce_hostIP env = Inr hostIP" and a: "serverAddress hostIP endpoints = Inr address" "address \<noteq> []" and
    cf: "?creds address = Inr cf" and config: "config = cf\<lparr>rc_QPS := KubeAPIQPS, rc_Burst := KubeAPIBurst\<rparr>"
    unfolding BuildClusterConfig_def by (auto simp: rbind_Inr_iff split: if_splits)
  have secret: "\<exists>secret. ce_getSecret env FederationSystemNamespace name = Inr secret \<and> secret_config env address secret = Inr cf"
    if "fs_SecretRef (fc_Spec c) = Some name" for name
    using cf that by (auto simp: rbind_Inr_iff split: if_splits)
  have both: "rc_Host cf = address \<and> (mget secret ''token'' = None \<longleftrightarrow> mget secret ''ca.crt'' = None) \<and>
      (\<forall>token ca. mget secret ''token'' = Some token \<longrightarrow> mget secret ''ca.crt'' = Some ca \<longrightarrow>
        rc_BearerToken cf = token \<and> rc_CAData cf = ca)"
    if "secret_config env address secret = Inr cf" for secret
    using that assms(2,3) unfolding secret_config_def by (auto split: option.splits sum.splits)
  have "rc_Host cf = address"
  proof (cases "fs_SecretRef (fc_Spec c)")
    case None
    then show ?thesis using cf assms(2) by simp
  next
    case (Some name)
    then show ?thesis using secret both by blast
  qed
  then have host: "rc_Host config = address" by (simp add: config)
  obtain i where i: "i < length endpoints \<and> address = sa_ServerAddress (endpoints ! i) \<and>
      (\<exists>net. ParseCIDR (sa_ClientCIDR (endpoints ! i)) = Some net \<and> Contains net (ParseIP hostIP)) \<and>
      (\<forall>j < i. \<exists>net. ParseCIDR (sa_ClientCIDR (endpoints ! j)) = Some net \<and> \<not> Contains net (ParseIP hostIP))"
    using serverAddress_Inr [OF a] by blast
  have q: "rc_QPS config = 20" "rc_Burst config = 30" "rc_BearerToken config = rc_BearerToken cf" "rc_CAData config = rc_CAData cf"
    by (simp_all add: config KubeAPIQPS_def KubeAPIBurst_def)
  show ?thesis
    unfolding q host using e h i secret both by blast
qed

definition demo_config_env :: "string config_env" where
  "demo_config_env =
     \<lparr>ce_getCluster = (\<lambda>_ _. Inr [\<lparr>sa_ClientCIDR = ''10.0.0.0/8'', sa_ServerAddress = ''inner''\<rparr>,
        \<lparr>sa_ClientCIDR = ''0.0.0.0/0'', sa_ServerAddress = ''outer''\<rparr>]),
      ce_hostIP = Inr ''192.168.1.4'',
      ce_getSecret = (\<lambda>_ _. Inr [(''token'', ''t''), (''ca.crt'', ''c'')]),
      ce_fromFlags = (\<lambda>a. Inr \<lparr>rc_Host = a, rc_CAData = [], rc_BearerToken = [], rc_QPS = 0, rc_Burst = 0\<rparr>),
      ce_fromGetter = (\<lambda>a g. Inr \<lparr>rc_Host = a, rc_CAData = [], rc_BearerToken = [], rc_QPS = 0, rc_Burst = 0\<rparr>),
      ce_load = Inr\<rparr>"

definition demo_secret_cluster :: FederatedCluster where
  "demo_secret_cluster = (demo_cluster ''c1'' True)
     \<lparr>fc_Spec := \<lparr>fs_ClusterRef = ''c1'', fs_SecretRef = Some ''c1-secret''\<rparr>\<rparr>"

theorem BuildClusterConfig_spec_witness:
  "BuildClusterConfig demo_config_env demo_secret_cluster =
     Inr \<lparr>rc_Host = ''outer'', rc_CAData = ''c'', rc_BearerToken = ''t'', rc_QPS = 20, rc_Burst = 30\<rparr> \<and>
   fs_SecretRef (fc_Spec demo_secret_cluster) \<noteq> Some []"
proof -
  have run: "BuildClusterConfig demo_config_env demo_secret_cluster =
      Inr \<lparr>rc_Host = ''outer'', rc_CAData = ''c'', rc_BearerToken = ''t'', rc_QPS = 20, rc_Burst = 30\<rparr>"
    by code_simp
  have flags: "rc_Host cf = a" if "ce_fromFlags demo_config_env a = Inr cf" for a cf
    using that by (auto simp: demo_config_env_def)
  have getter: "rc_Host cf = a" if "ce_fromGetter demo_config_env a g = Inr cf" for a g cf
    using that by (auto simp: demo_config_env_def)
  note BuildClusterConfig_spec [OF run flags getter, THEN conjunct1]
  with run show ?thesis by (simp add: demo_secret_cluster_def)
qed

subsection \<open>Transition times\<close>

text \<open>Successive probes of one cluster, and when the outcome last changed (most recent first).\<close>

type_synonym probe = "int \<times> string go_result \<times> Node list go_result"

fun probe_rounds :: "FederatedCluster \<Rightarrow> probe list \<Rightarrow> FederatedClusterStatus option" where
  "probe_rounds c [] = None"
| "probe_rounds c ((t, r, nodes) # older) = Some (probe_status t r nodes c (probe_rounds c older))"

fun streak_start :: "probe list \<Rightarrow> int" where
  "streak_start [] = 0"
| "streak_start [(t, _)] = t"
| "streak_start ((t, r, _) # (t', r', n') # older) =
     (if health_of r = health_of r' then streak_start ((t', r', n') # older) else t)"

lemma kinds_ready:
  assumes "kinds (fst_Conditions (fc_Status c)) = health_kinds h"
  shows "isClusterReady c \<longleftrightarrow> h = Healthy"
proof -
  have "isClusterReady c \<longleftrightarrow> (ClusterReady, ConditionTrue) \<in> set (kinds (fst_Conditions (fc_Status c)))"
    by (force simp: isClusterReady_iff kinds_def)
  also have "\<dots> \<longleftrightarrow> h = Healthy"
    unfolding assms by (cases h) (auto simp: ClusterReady_def ClusterOffline_def ConditionTrue_def ConditionFalse_def)
  finally show ?thesis .
qed

lemma map_replicate: "(\<And>c. c \<in> set l \<Longrightarrow> f c = x) \<Longrightarrow> map f l = replicate (length l) x"
  by (induction l) auto

text \<open>
  C35. After any number of probes the recorded conditions are those of the last outcome, probed at
  the last time, and their transition time is when the current streak of equal outcomes began.
\<close>

theorem probe_transition_times:
  assumes "rounds = (t, r, nodes) # older" and "probe_rounds c rounds = Some status"
  shows "kinds (fst_Conditions status) = health_kinds (health_of r) \<and>
    (isClusterReady (c\<lparr>fc_Status := status\<rparr>) \<longleftrightarrow> health_of r = Healthy) \<and>
    (\<forall>cn \<in> set (fst_Conditions status). cn_LastProbeTime cn = t \<and> cn_LastTransitionTime cn = streak_start rounds)"
proof -
  have main: "kinds (fst_Conditions status) = health_kinds (health_of r) \<and>
    map cn_LastProbeTime (fst_Conditions status) = replicate (length (fst_Conditions status)) t \<and>
    map cn_LastTransitionTime (fst_Conditions status) = replicate (length (fst_Conditions status)) (streak_start rounds)"
    using assms
  proof (induction older arbitrary: rounds t r nodes status)
    case Nil
    then have status: "fst_Conditions status = fst_Conditions (GetClusterHealthStatus t r)"
      by (auto simp: probe_status_conditions)
    show ?case
      unfolding status Nil(1) using GetClusterHealthStatus_kinds [of t r]
      by (auto intro!: map_replicate)
  next
    case (Cons p older)
    obtain t' r' n' where p: "p = (t', r', n')" by (cases p)
    obtain old where old: "probe_rounds c ((t', r', n') # older) = Some old" by simp
    note IH = Cons.IH [OF refl old]
    let ?new = "GetClusterHealthStatus t r"
    have status: "fst_Conditions status = fst_Conditions
        (if \<not> hasTransition ?new old then keep_transition_times ?new old else ?new)"
      using Cons.prems old by (auto simp: p probe_status_conditions)
    note new = GetClusterHealthStatus_kinds [where t = t and r = r]
    have trans: "hasTransition ?new old \<longleftrightarrow> health_of r \<noteq> health_of r'"
      using hasTransition_iff [OF new(1)] IH by blast
    show ?case
    proof (cases "health_of r = health_of r'")
      case False
      then have "fst_Conditions status = fst_Conditions ?new" using status trans by simp
      with False new show ?thesis unfolding Cons.prems(1) by (auto simp: p intro!: map_replicate)
    next
      case True
      have len: "length (fst_Conditions ?new) = length (fst_Conditions old)"
        using new(1) IH True by (metis kinds_def length_map)
      note keep = keep_transition_times_kinds [OF len]
      have eq: "fst_Conditions status = fst_Conditions (keep_transition_times ?new old)"
        using status trans True by simp
      have probed: "map cn_LastProbeTime (fst_Conditions ?new) = replicate (length (fst_Conditions old)) t"
        using new(2) len by (auto simp: len [symmetric] intro!: map_replicate)
      have l: "length (fst_Conditions (keep_transition_times ?new old)) = length (fst_Conditions old)"
        using keep(3) by (metis length_map)
      show ?thesis
        unfolding eq keep l Cons.prems(1) using new(1) IH True probed by (simp add: p)
    qed
  qed
  have times: "\<forall>cn \<in> set (fst_Conditions status). cn_LastProbeTime cn = t \<and> cn_LastTransitionTime cn = streak_start rounds"
  proof
    fix cn
    assume "cn \<in> set (fst_Conditions status)"
    then have "cn_LastProbeTime cn \<in> set (map cn_LastProbeTime (fst_Conditions status))"
      "cn_LastTransitionTime cn \<in> set (map cn_LastTransitionTime (fst_Conditions status))" by auto
    with main show "cn_LastProbeTime cn = t \<and> cn_LastTransitionTime cn = streak_start rounds"
      by (metis in_set_replicate)
  qed
  have "isClusterReady (c\<lparr>fc_Status := status\<rparr>) \<longleftrightarrow> health_of r = Healthy"
    by (rule kinds_ready) (use main in simp)
  then show ?thesis using main times by blast
qed

definition demo_probes :: "probe list" where
  "demo_probes = [(40, Inr ''ok'', Inr []), (30, Inr ''OK'', Inr []), (20, Inl (ErrOther ''timeout''), Inr []), (10, Inr ''ok'', Inr [])]"

theorem probe_transition_times_witness:
  "map cn_LastTransitionTime (fst_Conditions (the (probe_rounds (demo_cluster ''c1'' False) demo_probes))) = [30]"
proof -
  obtain status where s: "probe_rounds (demo_cluster ''c1'' False) demo_probes = Some status"
    unfolding demo_probes_def by simp
  note main = probe_transition_times [OF demo_probes_def s]
  have "streak_start demo_probes = 30" by code_simp
  moreover have "health_of (Inr ''ok'') = Healthy" by code_simp
  ultimately show ?thesis
    using main by (cases "fst_Conditions status") (auto simp: s kinds_def)
qed

subsection \<open>Rounds of the monitor\<close>

definition monitored :: "'cl cluster_controller \<Rightarrow> FederatedCluster \<Rightarrow> bool" where
  "monitored cc c \<longleftrightarrow> sset_has (knownClusterSet cc) (cluster_name c) \<and>
     mget (clusterKubeClientMap cc) (cluster_name c) \<noteq> None"

definition probed :: "'cl cluster_env \<Rightarrow> 'cl cluster_controller \<Rightarrow> FederatedCluster \<Rightarrow> FederatedClusterStatus" where
  "probed env cc c =
     (let client = the (mget (clusterKubeClientMap cc) (cluster_name c))
      in probe_status (env_now env) (env_healthz env client) (env_nodes env client) c
           (mget (clusterClusterStatusMap cc) (cluster_name c)))"

lemma monitor_cluster_eq:
  assumes "env_meanwhile env = (\<lambda>_ cc. cc)"
  shows "monitor_cluster env c cc = (if monitored cc c
    then ([c\<lparr>fc_Status := probed env cc c\<rparr>],
      cc\<lparr>clusterClusterStatusMap := mput (cluster_name c) (probed env cc c) (clusterClusterStatusMap cc)\<rparr>)
    else ([], cc))"
  using assms by (auto simp: monitor_cluster_def monitored_def probed_def Let_def split: option.split)

lemma monitor_clusters_eq:
  assumes "env_meanwhile env = (\<lambda>_ cc. cc)" and "distinct (map cluster_name items)"
  shows "\<exists>cc'. monitor_clusters env items cc =
      (map (\<lambda>c. c\<lparr>fc_Status := probed env cc c\<rparr>) (filter (monitored cc) items), cc') \<and>
    knownClusterSet cc' = knownClusterSet cc \<and> clusterKubeClientMap cc' = clusterKubeClientMap cc \<and>
    (\<forall>c \<in> set items. monitored cc c \<longrightarrow>
       mget (clusterClusterStatusMap cc') (cluster_name c) = Some (probed env cc c)) \<and>
    (\<forall>name. name \<notin> cluster_name ` set items \<longrightarrow>
       mget (clusterClusterStatusMap cc') name = mget (clusterClusterStatusMap cc) name)"
  using assms(2)
proof (induction items arbitrary: cc)
  case (Cons c items)
  define cc1 where "cc1 = snd (monitor_cluster env c cc)"
  have step: "monitor_cluster env c cc = (if monitored cc c then [c\<lparr>fc_Status := probed env cc c\<rparr>] else [], cc1)"
    by (simp add: cc1_def monitor_cluster_eq [OF assms(1)])
  have same: "knownClusterSet cc1 = knownClusterSet cc" "clusterKubeClientMap cc1 = clusterKubeClientMap cc"
    "\<And>name. name \<noteq> cluster_name c \<Longrightarrow> mget (clusterClusterStatusMap cc1) name = mget (clusterClusterStatusMap cc) name"
    "monitored cc c \<Longrightarrow> mget (clusterClusterStatusMap cc1) (cluster_name c) = Some (probed env cc c)"
    by (simp_all add: cc1_def monitor_cluster_eq [OF assms(1)])
  have other: "monitored cc1 d = monitored cc d" "probed env cc1 d = probed env cc d" if "d \<in> set items" for d
  proof -
    have "cluster_name d \<in> cluster_name ` set items" using that by (rule imageI)
    moreover have "cluster_name c \<notin> cluster_name ` set items" using Cons.prems by simp
    ultimately have "cluster_name d \<noteq> cluster_name c" by metis
    from same(3) [OF this] show "monitored cc1 d = monitored cc d" "probed env cc1 d = probed env cc d"
      by (simp_all add: monitored_def probed_def same(1,2))
  qed
  have cong: "map (\<lambda>c. c\<lparr>fc_Status := probed env cc1 c\<rparr>) (filter (monitored cc1) items) =
      map (\<lambda>c. c\<lparr>fc_Status := probed env cc c\<rparr>) (filter (monitored cc) items)"
    using other by (intro map_cong filter_cong) auto
  obtain cc' where "monitor_clusters env items cc1 =
      (map (\<lambda>c. c\<lparr>fc_Status := probed env cc c\<rparr>) (filter (monitored cc) items), cc')"
    "knownClusterSet cc' = knownClusterSet cc1" "clusterKubeClientMap cc' = clusterKubeClientMap cc1"
    "\<forall>c \<in> set items. monitored cc1 c \<longrightarrow> mget (clusterClusterStatusMap cc') (cluster_name c) = Some (probed env cc1 c)"
    "\<forall>name. name \<notin> cluster_name ` set items \<longrightarrow>
       mget (clusterClusterStatusMap cc') name = mget (clusterClusterStatusMap cc1) name"
    using Cons.IH [of cc1] Cons.prems cong by auto
  then show ?case
    using Cons.prems same other by (intro exI [of _ cc']) (auto simp: step Let_def)
qed simp

lemma probe_status_kinds:
  "kinds (fst_Conditions (probe_status t r nodes c old)) = health_kinds (health_of r)"
proof -
  have "length (fst_Conditions new) = length (fst_Conditions o')" if "\<not> hasTransition new o'" for new o'
    using that by (simp add: hasTransition_def split: if_splits)
  then show ?thesis
    by (auto simp: probe_status_conditions GetClusterHealthStatus_kinds keep_transition_times_kinds split: option.split)
qed

lemma probe_status_ready:
  "fc_Status u = probe_status t r nodes c old \<Longrightarrow> isClusterReady u \<longleftrightarrow> health_of r = Healthy"
  by (rule kinds_ready) (simp add: probe_status_kinds)

lemma probe_status_zones:
  "isl (GetClusterZones nodes) \<Longrightarrow> fst_Zone (probe_status t r nodes c old) = [] \<and> fst_Region (probe_status t r nodes c old) = []"
  by (cases "GetClusterZones nodes")
    (auto simp: probe_status_def Let_def keep_transition_times_def GetClusterHealthStatus_def split: option.split)

text \<open>
  C36. One round of \<open>updateClusterStatus\<close> writes the status of exactly the listed clusters that are
  known and have a client, in order, and records it; when the zone lookup of a cluster fails the
  zone and region it had are erased.
\<close>

theorem updateClusterStatus_spec:
  assumes "env_meanwhile env = (\<lambda>_ cc. cc)" and "distinct (map cluster_name items)"
    and "updateClusterStatus env (Inr items) cc = (err, updates, cc')"
  shows "err = None \<and> map cluster_name updates = map cluster_name (filter (monitored cc) items) \<and>
    (\<forall>u \<in> set updates. mget (clusterClusterStatusMap cc') (cluster_name u) = Some (fc_Status u) \<and>
      (\<exists>client. mget (clusterKubeClientMap cc) (cluster_name u) = Some client \<and>
        (isClusterReady u \<longleftrightarrow> health_of (env_healthz env client) = Healthy) \<and>
        (isl (GetClusterZones (env_nodes env client)) \<longrightarrow>
          fst_Zone (fc_Status u) = [] \<and> fst_Region (fc_Status u) = [])))"
proof -
  obtain cc1 where run: "monitor_clusters env items cc =
      (map (\<lambda>c. c\<lparr>fc_Status := probed env cc c\<rparr>) (filter (monitored cc) items), cc1)"
    "\<forall>c \<in> set items. monitored cc c \<longrightarrow> mget (clusterClusterStatusMap cc1) (cluster_name c) = Some (probed env cc c)"
    using monitor_clusters_eq [OF assms(1,2)] by blast
  have eq: "err = None" "cc' = cc1" "updates = map (\<lambda>c. c\<lparr>fc_Status := probed env cc c\<rparr>) (filter (monitored cc) items)"
    using assms(3) by (simp_all add: updateClusterStatus_def run(1))
  have names: "map cluster_name updates = map cluster_name (filter (monitored cc) items)"
    by (simp add: eq(3))
  have "mget (clusterClusterStatusMap cc') (cluster_name u) = Some (fc_Status u) \<and>
      (\<exists>client. mget (clusterKubeClientMap cc) (cluster_name u) = Some client \<and>
        (isClusterReady u \<longleftrightarrow> health_of (env_healthz env client) = Healthy) \<and>
        (isl (GetClusterZones (env_nodes env client)) \<longrightarrow>
          fst_Zone (fc_Status u) = [] \<and> fst_Region (fc_Status u) = []))" if u_in: "u \<in> set updates" for u
  proof -
    obtain c where c: "c \<in> set items" "monitored cc c" "u = c\<lparr>fc_Status := probed env cc c\<rparr>"
      using u_in by (auto simp: eq(3))
    obtain client where client: "mget (clusterKubeClientMap cc) (cluster_name c) = Some client"
      using c(2) by (auto simp: monitored_def)
    have p: "probed env cc c = probe_status (env_now env) (env_healthz env client) (env_nodes env client) c
        (mget (clusterClusterStatusMap cc) (cluster_name c))"
      by (simp add: probed_def client)
    have u: "fc_Status u = probed env cc c" "cluster_name u = cluster_name c" by (simp_all add: c(3))
    have ready: "isClusterReady u \<longleftrightarrow> health_of (env_healthz env client) = Healthy"
      using probe_status_ready [of u "env_now env" "env_healthz env client" "env_nodes env client" c] u(1) p by metis
    have zones: "isl (GetClusterZones (env_nodes env client)) \<longrightarrow> fst_Zone (fc_Status u) = [] \<and> fst_Region (fc_Status u) = []"
      using probe_status_zones u(1) p by metis
    show ?thesis using run(2) c(1,2) u client ready zones by (simp add: eq(2))
  qed
  with eq(1) names show ?thesis by blast
qed

definition demo_cluster_env :: "nat cluster_env" where
  "demo_cluster_env = \<lparr>env_now = 7, env_healthz = (\<lambda>n. Inr ''ok''), env_nodes = (\<lambda>n. Inl (ErrOther ''forbidden'')),
     env_meanwhile = (\<lambda>_ cc. cc)\<rparr>"

definition demo_controller :: "nat cluster_controller" where
  "demo_controller = \<lparr>knownClusterSet = [''c1'', ''c2''], clusterClusterStatusMap = [], clusterKubeClientMap = [(''c1'', 1)]\<rparr>"

theorem updateClusterStatus_spec_witness:
  "map (\<lambda>u. (cluster_name u, isClusterReady u, fst_Zone (fc_Status u)))
     (fst (snd (updateClusterStatus demo_cluster_env
        (Inr [demo_cluster ''c1'' False, demo_cluster ''c2'' True, demo_cluster ''c3'' True]) demo_controller)))
   = [(''c1'', True, [])]"
proof -
  let ?items = "[demo_cluster ''c1'' False, demo_cluster ''c2'' True, demo_cluster ''c3'' True]"
  obtain err updates cc' where run: "updateClusterStatus demo_cluster_env (Inr ?items) demo_controller = (err, updates, cc')"
    by (cases "updateClusterStatus demo_cluster_env (Inr ?items) demo_controller")
  have env: "env_meanwhile demo_cluster_env = (\<lambda>_ cc. cc)" by (simp add: demo_cluster_env_def)
  have dist: "distinct (map cluster_name ?items)" by simp
  have m: "map cluster_name (filter (monitored demo_controller) ?items) = [''c1'']" by code_simp
  have h: "health_of (env_healthz demo_cluster_env n) = Healthy" "isl (GetClusterZones (env_nodes demo_cluster_env n))" for n
    by (simp_all add: demo_cluster_env_def EqualFold_def GetClusterZones_def)
  note main = updateClusterStatus_spec [OF env dist run]
  then obtain u where u: "updates = [u]" "cluster_name u = ''c1''" using m by auto
  have "isClusterReady u" "fst_Zone (fc_Status u) = []" using main u h by auto
  with u show ?thesis by (simp add: run)
qed

subsection \<open>A cluster without a client\<close>

datatype 'cl cc_event =
    Ev_add "'cl option go_result" FederatedCluster
  | Ev_del FederatedCluster
  | Ev_round "'cl cluster_env" "FederatedCluster list go_result"

fun cc_step :: "'cl cc_event \<Rightarrow> 'cl cluster_controller \<Rightarrow> (FederatedCluster list \<times> 'cl cluster_controller) go_result" where
  "cc_step (Ev_add newClient c) cc = rbind (addToClusterSet newClient (ClusterItem c) cc) (\<lambda>cc1. Inr ([], cc1))"
| "cc_step (Ev_del c) cc = rbind (delFromClusterSet (ClusterItem c) cc) (\<lambda>cc1. Inr ([], cc1))"
| "cc_step (Ev_round env clusters) cc =
     (let (_, updates, cc1) = updateClusterStatus env clusters cc in Inr (updates, cc1))"

fun cc_steps :: "'cl cc_event list \<Rightarrow> 'cl cluster_controller \<Rightarrow> (FederatedCluster list \<times> 'cl cluster_controller) go_result" where
  "cc_steps [] cc = Inr ([], cc)"
| "cc_steps (e # es) cc = rbind (cc_step e cc) (\<lambda>(updates, cc1).
     rbind (cc_steps es cc1) (\<lambda>(updates2, cc2). Inr (updates @ updates2, cc2)))"

definition clientless :: "string \<Rightarrow> 'cl cluster_controller \<Rightarrow> bool" where
  "clientless name cc \<longleftrightarrow> sset_has (knownClusterSet cc) name \<and> mget (clusterKubeClientMap cc) name = None"

fun event_keeps :: "string \<Rightarrow> 'cl cc_event \<Rightarrow> bool" where
  "event_keeps name (Ev_del c) \<longleftrightarrow> cluster_name c \<noteq> name"
| "event_keeps name (Ev_round env _) \<longleftrightarrow> (\<forall>m cc. clientless name cc \<longrightarrow> clientless name (env_meanwhile env m cc))"
| "event_keeps name _ \<longleftrightarrow> True"

lemma monitor_clusters_clientless:
  assumes "\<And>m cc. clientless name cc \<Longrightarrow> clientless name (env_meanwhile env m cc)"
  shows "clientless name cc \<Longrightarrow> monitor_clusters env items cc = (updates, cc') \<Longrightarrow>
    clientless name cc' \<and> (\<forall>u \<in> set updates. cluster_name u \<noteq> name)"
proof (induction items arbitrary: cc updates cc')
  case (Cons c items)
  obtain us cc1 where one: "monitor_cluster env c cc = (us, cc1)" by (cases "monitor_cluster env c cc")
  obtain us2 cc2 where rest: "monitor_clusters env items cc1 = (us2, cc2)" by (cases "monitor_clusters env items cc1")
  have "clientless name cc1 \<and> (\<forall>u \<in> set us. cluster_name u \<noteq> name)"
    using one Cons.prems(1) assms [OF Cons.prems(1), of "cluster_name c"]
    by (auto simp: monitor_cluster_def clientless_def Let_def split: if_splits option.splits)
  with Cons.IH [OF _ rest] Cons.prems(2) one rest show ?case by auto
qed simp

lemma cc_step_clientless:
  assumes "clientless name cc" "event_keeps name e" "cc_step e cc = Inr (updates, cc')"
  shows "clientless name cc' \<and> (\<forall>u \<in> set updates. cluster_name u \<noteq> name)"
proof (cases e)
  case (Ev_add newClient c)
  with assms show ?thesis
    by (auto simp: rbind_Inr_iff addToClusterSetWithoutLock_def clientless_def sset_has_def Let_def
        split: if_splits sum.splits option.splits)
next
  case (Ev_del c)
  with assms show ?thesis
    by (auto simp: rbind_Inr_iff delFromClusterSetByName_def clientless_def sset_has_def sset_delete_def)
next
  case (Ev_round env clusters)
  obtain err us cc1 where r: "updateClusterStatus env clusters cc = (err, us, cc1)"
    by (cases "updateClusterStatus env clusters cc")
  have keeps: "\<And>m cc. clientless name cc \<Longrightarrow> clientless name (env_meanwhile env m cc)"
    using assms(2) Ev_round by simp
  have eq: "us = updates" "cc1 = cc'" using assms(3) r by (simp_all add: Ev_round)
  show ?thesis
  proof (cases clusters)
    case (Inl err)
    then show ?thesis using r eq assms(1) by (auto simp: updateClusterStatus_def)
  next
    case (Inr items)
    obtain us' cc2 where m: "monitor_clusters env items cc = (us', cc2)" by (cases "monitor_clusters env items cc")
    then have "us' = updates" "cc2 = cc'" using r eq by (auto simp: updateClusterStatus_def Inr)
    with monitor_clusters_clientless [OF keeps assms(1) m] show ?thesis by simp
  qed
qed

text \<open>
  C37. A cluster whose client could not be created when it was added is never monitored again until
  it is deleted: it stays known, so no later event or round of any kind retries the client, and its
  status is never written.
\<close>

theorem failed_client_never_retried:
  assumes "\<not> sset_has (knownClusterSet cc) (cluster_name c)" and "mget (clusterKubeClientMap cc) (cluster_name c) = None"
    and "addToClusterSet (Inl err) (ClusterItem c) cc = Inr cc0"
    and "\<forall>e \<in> set events. event_keeps (cluster_name c) e"
    and "cc_steps events cc0 = Inr (updates, cc1)"
  shows "clientless (cluster_name c) cc1 \<and> (\<forall>u \<in> set updates. cluster_name u \<noteq> cluster_name c)"
proof -
  have "clientless (cluster_name c) cc0"
    using assms(1-3) by (auto simp: addToClusterSetWithoutLock_def clientless_def sset_has_def Let_def split: if_splits)
  then show ?thesis
    using assms(4,5)
  proof (induction events arbitrary: cc0 updates)
    case (Cons e es)
    obtain us cc2 us2 where step: "cc_step e cc0 = Inr (us, cc2)" "cc_steps es cc2 = Inr (us2, cc1)" "updates = us @ us2"
      using Cons.prems(3) by (auto simp: rbind_Inr_iff)
    have one: "clientless (cluster_name c) cc2 \<and> (\<forall>u \<in> set us. cluster_name u \<noteq> cluster_name c)"
      using cc_step_clientless [OF Cons.prems(1) _ step(1)] Cons.prems(2) by simp
    with Cons.IH [of cc2 us2] Cons.prems(2) step(2,3) show ?case by auto
  qed simp
qed

theorem failed_client_never_retried_witness:
  "\<exists>cc1. cc_steps [Ev_add (Inr (Some (1::nat))) (demo_cluster ''c1'' True), Ev_round demo_cluster_env (Inr [demo_cluster ''c1'' True])]
     \<lparr>knownClusterSet = [''c1''], clusterClusterStatusMap = [], clusterKubeClientMap = []\<rparr> = Inr ([], cc1)
   \<and> clientless ''c1'' cc1"
proof -
  let ?cc0 = "\<lparr>knownClusterSet = [''c1''], clusterClusterStatusMap = [], clusterKubeClientMap = []\<rparr> :: nat cluster_controller"
  let ?events = "[Ev_add (Inr (Some (1::nat))) (demo_cluster ''c1'' True), Ev_round demo_cluster_env (Inr [demo_cluster ''c1'' True])]"
  have add: "addToClusterSet (Inl (ErrOther ''no secret'')) (ClusterItem (demo_cluster ''c1'' True)) newClusterController = Inr ?cc0"
    by (simp add: addToClusterSetWithoutLock_def newClusterController_def sset_has_def sset_insert_def)
  have run: "cc_steps ?events ?cc0 = Inr ([], ?cc0)"
    by (simp add: addToClusterSetWithoutLock_def sset_has_def updateClusterStatus_def monitor_cluster_def)
  have keeps: "\<forall>e \<in> set ?events. event_keeps (cluster_name (demo_cluster ''c1'' True)) e"
    by (simp add: demo_cluster_env_def)
  have "\<not> sset_has (knownClusterSet (newClusterController :: nat cluster_controller)) (cluster_name (demo_cluster ''c1'' True))"
    "mget (clusterKubeClientMap (newClusterController :: nat cluster_controller)) (cluster_name (demo_cluster ''c1'' True)) = None"
    by (simp_all add: newClusterController_def sset_has_def)
  from failed_client_never_retried [OF this add keeps run] run show ?thesis by auto
qed

end
