(* ===== verification/Delaying_Deliverer.thy ===== *)
theory Delaying_Deliverer
  imports Util_Strings
begin

section \<open>The delaying deliverer\<close>

text \<open>
  \<open>pkg/controller/util/delaying_deliverer.go\<close>: a binary heap of items ordered by delivery time,
  with the position of every key. The heap operations are those of Go's \<open>container/heap\<close> over
  the \<open>Less\<close>, \<open>Swap\<close>, \<open>Push\<close> and \<open>Pop\<close> of \<open>delivererHeap\<close>; times are integers. The main
  goroutine is a step relation: it wakes up at some time and delivers what is due, or takes an
  item from the update channel.
\<close>

record 'v DelayingDelivererItem =
  it_Key :: string
  it_Value :: 'v
  it_DeliveryTime :: int

record 'v delivererHeap =
  keyPosition :: "(string, nat) gomap"
  heap_data :: "'v DelayingDelivererItem list"

definition heap_Len :: "'v delivererHeap \<Rightarrow> nat" where
  "heap_Len dh = length (heap_data dh)"

definition heap_Less :: "'v delivererHeap \<Rightarrow> nat \<Rightarrow> nat \<Rightarrow> bool" where
  "heap_Less dh i j \<longleftrightarrow> it_DeliveryTime (heap_data dh ! i) < it_DeliveryTime (heap_data dh ! j)"

definition heap_Swap :: "nat \<Rightarrow> nat \<Rightarrow> 'v delivererHeap \<Rightarrow> 'v delivererHeap" where
  "heap_Swap i j dh =
     (let kp = mput (it_Key (heap_data dh ! j)) i (mput (it_Key (heap_data dh ! i)) j (keyPosition dh))
      in \<lparr>keyPosition = kp,
          heap_data = (heap_data dh)[i := heap_data dh ! j, j := heap_data dh ! i]\<rparr>)"

definition heap_Push :: "'v DelayingDelivererItem \<Rightarrow> 'v delivererHeap \<Rightarrow> 'v delivererHeap" where
  "heap_Push item dh =
     \<lparr>keyPosition = mput (it_Key item) (length (heap_data dh)) (keyPosition dh),
      heap_data = heap_data dh @ [item]\<rparr>"

definition heap_Pop :: "'v delivererHeap \<Rightarrow> 'v DelayingDelivererItem \<times> 'v delivererHeap" where
  "heap_Pop dh =
     (let n = length (heap_data dh); item = heap_data dh ! (n - 1)
      in (item, \<lparr>keyPosition = mdel (it_Key item) (keyPosition dh), heap_data = take (n - 1) (heap_data dh)\<rparr>))"

subsection \<open>container/heap\<close>

definition parent :: "nat \<Rightarrow> nat" where
  "parent k = (k - 1) div 2"

lemma parent_less: "0 < k \<Longrightarrow> parent k < k"
  by (simp add: parent_def less_mult_imp_div_less)

lemma parent_le: "parent k \<le> k"
  by (simp add: parent_def div_le_dividend [THEN order_trans])

lemma parent_0 [simp]: "parent 0 = 0"
  by (simp add: parent_def)

lemma parent_iff: "0 < k \<Longrightarrow> parent k = i \<longleftrightarrow> k = 2 * i + 1 \<or> k = 2 * i + 2"
  unfolding parent_def by linarith

function heap_up :: "nat \<Rightarrow> 'v delivererHeap \<Rightarrow> 'v delivererHeap" where
  "heap_up j dh =
     (let i = parent j
      in if i = j \<or> \<not> heap_Less dh j i then dh else heap_up i (heap_Swap i j dh))"
  by pat_completeness auto

termination
proof (relation "measure (\<lambda>(j, dh). j)")
  fix j i :: nat and dh :: "'v delivererHeap"
  assume "i = parent j" "\<not> (i = j \<or> \<not> heap_Less dh j i)"
  then show "((i, heap_Swap i j dh), (j, dh)) \<in> measure (\<lambda>(j, dh). j)"
    using parent_le [of j] by simp
qed simp

text \<open>The child of \<open>i\<close> that must move up, below \<open>n\<close>.\<close>

definition heap_child :: "nat \<Rightarrow> nat \<Rightarrow> 'v delivererHeap \<Rightarrow> nat" where
  "heap_child n i dh =
     (let j1 = 2 * i + 1; j2 = j1 + 1
      in if j2 < n \<and> heap_Less dh j2 j1 then j2 else j1)"

text \<open>Returns the heap and where the element ended: the source compares it with the start.\<close>

function heap_down :: "nat \<Rightarrow> nat \<Rightarrow> 'v delivererHeap \<Rightarrow> 'v delivererHeap \<times> nat" where
  "heap_down n i dh =
     (if n \<le> 2 * i + 1 then (dh, i)
      else (let j = heap_child n i dh
            in if \<not> heap_Less dh j i then (dh, i) else heap_down n j (heap_Swap i j dh)))"
  by pat_completeness auto

termination
  by (relation "measure (\<lambda>(n, i, dh). n - i)") (auto simp: heap_child_def Let_def)

definition go_heap_Push :: "'v DelayingDelivererItem \<Rightarrow> 'v delivererHeap \<Rightarrow> 'v delivererHeap" where
  "go_heap_Push item dh = (let dh1 = heap_Push item dh in heap_up (heap_Len dh1 - 1) dh1)"

definition go_heap_Pop :: "'v delivererHeap \<Rightarrow> 'v DelayingDelivererItem \<times> 'v delivererHeap" where
  "go_heap_Pop dh = (let n = heap_Len dh - 1 in heap_Pop (fst (heap_down n 0 (heap_Swap 0 n dh))))"

definition go_heap_Fix :: "nat \<Rightarrow> 'v delivererHeap \<Rightarrow> 'v delivererHeap" where
  "go_heap_Fix i dh =
     (let (dh1, i1) = heap_down (heap_Len dh) i dh in if \<not> i < i1 then heap_up i dh1 else dh1)"

declare heap_up.simps [simp del] heap_down.simps [simp del]

subsection \<open>Invariants\<close>

abbreviation dtime :: "'v delivererHeap \<Rightarrow> nat \<Rightarrow> int" where
  "dtime dh i \<equiv> it_DeliveryTime (heap_data dh ! i)"

definition pos_inv :: "'v delivererHeap \<Rightarrow> bool" where
  "pos_inv dh \<longleftrightarrow> (\<forall>k p. mget (keyPosition dh) k = Some p \<longleftrightarrow>
     p < length (heap_data dh) \<and> it_Key (heap_data dh ! p) = k)"

text \<open>The heap order below \<open>n\<close>, everywhere, or except at one element and its parent or children.\<close>

definition ordered :: "nat \<Rightarrow> 'v delivererHeap \<Rightarrow> bool" where
  "ordered n dh \<longleftrightarrow> (\<forall>k < n. 0 < k \<longrightarrow> dtime dh (parent k) \<le> dtime dh k)"

definition ordered_up :: "nat \<Rightarrow> nat \<Rightarrow> 'v delivererHeap \<Rightarrow> bool" where
  "ordered_up n j dh \<longleftrightarrow> (\<forall>k < n. 0 < k \<longrightarrow> k \<noteq> j \<longrightarrow> dtime dh (parent k) \<le> dtime dh k) \<and>
     (\<forall>k < n. 0 < k \<longrightarrow> parent k = j \<longrightarrow> 0 < j \<longrightarrow> dtime dh (parent j) \<le> dtime dh k)"

definition ordered_down :: "nat \<Rightarrow> nat \<Rightarrow> 'v delivererHeap \<Rightarrow> bool" where
  "ordered_down n i dh \<longleftrightarrow> (\<forall>k < n. 0 < k \<longrightarrow> parent k \<noteq> i \<longrightarrow> dtime dh (parent k) \<le> dtime dh k) \<and>
     (\<forall>k < n. 0 < k \<longrightarrow> parent k = i \<longrightarrow> 0 < i \<longrightarrow> dtime dh (parent i) \<le> dtime dh k)"

lemma length_heap_Swap [simp]: "length (heap_data (heap_Swap i j dh)) = length (heap_data dh)"
  by (simp add: heap_Swap_def Let_def)

lemma nth_heap_Swap:
  assumes "i < length (heap_data dh)" "j < length (heap_data dh)" "k < length (heap_data dh)"
  shows "heap_data (heap_Swap i j dh) ! k =
    (if k = j then heap_data dh ! i else if k = i then heap_data dh ! j else heap_data dh ! k)"
  using assms by (simp add: heap_Swap_def Let_def nth_list_update)

lemma pos_inv_keys:
  assumes "pos_inv dh" "p < length (heap_data dh)" "q < length (heap_data dh)"
    "it_Key (heap_data dh ! p) = it_Key (heap_data dh ! q)"
  shows "p = q"
proof -
  have "mget (keyPosition dh) (it_Key (heap_data dh ! p)) = Some p"
    "mget (keyPosition dh) (it_Key (heap_data dh ! p)) = Some q"
    using assms unfolding pos_inv_def by metis+
  then show ?thesis by simp
qed

lemma pos_inv_Swap:
  assumes "pos_inv dh" "i < length (heap_data dh)" "j < length (heap_data dh)"
  shows "pos_inv (heap_Swap i j dh)"
  unfolding pos_inv_def
proof (intro allI)
  fix k p
  let ?ki = "it_Key (heap_data dh ! i)" and ?kj = "it_Key (heap_data dh ! j)"
  have kp: "mget (keyPosition (heap_Swap i j dh)) k =
      (if k = ?kj then Some i else if k = ?ki then Some j else mget (keyPosition dh) k)"
    by (simp add: heap_Swap_def Let_def)
  have old: "mget (keyPosition dh) k = Some p \<longleftrightarrow> p < length (heap_data dh) \<and> it_Key (heap_data dh ! p) = k" for p
    using assms(1) by (simp add: pos_inv_def)
  show "mget (keyPosition (heap_Swap i j dh)) k = Some p \<longleftrightarrow>
      p < length (heap_data (heap_Swap i j dh)) \<and> it_Key (heap_data (heap_Swap i j dh) ! p) = k"
  proof (cases "p < length (heap_data dh)")
    case True
    note inj = pos_inv_keys [OF assms(1)]
    show ?thesis
      using assms(2,3) True old [of p] inj [OF assms(2,3)] inj [OF True assms(2)] inj [OF True assms(3)]
      by (auto simp: kp nth_heap_Swap)
  next
    case False
    then show ?thesis using assms(2,3) old [of p] by (auto simp: kp)
  qed
qed

lemma mset_Swap:
  assumes "i < length (heap_data dh)" "j < length (heap_data dh)"
  shows "mset (heap_data (heap_Swap i j dh)) = mset (heap_data dh)"
  using assms by (simp add: heap_Swap_def Let_def mset_swap)

subsection \<open>Sifting up\<close>

lemma heap_up_facts:
  assumes "j < length (heap_data dh)" "pos_inv dh" "ordered_up (length (heap_data dh)) j dh"
  shows "pos_inv (heap_up j dh) \<and> mset (heap_data (heap_up j dh)) = mset (heap_data dh) \<and>
    ordered (length (heap_data dh)) (heap_up j dh)"
  using assms
proof (induction j dh rule: heap_up.induct)
  case (1 j dh)
  let ?i = "parent j"
  show ?case
  proof (cases "?i = j \<or> \<not> heap_Less dh j ?i")
    case True
    then have eq: "heap_up j dh = dh" by (subst heap_up.simps) simp
    have "?i = j \<longleftrightarrow> j = 0" using parent_less [of j] by (cases "j = 0") auto
    then have "0 < j \<longrightarrow> dtime dh ?i \<le> dtime dh j"
      using True by (auto simp: heap_Less_def)
    with 1(4) have "ordered (length (heap_data dh)) dh"
      by (auto simp: ordered_def ordered_up_def)
    with 1(3) show ?thesis by (simp add: eq)
  next
    case False
    have eq: "heap_up j dh = heap_up ?i (heap_Swap ?i j dh)"
      using False by (subst heap_up.simps) (simp add: Let_def)
    have "j \<noteq> 0" using False by (cases "j = 0") auto
    then have j: "0 < j" "?i < j" using parent_less [of j] by auto
    then have i: "?i < length (heap_data dh)" using 1(2) by linarith
    have lt: "dtime dh j < dtime dh ?i" using False by (simp add: heap_Less_def)
    note nth = nth_heap_Swap [OF i 1(2)]
    have "ordered_up (length (heap_data dh)) ?i (heap_Swap ?i j dh)"
      unfolding ordered_up_def
    proof (intro conjI allI impI)
      fix k
      assume k: "k < length (heap_data dh)" "0 < k" "k \<noteq> ?i"
      have p: "parent k < length (heap_data dh)" using k parent_le [of k] by linarith
      have old: "k \<noteq> j \<Longrightarrow> dtime dh (parent k) \<le> dtime dh k"
        using 1(4) k by (simp add: ordered_up_def)
      have child: "parent k = j \<Longrightarrow> dtime dh ?i \<le> dtime dh k"
        using 1(4) k j by (simp add: ordered_up_def)
      show "dtime (heap_Swap ?i j dh) (parent k) \<le> dtime (heap_Swap ?i j dh) k"
        using k(1,3) old child lt j p i 1(2)
        by (cases "k = j"; cases "parent k = ?i") (simp_all add: nth)
    next
      fix k
      assume k: "k < length (heap_data dh)" "0 < k" "parent k = ?i" "0 < ?i"
      have p: "parent ?i < length (heap_data dh)" "parent ?i \<noteq> ?i" "parent ?i \<noteq> j"
        using i k(4) j parent_less [OF k(4)] by linarith+
      have up: "dtime dh (parent ?i) \<le> dtime dh ?i"
        using 1(4) i k(4) j by (simp add: ordered_up_def)
      have kne: "k \<noteq> ?i" using k(2,3) parent_less [of k] by auto
      have old: "k \<noteq> j \<Longrightarrow> dtime dh ?i \<le> dtime dh k"
        using 1(4) k by (auto simp: ordered_up_def)
      show "dtime (heap_Swap ?i j dh) (parent ?i) \<le> dtime (heap_Swap ?i j dh) k"
        using up old lt kne p k(1,3) i 1(2) by (cases "k = j") (simp_all add: nth)
    qed
    moreover have "pos_inv (heap_Swap ?i j dh)"
      by (rule pos_inv_Swap [OF 1(3) i 1(2)])
    ultimately show ?thesis
      using 1(1) [OF refl False] i mset_Swap [OF i 1(2)] by (simp add: eq)
  qed
qed

subsection \<open>Sifting down\<close>

lemma heap_child_facts:
  assumes "\<not> n \<le> 2 * i + 1"
  shows "heap_child n i dh < n" "parent (heap_child n i dh) = i" "i < heap_child n i dh"
    and "\<And>k. k < n \<Longrightarrow> 0 < k \<Longrightarrow> parent k = i \<Longrightarrow> dtime dh (heap_child n i dh) \<le> dtime dh k"
proof -
  show "heap_child n i dh < n" "parent (heap_child n i dh) = i" "i < heap_child n i dh"
    using assms by (auto simp: heap_child_def Let_def parent_iff)
  fix k
  assume k: "k < n" "0 < k" "parent k = i"
  then have "k = 2 * i + 1 \<or> k = 2 * i + 2" by (simp add: parent_iff)
  with k(1) show "dtime dh (heap_child n i dh) \<le> dtime dh k"
    by (auto simp: heap_child_def Let_def heap_Less_def)
qed

lemma heap_down_facts:
  assumes "heap_down n i dh = (dh', i')" "n \<le> length (heap_data dh)" "pos_inv dh" "ordered_down n i dh"
  shows "pos_inv dh' \<and> mset (heap_data dh') = mset (heap_data dh) \<and> ordered n dh' \<and>
    (\<forall>k. n \<le> k \<longrightarrow> k < length (heap_data dh) \<longrightarrow> heap_data dh' ! k = heap_data dh ! k)"
  using assms
proof (induction n i dh rule: heap_down.induct)
  case (1 n i dh)
  show ?case
  proof (cases "n \<le> 2 * i + 1")
    case True
    then have eq: "dh' = dh" using 1(2) by (subst (asm) heap_down.simps) simp
    have "parent k \<noteq> i" if "k < n" "0 < k" for k using True that by (auto simp: parent_iff)
    then have "ordered n dh" using 1(5) by (simp add: ordered_def ordered_down_def)
    with 1(4) show ?thesis by (simp add: eq)
  next
    case False
    define j where "j = heap_child n i dh"
    note child = heap_child_facts [OF False, where dh = dh, folded j_def]
    show ?thesis
    proof (cases "heap_Less dh j i")
      case False': False
      then have eq: "dh' = dh"
        using 1(2) False by (subst (asm) heap_down.simps) (simp add: Let_def j_def)
      have "dtime dh i \<le> dtime dh k" if "k < n" "0 < k" "parent k = i" for k
        using child(4) [OF that] False' by (simp add: heap_Less_def)
      then have "ordered n dh" using 1(5) by (auto simp: ordered_def ordered_down_def)
      with 1(4) show ?thesis by (simp add: eq)
    next
      case True
      have run: "heap_down n j (heap_Swap i j dh) = (dh', i')"
        using 1(2) False True by (subst (asm) heap_down.simps) (simp add: Let_def j_def)
      have ij: "i < length (heap_data dh)" "j < length (heap_data dh)" using child 1(3) by linarith+
      note nth = nth_heap_Swap [OF ij]
      have lt: "dtime dh j < dtime dh i" using True by (simp add: heap_Less_def)
      have "ordered_down n j (heap_Swap i j dh)"
        unfolding ordered_down_def
      proof (intro conjI allI impI)
        fix k
        assume k: "k < n" "0 < k" "parent k \<noteq> j"
        then have b: "k < length (heap_data dh)" "parent k < length (heap_data dh)"
          using 1(3) parent_le [of k] by linarith+
        have old: "parent k \<noteq> i \<Longrightarrow> dtime dh (parent k) \<le> dtime dh k"
          using 1(5) k by (simp add: ordered_down_def)
        have top: "k = i \<Longrightarrow> dtime dh (parent i) \<le> dtime dh j"
          using 1(5) k child by (auto simp: ordered_down_def)
        have sib: "parent k = i \<Longrightarrow> dtime dh j \<le> dtime dh k"
          using child(4) k by blast
        have "k = i \<Longrightarrow> parent k \<noteq> i" using k(2) parent_less [of k] by auto
        then show "dtime (heap_Swap i j dh) (parent k) \<le> dtime (heap_Swap i j dh) k"
          using old top sib lt child k(3) b by (cases "k = j"; cases "k = i") (simp_all add: nth ij)
      next
        fix k
        assume k: "k < n" "0 < k" "parent k = j" "0 < j"
        then have b: "k < length (heap_data dh)" using 1(3) by linarith
        have "k \<noteq> i" "k \<noteq> j" using k child parent_less [of k] by linarith+
        moreover have "dtime dh j \<le> dtime dh k"
          using 1(5) k child by (auto simp: ordered_down_def)
        ultimately show "dtime (heap_Swap i j dh) (parent j) \<le> dtime (heap_Swap i j dh) k"
          using child by (simp add: nth [OF b] nth [OF ij(1)])
      qed
      moreover have "heap_data (heap_Swap i j dh) ! k = heap_data dh ! k"
        if "n \<le> k" "k < length (heap_data dh)" for k
        using that child by (simp add: nth)
      ultimately show ?thesis
        using 1(1) [OF False j_def _ run] True 1(3) pos_inv_Swap [OF 1(4) ij] mset_Swap [OF ij] by simp
    qed
  qed
qed

lemma heap_down_noop:
  assumes "\<And>k. k < n \<Longrightarrow> 0 < k \<Longrightarrow> parent k = i \<Longrightarrow> dtime dh i \<le> dtime dh k"
  shows "heap_down n i dh = (dh, i)"
proof (cases "n \<le> 2 * i + 1")
  case False
  note child = heap_child_facts [OF False, where dh = dh]
  have "\<not> heap_Less dh (heap_child n i dh) i"
    using assms [of "heap_child n i dh"] child by (simp add: heap_Less_def not_less)
  then show ?thesis by (subst heap_down.simps) (simp add: Let_def)
qed (subst heap_down.simps, simp)

lemma ordered_min:
  assumes "ordered n dh" "k < n"
  shows "dtime dh 0 \<le> dtime dh k"
  using assms(2)
proof (induction k rule: less_induct)
  case (less k)
  show ?case
  proof (cases "k = 0")
    case False
    then have "parent k < k" by (simp add: parent_less)
    with less have "dtime dh 0 \<le> dtime dh (parent k)" by simp
    also have "\<dots> \<le> dtime dh k" using assms(1) less.prems False by (simp add: ordered_def)
    finally show ?thesis .
  qed simp
qed

subsection \<open>The heap operations\<close>

definition heap_ok :: "'v delivererHeap \<Rightarrow> bool" where
  "heap_ok dh \<longleftrightarrow> pos_inv dh \<and> ordered (length (heap_data dh)) dh"

lemma go_heap_Push_facts:
  assumes "heap_ok dh" and "mget (keyPosition dh) (it_Key item) = None"
  shows "heap_ok (go_heap_Push item dh)" and "mset (heap_data (go_heap_Push item dh)) = add_mset item (mset (heap_data dh))"
proof -
  let ?n = "length (heap_data dh)" and ?dh1 = "heap_Push item dh"
  have fresh: "it_Key (heap_data dh ! p) \<noteq> it_Key item" if "p < ?n" for p
    using assms that unfolding heap_ok_def pos_inv_def by (metis option.distinct(1))
  have data: "heap_data ?dh1 = heap_data dh @ [item]" by (simp add: heap_Push_def)
  have old: "mget (keyPosition dh) k = Some p \<longleftrightarrow> p < ?n \<and> it_Key (heap_data dh ! p) = k" for k p
    using assms(1) by (simp add: heap_ok_def pos_inv_def)
  have pos: "pos_inv ?dh1"
    unfolding pos_inv_def data
  proof (intro allI)
    fix k p
    have "mget (keyPosition ?dh1) k = (if k = it_Key item then Some ?n else mget (keyPosition dh) k)"
      by (simp add: heap_Push_def)
    then show "mget (keyPosition ?dh1) k = Some p \<longleftrightarrow>
        p < length (heap_data dh @ [item]) \<and> it_Key ((heap_data dh @ [item]) ! p) = k"
      using old [of k p] fresh [of p] by (auto simp: nth_append less_Suc_eq)
  qed
  have nth: "dtime ?dh1 k = dtime dh k" if "k < ?n" for k
    using that by (simp add: data nth_append)
  have "ordered_up (Suc ?n) ?n ?dh1"
    unfolding ordered_up_def
  proof (intro conjI allI impI)
    fix k
    assume k: "k < Suc ?n" "0 < k" "k \<noteq> ?n"
    then have "k < ?n" "parent k < ?n" using parent_less [of k] by linarith+
    with k assms(1) show "dtime ?dh1 (parent k) \<le> dtime ?dh1 k"
      by (simp add: nth heap_ok_def ordered_def)
  next
    fix k
    assume "k < Suc ?n" "0 < k" "parent k = ?n"
    then have False using parent_less [of k] by linarith
    then show "dtime ?dh1 (parent ?n) \<le> dtime ?dh1 k" ..
  qed
  with heap_up_facts [of ?n ?dh1] pos have f: "pos_inv (heap_up ?n ?dh1)"
    "mset (heap_data (heap_up ?n ?dh1)) = mset (heap_data ?dh1)" "ordered (Suc ?n) (heap_up ?n ?dh1)"
    by (simp_all add: data)
  have push: "go_heap_Push item dh = heap_up ?n ?dh1"
    by (simp add: go_heap_Push_def heap_Len_def data)
  have "length (heap_data (heap_up ?n ?dh1)) = Suc ?n"
    using arg_cong [OF f(2), of size] by (simp add: data)
  with f show "heap_ok (go_heap_Push item dh)"
    by (simp add: push heap_ok_def)
  show "mset (heap_data (go_heap_Push item dh)) = add_mset item (mset (heap_data dh))"
    using f(2) by (simp add: push data)
qed

lemma go_heap_Pop_facts:
  assumes "heap_ok dh" and "heap_data dh \<noteq> []" and pop: "go_heap_Pop dh = (item, dh')"
  shows "heap_ok dh'" and "mset (heap_data dh) = add_mset item (mset (heap_data dh'))"
    and "item = heap_data dh ! 0" and "\<forall>x \<in> set (heap_data dh'). it_DeliveryTime item \<le> it_DeliveryTime x"
    and "length (heap_data dh') = length (heap_data dh) - 1"
proof -
  define n where "n = length (heap_data dh) - 1"
  have n: "0 < length (heap_data dh)" "n < length (heap_data dh)" "Suc n = length (heap_data dh)"
    using assms(2) by (cases "heap_data dh"; simp add: n_def)+
  have ok: "pos_inv dh" "ordered (length (heap_data dh)) dh"
    using assms(1) by (simp_all add: heap_ok_def)
  let ?s = "heap_Swap 0 n dh"
  note nth = nth_heap_Swap [OF n(1,2)]
  have "ordered_down n 0 ?s"
    unfolding ordered_down_def
  proof (intro conjI allI impI)
    fix k
    assume k: "k < n" "0 < k" "parent k \<noteq> 0"
    then have b: "parent k < n" "parent k < length (heap_data dh)" "k < length (heap_data dh)"
      using n parent_le [of k] by linarith+
    with k ok(2) show "dtime ?s (parent k) \<le> dtime ?s k"
      by (simp add: nth ordered_def)
  qed simp
  moreover have "pos_inv ?s" by (rule pos_inv_Swap [OF ok(1) n(1,2)])
  moreover obtain d i' where down: "heap_down n 0 ?s = (d, i')" by (cases "heap_down n 0 ?s")
  ultimately have d: "pos_inv d" "mset (heap_data d) = mset (heap_data dh)" "ordered n d"
    "heap_data d ! n = heap_data dh ! 0"
    using heap_down_facts [OF down] n mset_Swap [OF n(1,2)] by (simp_all add: nth)
  have len: "length (heap_data d) = Suc n"
    using arg_cong [OF d(2), of size] n(3) by simp
  have res: "item = heap_data d ! n" "dh' = \<lparr>keyPosition = mdel (it_Key item) (keyPosition d), heap_data = take n (heap_data d)\<rparr>"
    using pop len
    unfolding go_heap_Pop_def heap_Len_def Let_def n_def [symmetric] down fst_conv heap_Pop_def
    by auto
  show "item = heap_data dh ! 0" using res d by simp
  have data: "heap_data d = heap_data dh' @ [item]"
    using take_Suc_conv_app_nth [of n "heap_data d"] len by (simp add: res)
  then show "mset (heap_data dh) = add_mset item (mset (heap_data dh'))"
    using d(2) by simp
  show len': "length (heap_data dh') = length (heap_data dh) - 1"
    by (simp add: res len n_def)
  have "pos_inv dh'"
    unfolding pos_inv_def
  proof (intro allI)
    fix k p
    have old: "mget (keyPosition d) k = Some p \<longleftrightarrow> p < Suc n \<and> it_Key (heap_data d ! p) = k"
      using d(1) len by (simp add: pos_inv_def)
    have "p = n" if "p < Suc n" "it_Key (heap_data d ! p) = it_Key item"
      using pos_inv_keys [OF d(1), of p n] that len by (simp add: res)
    then show "mget (keyPosition dh') k = Some p \<longleftrightarrow>
        p < length (heap_data dh') \<and> it_Key (heap_data dh' ! p) = k"
      using old by (cases "p = n") (auto simp: res len less_Suc_eq)
  qed
  moreover have "ordered n dh'"
    unfolding ordered_def
  proof (intro allI impI)
    fix k
    assume k: "k < n" "0 < k"
    then have "parent k < n" using parent_le [of k] by linarith
    with k d(3) show "dtime dh' (parent k) \<le> dtime dh' k"
      by (simp add: res ordered_def)
  qed
  ultimately show "heap_ok dh'"
    using len' by (simp add: heap_ok_def n_def)
  show "\<forall>x \<in> set (heap_data dh'). it_DeliveryTime item \<le> it_DeliveryTime x"
  proof
    fix x
    assume "x \<in> set (heap_data dh')"
    then have "x \<in> set (heap_data dh)"
      using data d(2) by (metis Un_iff set_append set_mset_mset)
    then obtain k where "k < length (heap_data dh)" "heap_data dh ! k = x"
      by (auto simp: in_set_conv_nth)
    with ordered_min [OF ok(2)] show "it_DeliveryTime item \<le> it_DeliveryTime x"
      using res d by auto
  qed
qed

text \<open>\<open>heap.Fix\<close> after an item was replaced by an earlier one of the same key.\<close>

lemma go_heap_Fix_facts:
  assumes ok: "heap_ok dh" and p: "p < length (heap_data dh)"
    and key: "it_Key item = it_Key (heap_data dh ! p)"
    and lt: "it_DeliveryTime item < it_DeliveryTime (heap_data dh ! p)"
  defines "dh1 \<equiv> dh\<lparr>heap_data := (heap_data dh)[p := item]\<rparr>"
  shows "heap_ok (go_heap_Fix p dh1)"
    and "mset (heap_data (go_heap_Fix p dh1)) = mset ((heap_data dh)[p := item])"
proof -
  have ok': "pos_inv dh" "ordered (length (heap_data dh)) dh" using ok by (simp_all add: heap_ok_def)
  have time: "dtime dh1 k = (if k = p then it_DeliveryTime item else dtime dh k)" for k
    using p by (simp add: dh1_def nth_list_update)
  have len: "length (heap_data dh1) = length (heap_data dh)" by (simp add: dh1_def)
  have pos: "pos_inv dh1"
    using ok'(1) key p by (simp add: pos_inv_def dh1_def nth_list_update)
  have child: "dtime dh p \<le> dtime dh k" if "k < length (heap_data dh)" "0 < k" "parent k = p" for k
    using ok'(2) that by (auto simp: ordered_def)
  have "heap_down (heap_Len dh1) p dh1 = (dh1, p)"
  proof (rule heap_down_noop)
    fix k
    assume k: "k < heap_Len dh1" "0 < k" "parent k = p"
    then have "k \<noteq> p" using parent_less [of k] by auto
    with child [of k] k lt show "dtime dh1 p \<le> dtime dh1 k"
      by (simp add: time heap_Len_def len)
  qed
  then have fixed: "go_heap_Fix p dh1 = heap_up p dh1"
    by (simp add: go_heap_Fix_def)
  have "ordered_up (length (heap_data dh1)) p dh1"
    unfolding ordered_up_def len
  proof (intro conjI allI impI)
    fix k
    assume "k < length (heap_data dh)" "0 < k" "k \<noteq> p"
    with ok'(2) lt show "dtime dh1 (parent k) \<le> dtime dh1 k"
      by (auto simp: time ordered_def intro: order_trans less_imp_le)
  next
    fix k
    assume k: "k < length (heap_data dh)" "0 < k" "parent k = p" "0 < p"
    then have "k \<noteq> p" "parent p \<noteq> p" using parent_less [of k] parent_less [of p] by auto
    moreover have "dtime dh (parent p) \<le> dtime dh p" using ok'(2) p k(4) by (simp add: ordered_def)
    ultimately show "dtime dh1 (parent p) \<le> dtime dh1 k"
      using child [OF k(1-3)] by (simp add: time)
  qed
  with heap_up_facts [of p dh1] pos p have up: "pos_inv (heap_up p dh1)"
    "mset (heap_data (heap_up p dh1)) = mset (heap_data dh1)" "ordered (length (heap_data dh1)) (heap_up p dh1)"
    by (simp_all add: len)
  have "length (heap_data (heap_up p dh1)) = length (heap_data dh1)"
    using arg_cong [OF up(2), of size] by simp
  with up show "heap_ok (go_heap_Fix p dh1)" by (simp add: fixed heap_ok_def)
  show "mset (heap_data (go_heap_Fix p dh1)) = mset ((heap_data dh)[p := item])"
    using up(2) unfolding fixed by (simp add: dh1_def)
qed

subsection \<open>The deliverer\<close>

text \<open>Deliver all items due before or equal to the timestamp, in the order of delivery.\<close>

lemma length_heap_up: "length (heap_data (heap_up j dh)) = length (heap_data dh)"
proof (induction j dh rule: heap_up.induct)
  case (1 j dh)
  then show ?case by (subst heap_up.simps) (simp add: Let_def)
qed

lemma length_heap_down: "length (heap_data (fst (heap_down n i dh))) = length (heap_data dh)"
proof (induction n i dh rule: heap_down.induct)
  case (1 n i dh)
  then show ?case by (subst heap_down.simps) (simp add: Let_def)
qed

lemma length_go_heap_Pop: "length (heap_data (snd (go_heap_Pop dh))) = length (heap_data dh) - 1"
  by (simp add: go_heap_Pop_def heap_Pop_def Let_def length_heap_down heap_Len_def)

function deliver :: "int \<Rightarrow> 'v delivererHeap \<Rightarrow> 'v DelayingDelivererItem list \<times> 'v delivererHeap" where
  "deliver timestamp dh =
     (if 0 < heap_Len dh
      then if timestamp < it_DeliveryTime (heap_data dh ! 0) then ([], dh)
           else (let (item, dh1) = go_heap_Pop dh; (items, dh2) = deliver timestamp dh1
                 in (item # items, dh2))
      else ([], dh))"
  by pat_completeness auto

termination
proof (relation "measure (\<lambda>(t, dh). length (heap_data dh))")
  fix timestamp and dh dh1 :: "'v delivererHeap" and item p
  assume "0 < heap_Len dh" "p = go_heap_Pop dh" "(item, dh1) = p"
  moreover from this have "dh1 = snd (go_heap_Pop dh)" by (metis snd_conv)
  ultimately show "((timestamp, dh1), (timestamp, dh)) \<in> measure (\<lambda>(t, dh). length (heap_data dh))"
    using length_go_heap_Pop [of dh] by (simp add: heap_Len_def)
qed simp

declare deliver.simps [simp del]

text \<open>Taking an item from the update channel: the earlier delivery of a key wins.\<close>

definition deliverer_update :: "'v DelayingDelivererItem \<Rightarrow> 'v delivererHeap \<Rightarrow> 'v delivererHeap" where
  "deliverer_update item dh =
     (case mget (keyPosition dh) (it_Key item) of
        Some position \<Rightarrow>
          if it_DeliveryTime item < it_DeliveryTime (heap_data dh ! position)
          then go_heap_Fix position (dh\<lparr>heap_data := (heap_data dh)[position := item]\<rparr>)
          else dh
      | None \<Rightarrow> go_heap_Push item dh)"

text \<open>When the goroutine sleeps until, if nothing arrives; an hour is \<open>3600000\<close> milliseconds.\<close>

definition nextWakeUp :: "int \<Rightarrow> 'v delivererHeap \<Rightarrow> int" where
  "nextWakeUp now dh = (if 0 < heap_Len dh then it_DeliveryTime (heap_data dh ! 0) else now + 3600000)"

definition NewDelayingDeliverer :: "'v delivererHeap" where
  "NewDelayingDeliverer = \<lparr>keyPosition = [], heap_data = []\<rparr>"

subsection \<open>The abstract queue\<close>

text \<open>The deliverer as a map from keys to pending items.\<close>

definition pending :: "'v delivererHeap \<Rightarrow> string \<Rightarrow> 'v DelayingDelivererItem option" where
  "pending dh k = map_option (\<lambda>p. heap_data dh ! p) (mget (keyPosition dh) k)"

lemma pending_iff:
  assumes "heap_ok dh"
  shows "pending dh k = Some x \<longleftrightarrow> x \<in> set (heap_data dh) \<and> it_Key x = k"
proof -
  have kp: "mget (keyPosition dh) k = Some p \<longleftrightarrow> p < length (heap_data dh) \<and> it_Key (heap_data dh ! p) = k" for p
    using assms by (simp add: heap_ok_def pos_inv_def)
  show ?thesis
    by (auto simp: pending_def kp in_set_conv_nth)
qed

lemma pending_None: "heap_ok dh \<Longrightarrow> pending dh k = None \<longleftrightarrow> (\<forall>x \<in> set (heap_data dh). it_Key x \<noteq> k)"
  using pending_iff [of dh k] by (cases "pending dh k") auto

lemma pending_ext:
  assumes "heap_ok dh" "\<And>x. x \<in> set (heap_data dh) \<longleftrightarrow> m (it_Key x) = Some x"
    and "\<And>k x. m k = Some x \<Longrightarrow> it_Key x = k"
  shows "pending dh = m"
proof
  fix k
  show "pending dh k = m k"
  proof (cases "m k")
    case None
    then show ?thesis using pending_None [OF assms(1)] assms(2) by auto
  next
    case (Some x)
    with assms(3) have "it_Key x = k" by blast
    with Some show ?thesis using pending_iff [OF assms(1)] assms(2) by auto
  qed
qed

definition queue_update :: "'v DelayingDelivererItem \<Rightarrow> (string \<Rightarrow> 'v DelayingDelivererItem option)
    \<Rightarrow> string \<Rightarrow> 'v DelayingDelivererItem option" where
  "queue_update item q =
     (case q (it_Key item) of
        Some old \<Rightarrow> if it_DeliveryTime item < it_DeliveryTime old then q(it_Key item \<mapsto> item) else q
      | None \<Rightarrow> q(it_Key item \<mapsto> item))"

text \<open>
  Histories: what the main goroutine took from the update channel and what it delivered, in order.
  \<open>replay\<close> runs one on the map of pending items and fails at a delivery that is early or of an
  item that is not the pending one of its key.
\<close>

datatype 'v delivery_event = Taken "'v DelayingDelivererItem" | Delivered int "'v DelayingDelivererItem"

fun replay :: "(string \<Rightarrow> 'v DelayingDelivererItem option) \<Rightarrow> 'v delivery_event list
    \<Rightarrow> (string \<Rightarrow> 'v DelayingDelivererItem option) option" where
  "replay q [] = Some q"
| "replay q (Taken x # es) = replay (queue_update x q) es"
| "replay q (Delivered now x # es) =
     (if q (it_Key x) = Some x \<and> it_DeliveryTime x \<le> now then replay (q(it_Key x := None)) es else None)"

fun delivers_key :: "string \<Rightarrow> 'v delivery_event \<Rightarrow> bool" where
  "delivers_key k (Delivered now x) \<longleftrightarrow> it_Key x = k"
| "delivers_key k (Taken x) \<longleftrightarrow> False"

lemma replay_append: "replay q (es @ fs) = (case replay q es of None \<Rightarrow> None | Some q1 \<Rightarrow> replay q1 fs)"
proof (induction q es rule: replay.induct)
  case (3 q now x es)
  then show ?case by (cases "q (it_Key x) = Some x \<and> it_DeliveryTime x \<le> now") (simp_all only: append_Cons replay.simps if_True if_False simp_thms option.case)
qed simp_all

lemma queue_update_new: "\<exists>y. queue_update z q (it_Key z) = Some y \<and> it_DeliveryTime y \<le> it_DeliveryTime z"
  by (auto simp: queue_update_def split: option.split)

lemma queue_update_old:
  "q k = Some x \<Longrightarrow> \<exists>y. queue_update z q k = Some y \<and> it_DeliveryTime y \<le> it_DeliveryTime x"
  by (auto simp: queue_update_def split: option.split)

text \<open>A pending item stays, is replaced by an earlier one, or it or its replacement is delivered.\<close>

lemma replay_kept:
  assumes "replay q es = Some q'" and "q k = Some x"
  shows "(\<exists>y. q' k = Some y \<and> it_DeliveryTime y \<le> it_DeliveryTime x) \<or>
    (\<exists>now y. Delivered now y \<in> set es \<and> it_Key y = k \<and> it_DeliveryTime y \<le> it_DeliveryTime x)"
  using assms
proof (induction q es arbitrary: x rule: replay.induct)
  case (2 q z es)
  obtain x1 where x1: "queue_update z q k = Some x1" "it_DeliveryTime x1 \<le> it_DeliveryTime x"
    using queue_update_old [of q k x z, OF 2(3)] by blast
  from 2(1) [OF _ x1(1)] 2(2) x1(2) show ?case by fastforce
next
  case (3 q now z es)
  then show ?case by (cases "it_Key z = k") (fastforce split: if_splits)+
qed simp

text \<open>A pending item was taken, and no item of its key was delivered since.\<close>

lemma replay_taken:
  assumes "replay Map.empty es = Some q" and "q k = Some x"
  shows "\<exists>pre post. es = pre @ Taken x # post \<and> it_Key x = k \<and> \<not> list_ex (delivers_key k) post"
  using assms
proof (induction es arbitrary: q rule: rev_induct)
  case (snoc e es)
  obtain q1 where q1: "replay Map.empty es = Some q1" "replay q1 [e] = Some q"
    using snoc.prems(1) by (auto simp: replay_append split: option.splits)
  show ?case
  proof (cases "q1 k = Some x \<and> \<not> delivers_key k e")
    case True
    with snoc.IH [OF q1(1)] obtain pre post where "es = pre @ Taken x # post" "it_Key x = k"
      "\<not> list_ex (delivers_key k) post" by blast
    with True show ?thesis by (intro exI [of _ pre] exI [of _ "post @ [e]"]) simp
  next
    case False
    then have "e = Taken x \<and> it_Key x = k"
      using q1(2) snoc.prems(2)
      by (cases e) (auto simp: queue_update_def split: option.splits if_splits)
    then show ?thesis by (intro exI [of _ es] exI [of _ "[]"]) simp
  qed
qed simp

text \<open>The contract of a queue of delayed items, over its abstraction to a map.\<close>

locale delayed_queue =
  fixes ok :: "'q \<Rightarrow> bool" and view :: "'q \<Rightarrow> string \<Rightarrow> 'v DelayingDelivererItem option"
    and empty :: 'q and update :: "'v DelayingDelivererItem \<Rightarrow> 'q \<Rightarrow> 'q"
    and due :: "int \<Rightarrow> 'q \<Rightarrow> 'v DelayingDelivererItem list \<times> 'q"
  assumes empty: "ok empty" "view empty = Map.empty"
    and view_key: "ok q \<Longrightarrow> view q k = Some x \<Longrightarrow> it_Key x = k"
    and update: "ok q \<Longrightarrow> ok (update item q)" "ok q \<Longrightarrow> view (update item q) = queue_update item (view q)"
    and due: "ok q \<Longrightarrow> due now q = (items, q') \<Longrightarrow> ok q'"
      "ok q \<Longrightarrow> due now q = (items, q') \<Longrightarrow> sorted (map it_DeliveryTime items)"
      "ok q \<Longrightarrow> due now q = (items, q') \<Longrightarrow> distinct (map it_Key items)"
      "ok q \<Longrightarrow> due now q = (items, q') \<Longrightarrow>
         set items = {x. view q (it_Key x) = Some x \<and> it_DeliveryTime x \<le> now}"
      "ok q \<Longrightarrow> due now q = (items, q') \<Longrightarrow>
         view q' k = (case view q k of Some x \<Rightarrow> if it_DeliveryTime x \<le> now then None else Some x | None \<Rightarrow> None)"
begin

text \<open>Runs of the main goroutine: it takes updates and wakes up; deliveries are logged with the time.\<close>

inductive run :: "'q \<Rightarrow> (int \<times> 'v DelayingDelivererItem) list \<Rightarrow> 'v DelayingDelivererItem list \<Rightarrow> bool" where
  start: "run empty [] []"
| take: "run q log added \<Longrightarrow> run (update item q) log (added @ [item])"
| wake: "run q log added \<Longrightarrow> due now q = (items, q') \<Longrightarrow> run q' (log @ map (Pair now) items) added"

lemma run_ok: "run q log added \<Longrightarrow> ok q"
  by (induction rule: run.induct) (use empty update due in auto)

text \<open>The same runs with their history.\<close>

inductive trace :: "'q \<Rightarrow> 'v delivery_event list \<Rightarrow> bool" where
  start: "trace empty []"
| take: "trace q es \<Longrightarrow> trace (update item q) (es @ [Taken item])"
| wake: "trace q es \<Longrightarrow> due now q = (items, q') \<Longrightarrow> trace q' (es @ map (Delivered now) items)"

lemma trace_ok: "trace q es \<Longrightarrow> ok q"
  by (induction rule: trace.induct) (use empty update due in auto)

lemma replay_items:
  assumes "distinct (map it_Key items)" and "\<forall>x \<in> set items. m (it_Key x) = Some x \<and> it_DeliveryTime x \<le> now"
  shows "replay m (map (Delivered now) items) = Some (\<lambda>k. if k \<in> it_Key ` set items then None else m k)"
  using assms
proof (induction items arbitrary: m)
  case (Cons x items)
  have "it_Key z \<noteq> it_Key x \<and> m (it_Key z) = Some z \<and> it_DeliveryTime z \<le> now" if "z \<in> set items" for z
  proof -
    have "it_Key z \<in> it_Key ` set items" using that by (rule imageI)
    moreover have "it_Key x \<notin> it_Key ` set items" using Cons.prems(1) by simp
    ultimately show ?thesis using Cons.prems(2) that by (metis list.set_intros(2))
  qed
  then have "replay (m(it_Key x := None)) (map (Delivered now) items) =
      Some (\<lambda>k. if k \<in> it_Key ` set items then None else (m(it_Key x := None)) k)"
    using Cons.prems(1) by (intro Cons.IH) simp_all
  moreover have "m (it_Key x) = Some x \<and> it_DeliveryTime x \<le> now" using Cons.prems(2) by simp
  moreover have "(\<lambda>k. if k \<in> it_Key ` set items then None else (m(it_Key x := None)) k) =
      (\<lambda>k. if k \<in> it_Key ` set (x # items) then None else m k)"
    by (simp add: fun_eq_iff)
  ultimately show ?case by (simp only: list.map replay.simps if_True simp_thms)
qed simp

text \<open>The queue is the replay of its history: nothing is made up, comes early or is lost.\<close>

lemma trace_replay: "trace q es \<Longrightarrow> replay Map.empty es = Some (view q)"
proof (induction rule: trace.induct)
  case (take q es item)
  then show ?case using update(2) [OF trace_ok [OF take(1)], of item] by (simp add: replay_append)
next
  case (wake q es now items q')
  note ok = trace_ok [OF wake(1)]
  note d = due(3-5) [OF ok wake(2)]
  have "(if k \<in> it_Key ` set items then None else view q k) = view q' k" for k
  proof (cases "view q k")
    case (Some y)
    have "k \<in> it_Key ` set items \<longleftrightarrow> it_DeliveryTime y \<le> now"
    proof
      assume "k \<in> it_Key ` set items"
      then obtain x where "k = it_Key x" "x \<in> set items" by (rule imageE)
      with Some show "it_DeliveryTime y \<le> now" unfolding d(2) by simp
    next
      assume "it_DeliveryTime y \<le> now"
      then have "y \<in> set items" unfolding d(2) using Some view_key [OF ok Some] by simp
      then show "k \<in> it_Key ` set items" using view_key [OF ok Some] by (metis imageI)
    qed
    with Some d(3) show ?thesis by simp
  qed (simp add: d(3))
  then have "view q' = (\<lambda>k. if k \<in> it_Key ` set items then None else view q k)" by (simp add: fun_eq_iff)
  moreover have "\<forall>x \<in> set items. view q (it_Key x) = Some x \<and> it_DeliveryTime x \<le> now" using d(2) by blast
  ultimately have "replay (view q) (map (Delivered now) items) = Some (view q')"
    using replay_items [OF d(1)] by simp
  with wake(3) show ?case by (simp add: replay_append)
qed (simp add: empty)

lemma trace_sound:
  assumes "trace q es" and "es = pre @ Delivered now x # post"
  shows "it_DeliveryTime x \<le> now \<and>
    (\<exists>pre1 pre2. pre = pre1 @ Taken x # pre2 \<and> \<not> list_ex (delivers_key (it_Key x)) pre2)"
proof -
  obtain m where m: "replay Map.empty pre = Some m" "m (it_Key x) = Some x" "it_DeliveryTime x \<le> now"
    using trace_replay [OF assms(1)] unfolding assms(2) replay_append replay.simps
    by (cases "replay Map.empty pre") (simp_all split: if_splits)
  with replay_taken [OF m(1,2)] show ?thesis by blast
qed

lemma trace_complete:
  assumes "trace q es" and "es = pre @ Taken x # post"
  shows "(\<exists>y. view q (it_Key x) = Some y \<and> it_DeliveryTime y \<le> it_DeliveryTime x) \<or>
    (\<exists>now y. Delivered now y \<in> set post \<and> it_Key y = it_Key x \<and> it_DeliveryTime y \<le> it_DeliveryTime x)"
proof -
  obtain m where m: "replay (queue_update x m) post = Some (view q)"
    using trace_replay [OF assms(1)] unfolding assms(2) by (auto simp: replay_append split: option.splits)
  obtain x1 where x1: "queue_update x m (it_Key x) = Some x1" "it_DeliveryTime x1 \<le> it_DeliveryTime x"
    using queue_update_new by blast
  from replay_kept [OF m x1(1)] x1(2) show ?thesis by fastforce
qed

end

subsection \<open>The heap implements the queue\<close>

lemma heap_keys_distinct: "heap_ok dh \<Longrightarrow> distinct (map it_Key (heap_data dh))"
  unfolding distinct_conv_nth heap_ok_def
  by (auto dest: pos_inv_keys)

lemma deliver_facts:
  assumes "deliver now dh = (items, dh')" and "heap_ok dh"
  shows "heap_ok dh' \<and> mset (heap_data dh) = mset items + mset (heap_data dh') \<and>
    sorted (map it_DeliveryTime items) \<and> (\<forall>x \<in> set items. it_DeliveryTime x \<le> now) \<and>
    (\<forall>x \<in> set (heap_data dh'). now < it_DeliveryTime x)"
  using assms
proof (induction now dh arbitrary: items dh' rule: deliver.induct)
  case (1 now dh)
  show ?case
  proof (cases "0 < heap_Len dh")
    case False
    with 1(2,3) show ?thesis by (subst (asm) deliver.simps) (simp add: heap_Len_def)
  next
    case True
    show ?thesis
    proof (cases "now < it_DeliveryTime (heap_data dh ! 0)")
      case late: True
      then have "items = []" "dh' = dh"
        using True 1(2) by (subst (asm) deliver.simps, simp)+
      moreover have "now < it_DeliveryTime x" if "x \<in> set (heap_data dh)" for x
        using late ordered_min [of "length (heap_data dh)" dh] 1(3) that
        by (fastforce simp: heap_ok_def in_set_conv_nth)
      ultimately show ?thesis using 1(3) by simp
    next
      case False
      obtain item dh1 where pop: "go_heap_Pop dh = (item, dh1)" by (cases "go_heap_Pop dh")
      obtain rest dh2 where rest: "deliver now dh1 = (rest, dh2)" by (cases "deliver now dh1")
      have eq: "items = item # rest" "dh' = dh2"
        using True False 1(2) by (subst (asm) deliver.simps, simp add: pop rest)+
      have ne: "heap_data dh \<noteq> []" using True by (simp add: heap_Len_def)
      note p = go_heap_Pop_facts [OF 1(3) ne pop]
      note IH = 1(1) [OF True False pop [symmetric] refl rest p(1)]
      have "it_DeliveryTime item \<le> now" using p(3) False by simp
      moreover have "it_DeliveryTime item \<le> it_DeliveryTime x" if "x \<in> set rest" for x
        using p(4) IH that by (metis Un_iff set_mset_mset set_mset_union)
      ultimately show ?thesis using IH p(2) by (auto simp: eq)
    qed
  qed
qed

lemma deliverer_update_facts:
  assumes "heap_ok dh"
  shows "heap_ok (deliverer_update item dh) \<and> pending (deliverer_update item dh) = queue_update item (pending dh)"
proof (cases "mget (keyPosition dh) (it_Key item)")
  case None
  then have q: "pending dh (it_Key item) = None" by (simp add: pending_def)
  have upd: "deliverer_update item dh = go_heap_Push item dh" by (simp add: deliverer_update_def None)
  note push = go_heap_Push_facts [OF assms None]
  have set: "set (heap_data (go_heap_Push item dh)) = insert item (set (heap_data dh))"
    using push(2) by (metis set_mset_add_mset_insert set_mset_mset)
  have "pending (go_heap_Push item dh) = (pending dh)(it_Key item \<mapsto> item)"
  proof (rule pending_ext [OF push(1)])
    show "x \<in> set (heap_data (go_heap_Push item dh)) \<longleftrightarrow> ((pending dh)(it_Key item \<mapsto> item)) (it_Key x) = Some x" for x
      using pending_iff [OF assms, of "it_Key x" x] q set by auto
  qed (auto simp: pending_iff [OF assms] split: if_splits)
  with push(1) q show ?thesis by (simp add: upd queue_update_def)
next
  case (Some p)
  then have p: "p < length (heap_data dh)" "it_Key (heap_data dh ! p) = it_Key item"
    using assms by (auto simp: heap_ok_def pos_inv_def)
  have q: "pending dh (it_Key item) = Some (heap_data dh ! p)" by (simp add: pending_def Some)
  show ?thesis
  proof (cases "it_DeliveryTime item < it_DeliveryTime (heap_data dh ! p)")
    case False
    with assms show ?thesis by (simp add: deliverer_update_def Some queue_update_def q)
  next
    case True
    let ?dh' = "go_heap_Fix p (dh\<lparr>heap_data := (heap_data dh)[p := item]\<rparr>)"
    note fixed = go_heap_Fix_facts [OF assms p(1) p(2) [symmetric] True]
    have upd: "deliverer_update item dh = ?dh'" by (simp add: deliverer_update_def Some True)
    have set: "set (heap_data ?dh') = set ((heap_data dh)[p := item])"
      using fixed(2) by (metis set_mset_mset)
    have dist: "distinct (heap_data dh)" "inj_on it_Key (set (heap_data dh))"
      using heap_keys_distinct [OF assms] by (simp_all add: distinct_map)
    have "heap_data dh ! p \<in> set (heap_data dh)" using p by simp
    then have "x \<in> set (heap_data dh) \<and> x \<noteq> heap_data dh ! p \<longleftrightarrow> x \<in> set (heap_data dh) \<and> it_Key x \<noteq> it_Key item" for x
      using dist(2) p(2) by (metis inj_on_eq_iff)
    then have mem: "x \<in> set ((heap_data dh)[p := item]) \<longleftrightarrow> x = item \<or> x \<in> set (heap_data dh) \<and> it_Key x \<noteq> it_Key item" for x
      by (auto simp: set_update_distinct [OF dist(1) p(1)])
    have "pending ?dh' = (pending dh)(it_Key item \<mapsto> item)"
    proof (rule pending_ext [OF fixed(1)])
      show "x \<in> set (heap_data ?dh') \<longleftrightarrow> ((pending dh)(it_Key item \<mapsto> item)) (it_Key x) = Some x" for x
        using pending_iff [OF assms, of "it_Key x" x] set mem [of x] by auto
    qed (auto simp: pending_iff [OF assms] split: if_splits)
    with fixed(1) True q show ?thesis by (simp add: upd queue_update_def)
  qed
qed

lemma heap_ok_new: "heap_ok NewDelayingDeliverer"
  by (simp add: heap_ok_def pos_inv_def ordered_def NewDelayingDeliverer_def)

interpretation dq: delayed_queue heap_ok pending NewDelayingDeliverer deliverer_update deliver
proof
  show "heap_ok (NewDelayingDeliverer :: 'v delivererHeap)" by (rule heap_ok_new)
  show "pending (NewDelayingDeliverer :: 'v delivererHeap) = Map.empty"
    by (simp add: pending_def NewDelayingDeliverer_def fun_eq_iff)
  fix q q' :: "'v delivererHeap" and k x item now and items :: "'v DelayingDelivererItem list"
  assume ok: "heap_ok q"
  show "it_Key x = k" if "pending q k = Some x"
    using that pending_iff [OF ok] by simp
  show "heap_ok (deliverer_update item q)"
    "pending (deliverer_update item q) = queue_update item (pending q)"
    using deliverer_update_facts [OF ok] by simp_all
  assume del: "deliver now q = (items, q')"
  note d = deliver_facts [OF del ok]
  show ok': "heap_ok q'" and "sorted (map it_DeliveryTime items)" using d by simp_all
  have set: "set (heap_data q) = set items \<union> set (heap_data q')"
    using d by (metis set_mset_mset set_mset_union)
  have "distinct (map it_Key (items @ heap_data q'))"
    using heap_keys_distinct [OF ok] d mset_eq_imp_distinct_iff [of "map it_Key (heap_data q)" "map it_Key (items @ heap_data q')"]
    by simp
  then show dist: "distinct (map it_Key items)" by simp
  show items: "set items = {x. pending q (it_Key x) = Some x \<and> it_DeliveryTime x \<le> now}"
    using set d by (auto simp: pending_iff [OF ok])
  show "pending q' k = (case pending q k of Some x \<Rightarrow> if it_DeliveryTime x \<le> now then None else Some x | None \<Rightarrow> None)"
  proof (cases "pending q k")
    case None
    then have "pending q' k = None" using pending_None [OF ok] pending_None [OF ok'] set by blast
    with None show ?thesis by simp
  next
    case (Some y)
    then have y: "y \<in> set (heap_data q)" "it_Key y = k" using pending_iff [OF ok] by auto
    show ?thesis
    proof (cases "it_DeliveryTime y \<le> now")
      case True
      then have "y \<in> set items" using y set d by auto
      then have "pending q' k = None"
        using \<open>distinct (map it_Key (items @ heap_data q'))\<close> y
        by (auto simp: pending_None [OF ok'])
      with Some True show ?thesis by simp
    next
      case False
      then have "y \<in> set (heap_data q')" using y set d by auto
      then have "pending q' k = Some y" using y pending_iff [OF ok'] by simp
      with Some False show ?thesis by simp
    qed
  qed
qed

end
