(* ===== verification/Util_Meta.thy ===== *)
theory Util_Meta
  imports Api_Types
begin

section \<open>Object metadata\<close>

text \<open>
  \<open>pkg/controller/util\<close>: \<open>meta.go\<close>, \<open>qualifiedname.go\<close>, \<open>propagatedversion.go\<close>,
  \<open>placement.go\<close>, \<open>handlers.go\<close> and \<open>finalizers/finalizers.go\<close>, and the placement plugins of
  \<open>pkg/controller/sync/placement\<close>. An object is either typed, with an \<open>ObjectMeta\<close>, or
  unstructured; \<open>meta_of\<close> reads the metadata of an unstructured object through its accessors,
  so \<open>metav1.Object\<close> is \<open>ObjectMeta\<close> here.
\<close>

definition meta_of :: "jobj \<Rightarrow> ObjectMeta" where
  "meta_of obj =
     \<lparr>om_Name = GetName obj, om_Namespace = GetNamespace obj, om_UID = GetUID obj,
      om_ResourceVersion = GetResourceVersion obj, om_Generation = GetGeneration obj,
      om_Labels = GetLabels obj, om_Annotations = GetAnnotations obj,
      om_Finalizers = GetFinalizers obj, om_DeletionTimestamp = None\<rparr>"

subsection \<open>Qualified names\<close>

record QualifiedName =
  qn_Namespace :: string
  qn_Name :: string

definition NewQualifiedName :: "ObjectMeta \<Rightarrow> QualifiedName" where
  "NewQualifiedName m = \<lparr>qn_Namespace = om_Namespace m, qn_Name = om_Name m\<rparr>"

definition qn_String :: "QualifiedName \<Rightarrow> string" where
  "qn_String n =
     (if length (qn_Namespace n) = 0 then qn_Name n else qn_Namespace n @ ''/'' @ qn_Name n)"

text \<open>Names without a slash, as the API server admits, make the rendering injective.\<close>

lemma append_slash_inject:
  "CHR ''/'' \<notin> set a \<Longrightarrow> CHR ''/'' \<notin> set b \<Longrightarrow>
    a @ CHR ''/'' # x = b @ CHR ''/'' # y \<longleftrightarrow> a = b \<and> x = y"
proof (induction a arbitrary: b)
  case Nil
  then show ?case by (cases b) auto
next
  case (Cons c a)
  then show ?case by (cases b) auto
qed

lemma qn_String_inject:
  assumes "CHR ''/'' \<notin> set (qn_Namespace m @ qn_Name m)" "CHR ''/'' \<notin> set (qn_Namespace n @ qn_Name n)"
  shows "qn_String m = qn_String n \<longleftrightarrow> m = n"
proof
  assume eq: "qn_String m = qn_String n"
  have slash: "CHR ''/'' \<in> set (qn_String k) \<longleftrightarrow> qn_Namespace k \<noteq> []"
    if "CHR ''/'' \<notin> set (qn_Namespace k @ qn_Name k)" for k
    using that by (auto simp: qn_String_def)
  have "qn_Namespace m = [] \<longleftrightarrow> qn_Namespace n = []"
    using slash [OF assms(1)] slash [OF assms(2)] eq by simp
  then show "m = n"
    using eq assms by (cases m; cases n) (auto simp: qn_String_def append_slash_inject)
qed simp

subsection \<open>Equivalence of metadata\<close>

definition maps_differ :: "(string, string) gomap \<Rightarrow> (string, string) gomap \<Rightarrow> bool" where
  "maps_differ a b \<longleftrightarrow> \<not> gomap_eq a b \<and> (length a \<noteq> 0 \<or> length b \<noteq> 0)"

definition ObjectMetaEquivalent :: "ObjectMeta \<Rightarrow> ObjectMeta \<Rightarrow> bool" where
  "ObjectMetaEquivalent a b \<longleftrightarrow>
     (if om_Name a \<noteq> om_Name b then False
      else if om_Namespace a \<noteq> om_Namespace b then False
      else if maps_differ (om_Labels a) (om_Labels b) then False
      else if maps_differ (om_Annotations a) (om_Annotations b) then False
      else True)"

definition ObjectMetaObjEquivalent :: "jobj \<Rightarrow> jobj \<Rightarrow> bool" where
  "ObjectMetaObjEquivalent a b \<longleftrightarrow>
     (if GetName a \<noteq> GetName b then False
      else if GetNamespace a \<noteq> GetNamespace b then False
      else if maps_differ (GetLabels a) (GetLabels b) then False
      else if maps_differ (GetAnnotations a) (GetAnnotations b) then False
      else True)"

definition ObjectMetaAndSpecEquivalent :: "ObjectMeta \<times> 's \<Rightarrow> ObjectMeta \<times> 's \<Rightarrow> bool" where
  "ObjectMetaAndSpecEquivalent a b \<longleftrightarrow> ObjectMetaEquivalent (fst a) (fst b) \<and> snd a = snd b"

definition copyObjectMeta :: "ObjectMeta \<Rightarrow> ObjectMeta" where
  "copyObjectMeta obj =
     empty_meta\<lparr>om_Name := om_Name obj, om_Namespace := om_Namespace obj, om_Labels := om_Labels obj,
       om_Annotations := om_Annotations obj, om_ResourceVersion := om_ResourceVersion obj\<rparr>"

definition copy_map :: "(string, string) gomap \<Rightarrow> (string, string) gomap" where
  "copy_map m = foldl (\<lambda>acc (k, v). mput k v acc) [] m"

definition DeepCopyRelevantObjectMeta :: "ObjectMeta \<Rightarrow> ObjectMeta" where
  "DeepCopyRelevantObjectMeta obj =
     (let copyMeta = copyObjectMeta obj
      in copyMeta\<lparr>om_Labels := copy_map (om_Labels obj), om_Annotations := copy_map (om_Annotations obj)\<rparr>)"

lemma maps_differ_iff: "maps_differ a b \<longleftrightarrow> mget a \<noteq> mget b"
  by (auto simp: maps_differ_def gomap_eq_iff)

lemma ObjectMetaEquivalent_iff:
  "ObjectMetaEquivalent a b \<longleftrightarrow> om_Name a = om_Name b \<and> om_Namespace a = om_Namespace b
    \<and> mget (om_Labels a) = mget (om_Labels b) \<and> mget (om_Annotations a) = mget (om_Annotations b)"
  by (auto simp: ObjectMetaEquivalent_def maps_differ_iff)

lemma ObjectMetaObjEquivalent_iff:
  "ObjectMetaObjEquivalent a b \<longleftrightarrow> ObjectMetaEquivalent (meta_of a) (meta_of b)"
  by (simp add: ObjectMetaObjEquivalent_def ObjectMetaEquivalent_def meta_of_def)

lemma copy_map_aux:
  "mget (foldl (\<lambda>acc (k, v). mput k v acc) acc m) = mget acc ++ mget (rev m)"
proof (induction m arbitrary: acc)
  case (Cons kv m)
  obtain k v where "kv = (k, v)" by (cases kv)
  with Cons show ?case by (auto simp: map_add_def fun_eq_iff split: option.split)
qed simp

lemma copy_map_mget: "gomap_ok m \<Longrightarrow> mget (copy_map m) = mget m"
  using gomap_perm(2) [of m "rev m"] by (simp add: copy_map_def copy_map_aux)

subsection \<open>Version comparison\<close>

datatype ComparisonHelper = ResourceHelper | GenerationHelper

definition NewComparisonHelper :: "string \<Rightarrow> ComparisonHelper go_result" where
  "NewComparisonHelper comparisonField =
     (if comparisonField = ''ResourceVersion'' then Inr ResourceHelper
      else if comparisonField = ''Generation'' then Inr GenerationHelper
      else Inl (ErrOther ''Unrecognized version comparison field''))"

fun GetVersion :: "ComparisonHelper \<Rightarrow> jobj \<Rightarrow> string" where
  "GetVersion GenerationHelper obj = format_int (GetGeneration obj)"
| "GetVersion ResourceHelper obj = GetResourceVersion obj"

fun Equivalent :: "ComparisonHelper \<Rightarrow> jobj \<Rightarrow> jobj \<Rightarrow> bool" where
  "Equivalent GenerationHelper a b = ObjectMetaObjEquivalent a b"
| "Equivalent ResourceHelper a b = True"

text \<open>\<open>sort.Slice\<close> by cluster name; the callers pass distinct names (\<open>go_sorter_unique\<close>).\<close>

definition SortClusterVersions :: "ClusterObjectVersion list \<Rightarrow> ClusterObjectVersion list" where
  "SortClusterVersions versions = sort_key cv_ClusterName versions"

text \<open>
  \<open>reflect.DeepEqual\<close> tells a nil slice from an empty one, lists do not. The slices the controller
  makes are not nil, and an empty one is left out of what is stored, so it is read back as nil: when
  both are empty the code sends an update without a change, which the model leaves out.
\<close>

definition PropagatedVersionStatusEquivalent :: "PropagatedVersionStatus \<Rightarrow> PropagatedVersionStatus \<Rightarrow> bool" where
  "PropagatedVersionStatusEquivalent a b \<longleftrightarrow>
     pvs_TemplateVersion a = pvs_TemplateVersion b \<and> pvs_OverrideVersion a = pvs_OverrideVersion b \<and>
     pvs_ClusterVersions a = pvs_ClusterVersions b"

definition IsPrimaryCluster :: "jobj \<Rightarrow> jobj \<Rightarrow> bool" where
  "IsPrimaryCluster obj clusterObj \<longleftrightarrow> GetUID obj = GetUID clusterObj"

subsection \<open>Finalizers\<close>

definition HasFinalizer :: "jobj \<Rightarrow> string \<Rightarrow> bool" where
  "HasFinalizer obj finalizer = sset_has (sset_of (GetFinalizers obj)) finalizer"

text \<open>Both return the object and whether it was updated.\<close>

definition AddFinalizers :: "jobj \<Rightarrow> sset \<Rightarrow> jobj \<times> bool" where
  "AddFinalizers obj newFinalizers =
     (let oldFinalizers = sset_of (GetFinalizers obj)
      in if sset_superset oldFinalizers newFinalizers then (obj, False)
         else (SetFinalizers obj (sset_list (sset_union oldFinalizers newFinalizers)), True))"

definition RemoveFinalizers :: "jobj \<Rightarrow> sset \<Rightarrow> jobj \<times> bool" where
  "RemoveFinalizers obj finalizers =
     (let oldFinalizers = sset_of (GetFinalizers obj)
      in if length (sset_intersection oldFinalizers finalizers) = 0 then (obj, False)
         else (SetFinalizers obj (sset_list (sset_difference oldFinalizers finalizers)), True))"

lemma json_strings_map [simp]: "json_strings (map JString ss) = Some ss"
  by (induction ss) auto

lemma GetFinalizers_SetFinalizers:
  assumes "meta_ok obj"
  shows "GetFinalizers (SetFinalizers obj fs) = fs"
proof -
  obtain m where m: "setNestedFieldNoCopy obj (JArr (map JString fs)) [''metadata'', ''finalizers''] = Inr m"
    using set_meta_ok [OF assms] by metis
  have "nested_from (JObj m) [''metadata'', ''finalizers''] = Inr (Some (JArr (map JString fs)))"
    by (rule nested_after_set_same [OF m])
  then show ?thesis
    by (simp add: SetFinalizers_def SetNestedStringSlice_def m set_or_keep_def GetFinalizers_def
        NestedStringSlice_def nestedFieldNoCopy_def del: nested_from.simps setNestedFieldNoCopy.simps)
qed

lemma GetFinalizers_nonempty_meta_ok: "GetFinalizers obj \<noteq> [] \<Longrightarrow> meta_ok obj"
  by (auto simp: GetFinalizers_def NestedStringSlice_def nestedFieldNoCopy_def meta_ok_def
      split: option.splits json.splits)

lemma HasFinalizer_iff: "HasFinalizer obj f \<longleftrightarrow> f \<in> set (GetFinalizers obj)"
  by (simp add: HasFinalizer_def sset_has_def)

lemma AddFinalizers_spec:
  assumes "meta_ok obj"
  shows "set (GetFinalizers (fst (AddFinalizers obj new))) = set (GetFinalizers obj) \<union> set new"
    and "snd (AddFinalizers obj new) \<longleftrightarrow> \<not> set new \<subseteq> set (GetFinalizers obj)"
  using GetFinalizers_SetFinalizers [OF assms]
  by (auto simp: AddFinalizers_def Let_def sset_superset_def sset.has sset.list_of sset.union_s)

lemma RemoveFinalizers_spec:
  assumes "distinct rem"
  shows "set (GetFinalizers (fst (RemoveFinalizers obj rem))) = set (GetFinalizers obj) - set rem"
    and "snd (RemoveFinalizers obj rem) \<longleftrightarrow> set (GetFinalizers obj) \<inter> set rem \<noteq> {}"
proof -
  have inter: "length (sset_intersection (sset_of (GetFinalizers obj)) rem) = 0
      \<longleftrightarrow> set (GetFinalizers obj) \<inter> set rem = {}"
    using sset.inter(2) [of "sset_of (GetFinalizers obj)" rem]
    by (metis length_0_conv set_empty set_sset_of)
  show "snd (RemoveFinalizers obj rem) \<longleftrightarrow> set (GetFinalizers obj) \<inter> set rem \<noteq> {}"
    using inter by (simp add: RemoveFinalizers_def Let_def)
  show "set (GetFinalizers (fst (RemoveFinalizers obj rem))) = set (GetFinalizers obj) - set rem"
  proof (cases "set (GetFinalizers obj) \<inter> set rem = {}")
    case True
    with inter show ?thesis by (auto simp: RemoveFinalizers_def)
  next
    case False
    then have "meta_ok obj"
      by (intro GetFinalizers_nonempty_meta_ok) auto
    with False inter GetFinalizers_SetFinalizers [of obj] show ?thesis
      by (simp add: RemoveFinalizers_def Let_def sset.list_of sset.diff)
  qed
qed

subsection \<open>Placement\<close>

definition GetClusterNames :: "jobj \<Rightarrow> string list go_result" where
  "GetClusterNames placement =
     (case NestedStringSlice placement [''spec'', ''clusternames''] of
        Inl e \<Rightarrow> Inl e | Inr None \<Rightarrow> Inr [] | Inr (Some ns) \<Rightarrow> Inr ns)"

definition SetClusterNames :: "jobj \<Rightarrow> string list \<Rightarrow> jobj go_result" where
  "SetClusterNames placement clusterNames =
     SetNestedStringSlice placement clusterNames [''spec'', ''clusternames'']"

text \<open>\<open>cached\<close> is what the store's \<open>GetByKey\<close> returns; the plugins differ on a missing placement.\<close>

definition split_clusters :: "string list \<Rightarrow> string list \<Rightarrow> string list \<times> string list" where
  "split_clusters clusterNames selectedNames =
     (let clusterSet = sset_of clusterNames; selectedSet = sset_of selectedNames
      in (sset_list (sset_intersection clusterSet selectedSet),
          sset_list (sset_difference clusterSet selectedSet)))"

definition ResourcePlacement_ComputePlacement ::
    "jobj option go_result \<Rightarrow> string list \<Rightarrow> (string list \<times> string list) go_result" where
  "ResourcePlacement_ComputePlacement cached clusterNames =
     (case cached of
        Inl e \<Rightarrow> Inl e
      | Inr None \<Rightarrow> Inr ([], clusterNames)
      | Inr (Some p) \<Rightarrow> rbind (GetClusterNames p) (\<lambda>selectedNames. Inr (split_clusters clusterNames selectedNames)))"

definition NamespacePlacement_ComputePlacement ::
    "jobj option go_result \<Rightarrow> string list \<Rightarrow> (string list \<times> string list) go_result" where
  "NamespacePlacement_ComputePlacement cached clusterNames =
     (case cached of
        Inl e \<Rightarrow> Inl e
      | Inr None \<Rightarrow> Inr (clusterNames, [])
      | Inr (Some p) \<Rightarrow> rbind (GetClusterNames p) (\<lambda>selectedNames. Inr (split_clusters clusterNames selectedNames)))"

text \<open>The contract of \<open>PlacementPlugin\<close>: the placement partitions the clusters it is given.\<close>

locale placement_plugin =
  fixes compute :: "jobj option go_result \<Rightarrow> string list \<Rightarrow> (string list \<times> string list) go_result"
  assumes partition: "compute cached names = Inr (sel, unsel) \<Longrightarrow>
      set sel \<union> set unsel = set names \<and> set sel \<inter> set unsel = {}"
    and nodup: "compute cached names = Inr (sel, unsel) \<Longrightarrow> distinct names \<Longrightarrow> distinct (sel @ unsel)"
    and store_error: "compute (Inl e) names = Inl e"
begin

text \<open>A cluster not on the list is never touched, one that is gets exactly one decision.\<close>

lemma one_decision:
  assumes "compute cached names = Inr (sel, unsel)"
  shows "c \<in> set names \<longleftrightarrow> (c \<in> set sel) \<noteq> (c \<in> set unsel)"
  using partition [OF assms] by blast

end

lemma split_clusters_partition:
  assumes "split_clusters names selected = (sel, unsel)"
  shows "set sel = set names \<inter> set selected" "set unsel = set names - set selected"
    "distinct (sel @ unsel)" "sorted sel" "sorted unsel"
  using assms sset.list_of sset.inter sset.diff
  by (auto simp: split_clusters_def Let_def)

interpretation resource_placement: placement_plugin ResourcePlacement_ComputePlacement
proof
  show "set sel \<union> set unsel = set names \<and> set sel \<inter> set unsel = {}"
    if "ResourcePlacement_ComputePlacement cached names = Inr (sel, unsel)" for cached names sel unsel
    using that split_clusters_partition(1,2)
    by (fastforce simp: ResourcePlacement_ComputePlacement_def rbind_Inr_iff split: sum.splits option.splits)
  show "distinct (sel @ unsel)"
    if "ResourcePlacement_ComputePlacement cached names = Inr (sel, unsel)" "distinct names"
    for cached names sel unsel
    using that split_clusters_partition(3)
    by (fastforce simp: ResourcePlacement_ComputePlacement_def rbind_Inr_iff split: sum.splits option.splits)
qed (simp add: ResourcePlacement_ComputePlacement_def)

interpretation namespace_placement: placement_plugin NamespacePlacement_ComputePlacement
proof
  show "set sel \<union> set unsel = set names \<and> set sel \<inter> set unsel = {}"
    if "NamespacePlacement_ComputePlacement cached names = Inr (sel, unsel)" for cached names sel unsel
    using that split_clusters_partition(1,2)
    by (fastforce simp: NamespacePlacement_ComputePlacement_def rbind_Inr_iff split: sum.splits option.splits)
  show "distinct (sel @ unsel)"
    if "NamespacePlacement_ComputePlacement cached names = Inr (sel, unsel)" "distinct names"
    for cached names sel unsel
    using that split_clusters_partition(3)
    by (fastforce simp: NamespacePlacement_ComputePlacement_def rbind_Inr_iff split: sum.splits option.splits)
qed (simp add: NamespacePlacement_ComputePlacement_def)

subsection \<open>Triggers\<close>

text \<open>
  The event handlers of an informer: the objects for which the trigger function is called.
  \<open>deep_eq\<close> is \<open>reflect.DeepEqual\<close>.
\<close>

datatype 'o event = Added 'o | Updated 'o 'o | Deleted 'o

fun TriggerOnAllChanges :: "('o \<Rightarrow> 'o \<Rightarrow> bool) \<Rightarrow> 'o event \<Rightarrow> 'o list" where
  "TriggerOnAllChanges deep_eq (Deleted old) = [old]"
| "TriggerOnAllChanges deep_eq (Added cur) = [cur]"
| "TriggerOnAllChanges deep_eq (Updated old cur) = (if \<not> deep_eq old cur then [cur] else [])"

fun TriggerOnMetaAndSpecChanges :: "('s \<Rightarrow> 's \<Rightarrow> bool) \<Rightarrow> (ObjectMeta \<times> 's) event \<Rightarrow> (ObjectMeta \<times> 's) list" where
  "TriggerOnMetaAndSpecChanges deep_eq (Deleted old) = [old]"
| "TriggerOnMetaAndSpecChanges deep_eq (Added cur) = [cur]"
| "TriggerOnMetaAndSpecChanges deep_eq (Updated old cur) =
     (if \<not> ObjectMetaEquivalent (fst old) (fst cur) \<or>
         om_DeletionTimestamp (fst old) \<noteq> om_DeletionTimestamp (fst cur) \<or>
         \<not> deep_eq (snd old) (snd cur)
      then [cur] else [])"

fun TriggerOnMetaAndFieldChanges :: "('o \<Rightarrow> ObjectMeta) \<Rightarrow> ('o \<Rightarrow> 'f) \<Rightarrow> ('f \<Rightarrow> 'f \<Rightarrow> bool) \<Rightarrow> 'o event \<Rightarrow> 'o list" where
  "TriggerOnMetaAndFieldChanges meta field deep_eq (Deleted old) = [old]"
| "TriggerOnMetaAndFieldChanges meta field deep_eq (Added cur) = [cur]"
| "TriggerOnMetaAndFieldChanges meta field deep_eq (Updated old cur) =
     (if \<not> ObjectMetaEquivalent (meta old) (meta cur) \<or> \<not> deep_eq (field old) (field cur)
      then [cur] else [])"

end
