(* ===== verification/Backoff_Delivery.thy ===== *)
theory Backoff_Delivery
  imports Delaying_Deliverer Util_Meta
begin

section \<open>Backoff and delivery\<close>

text \<open>
  \<open>vendor/k8s.io/client-go/util/flowcontrol/backoff.go\<close>, its garbage collection
  (\<open>pkg/controller/util/backoff.go\<close>), and the \<open>deliver\<close> methods of the controllers, which add the
  backoff of a key to the delay of a failed item and forget it otherwise. Times and durations
  are integers; the clock's reading is an argument.
\<close>

record backoffEntry =
  be_backoff :: int
  be_lastUpdate :: int

record Backoff =
  bo_default :: int
  bo_max :: int
  bo_entries :: "(string, backoffEntry) gomap"

definition NewBackOff :: "int \<Rightarrow> int \<Rightarrow> Backoff" where
  "NewBackOff initial mx = \<lparr>bo_default = initial, bo_max = mx, bo_entries = []\<rparr>"

definition hasExpired :: "int \<Rightarrow> int \<Rightarrow> int \<Rightarrow> bool" where
  "hasExpired eventTime lastUpdate maxDuration \<longleftrightarrow> eventTime - lastUpdate > wrap64 (maxDuration * 2)"

definition Backoff_Get :: "Backoff \<Rightarrow> string \<Rightarrow> int" where
  "Backoff_Get p kk = (case mget (bo_entries p) kk of Some entry \<Rightarrow> be_backoff entry | None \<Rightarrow> 0)"

definition Backoff_Next :: "int \<Rightarrow> string \<Rightarrow> int \<Rightarrow> Backoff \<Rightarrow> Backoff" where
  "Backoff_Next clockNow kk eventTime p =
     (let fresh = bo_default p;
          backoff = (case mget (bo_entries p) kk of
             None \<Rightarrow> fresh
           | Some entry \<Rightarrow>
               if hasExpired eventTime (be_lastUpdate entry) (bo_max p) then fresh
               else (let delay = wrap64 (be_backoff entry * 2)
                     in if delay < bo_max p then delay else bo_max p))
      in p\<lparr>bo_entries := mput kk \<lparr>be_backoff = backoff, be_lastUpdate = clockNow\<rparr> (bo_entries p)\<rparr>)"

definition Backoff_Reset :: "string \<Rightarrow> Backoff \<Rightarrow> Backoff" where
  "Backoff_Reset kk p = p\<lparr>bo_entries := mdel kk (bo_entries p)\<rparr>"

definition Backoff_GC :: "int \<Rightarrow> Backoff \<Rightarrow> Backoff" where
  "Backoff_GC now p =
     p\<lparr>bo_entries := filter (\<lambda>(kk, entry). \<not> (now - be_lastUpdate entry > wrap64 (bo_max p * 2))) (bo_entries p)\<rparr>"

definition IsInBackOffSinceUpdate :: "string \<Rightarrow> int \<Rightarrow> Backoff \<Rightarrow> bool" where
  "IsInBackOffSinceUpdate kk eventTime p =
     (case mget (bo_entries p) kk of
        None \<Rightarrow> False
      | Some entry \<Rightarrow>
          if hasExpired eventTime (be_lastUpdate entry) (bo_max p) then False
          else eventTime - be_lastUpdate entry < be_backoff entry)"

text \<open>
  \<open>deliver\<close> of the controllers: the same method in the sync, scheduling preference and service
  DNS controllers. It feeds the deliverer with the key, the name and the delivery time.
\<close>

definition controller_deliver :: "int \<Rightarrow> QualifiedName \<Rightarrow> int \<Rightarrow> bool
    \<Rightarrow> Backoff \<times> QualifiedName delivererHeap \<Rightarrow> Backoff \<times> QualifiedName delivererHeap" where
  "controller_deliver now qualifiedName delay failed state =
     (let (backoff, dh) = state;
          key = qn_String qualifiedName;
          backoff1 = (if failed then Backoff_Next now key now backoff else Backoff_Reset key backoff);
          delay1 = (if failed then delay + Backoff_Get backoff1 key else delay)
      in (backoff1, deliverer_update
            \<lparr>it_Key = key, it_Value = qualifiedName, it_DeliveryTime = now + delay1\<rparr> dh))"

subsection \<open>Facts\<close>

definition backoff_ok :: "Backoff \<Rightarrow> bool" where
  "backoff_ok p \<longleftrightarrow> 0 < bo_default p \<and> bo_default p \<le> bo_max p \<and> bo_max p \<le> 4611686018427387903 \<and>
     (\<forall>kk entry. mget (bo_entries p) kk = Some entry \<longrightarrow>
        bo_default p \<le> be_backoff entry \<and> be_backoff entry \<le> bo_max p)"

lemma Backoff_Next_simps [simp]:
  "bo_default (Backoff_Next c kk t p) = bo_default p" "bo_max (Backoff_Next c kk t p) = bo_max p"
  by (simp_all add: Backoff_Next_def Let_def)

lemma Backoff_Next_Get:
  assumes "backoff_ok p"
  shows "Backoff_Get (Backoff_Next c kk t p) kk' =
    (if kk' = kk
     then (case mget (bo_entries p) kk of
             None \<Rightarrow> bo_default p
           | Some entry \<Rightarrow> if hasExpired t (be_lastUpdate entry) (bo_max p) then bo_default p
                           else min (2 * be_backoff entry) (bo_max p))
     else Backoff_Get p kk')"
proof -
  have "wrap64 (be_backoff entry * 2) = 2 * be_backoff entry" if "mget (bo_entries p) kk = Some entry" for entry
  proof -
    have "bo_default p \<le> be_backoff entry" "be_backoff entry \<le> bo_max p" "0 < bo_default p" "bo_max p \<le> 4611686018427387903"
      using assms that by (auto simp: backoff_ok_def)
    then show ?thesis by (subst wrap64_id) auto
  qed
  then show ?thesis
    by (auto simp: Backoff_Next_def Backoff_Get_def Let_def split: option.split)
qed

lemma backoff_ok_Next:
  assumes "backoff_ok p"
  shows "backoff_ok (Backoff_Next c kk t p)"
proof -
  have "bo_default p \<le> be_backoff entry \<and> be_backoff entry \<le> bo_max p"
    if "mget (bo_entries (Backoff_Next c kk t p)) k = Some entry" for k entry
  proof (cases "k = kk")
    case True
    then have "be_backoff entry = Backoff_Get (Backoff_Next c kk t p) kk"
      using that by (simp add: Backoff_Get_def)
    then show ?thesis
      using Backoff_Next_Get [OF assms, of c kk t kk] assms
      by (fastforce simp: backoff_ok_def split: option.splits if_splits)
  next
    case False
    then show ?thesis
      using that assms by (auto simp: Backoff_Next_def Let_def backoff_ok_def)
  qed
  with assms show ?thesis by (simp add: backoff_ok_def)
qed

lemma backoff_ok_Reset: "backoff_ok p \<Longrightarrow> backoff_ok (Backoff_Reset kk p)"
  by (auto simp: backoff_ok_def Backoff_Reset_def split: if_splits)

text \<open>Failures of one key in a row, each soon enough after the one before.\<close>

fun fail_times :: "int list \<Rightarrow> string \<Rightarrow> Backoff \<Rightarrow> Backoff" where
  "fail_times [] kk p = p"
| "fail_times (t # ts) kk p = fail_times ts kk (Backoff_Next t kk t p)"

definition close_times :: "int \<Rightarrow> int list \<Rightarrow> bool" where
  "close_times mx ts \<longleftrightarrow> (\<forall>i. Suc i < length ts \<longrightarrow> ts ! Suc i - ts ! i \<le> 2 * mx)"

lemma fail_times_snoc: "fail_times (ts @ [t]) kk p = Backoff_Next t kk t (fail_times ts kk p)"
  by (induction ts arbitrary: p) simp_all

lemma fail_times_keep: "bo_default (fail_times ts kk p) = bo_default p" "bo_max (fail_times ts kk p) = bo_max p"
  "backoff_ok p \<Longrightarrow> backoff_ok (fail_times ts kk p)"
  by (induction ts arbitrary: p) (simp_all add: backoff_ok_Next)

lemma close_times_snoc: "close_times mx (ts @ [t]) \<Longrightarrow> close_times mx ts"
  unfolding close_times_def by (metis Suc_lessD butlast_snoc length_append_singleton less_SucI nth_append)

lemma fail_times_backoff:
  assumes "backoff_ok p" "mget (bo_entries p) kk = None" "close_times (bo_max p) ts" "ts \<noteq> []"
  shows "mget (bo_entries (fail_times ts kk p)) kk
    = Some \<lparr>be_backoff = min (bo_default p * 2 ^ (length ts - 1)) (bo_max p), be_lastUpdate = last ts\<rparr>"
  using assms(3,4)
proof (induction ts rule: rev_induct)
  case (snoc t ts)
  have last: "mget (bo_entries (Backoff_Next t kk t q)) kk = Some
      \<lparr>be_backoff = Backoff_Get (Backoff_Next t kk t q) kk, be_lastUpdate = t\<rparr>" for q
    by (simp add: Backoff_Next_def Backoff_Get_def Let_def)
  note ok = fail_times_keep(3) [OF assms(1), of ts kk]
  show ?case
  proof (cases "ts = []")
    case True
    then show ?thesis
      using assms(1,2) last Backoff_Next_Get [OF assms(1), of t kk t kk] by (simp add: backoff_ok_def)
  next
    case False
    note IH = snoc.IH [OF close_times_snoc [OF snoc.prems(1)] False]
    have len: "0 < length ts" using False by simp
    have "t - last ts \<le> 2 * bo_max p"
    proof -
      have "Suc (length ts - 1) < length (ts @ [t])" using len by simp
      then have "(ts @ [t]) ! Suc (length ts - 1) - (ts @ [t]) ! (length ts - 1) \<le> 2 * bo_max p"
        using snoc.prems(1) unfolding close_times_def by blast
      then show ?thesis using len False by (simp add: nth_append last_conv_nth)
    qed
    moreover have "wrap64 (bo_max p * 2) = bo_max p * 2"
      using assms(1) by (intro wrap64_id) (auto simp: backoff_ok_def)
    ultimately have "\<not> hasExpired t (last ts) (bo_max p)" by (simp add: hasExpired_def)
    then have "Backoff_Get (Backoff_Next t kk t (fail_times ts kk p)) kk
        = min (2 * min (bo_default p * 2 ^ (length ts - 1)) (bo_max p)) (bo_max p)"
      using Backoff_Next_Get [OF ok, of t kk t kk] IH by (simp add: fail_times_keep)
    also have "\<dots> = min (bo_default p * 2 ^ length ts) (bo_max p)"
    proof -
      have "bo_default p * 2 ^ length ts = 2 * (bo_default p * 2 ^ (length ts - 1))"
        using len by (cases "length ts") simp_all
      moreover have "0 < bo_max p" using assms(1) by (auto simp: backoff_ok_def)
      ultimately show ?thesis by linarith
    qed
    finally show ?thesis using last by (simp add: fail_times_snoc)
  qed
qed simp

subsection \<open>Properties\<close>

text \<open>
  C15. The deliverer refines a map from keys to pending items: after any sequence of updates and
  wake-ups its heap and key positions are consistent, and an update puts the item in place unless
  an earlier or equal delivery of its key is already pending.
\<close>

theorem deliverer_refines_queue:
  assumes "dq.run dh log added"
  shows "heap_ok dh \<and> heap_ok (deliverer_update item dh) \<and>
    pending (deliverer_update item dh) =
      (case pending dh (it_Key item) of
         Some old \<Rightarrow> if it_DeliveryTime item < it_DeliveryTime old
                     then (pending dh)(it_Key item \<mapsto> item) else pending dh
       | None \<Rightarrow> (pending dh)(it_Key item \<mapsto> item))"
  using dq.run_ok [OF assms] dq.update [OF dq.run_ok [OF assms]] by (simp add: queue_update_def)

definition demo_item :: "string \<Rightarrow> int \<Rightarrow> nat DelayingDelivererItem" where
  "demo_item k t = \<lparr>it_Key = k, it_Value = 0, it_DeliveryTime = t\<rparr>"

definition demo_heap :: "nat delivererHeap" where
  "demo_heap = deliverer_update (demo_item ''a'' 3) (deliverer_update (demo_item ''b'' 5)
     (deliverer_update (demo_item ''a'' 9) NewDelayingDeliverer))"

lemma demo_heap_run: "dq.run demo_heap [] [demo_item ''a'' 9, demo_item ''b'' 5, demo_item ''a'' 3]"
  using dq.run.take [OF dq.run.take [OF dq.run.take [OF dq.run.start]],
      of "demo_item ''a'' 3" "demo_item ''b'' 5" "demo_item ''a'' 9"]
  by (simp add: demo_heap_def)

theorem deliverer_refines_queue_witness: "heap_ok demo_heap"
  using deliverer_refines_queue [OF demo_heap_run] by blast

text \<open>
  Delivery: a wake-up delivers exactly the pending items that are due, in the order of their
  delivery times and one per key, and leaves exactly the others pending.
\<close>

lemma deliver_due_items:
  assumes "dq.run dh log added" and "deliver now dh = (items, dh')"
  shows "sorted (map it_DeliveryTime items) \<and> distinct (map it_Key items) \<and>
    (\<forall>x. x \<in> set items \<longleftrightarrow> pending dh (it_Key x) = Some x \<and> it_DeliveryTime x \<le> now) \<and>
    (\<forall>k. pending dh' k = (case pending dh k of
        Some x \<Rightarrow> if it_DeliveryTime x \<le> now then None else Some x | None \<Rightarrow> None))"
  using dq.due [OF dq.run_ok [OF assms(1)] assms(2)] by auto

lemma deliver_due_items_example:
  "sorted (map it_DeliveryTime [demo_item ''a'' 3, demo_item ''b'' 5])"
proof -
  have "fst (deliver 7 demo_heap) = [demo_item ''a'' 3, demo_item ''b'' 5]" by code_simp
  moreover obtain items dh' where d: "deliver 7 demo_heap = (items, dh')" by (cases "deliver 7 demo_heap")
  ultimately have "items = [demo_item ''a'' 3, demo_item ''b'' 5]" by simp
  with deliver_due_items [OF demo_heap_run d] show ?thesis by simp
qed

text \<open>
  C16. Over any history of the main goroutine, of items taken from the update channel and of
  deliveries: no item is delivered before its time; an item delivered was taken, and no item of its
  key was delivered in between, so that one addition is not delivered twice; and nothing is lost:
  after an item is taken, an item of its key due no later is delivered later on, or is still
  pending.
\<close>

theorem deliverer_no_loss:
  assumes "dq.trace dh events"
  shows "(\<forall>pre now x post. events = pre @ Delivered now x # post \<longrightarrow> it_DeliveryTime x \<le> now \<and>
       (\<exists>pre1 pre2. pre = pre1 @ Taken x # pre2 \<and> \<not> list_ex (delivers_key (it_Key x)) pre2)) \<and>
    (\<forall>pre x post. events = pre @ Taken x # post \<longrightarrow>
       (\<exists>now y. Delivered now y \<in> set post \<and> it_Key y = it_Key x \<and> it_DeliveryTime y \<le> it_DeliveryTime x) \<or>
       (\<exists>y. pending dh (it_Key x) = Some y \<and> it_DeliveryTime y \<le> it_DeliveryTime x))"
  using dq.trace_sound [OF assms] dq.trace_complete [OF assms] by blast

definition demo_history :: "nat delivery_event list" where
  "demo_history = [Taken (demo_item ''a'' 9), Taken (demo_item ''b'' 5), Taken (demo_item ''a'' 3),
     Delivered 4 (demo_item ''a'' 3), Taken (demo_item ''a'' 9)]"

lemma demo_history_trace:
  "dq.trace (deliverer_update (demo_item ''a'' 9) (snd (deliver 4 demo_heap))) demo_history"
proof -
  have "dq.trace demo_heap [Taken (demo_item ''a'' 9), Taken (demo_item ''b'' 5), Taken (demo_item ''a'' 3)]"
    using dq.trace.take [OF dq.trace.take [OF dq.trace.take [OF dq.trace.start]],
        of "demo_item ''a'' 3" "demo_item ''b'' 5" "demo_item ''a'' 9"]
    by (simp add: demo_heap_def)
  moreover have "fst (deliver 4 demo_heap) = [demo_item ''a'' 3]" by code_simp
  then have d: "deliver 4 demo_heap = ([demo_item ''a'' 3], snd (deliver 4 demo_heap))"
    by (cases "deliver 4 demo_heap") simp
  ultimately show ?thesis
    using dq.trace.take [OF dq.trace.wake [OF _ d], of _ "demo_item ''a'' 9"] by (fastforce simp: demo_history_def)
qed

theorem deliverer_no_loss_witness:
  "\<exists>y. pending (deliverer_update (demo_item ''a'' 9) (snd (deliver 4 demo_heap))) ''a'' = Some y \<and> it_DeliveryTime y \<le> 9"
proof -
  have "demo_history = butlast demo_history @ Taken (demo_item ''a'' 9) # []" by (simp add: demo_history_def)
  with deliverer_no_loss [OF demo_history_trace] show ?thesis by (fastforce simp: demo_item_def)
qed

text \<open>
  Exponential backoff: after \<open>n\<close> failures of a key in a row, none later than twice the
  maximum after the one before, the delay is the initial one doubled \<open>n - 1\<close> times, at most the
  maximum; a delivery without failure forgets the key.
\<close>

lemma backoff_doubles:
  assumes "backoff_ok p" and "mget (bo_entries p) kk = None" and "close_times (bo_max p) ts" and "ts \<noteq> []"
  shows "Backoff_Get (fail_times ts kk p) kk = min (bo_default p * 2 ^ (length ts - 1)) (bo_max p)
    \<and> Backoff_Get (Backoff_Reset kk (fail_times ts kk p)) kk = 0"
  using fail_times_backoff [OF assms] by (simp add: Backoff_Get_def Backoff_Reset_def)

lemma backoff_doubles_example:
  "Backoff_Get (fail_times [0, 5000, 15000] ''ns/web'' (NewBackOff 5000 60000)) ''ns/web'' = 20000"
proof -
  have a: "backoff_ok (NewBackOff 5000 60000)" by (simp add: backoff_ok_def NewBackOff_def)
  have b: "mget (bo_entries (NewBackOff 5000 60000)) ''ns/web'' = None" by (simp add: NewBackOff_def)
  have c: "close_times (bo_max (NewBackOff 5000 60000)) [0, 5000, 15000]"
    by (auto simp: close_times_def NewBackOff_def less_Suc_eq numeral_2_eq_2)
  from backoff_doubles [OF a b c] show ?thesis by (simp add: NewBackOff_def)
qed

end
