(* ===== verification/Service_DNS.thy ===== *)
theory Service_DNS
  imports Federated_Informer Backoff_Delivery
begin

section \<open>The service DNS controller\<close>

text \<open>
  \<open>pkg/controller/servicedns/controller.go\<close> over two federated informers, one for services and
  one for endpoints, and the types of
  \<open>pkg/apis/multiclusterdns/v1alpha1/multiclusterservicednsrecord_types.go\<close>. JSON encoding and
  decoding of the Kubernetes types (\<open>de_marshal\<close>, \<open>de_service\<close>, \<open>de_endpoints\<close>), the record store, the
  API call and \<open>sort.Slice\<close> are the parameter \<open>dns_env\<close>. Nil and empty slices are the same list.
\<close>

record LoadBalancerIngress =
  li_IP :: string
  li_Hostname :: string

record ClusterDNS =
  cd_Cluster :: string
  cd_LoadBalancer :: "LoadBalancerIngress list"
  cd_Zone :: string
  cd_Region :: string

record MultiClusterServiceDNSRecordSpec =
  ds_FederationName :: string
  ds_DNSSuffix :: string

record MultiClusterServiceDNSRecord =
  dr_Meta :: ObjectMeta
  dr_Spec :: MultiClusterServiceDNSRecordSpec
  dr_DNS :: "ClusterDNS list"

record 'cl dns_env =
  de_services :: "(target_obj, 'cl) federated_informer"
  de_endpointsInformer :: "(target_obj, 'cl) federated_informer"
  de_store :: "string \<Rightarrow> MultiClusterServiceDNSRecord option go_result"
  de_updateStatus :: "MultiClusterServiceDNSRecord \<Rightarrow> go_error option"
  de_marshal :: "jobj \<Rightarrow> string go_result"
  de_service :: "string \<Rightarrow> LoadBalancerIngress list go_result"
  de_endpoints :: "string \<Rightarrow> string list list go_result"
  de_sortIngress :: "LoadBalancerIngress list \<Rightarrow> LoadBalancerIngress list"
  de_sortDNS :: "ClusterDNS list \<Rightarrow> ClusterDNS list"

datatype reconciliationStatus = statusAllOK | statusNeedsRecheck | statusError | statusNotSynced

subsection \<open>Delivery\<close>

record dns_delays =
  dns_reviewDelay :: int
  dns_clusterAvailableDelay :: int
  dns_clusterUnavailableDelay :: int
  dns_smallDelay :: int

definition dns_default_delays :: dns_delays where
  "dns_default_delays = \<lparr>dns_reviewDelay = 10000, dns_clusterAvailableDelay = 20000,
     dns_clusterUnavailableDelay = 60000, dns_smallDelay = 3000\<rparr>"

definition dns_minimizeLatency :: "dns_delays \<Rightarrow> dns_delays" where
  "dns_minimizeLatency c = c\<lparr>dns_clusterAvailableDelay := 1000, dns_clusterUnavailableDelay := 1000,
     dns_reviewDelay := 50, dns_smallDelay := 20\<rparr>"

fun dns_worker :: "dns_delays \<Rightarrow> reconciliationStatus \<Rightarrow> (int \<times> bool) option" where
  "dns_worker c statusAllOK = None"
| "dns_worker c statusError = Some (0, True)"
| "dns_worker c statusNeedsRecheck = Some (dns_reviewDelay c, False)"
| "dns_worker c statusNotSynced = Some (dns_clusterAvailableDelay c, False)"

definition informer_synced :: "('o, 'cl) federated_informer \<Rightarrow> bool" where
  "informer_synced f =
     (if \<not> fi_clustersSynced f then False
      else (case GetReadyClusters f of
              Inl _ \<Rightarrow> False
            | Inr clusters \<Rightarrow> if \<not> store_ClustersSynced f clusters then False else True))"

definition dns_isSynced :: "'cl dns_env \<Rightarrow> bool" where
  "dns_isSynced env =
     (if \<not> informer_synced (de_services env) then False
      else if \<not> informer_synced (de_endpointsInformer env) then False else True)"

datatype dns_delivery = DnsClusterKey int | DnsObject QualifiedName int bool

definition dns_reconcileOnClusterChange :: "'cl dns_env \<Rightarrow> dns_delays \<Rightarrow> MultiClusterServiceDNSRecord list
    \<Rightarrow> dns_delivery list" where
  "dns_reconcileOnClusterChange env c objs =
     (if \<not> dns_isSynced env then [DnsClusterKey (dns_clusterAvailableDelay c)] else []) @
     map (\<lambda>obj. DnsObject (NewQualifiedName (dr_Meta obj)) (dns_smallDelay c) False) objs"

subsection \<open>The state of a service in a cluster\<close>

definition ingress_less :: "LoadBalancerIngress \<Rightarrow> LoadBalancerIngress \<Rightarrow> bool" where
  "ingress_less a b = (if li_IP a = li_IP b then li_Hostname a < li_Hostname b else li_IP a < li_IP b)"

text \<open>
  A failed cast returns the outer \<open>err\<close>, which is nil there, and a failed decoding is ignored.
\<close>

definition getServiceStatusInCluster :: "'cl dns_env \<Rightarrow> string \<Rightarrow> string \<Rightarrow> LoadBalancerIngress list go_result" where
  "getServiceStatusInCluster env cluster key =
     (case GetByKey (de_services env) cluster key of
        Inl err \<Rightarrow> Inl err
      | Inr None \<Rightarrow> Inr []
      | Inr (Some OtherType) \<Rightarrow> Inr []
      | Inr (Some (Unstructured clusterService)) \<Rightarrow>
          (case de_marshal env clusterService of
             Inl err \<Rightarrow> Inl err
           | Inr content \<Rightarrow>
               (case de_service env content of
                  Inl _ \<Rightarrow> Inr []
                | Inr ingress \<Rightarrow> Inr (de_sortIngress env ingress))))"

fun addresses_loop :: "string list list \<Rightarrow> string list \<Rightarrow> string list" where
  "addresses_loop [] addresses = addresses"
| "addresses_loop (sub # rest) addresses =
     addresses_loop rest (if length sub > 0 then addresses @ sub else addresses)"

definition serviceBackedByEndpointsInCluster :: "'cl dns_env \<Rightarrow> string \<Rightarrow> string \<Rightarrow> bool go_result" where
  "serviceBackedByEndpointsInCluster env cluster key =
     (case GetByKey (de_endpointsInformer env) cluster key of
        Inl err \<Rightarrow> Inl err
      | Inr None \<Rightarrow> Inr False
      | Inr (Some OtherType) \<Rightarrow> Inr False
      | Inr (Some (Unstructured clusterEndpoints)) \<Rightarrow>
          (case de_marshal env clusterEndpoints of
             Inl err \<Rightarrow> Inl err
           | Inr content \<Rightarrow>
               (case de_endpoints env content of
                  Inl _ \<Rightarrow> Inr False
                | Inr subsets \<Rightarrow> Inr (length (addresses_loop subsets []) > 0))))"

subsection \<open>reconcile\<close>

definition cluster_dns :: "'cl dns_env \<Rightarrow> string \<Rightarrow> FederatedCluster \<Rightarrow> ClusterDNS go_result" where
  "cluster_dns env key cluster =
     (let clusterDNS = \<lparr>cd_Cluster = cluster_name cluster, cd_LoadBalancer = [],
            cd_Zone = fst_Zone (fc_Status cluster), cd_Region = fst_Region (fc_Status cluster)\<rparr>
      in rbind (serviceBackedByEndpointsInCluster env (cluster_name cluster) key) (\<lambda>endpointsExist.
           if endpointsExist
           then rbind (getServiceStatusInCluster env (cluster_name cluster) key)
                  (\<lambda>lbStatus. Inr (clusterDNS\<lparr>cd_LoadBalancer := lbStatus\<rparr>))
           else Inr clusterDNS))"

fun online_dns :: "'cl dns_env \<Rightarrow> string \<Rightarrow> FederatedCluster list \<Rightarrow> ClusterDNS list go_result" where
  "online_dns env key [] = Inr []"
| "online_dns env key (cluster # rest) =
     rbind (cluster_dns env key cluster) (\<lambda>d.
     rbind (online_dns env key rest) (\<lambda>ds. Inr (d # ds)))"

text \<open>The first entry of every offline cluster in the given status, without its load balancer.\<close>

fun first_entry :: "string \<Rightarrow> ClusterDNS list \<Rightarrow> ClusterDNS list" where
  "first_entry name [] = []"
| "first_entry name (d # ds) = (if cd_Cluster d = name then [d\<lparr>cd_LoadBalancer := []\<rparr>] else first_entry name ds)"

definition offline_dns :: "ClusterDNS list \<Rightarrow> FederatedCluster list \<Rightarrow> ClusterDNS list" where
  "offline_dns statusDNS offlineClusters = concat (map (\<lambda>c. first_entry (cluster_name c) statusDNS) offlineClusters)"

definition dns_less :: "ClusterDNS \<Rightarrow> ClusterDNS \<Rightarrow> bool" where
  "dns_less a b \<longleftrightarrow> cd_Cluster a < cd_Cluster b"

text \<open>Returns the status and the records passed to \<open>UpdateStatus\<close>. The fresh record has no status.\<close>

definition dns_reconcile :: "'cl dns_env \<Rightarrow> QualifiedName
    \<Rightarrow> reconciliationStatus \<times> MultiClusterServiceDNSRecord list" where
  "dns_reconcile env qualifiedName =
     (if \<not> dns_isSynced env then (statusNotSynced, [])
      else
        (let key = qn_String qualifiedName in
         case de_store env key of
           Inl _ \<Rightarrow> (statusError, [])
         | Inr None \<Rightarrow> (statusAllOK, [])
         | Inr (Some cachedDNS) \<Rightarrow>
             (let fedDNS = \<lparr>dr_Meta = DeepCopyRelevantObjectMeta (dr_Meta cachedDNS),
                    dr_Spec = dr_Spec cachedDNS, dr_DNS = []\<rparr>
              in case GetReadyClusters (de_services env) of
                   Inl _ \<Rightarrow> (statusError, [])
                 | Inr clusters \<Rightarrow>
                   (case online_dns env key clusters of
                     Inl _ \<Rightarrow> (statusError, [])
                   | Inr online \<Rightarrow>
                     (case GetUnreadyClusters (de_services env) of
                       Inl _ \<Rightarrow> (statusError, [])
                     | Inr offlineClusters \<Rightarrow>
                       (let fedDNSStatus = online @ offline_dns (dr_DNS fedDNS) offlineClusters;
                            fedDNS1 = fedDNS\<lparr>dr_DNS := de_sortDNS env fedDNSStatus\<rparr>
                        in if dr_DNS cachedDNS \<noteq> dr_DNS fedDNS1
                           then (case de_updateStatus env fedDNS1 of
                                   Some _ \<Rightarrow> (statusError, [fedDNS1])
                                 | None \<Rightarrow> (statusAllOK, [fedDNS1]))
                           else (statusAllOK, [])))))))"

subsection \<open>Facts\<close>

lemma addresses_loop_eq: "addresses_loop subsets as = as @ concat subsets"
  by (induction subsets arbitrary: as) auto

lemma offline_dns_Nil [simp]: "offline_dns [] cs = []"
  by (simp add: offline_dns_def)

lemma online_dns_Inr:
  "online_dns env key cs = Inr ds \<Longrightarrow> list_all2 (\<lambda>c d. cluster_dns env key c = Inr d) cs ds"
  by (induction cs arbitrary: ds) (auto simp: rbind_Inr_iff)

lemma cluster_dns_Inr:
  assumes "cluster_dns env key c = Inr d"
  shows "cd_Cluster d = cluster_name c" "cd_Zone d = fst_Zone (fc_Status c)" "cd_Region d = fst_Region (fc_Status c)"
    "\<exists>backed. serviceBackedByEndpointsInCluster env (cluster_name c) key = Inr backed \<and>
       (if backed then getServiceStatusInCluster env (cluster_name c) key = Inr (cd_LoadBalancer d)
        else cd_LoadBalancer d = [])"
proof -
  obtain backed where b: "serviceBackedByEndpointsInCluster env (cluster_name c) key = Inr backed"
    using assms by (cases "serviceBackedByEndpointsInCluster env (cluster_name c) key") (simp_all add: cluster_dns_def)
  have "cd_Cluster d = cluster_name c \<and> cd_Zone d = fst_Zone (fc_Status c) \<and> cd_Region d = fst_Region (fc_Status c) \<and>
      (if backed then getServiceStatusInCluster env (cluster_name c) key = Inr (cd_LoadBalancer d)
       else cd_LoadBalancer d = [])"
  proof (cases backed)
    case True
    obtain lb where "getServiceStatusInCluster env (cluster_name c) key = Inr lb"
      using assms True by (cases "getServiceStatusInCluster env (cluster_name c) key") (simp_all add: cluster_dns_def b)
    with assms True show ?thesis by (auto simp: cluster_dns_def b)
  next
    case False
    with assms show ?thesis by (auto simp: cluster_dns_def b)
  qed
  with b show "cd_Cluster d = cluster_name c" "cd_Zone d = fst_Zone (fc_Status c)" "cd_Region d = fst_Region (fc_Status c)"
    "\<exists>backed. serviceBackedByEndpointsInCluster env (cluster_name c) key = Inr backed \<and>
       (if backed then getServiceStatusInCluster env (cluster_name c) key = Inr (cd_LoadBalancer d)
        else cd_LoadBalancer d = [])"
    by simp_all
qed

text \<open>The order of both sorts is a linear order on a key.\<close>

lemma ingress_less_key: "ingress_less a b \<longleftrightarrow> [li_IP a, li_Hostname a] < [li_IP b, li_Hostname b]"
  by (auto simp: ingress_less_def)

lemma ingress_sort_unique:
  assumes "go_sorter ingress_less srt"
  shows "srt xs = sort_key (\<lambda>i. [li_IP i, li_Hostname i]) xs"
  by (rule go_sorter_unique) (use assms in \<open>auto simp: ingress_less_key [abs_def] inj_on_def\<close>)

lemma dns_sort_unique:
  assumes "go_sorter dns_less srt" "distinct (map cd_Cluster xs)"
  shows "srt xs = sort_key cd_Cluster xs"
  by (rule go_sorter_unique) (use assms in \<open>auto simp: dns_less_def [abs_def] distinct_map\<close>)

end
