(* ===== verification/DNS_Claims.thy ===== *)
theory DNS_Claims
  imports Service_DNS Informer_Claims
begin

section \<open>Properties of the service DNS controller\<close>

text \<open>What a run that ends well computes: the entries of the ready clusters, sorted.\<close>

lemma dns_reconcile_AllOK:
  assumes "dns_reconcile env qn = (statusAllOK, calls)" and "dns_isSynced env"
    and "de_store env (qn_String qn) = Inr (Some cached)"
  shows "\<exists>clusters online. GetReadyClusters (de_services env) = Inr clusters \<and>
    online_dns env (qn_String qn) clusters = Inr online \<and>
    (calls = [] \<and> dr_DNS cached = de_sortDNS env online \<or>
     calls = [\<lparr>dr_Meta = DeepCopyRelevantObjectMeta (dr_Meta cached), dr_Spec = dr_Spec cached,
       dr_DNS = de_sortDNS env online\<rparr>] \<and> dr_DNS cached \<noteq> de_sortDNS env online)"
  using assms
  by (auto simp: dns_reconcile_def Let_def split: sum.splits option.splits if_splits)

lemma online_dns_entries:
  assumes "online_dns env key clusters = Inr online"
  shows "map cd_Cluster online = map cluster_name clusters"
    "c \<in> set clusters \<Longrightarrow> \<exists>d \<in> set online. cluster_dns env key c = Inr d"
    "d \<in> set online \<Longrightarrow> \<exists>c \<in> set clusters. cluster_dns env key c = Inr d"
proof -
  note l = online_dns_Inr [OF assms]
  then show "map cd_Cluster online = map cluster_name clusters"
    by (induction rule: list_all2_induct) (simp_all add: cluster_dns_Inr(1))
  show "c \<in> set clusters \<Longrightarrow> \<exists>d \<in> set online. cluster_dns env key c = Inr d"
    using l by (fastforce simp: list_all2_conv_all_nth in_set_conv_nth)
  show "d \<in> set online \<Longrightarrow> \<exists>c \<in> set clusters. cluster_dns env key c = Inr d"
    using l by (fastforce simp: list_all2_conv_all_nth in_set_conv_nth)
qed

text \<open>
  C38. When \<open>reconcile\<close> of a DNS record ends well, the status it wrote, or found in place, has exactly
  one entry per ready cluster, in the order of the cluster names, with the cluster's zone and
  region, and with the sorted ingress of the cluster's service exactly when endpoints back it.
  Offline clusters have no entry, although a comment says that theirs are preserved.
\<close>

theorem dns_reconcile_spec:
  assumes "dns_reconcile env qn = (statusAllOK, calls)" and "dns_isSynced env"
    and "de_store env (qn_String qn) = Inr (Some cached)"
    and "informer_run (de_services env)" and "GetReadyClusters (de_services env) = Inr clusters"
    and "go_sorter dns_less (de_sortDNS env)"
    and "status = (case calls of [] \<Rightarrow> dr_DNS cached | r # _ \<Rightarrow> dr_DNS r)"
  shows "length calls \<le> 1 \<and> map cd_Cluster status = sort (map cluster_name clusters) \<and>
    (\<forall>d \<in> set status. \<exists>c \<in> set clusters. cd_Cluster d = cluster_name c \<and>
       cd_Zone d = fst_Zone (fc_Status c) \<and> cd_Region d = fst_Region (fc_Status c) \<and>
       (\<exists>backed. serviceBackedByEndpointsInCluster env (cluster_name c) (qn_String qn) = Inr backed \<and>
         (if backed then getServiceStatusInCluster env (cluster_name c) (qn_String qn) = Inr (cd_LoadBalancer d)
          else cd_LoadBalancer d = []))) \<and>
    (\<forall>offline c. GetUnreadyClusters (de_services env) = Inr offline \<longrightarrow> c \<in> set offline \<longrightarrow>
       cluster_name c \<notin> cd_Cluster ` set status)"
proof -
  let ?key = "qn_String qn"
  have ok: "clusters_ok (de_services env)"
    using informer_run_ok [OF assms(4)] by (simp add: informer_ok_def)
  note ready = ready_names [OF ok assms(5)]
  obtain online where online: "online_dns env ?key clusters = Inr online"
    and status: "status = de_sortDNS env online" and len: "length calls \<le> 1"
    using dns_reconcile_AllOK [OF assms(1-3)] assms(5,7) by auto
  note entries = online_dns_entries [OF online]
  have sorted: "status = sort_key cd_Cluster online"
    using dns_sort_unique [OF assms(6)] entries(1) ready(2) by (simp add: status)
  have names: "map cd_Cluster status = sort (map cluster_name clusters)"
    by (rule properties_for_sort [symmetric])
      (simp_all add: sorted entries(1) [symmetric])
  have each: "\<exists>c \<in> set clusters. cd_Cluster d = cluster_name c \<and>
       cd_Zone d = fst_Zone (fc_Status c) \<and> cd_Region d = fst_Region (fc_Status c) \<and>
       (\<exists>backed. serviceBackedByEndpointsInCluster env (cluster_name c) ?key = Inr backed \<and>
         (if backed then getServiceStatusInCluster env (cluster_name c) ?key = Inr (cd_LoadBalancer d)
          else cd_LoadBalancer d = []))" if "d \<in> set status" for d
  proof -
    have "d \<in> set online" using that by (simp add: sorted)
    then obtain c where c: "c \<in> set clusters" "cluster_dns env ?key c = Inr d" using entries(3) by blast
    then show ?thesis
      using cluster_dns_Inr [OF c(2)] by blast
  qed
  have off: "cluster_name c \<notin> cd_Cluster ` set status"
    if "GetUnreadyClusters (de_services env) = Inr offline" "c \<in> set offline" for offline c
  proof
    assume "cluster_name c \<in> cd_Cluster ` set status"
    then have "cluster_name c \<in> set (map cd_Cluster status)" by simp
    then obtain r where r: "r \<in> set clusters" "cluster_name r = cluster_name c" unfolding names by auto
    note u = unready_names [OF ok that(1)]
    have "mget (fi_clusters (de_services env)) (cluster_key (cluster_name c)) = Some (ClusterItem c)" "\<not> isClusterReady c"
      using u that(2) by auto
    with ready(1) [of r] r show False by auto
  qed
  show ?thesis using len names each off by blast
qed

subsection \<open>Demonstration values\<close>

text \<open>An informer with a ready cluster that holds one object, and an offline one.\<close>

definition demo_filled :: "(target_obj, nat) federated_informer \<Rightarrow> (target_obj, nat) federated_informer" where
  "demo_filled f = (case mget (fi_targets f) ''c1'' of
     None \<Rightarrow> f
   | Some i \<Rightarrow> f\<lparr>fi_targets := mput ''c1'' (i\<lparr>inf_store := [(''ns/web'', Unstructured [])], inf_synced := True\<rparr>) (fi_targets f)\<rparr>)"

definition demo_objects :: "(target_obj, nat) federated_informer" where
  "demo_objects = demo_filled ((demo_delta (demo_delta (Start NewFederatedInformer)
     (demo_changed ''c1'' True)) (demo_changed ''c2'' False))\<lparr>fi_clustersSynced := True\<rparr>)"

lemma demo_filled_run: "informer_run f \<Longrightarrow> informer_run (demo_filled f)"
  by (auto simp: demo_filled_def split: option.split intro: informer_run.target)

lemma demo_objects_run: "informer_run demo_objects"
  unfolding demo_objects_def
  by (intro demo_filled_run informer_run.clusters demo_delta_run informer_run.started) simp_all

interpretation dns_sort: go_sorter dns_less "go_sort dns_less"
  by (rule go_sorter_go_sort) (auto simp: dns_less_def)

interpretation ingress_sort: go_sorter ingress_less "go_sort ingress_less"
  by (rule go_sorter_go_sort) (auto simp: ingress_less_def split: if_splits)

definition demo_record :: MultiClusterServiceDNSRecord where
  "demo_record = \<lparr>dr_Meta = empty_meta\<lparr>om_Name := ''web'', om_Namespace := ''ns''\<rparr>,
     dr_Spec = \<lparr>ds_FederationName = ''fed'', ds_DNSSuffix = ''example.com''\<rparr>,
     dr_DNS = [\<lparr>cd_Cluster = ''c2'', cd_LoadBalancer = [], cd_Zone = [], cd_Region = []\<rparr>]\<rparr>"

definition demo_dns_env :: "nat dns_env" where
  "demo_dns_env = \<lparr>de_services = demo_objects, de_endpointsInformer = demo_objects,
     de_store = (\<lambda>_. Inr (Some demo_record)), de_updateStatus = (\<lambda>_. None), de_marshal = (\<lambda>_. Inr []),
     de_service = (\<lambda>_. Inr [\<lparr>li_IP = ''2'', li_Hostname = []\<rparr>, \<lparr>li_IP = ''1'', li_Hostname = []\<rparr>]),
     de_endpoints = (\<lambda>_. Inr [[], [''10.0.0.1'']]),
     de_sortIngress = go_sort ingress_less, de_sortDNS = go_sort dns_less\<rparr>"

definition demo_qn :: QualifiedName where
  "demo_qn = \<lparr>qn_Namespace = ''ns'', qn_Name = ''web''\<rparr>"

definition demo_written :: MultiClusterServiceDNSRecord where
  "demo_written = demo_record\<lparr>dr_DNS := [\<lparr>cd_Cluster = ''c1'', cd_LoadBalancer =
     [\<lparr>li_IP = ''1'', li_Hostname = []\<rparr>, \<lparr>li_IP = ''2'', li_Hostname = []\<rparr>], cd_Zone = [], cd_Region = []\<rparr>]\<rparr>"

lemma demo_dns_run: "dns_reconcile demo_dns_env demo_qn = (statusAllOK, [demo_written])"
  "dns_isSynced demo_dns_env" "GetReadyClusters (de_services demo_dns_env) = Inr [demo_cluster ''c1'' True]"
  by code_simp+

lemma demo_dns_env_parts:
  "de_store demo_dns_env k = Inr (Some demo_record)" "de_services demo_dns_env = demo_objects"
  "de_sortDNS demo_dns_env = go_sort dns_less" "de_sortIngress demo_dns_env = go_sort ingress_less"
  by (simp_all add: demo_dns_env_def)

theorem dns_reconcile_spec_witness:
  "cd_Cluster ` set (dr_DNS demo_written) = {''c1''} \<and> cd_Cluster ` set (dr_DNS demo_record) = {''c2''}"
proof -
  have run: "informer_run (de_services demo_dns_env)" by (simp add: demo_dns_env_parts demo_objects_run)
  have sort: "go_sorter dns_less (de_sortDNS demo_dns_env)"
    by (simp add: demo_dns_env_parts dns_sort.go_sorter_axioms)
  have status: "dr_DNS demo_written = (case [demo_written] of [] \<Rightarrow> dr_DNS demo_record | r # _ \<Rightarrow> dr_DNS r)" by simp
  note dns_reconcile_spec [OF demo_dns_run(1,2) demo_dns_env_parts(1) run demo_dns_run(3) sort status]
  then have "map cd_Cluster (dr_DNS demo_written) = [''c1'']" by simp
  then have "set (map cd_Cluster (dr_DNS demo_written)) = {''c1''}" by simp
  then show ?thesis by (simp add: demo_record_def)
qed

text \<open>
  C39. \<open>reconcile\<close> of a DNS record is quiescent: once the record it wrote is what the store returns,
  another run with the same clusters makes no API call. A run makes at most one call, and none
  when it is not synced or any lookup fails.
\<close>

theorem dns_reconcile_quiescent:
  assumes "dns_reconcile env qn = (status, written # rest)"
  shows "rest = [] \<and> status \<in> {statusAllOK, statusError} \<and> dns_isSynced env \<and>
    dns_reconcile (env\<lparr>de_store := (\<lambda>_. Inr (Some written))\<rparr>) qn = (statusAllOK, [])"
proof -
  let ?env = "env\<lparr>de_store := (\<lambda>_. Inr (Some written))\<rparr>"
  have synced: "dns_isSynced env" using assms by (auto simp: dns_reconcile_def split: if_splits)
  have sel: "de_services ?env = de_services env" "de_endpointsInformer ?env = de_endpointsInformer env"
    "de_marshal ?env = de_marshal env" "de_service ?env = de_service env" "de_endpoints ?env = de_endpoints env"
    "de_sortIngress ?env = de_sortIngress env" by simp_all
  have frame: "dns_isSynced ?env = dns_isSynced env" by (simp add: dns_isSynced_def)
  have dns: "cluster_dns ?env key c = cluster_dns env key c" for key c
    unfolding cluster_dns_def serviceBackedByEndpointsInCluster_def getServiceStatusInCluster_def sel by (rule refl)
  have online_eq: "online_dns ?env key cs = online_dns env key cs" for key cs
    by (induction cs) (simp_all add: dns)
  obtain cached where cached: "de_store env (qn_String qn) = Inr (Some cached)"
    using assms synced by (auto simp: dns_reconcile_def Let_def split: sum.splits option.splits)
  obtain clusters where clusters: "GetReadyClusters (de_services env) = Inr clusters"
    using assms synced cached by (auto simp: dns_reconcile_def Let_def split: sum.splits)
  obtain online where online: "online_dns env (qn_String qn) clusters = Inr online"
    using assms synced cached clusters by (auto simp: dns_reconcile_def Let_def split: sum.splits)
  obtain off where off: "GetUnreadyClusters (de_services env) = Inr off"
    using assms synced cached clusters online by (auto simp: dns_reconcile_def Let_def split: sum.splits)
  have w: "dr_DNS written = de_sortDNS env online" "rest = []" "status \<in> {statusAllOK, statusError}"
    using assms synced cached clusters online off
    by (auto simp: dns_reconcile_def Let_def split: if_splits option.splits)
  have "dns_reconcile ?env qn = (statusAllOK, [])"
    by (simp add: dns_reconcile_def frame synced clusters online_eq online off w(1))
  with w synced show ?thesis by blast
qed

theorem dns_reconcile_quiescent_witness:
  "dns_reconcile (demo_dns_env\<lparr>de_store := (\<lambda>_. Inr (Some demo_written))\<rparr>) demo_qn = (statusAllOK, [])"
  using dns_reconcile_quiescent [OF demo_dns_run(1)] by blast

end
