(* ===== verification/Federated_Updater.thy ===== *)
theory Federated_Updater
  imports Util_Meta
begin

section \<open>The federated updater\<close>

text \<open>
  \<open>pkg/controller/util/federated_updater.go\<close>: a batch of operations, one goroutine each. The
  clients of the member clusters are the parameter \<open>updater_env\<close>. The goroutines finish in any
  order and the collecting loop may time out before all have: \<open>received\<close> is the list of results
  the loop took from the channel, in order, and the loop timed out exactly when there are fewer
  of them than operations. \<open>received_ok\<close> says which lists are possible; the theorems hold for
  all of them.
\<close>

datatype FederatedOperationType = OperationTypeAdd | OperationTypeUpdate | OperationTypeDelete

record FederatedOperation =
  op_Type :: FederatedOperationType
  op_ClusterName :: string
  op_Obj :: jobj
  op_Key :: string

record operationResult =
  or_clusterName :: string
  or_version :: string
  or_err :: "go_error option"

text \<open>
  \<open>ue_client\<close> is \<open>GetClientForCluster\<close>; the handlers take the cluster and the object. The add
  and update handlers return the version of the object the cluster returned.
\<close>

record updater_env =
  ue_client :: "string \<Rightarrow> unit go_result"
  ue_add :: "string \<Rightarrow> jobj \<Rightarrow> string go_result"
  ue_update :: "string \<Rightarrow> jobj \<Rightarrow> string go_result"
  ue_delete :: "string \<Rightarrow> jobj \<Rightarrow> unit go_result"

definition failed_op :: "FederatedOperation \<Rightarrow> string \<Rightarrow> go_error \<Rightarrow> operationResult" where
  "failed_op op version e =
     \<lparr>or_clusterName = op_ClusterName op, or_version = version,
      or_err = Some (ErrWrapped ''Failed to execute operation in cluster'' e)\<rparr>"

definition done_op :: "FederatedOperation \<Rightarrow> string \<Rightarrow> operationResult" where
  "done_op op version = \<lparr>or_clusterName = op_ClusterName op, or_version = version, or_err = None\<rparr>"

text \<open>The body of one goroutine.\<close>

definition op_result :: "updater_env \<Rightarrow> FederatedOperation \<Rightarrow> operationResult" where
  "op_result env op =
     (case ue_client env (op_ClusterName op) of
        Inl e \<Rightarrow> \<lparr>or_clusterName = [], or_version = [], or_err = Some e\<rparr>
      | Inr _ \<Rightarrow>
          (case op_Type op of
             OperationTypeAdd \<Rightarrow>
               (case ue_add env (op_ClusterName op) (op_Obj op) of
                  Inl e \<Rightarrow> failed_op op [] e | Inr version \<Rightarrow> done_op op version)
           | OperationTypeUpdate \<Rightarrow>
               (case ue_update env (op_ClusterName op) (op_Obj op) of
                  Inl e \<Rightarrow> failed_op op [] e | Inr version \<Rightarrow> done_op op version)
           | OperationTypeDelete \<Rightarrow>
               (case ue_delete env (op_ClusterName op) (op_Obj op) of
                  Inl e \<Rightarrow> if IsNotFound e then done_op op [] else failed_op op [] e
                | Inr _ \<Rightarrow> done_op op [])))"

text \<open>The collecting loop: a failed operation leaves no version.\<close>

fun collect_results :: "operationResult list \<Rightarrow> (string, string) gomap \<Rightarrow> go_error list
    \<Rightarrow> (string, string) gomap \<times> go_error list" where
  "collect_results [] versions errors = (versions, errors)"
| "collect_results (r # rs) versions errors =
     (case or_err r of
        Some e \<Rightarrow> collect_results rs versions (errors @ [e])
      | None \<Rightarrow> collect_results rs (mput (or_clusterName r) (or_version r) versions) errors)"

definition Update_ops :: "FederatedOperation list \<Rightarrow> operationResult list
    \<Rightarrow> (string, string) gomap \<times> go_error list" where
  "Update_ops ops received =
     (let (versions, errors) = collect_results received [] []; timedOut = length received < length ops
      in (versions, if timedOut then errors @ [ErrOther ''Failed to finish all operations''] else errors))"

definition received_ok :: "updater_env \<Rightarrow> FederatedOperation list \<Rightarrow> operationResult list \<Rightarrow> bool" where
  "received_ok env ops received \<longleftrightarrow> mset received \<subseteq># mset (map (op_result env) ops)"

subsection \<open>What an update returns\<close>

lemma collect_results_facts:
  "collect_results rs versions errors = (vs, es) \<Longrightarrow>
    es = errors @ List.map_filter or_err rs \<and>
    mget vs = mget versions ++ map_of (rev (map (\<lambda>r. (or_clusterName r, or_version r)) (filter (\<lambda>r. or_err r = None) rs))) \<and>
    (gomap_ok versions \<longrightarrow> gomap_ok vs)"
proof (induction rs versions errors rule: collect_results.induct)
  case (2 r rs versions errors)
  show ?case
  proof (cases "or_err r")
    case None
    with 2 show ?thesis
      by (auto simp: List.map_filter_simps map_add_def fun_eq_iff split: option.splits)
  next
    case (Some e)
    with 2 show ?thesis by (simp add: List.map_filter_simps)
  qed
qed (simp add: List.map_filter_simps)

lemma Update_ops_facts:
  assumes "Update_ops ops received = (vs, es)"
  shows "es = [] \<longleftrightarrow> length received \<ge> length ops \<and> (\<forall>r \<in> set received. or_err r = None)"
    and "mget vs = map_of (rev (map (\<lambda>r. (or_clusterName r, or_version r)) (filter (\<lambda>r. or_err r = None) received)))"
    and "gomap_ok vs"
proof -
  obtain vs' es' where c: "collect_results received [] [] = (vs', es')"
    by (cases "collect_results received [] []")
  note facts = collect_results_facts [OF c]
  have nil: "List.map_filter or_err rs = [] \<longleftrightarrow> (\<forall>r \<in> set rs. or_err r = None)" for rs
    by (induction rs) (auto simp: List.map_filter_simps split: option.split)
  show "es = [] \<longleftrightarrow> length received \<ge> length ops \<and> (\<forall>r \<in> set received. or_err r = None)"
    using assms facts nil [of received] by (auto simp: Update_ops_def c split: if_splits)
  show "mget vs = map_of (rev (map (\<lambda>r. (or_clusterName r, or_version r)) (filter (\<lambda>r. or_err r = None) received)))"
    "gomap_ok vs"
    using assms facts by (auto simp: Update_ops_def c)
qed

lemma op_result_ok:
  assumes "or_err (op_result env op) = None"
  shows "or_clusterName (op_result env op) = op_ClusterName op"
  using assms by (auto simp: op_result_def done_op_def failed_op_def
      split: sum.splits FederatedOperationType.splits if_splits)

text \<open>The version an operation contributes, when it succeeds.\<close>

definition op_version :: "updater_env \<Rightarrow> FederatedOperation list \<Rightarrow> string \<Rightarrow> string option" where
  "op_version env ops c =
     (case List.find (\<lambda>op. op_ClusterName op = c) ops of
        Some op \<Rightarrow> if or_err (op_result env op) = None then Some (or_version (op_result env op)) else None
      | None \<Rightarrow> None)"

lemma find_distinct:
  assumes "distinct (map f xs)" "x \<in> set xs"
  shows "List.find (\<lambda>y. f y = f x) xs = Some x"
  using assms by (induction xs) auto

lemma distinct_submset:
  assumes "mset xs \<subseteq># mset ys" and "distinct ys"
  shows "distinct xs"
proof -
  obtain zs where "mset ys = mset (xs @ zs)"
    using assms(1) by (metis ex_mset mset_append subset_mset.le_iff_add)
  then have "distinct (xs @ zs)"
    using assms(2) mset_eq_imp_distinct_iff by metis
  then show ?thesis by simp
qed

lemma distinct_ops_results:
  assumes "distinct (map op_ClusterName ops)" and "received_ok env ops received"
  shows "distinct (map or_clusterName (filter (\<lambda>r. or_err r = None) received))"
proof -
  let ?good = "filter (\<lambda>r. or_err r = None)"
  have "mset (?good received) \<subseteq># mset (?good (map (op_result env) ops))"
    using assms(2) by (simp add: received_ok_def multiset_filter_mono)
  then have sub: "mset (map or_clusterName (?good received))
      \<subseteq># mset (map or_clusterName (?good (map (op_result env) ops)))"
    by (simp add: image_mset_subseteq_mono)
  have "map or_clusterName (?good (map (op_result env) ops))
      = map op_ClusterName (filter (\<lambda>op. or_err (op_result env op) = None) ops)"
    by (induction ops) (auto simp: op_result_ok)
  then have "distinct (map or_clusterName (?good (map (op_result env) ops)))"
    using assms(1) by (simp add: distinct_map_filter)
  then show ?thesis
    using distinct_submset [OF sub] by blast
qed

text \<open>
  With at most one operation per cluster, the versions are those of the operations that finished
  in time and succeeded, in whatever order they finished; with no error, of all of them.
\<close>

lemma received_version:
  assumes dist: "distinct (map op_ClusterName ops)" and rec: "received_ok env ops received"
    and up: "Update_ops ops received = (vs, es)"
  shows "mget vs c = Some v \<longleftrightarrow>
    (\<exists>op \<in> set ops. op_ClusterName op = c \<and> op_result env op \<in> set received
       \<and> or_err (op_result env op) = None \<and> or_version (op_result env op) = v)"
proof -
  let ?pairs = "map (\<lambda>r. (or_clusterName r, or_version r)) (filter (\<lambda>r. or_err r = None) received)"
  have "distinct (map fst ?pairs)"
    using distinct_ops_results [OF dist rec] by (simp add: comp_def)
  then have "map_of (rev ?pairs) = map_of ?pairs"
    using gomap_perm(2) [of ?pairs "rev ?pairs"] by (simp add: gomap_ok_def)
  then have "mget vs c = Some v \<longleftrightarrow> (c, v) \<in> set ?pairs"
    using Update_ops_facts(2) [OF up] \<open>distinct (map fst ?pairs)\<close> by (simp add: map_of_eq_Some_iff)
  also have "\<dots> \<longleftrightarrow> (\<exists>r \<in> set received. or_err r = None \<and> or_clusterName r = c \<and> or_version r = v)"
    by auto
  also have "\<dots> \<longleftrightarrow> (\<exists>op \<in> set ops. op_ClusterName op = c \<and> op_result env op \<in> set received
       \<and> or_err (op_result env op) = None \<and> or_version (op_result env op) = v)"
  proof -
    have "set received \<subseteq> op_result env ` set ops"
      using set_mset_mono [OF rec [unfolded received_ok_def]] by simp
    then show ?thesis using op_result_ok by fastforce
  qed
  finally show ?thesis .
qed

lemma all_received:
  assumes "received_ok env ops received" and "length received \<ge> length ops"
  shows "mset received = mset (map (op_result env) ops)"
proof (rule subset_mset.eq_iff [THEN iffD2, OF conjI])
  show sub: "mset received \<subseteq># mset (map (op_result env) ops)"
    using assms(1) by (simp add: received_ok_def)
  have "size (mset received) \<le> size (mset (map (op_result env) ops))"
    by (rule size_mset_mono [OF sub])
  then have "size (mset received) = size (mset (map (op_result env) ops))"
    using assms(2) by simp
  then show "mset (map (op_result env) ops) \<subseteq># mset received"
    using sub by (metis mset_subset_size nless_le subset_mset.nless_le subset_mset.order_refl)
qed

end
