(* ===== verification/Sync_Versions.thy ===== *)
theory Sync_Versions
  imports Federated_Updater
begin

section \<open>Propagated versions\<close>

text \<open>
  The version bookkeeping of \<open>pkg/controller/sync/controller.go\<close>: what a \<open>PropagatedVersion\<close>
  records of each cluster, when it is trusted again, and how it is written back. The federation
  API is the parameter \<open>version_api\<close>; the calls made are returned as a list, in order, and
  \<open>pendingVersionUpdates\<close> is threaded through.
\<close>

record version_api =
  va_create :: "PropagatedVersion \<Rightarrow> PropagatedVersion go_result"
  va_updateStatus :: "PropagatedVersion \<Rightarrow> unit go_result"

datatype version_call = CreateVersion PropagatedVersion | UpdateVersionStatus PropagatedVersion

definition override_version :: "jobj option \<Rightarrow> string" where
  "override_version override = (case override of None \<Rightarrow> [] | Some o' \<Rightarrow> GetResourceVersion o')"

definition getClusterVersions :: "jobj \<Rightarrow> jobj option \<Rightarrow> PropagatedVersion option \<Rightarrow> (string, string) gomap" where
  "getClusterVersions template override propagatedVersion =
     (case propagatedVersion of
        None \<Rightarrow> []
      | Some pv \<Rightarrow>
          if GetResourceVersion template = pvs_TemplateVersion (pv_Status pv) \<and>
             override_version override = pvs_OverrideVersion (pv_Status pv)
          then foldl (\<lambda>m versions. mput (cv_ClusterName versions) (cv_Version versions) m) []
                 (pvs_ClusterVersions (pv_Status pv))
          else [])"

text \<open>Both loops over the map append in the map's iteration order and sort afterwards.\<close>

definition newVersion :: "(string, string) gomap \<Rightarrow> jobj \<Rightarrow> string \<Rightarrow> string \<Rightarrow> PropagatedVersion" where
  "newVersion clusterVersions templateMeta targetKind overrideVersion =
     (let versions = SortClusterVersions
            (map (\<lambda>(clusterName, version). \<lparr>cv_ClusterName = clusterName, cv_Version = version\<rparr>) clusterVersions);
          namespace = (if targetKind = NamespaceKind then GetName templateMeta else GetNamespace templateMeta)
      in \<lparr>pv_Meta = empty_meta\<lparr>om_Namespace := namespace,
             om_Name := PropagatedVersionName targetKind (GetName templateMeta)\<rparr>,
          pv_Status = \<lparr>pvs_TemplateVersion = GetResourceVersion templateMeta,
             pvs_OverrideVersion = overrideVersion, pvs_ClusterVersions = versions\<rparr>\<rparr>)"

fun retain_versions :: "sset \<Rightarrow> ClusterObjectVersion list \<Rightarrow> (string, string) gomap \<Rightarrow> (string, string) gomap" where
  "retain_versions selectedClusterSet [] newVersions = newVersions"
| "retain_versions selectedClusterSet (oldVersion # olds) newVersions =
     (if \<not> sset_has selectedClusterSet (cv_ClusterName oldVersion)
      then retain_versions selectedClusterSet olds newVersions
      else (case mget newVersions (cv_ClusterName oldVersion) of
              None \<Rightarrow> retain_versions selectedClusterSet olds
                        (mput (cv_ClusterName oldVersion) (cv_Version oldVersion) newVersions)
            | Some _ \<Rightarrow> retain_versions selectedClusterSet olds newVersions))"

definition clusterVersions :: "(string, string) gomap \<Rightarrow> ClusterObjectVersion list \<Rightarrow> string list
    \<Rightarrow> ClusterObjectVersion list" where
  "clusterVersions newVersions oldVersions selectedClusters =
     (let retained = retain_versions (sset_of selectedClusters) oldVersions newVersions;
          versions = map (\<lambda>(clusterName, version). \<lparr>cv_ClusterName = clusterName, cv_Version = version\<rparr>)
                       (filter (\<lambda>(clusterName, version). version \<noteq> []) retained)
      in SortClusterVersions versions)"

definition updatedStatus :: "PropagatedVersion \<Rightarrow> (string, string) gomap \<Rightarrow> jobj \<Rightarrow> jobj option
    \<Rightarrow> string list \<Rightarrow> PropagatedVersionStatus" where
  "updatedStatus version updatedVersions template override selectedClusters =
     (let status = pv_Status version;
          templateVersion = GetResourceVersion template;
          overrideVersion = override_version override;
          existingVersions =
            (if pvs_TemplateVersion status = templateVersion \<and> pvs_OverrideVersion status = overrideVersion
             then pvs_ClusterVersions status else [])
      in \<lparr>pvs_TemplateVersion = templateVersion, pvs_OverrideVersion = overrideVersion,
          pvs_ClusterVersions = clusterVersions updatedVersions existingVersions selectedClusters\<rparr>)"

definition updatePropagatedVersion :: "version_api \<Rightarrow> string \<Rightarrow> (string, string) gomap \<Rightarrow> jobj
    \<Rightarrow> jobj option \<Rightarrow> PropagatedVersion option \<Rightarrow> string list \<Rightarrow> sset
    \<Rightarrow> go_error option \<times> sset \<times> version_call list" where
  "updatePropagatedVersion api targetKind updatedVersions template override version selectedClusters pending =
     (case version of
        None \<Rightarrow>
          (let v = newVersion updatedVersions template targetKind (override_version override)
           in case va_create api v of
                Inl e \<Rightarrow> (Some e, pending, [CreateVersion v])
              | Inr createdVersion \<Rightarrow>
                  (let key = qn_String (NewQualifiedName (pv_Meta createdVersion));
                       pending1 = sset_insert key pending
                   in case va_updateStatus api createdVersion of
                        Inl e \<Rightarrow> (Some e, sset_delete key pending1,
                                  [CreateVersion v, UpdateVersionStatus createdVersion])
                      | Inr _ \<Rightarrow> (None, pending1, [CreateVersion v, UpdateVersionStatus createdVersion])))
      | Some v \<Rightarrow>
          (let newStatus = updatedStatus v updatedVersions template override selectedClusters
           in if PropagatedVersionStatusEquivalent (pv_Status v) newStatus
              then (None, pending, [])
              else (let v' = v\<lparr>pv_Status := newStatus\<rparr>;
                        key = qn_String (NewQualifiedName (pv_Meta v'));
                        pending1 = sset_insert key pending
                    in case va_updateStatus api v' of
                         Inl e \<Rightarrow> (Some e, sset_delete key pending1, [UpdateVersionStatus v'])
                       | Inr _ \<Rightarrow> (None, pending1, [UpdateVersionStatus v']))))"

subsection \<open>Lists of cluster versions as maps\<close>

definition cov_map :: "ClusterObjectVersion list \<Rightarrow> string \<Rightarrow> string option" where
  "cov_map vs = map_of (map (\<lambda>v. (cv_ClusterName v, cv_Version v)) vs)"

definition cov_ok :: "ClusterObjectVersion list \<Rightarrow> bool" where
  "cov_ok vs \<longleftrightarrow> sorted (map cv_ClusterName vs) \<and> distinct (map cv_ClusterName vs)"

definition to_cov :: "(string, string) gomap \<Rightarrow> ClusterObjectVersion list" where
  "to_cov m = SortClusterVersions
     (map (\<lambda>(clusterName, version). \<lparr>cv_ClusterName = clusterName, cv_Version = version\<rparr>) m)"

lemma to_cov_facts:
  assumes "gomap_ok m"
  shows "cov_ok (to_cov m)" and "cov_map (to_cov m) = mget m"
proof -
  let ?vs = "map (\<lambda>(clusterName, version). \<lparr>cv_ClusterName = clusterName, cv_Version = version\<rparr>) m"
  have names: "map cv_ClusterName ?vs = mkeys m"
    by auto
  have pairs: "map (\<lambda>v. (cv_ClusterName v, cv_Version v)) ?vs = m"
    by (induction m) auto
  have to_cov: "mset (to_cov m) = mset ?vs"
    unfolding to_cov_def SortClusterVersions_def by (rule mset_sort)
  have mset: "mset (map (\<lambda>v. (cv_ClusterName v, cv_Version v)) (to_cov m)) = mset m"
    unfolding mset_map to_cov unfolding mset_map [symmetric] pairs ..
  have "mset (map cv_ClusterName (to_cov m)) = mset (mkeys m)"
    unfolding mset_map to_cov unfolding mset_map [symmetric] names ..
  then have "distinct (map cv_ClusterName (to_cov m))"
    using assms mset_eq_imp_distinct_iff unfolding gomap_ok_def by metis
  then show "cov_ok (to_cov m)"
    by (simp add: cov_ok_def to_cov_def SortClusterVersions_def)
  show "cov_map (to_cov m) = mget m"
    using gomap_perm(2) [OF assms mset [symmetric]] by (simp add: cov_map_def)
qed

text \<open>Sorted by name without duplicates, the list is determined by the map it stands for.\<close>

lemma cov_map_nth:
  assumes "distinct (map cv_ClusterName vs)" "i < length vs"
  shows "cov_map vs (cv_ClusterName (vs ! i)) = Some (cv_Version (vs ! i))"
  unfolding cov_map_def using assms by (intro map_of_is_SomeI) (auto simp: comp_def)

lemma dom_cov_map: "dom (cov_map vs) = set (map cv_ClusterName vs)"
  by (simp add: cov_map_def dom_map_of_conv_image_fst image_image)

lemma cov_ext:
  assumes "cov_ok vs" "cov_ok ws" "cov_map vs = cov_map ws"
  shows "vs = ws"
proof -
  have d: "distinct (map cv_ClusterName vs)" "distinct (map cv_ClusterName ws)"
    using assms(1,2) by (simp_all add: cov_ok_def)
  have names: "map cv_ClusterName vs = map cv_ClusterName ws"
    using assms dom_cov_map by (metis cov_ok_def sorted_distinct_set_unique)
  then have len: "length vs = length ws"
    by (metis length_map)
  show ?thesis
  proof (rule nth_equalityI [OF len])
    fix i
    assume i: "i < length vs"
    have n: "cv_ClusterName (vs ! i) = cv_ClusterName (ws ! i)"
      using names i len by (metis nth_map)
    have "Some (cv_Version (vs ! i)) = Some (cv_Version (ws ! i))"
      using cov_map_nth [OF d(1) i] cov_map_nth [OF d(2), of i] i len n assms(3) by simp
    with n show "vs ! i = ws ! i" by simp
  qed
qed

subsection \<open>The recorded versions\<close>

lemma newVersion_status:
  "pv_Status (newVersion m t k ov) = \<lparr>pvs_TemplateVersion = GetResourceVersion t,
     pvs_OverrideVersion = ov, pvs_ClusterVersions = to_cov m\<rparr>"
  by (simp add: newVersion_def to_cov_def)

lemma retain_versions_mget:
  "mget (retain_versions sel olds new) c =
     (case mget new c of
        Some v \<Rightarrow> Some v
      | None \<Rightarrow> if sset_has sel c then cov_map olds c else None)"
  by (induction sel olds new rule: retain_versions.induct)
    (auto simp: cov_map_def split: option.splits)

lemma retain_versions_ok: "gomap_ok new \<Longrightarrow> gomap_ok (retain_versions sel olds new)"
  by (induction sel olds new rule: retain_versions.induct) (auto split: option.splits)

lemma clusterVersions_to_cov:
  "clusterVersions new olds sel =
    to_cov (filter (\<lambda>(c, v). v \<noteq> []) (retain_versions (sset_of sel) olds new))"
  by (simp add: clusterVersions_def to_cov_def)

lemma mget_filter:
  "gomap_ok m \<Longrightarrow> mget (filter (\<lambda>(k, v). P v) m) c = (case mget m c of Some v \<Rightarrow> if P v then Some v else None | None \<Rightarrow> None)"
  by (induction m) (auto simp: gomap_ok_def map_of_eq_None_iff split: option.splits)

lemma gomap_ok_filter: "gomap_ok m \<Longrightarrow> gomap_ok (filter P m)"
  by (simp add: gomap_ok_def distinct_map_filter)

lemma clusterVersions_facts:
  assumes "gomap_ok new"
  shows "cov_ok (clusterVersions new olds sel)"
    and "cov_map (clusterVersions new olds sel) c =
      (case mget new c of
         Some v \<Rightarrow> if v \<noteq> [] then Some v else None
       | None \<Rightarrow> if c \<in> set sel then (case cov_map olds c of Some v \<Rightarrow> if v \<noteq> [] then Some v else None | None \<Rightarrow> None)
                else None)"
proof -
  let ?m = "filter (\<lambda>(c, v). v \<noteq> []) (retain_versions (sset_of sel) olds new)"
  note ok = gomap_ok_filter [OF retain_versions_ok [OF assms]]
  show "cov_ok (clusterVersions new olds sel)"
    unfolding clusterVersions_to_cov by (rule to_cov_facts(1) [OF ok])
  show "cov_map (clusterVersions new olds sel) c =
      (case mget new c of
         Some v \<Rightarrow> if v \<noteq> [] then Some v else None
       | None \<Rightarrow> if c \<in> set sel then (case cov_map olds c of Some v \<Rightarrow> if v \<noteq> [] then Some v else None | None \<Rightarrow> None)
                else None)"
    unfolding clusterVersions_to_cov to_cov_facts(2) [OF ok]
    by (auto simp: mget_filter retain_versions_ok assms retain_versions_mget sset.has split: option.split)
qed

lemma getClusterVersions_mget:
  assumes "distinct (map cv_ClusterName (pvs_ClusterVersions (pv_Status pv)))"
    and "pvs_TemplateVersion (pv_Status pv) = GetResourceVersion t"
    and "pvs_OverrideVersion (pv_Status pv) = override_version ov"
  shows "mget (getClusterVersions t ov (Some pv)) = cov_map (pvs_ClusterVersions (pv_Status pv))"
proof -
  let ?vs = "pvs_ClusterVersions (pv_Status pv)"
  have "mget (foldl (\<lambda>m v. mput (cv_ClusterName v) (cv_Version v) m) m us)
      = mget m ++ map_of (rev (map (\<lambda>v. (cv_ClusterName v, cv_Version v)) us))"
    for us :: "ClusterObjectVersion list" and m
    by (induction us arbitrary: m) (auto simp: map_add_def fun_eq_iff split: option.split)
  moreover have "map_of (rev (map (\<lambda>v. (cv_ClusterName v, cv_Version v)) ?vs)) = cov_map ?vs"
    unfolding cov_map_def
    by (rule gomap_perm(2)) (use assms(1) in \<open>simp_all add: gomap_ok_def comp_def\<close>)
  ultimately show ?thesis
    using assms(2,3) by (simp add: getClusterVersions_def)
qed

end
