(* ===== verification/Sync_Operations.thy ===== *)
theory Sync_Operations
  imports Sync_Versions
begin

section \<open>Operations on member clusters\<close>

text \<open>
  How \<open>pkg/controller/sync/controller.go\<close> decides what to do in each cluster: the object a
  cluster should hold (\<open>objectForCluster\<close>, \<open>objectForUpdateOp\<close>, \<open>serviceForUpdateOp\<close>) and the
  list of operations (\<open>clusterOperations\<close>). \<open>get_by_key\<close> is the target store's \<open>GetByKey\<close>. A
  failed type assertion is \<open>GoPanic\<close>.
\<close>

subsection \<open>The desired object\<close>

definition targetFields :: "string list" where
  "targetFields = [''name'', ''namespace'', ''labels'', ''annotations'']"

definition wrap_err :: "string \<Rightarrow> go_error \<Rightarrow> go_error" where
  "wrap_err msg e = (if is_panic e then e else ErrWrapped msg e)"

definition namespace_body :: "jobj \<Rightarrow> jobj go_result" where
  "namespace_body template =
     (case NestedMap template [''metadata''] of
        Inl e \<Rightarrow> Inl (ErrWrapped ''Error retrieving namespace metadata'' e)
      | Inr None \<Rightarrow> Inl (ErrOther ''Unable to retrieve namespace metadata'')
      | Inr (Some metadata) \<Rightarrow>
          Inr [(''metadata'', JObj (filter (\<lambda>(key, v). sset_has (sset_of targetFields) key) metadata))])"

definition template_body :: "FederatedTypeConfig \<Rightarrow> jobj \<Rightarrow> jobj go_result" where
  "template_body typeConfig template =
     (case NestedMap template [''spec'', ''template''] of
        Inl e \<Rightarrow> Inl (ErrWrapped ''Error retrieving template body'' e)
      | Inr None \<Rightarrow> Inl (ErrOther ''Unable to retrieve template body'')
      | Inr (Some body) \<Rightarrow>
          (let obj1 = SetName body (GetName template);
               obj2 = SetNamespace obj1 (GetNamespace template);
               targetApiResource = GetTarget typeConfig;
               obj3 = SetKind obj2 (mr_Kind targetApiResource)
           in Inr (SetAPIVersion obj3 (mr_Group targetApiResource @ ''/'' @ mr_Version targetApiResource))))"

text \<open>
  The loop over the overrides: the first entry for the cluster is applied and the loop breaks.
  The error of \<open>SetNestedField\<close> is dropped.
\<close>

fun apply_overrides :: "string list \<Rightarrow> string \<Rightarrow> json list \<Rightarrow> jobj \<Rightarrow> jobj go_result" where
  "apply_overrides overridePath clusterName [] obj = Inr obj"
| "apply_overrides overridePath clusterName (JObj clusterOverride # rest) obj =
     (if jget clusterOverride ''clustername'' \<noteq> JString clusterName
      then apply_overrides overridePath clusterName rest obj
      else (case mget clusterOverride (last overridePath) of
              None \<Rightarrow> Inr obj
            | Some data \<Rightarrow> Inr (setNestedField obj data overridePath)))"
| "apply_overrides overridePath clusterName (_ # rest) obj =
     Inl (GoPanic ''interface conversion: not map[string]interface {}'')"

definition objectForCluster :: "FederatedTypeConfig \<Rightarrow> jobj \<Rightarrow> jobj option \<Rightarrow> string \<Rightarrow> jobj go_result" where
  "objectForCluster typeConfig template override clusterName =
     rbind (if mr_Kind (GetTarget typeConfig) = NamespaceKind
            then namespace_body template else template_body typeConfig template)
       (\<lambda>obj. case override of
          None \<Rightarrow> Inr obj
        | Some o' \<Rightarrow>
            (case NestedSlice o' [''spec'', ''overrides''] of
               Inl e \<Rightarrow> Inl (ErrWrapped ''Error retrieving overrides'' e)
             | Inr None \<Rightarrow> Inr obj
             | Inr (Some overrides) \<Rightarrow>
                 if length (GetOverridePath typeConfig) = 0
                 then Inl (ErrOther ''Override path is missing'')
                 else apply_overrides (GetOverridePath typeConfig) clusterName overrides obj))"

subsection \<open>Services\<close>

text \<open>Whether two ports are the same: three comparisons of \<open>interface{}\<close> values, short-circuit.\<close>

definition same_port :: "jobj \<Rightarrow> jobj \<Rightarrow> bool go_result" where
  "same_port fPort cPort =
     rbind (iface_eq (jget fPort ''name'') (jget cPort ''name'')) (\<lambda>n. if \<not> n then Inr False else
     rbind (iface_eq (jget fPort ''protocol'') (jget cPort ''protocol'')) (\<lambda>p. if \<not> p then Inr False else
     iface_eq (jget fPort ''port'') (jget cPort ''port'')))"

text \<open>
  The inner loop over the ports of the cluster, for one desired port. The assignment is the
  source's: the node port read from \<open>cPort\<close> is written to \<open>cPort\<close>.
\<close>

fun retain_nodeports :: "json \<Rightarrow> json list \<Rightarrow> json list go_result" where
  "retain_nodeports fPort [] = Inr []"
| "retain_nodeports fPort (c # cs) =
     (case (fPort, c) of
        (JObj fp, JObj cp) \<Rightarrow>
          rbind (same_port fp cp) (\<lambda>same.
            let cp' = (if \<not> same then cp
                       else (case mget cp ''nodePort'' of
                               Some nodePort \<Rightarrow> mput ''nodePort'' nodePort cp | None \<Rightarrow> cp))
            in rbind (retain_nodeports fPort cs) (\<lambda>cs'. Inr (JObj cp' # cs')))
      | _ \<Rightarrow> Inl (GoPanic ''interface conversion: not map[string]interface {}''))"

fun retain_all :: "json list \<Rightarrow> json list \<Rightarrow> json list go_result" where
  "retain_all [] clusterPorts = Inr clusterPorts"
| "retain_all (f # fs) clusterPorts = rbind (retain_nodeports f clusterPorts) (retain_all fs)"

definition retain_clusterIP :: "jobj \<Rightarrow> jobj \<Rightarrow> jobj go_result" where
  "retain_clusterIP desiredObj clusterObj =
     (case NestedString clusterObj [''spec'', ''clusterIP''] of
        Inl e \<Rightarrow> Inl (ErrWrapped ''Error retrieving clusterIP from cluster service'' e)
      | Inr None \<Rightarrow> Inr desiredObj
      | Inr (Some clusterIP) \<Rightarrow>
          if clusterIP \<noteq> []
          then (case SetNestedField desiredObj (JString clusterIP) [''spec'', ''clusterIP''] of
                  Inl e \<Rightarrow> Inl (ErrWrapped ''Error setting clusterIP for service'' e)
                | Inr obj \<Rightarrow> Inr obj)
          else Inr desiredObj)"

definition serviceForUpdateOp :: "jobj \<Rightarrow> jobj \<Rightarrow> jobj go_result" where
  "serviceForUpdateOp desiredObj clusterObj =
     rbind (retain_clusterIP desiredObj clusterObj) (\<lambda>desired1.
       case NestedSlice clusterObj [''spec'', ''ports''] of
         Inl e \<Rightarrow> Inl (ErrWrapped ''Error retrieving ports from cluster service'' e)
       | Inr None \<Rightarrow> Inr desired1
       | Inr (Some clusterPorts) \<Rightarrow>
           (case NestedSlice desired1 [''spec'', ''ports''] of
              Inl e \<Rightarrow> Inl (ErrWrapped ''Error retrieving ports from service'' e)
            | Inr found \<Rightarrow>
                (let desiredPorts = (case found of None \<Rightarrow> [] | Some ps \<Rightarrow> ps)
                 in rbind (retain_all desiredPorts clusterPorts) (\<lambda>_.
                      case SetNestedSlice desired1 desiredPorts [''spec'', ''ports''] of
                        Inl e \<Rightarrow> Inl (ErrWrapped ''Error setting ports for service'' e)
                      | Inr obj \<Rightarrow> Inr obj))))"

definition objectForUpdateOp :: "FederatedTypeConfig \<Rightarrow> jobj \<Rightarrow> jobj \<Rightarrow> jobj go_result" where
  "objectForUpdateOp typeConfig desiredObj clusterObj =
     (let desired1 = SetResourceVersion desiredObj (GetResourceVersion clusterObj)
      in if mr_Kind (GetTarget typeConfig) = ServiceKind
         then serviceForUpdateOp desired1 clusterObj else Inr desired1)"

subsection \<open>The list of operations\<close>

type_synonym get_by_key = "string \<Rightarrow> string \<Rightarrow> jobj option go_result"

text \<open>The operation for one selected cluster, if it needs any.\<close>

definition selected_operation :: "FederatedTypeConfig \<Rightarrow> ComparisonHelper \<Rightarrow> get_by_key \<Rightarrow> jobj
    \<Rightarrow> jobj option \<Rightarrow> string \<Rightarrow> (string, string) gomap \<Rightarrow> string \<Rightarrow> FederatedOperation option go_result" where
  "selected_operation typeConfig helper get template override key versions clusterName =
     rbind (objectForCluster typeConfig template override clusterName) (\<lambda>desiredObj.
       case get clusterName key of
         Inl e \<Rightarrow> Inl (ErrWrapped ''Failed to get from cluster'' e)
       | Inr None \<Rightarrow> Inr (Some \<lparr>op_Type = OperationTypeAdd, op_ClusterName = clusterName,
                                op_Obj = desiredObj, op_Key = key\<rparr>)
       | Inr (Some clusterObj) \<Rightarrow>
           if mr_Kind (GetTarget typeConfig) = NamespaceKind \<and> IsPrimaryCluster template clusterObj
           then Inr None
           else (case objectForUpdateOp typeConfig desiredObj clusterObj of
                   Inl e \<Rightarrow> Inl (wrap_err ''Failed to determine desired object'' e)
                 | Inr desired1 \<Rightarrow>
                     (let needed = (case mget versions clusterName of
                            None \<Rightarrow> True
                          | Some version \<Rightarrow>
                              version \<noteq> GetVersion helper clusterObj \<or>
                              \<not> Equivalent helper desired1 clusterObj)
                      in Inr (if needed
                           then Some \<lparr>op_Type = OperationTypeUpdate, op_ClusterName = clusterName,
                                      op_Obj = desired1, op_Key = key\<rparr>
                           else None))))"

definition unselected_operation :: "get_by_key \<Rightarrow> string \<Rightarrow> string \<Rightarrow> FederatedOperation option go_result" where
  "unselected_operation get key clusterName =
     (case get clusterName key of
        Inl e \<Rightarrow> Inl (ErrWrapped ''Failed to get from cluster'' e)
      | Inr None \<Rightarrow> Inr None
      | Inr (Some clusterObj) \<Rightarrow>
          Inr (Some \<lparr>op_Type = OperationTypeDelete, op_ClusterName = clusterName,
                     op_Obj = clusterObj, op_Key = key\<rparr>))"

text \<open>A loop that appends at most one operation per cluster and returns at the first error.\<close>

fun ops_loop :: "(string \<Rightarrow> FederatedOperation option go_result) \<Rightarrow> string list \<Rightarrow> FederatedOperation list go_result" where
  "ops_loop f [] = Inr []"
| "ops_loop f (c # cs) =
     rbind (f c) (\<lambda>oper. rbind (ops_loop f cs) (\<lambda>rest.
       Inr (case oper of Some p \<Rightarrow> p # rest | None \<Rightarrow> rest)))"

definition clusterOperations :: "FederatedTypeConfig \<Rightarrow> ComparisonHelper \<Rightarrow> get_by_key \<Rightarrow> string list
    \<Rightarrow> string list \<Rightarrow> jobj \<Rightarrow> jobj option \<Rightarrow> string \<Rightarrow> (string, string) gomap
    \<Rightarrow> FederatedOperation list go_result" where
  "clusterOperations typeConfig helper get selectedClusters unselectedClusters template override key versions =
     rbind (ops_loop (selected_operation typeConfig helper get template override key versions) selectedClusters)
       (\<lambda>ops1. rbind (ops_loop (unselected_operation get key) unselectedClusters)
       (\<lambda>ops2. Inr (ops1 @ ops2)))"

subsection \<open>Lemmas on the loops\<close>

lemma ops_loop_set:
  "ops_loop f cs = Inr ops \<Longrightarrow> set ops = {p. \<exists>c \<in> set cs. f c = Inr (Some p)}"
  by (induction cs arbitrary: ops) (force simp: rbind_Inr_iff split: option.splits)+

lemma ops_loop_error: "(\<exists>e. ops_loop f cs = Inl e) \<longleftrightarrow> (\<exists>c \<in> set cs. \<exists>e. f c = Inl e)"
proof (induction cs)
  case (Cons c cs)
  then show ?case
    by (cases "f c"; cases "ops_loop f cs") auto
qed simp

lemma ops_loop_Cons:
  "ops_loop f (c # cs) = Inr ops \<longleftrightarrow>
    (\<exists>oper rest. f c = Inr oper \<and> ops_loop f cs = Inr rest \<and>
       ops = (case oper of Some p \<Rightarrow> p # rest | None \<Rightarrow> rest))"
  by (auto simp: rbind_Inr_iff)

lemma ops_loop_Nil: "ops_loop f cs = Inr [] \<longleftrightarrow> (\<forall>c \<in> set cs. f c = Inr None)"
proof (induction cs)
  case (Cons c cs)
  have "ops_loop f (c # cs) = Inr [] \<longleftrightarrow> f c = Inr None \<and> ops_loop f cs = Inr []"
    unfolding ops_loop_Cons by (auto split: option.splits)
  then show ?case using Cons.IH by simp
qed simp

lemma ops_loop_clusters:
  assumes "ops_loop f cs = Inr ops" and "\<And>c p. f c = Inr (Some p) \<Longrightarrow> op_ClusterName p = c"
  shows "set (map op_ClusterName ops) \<subseteq> set cs"
  using assms(1)
proof (induction cs arbitrary: ops)
  case (Cons c cs)
  then obtain oper rest where "f c = Inr oper" "ops_loop f cs = Inr rest"
    "ops = (case oper of Some p \<Rightarrow> p # rest | None \<Rightarrow> rest)"
    unfolding ops_loop_Cons by blast
  with Cons.IH assms(2) show ?case by (fastforce split: option.splits)
qed simp

lemma ops_loop_distinct:
  assumes "ops_loop f cs = Inr ops" and "\<And>c p. f c = Inr (Some p) \<Longrightarrow> op_ClusterName p = c"
    and "distinct cs"
  shows "distinct (map op_ClusterName ops)"
  using assms(1,3)
proof (induction cs arbitrary: ops)
  case (Cons c cs)
  then obtain oper rest where r: "f c = Inr oper" "ops_loop f cs = Inr rest"
    "ops = (case oper of Some p \<Rightarrow> p # rest | None \<Rightarrow> rest)"
    unfolding ops_loop_Cons by blast
  have "c \<notin> set (map op_ClusterName rest)"
    using ops_loop_clusters [OF r(2) assms(2)] Cons.prems(2) by auto
  with r Cons assms(2) show ?case by (auto split: option.splits)
qed simp

lemma selected_operation_cases:
  assumes "selected_operation tc h get t ov key vs c = Inr (Some p)"
  obtains (add) obj where "get c key = Inr None" "objectForCluster tc t ov c = Inr obj"
      "p = \<lparr>op_Type = OperationTypeAdd, op_ClusterName = c, op_Obj = obj, op_Key = key\<rparr>"
    | (update) obj obj1 cobj where "get c key = Inr (Some cobj)" "objectForCluster tc t ov c = Inr obj"
      "objectForUpdateOp tc obj cobj = Inr obj1"
      "p = \<lparr>op_Type = OperationTypeUpdate, op_ClusterName = c, op_Obj = obj1, op_Key = key\<rparr>"
      "mget vs c \<noteq> Some (GetVersion h cobj) \<or> \<not> Equivalent h obj1 cobj"
      "\<not> (mr_Kind (GetTarget tc) = NamespaceKind \<and> IsPrimaryCluster t cobj)"
proof -
  obtain obj where obj: "objectForCluster tc t ov c = Inr obj"
    using assms by (auto simp: selected_operation_def rbind_Inr_iff)
  note run = assms [unfolded selected_operation_def obj rbind_simps]
  show thesis
  proof (cases "get c key")
    case (Inl e)
    with run show thesis by simp
  next
    case (Inr r)
    show thesis
    proof (cases r)
      case None
      with run Inr obj show thesis by (intro add) auto
    next
      case (Some cobj)
      note run1 = run [unfolded Inr Some sum.case option.case]
      have np: "\<not> (mr_Kind (GetTarget tc) = NamespaceKind \<and> IsPrimaryCluster t cobj)"
        using run1 by auto
      note run2 = run1 [unfolded if_not_P [OF np]]
      obtain obj1 where obj1: "objectForUpdateOp tc obj cobj = Inr obj1"
        using run2 by (cases "objectForUpdateOp tc obj cobj") simp_all
      note run3 = run2 [unfolded obj1 sum.case Let_def]
      show thesis
        by (rule update [OF _ obj obj1 _ _ np])
          (use run3 Inr Some in \<open>simp_all split: if_splits option.splits\<close>)
    qed
  qed
qed

lemma unselected_operation_iff:
  "unselected_operation get key c = Inr (Some p) \<longleftrightarrow>
    (\<exists>obj. get c key = Inr (Some obj) \<and>
       p = \<lparr>op_Type = OperationTypeDelete, op_ClusterName = c, op_Obj = obj, op_Key = key\<rparr>)"
  by (auto simp: unselected_operation_def split: sum.splits option.splits)

lemma selected_operation_cluster:
  "selected_operation tc h get t ov key vs c = Inr (Some p) \<Longrightarrow> op_ClusterName p = c \<and> op_Key p = key"
  by (erule selected_operation_cases) simp_all

lemma unselected_operation_cluster:
  "unselected_operation get key c = Inr (Some p) \<Longrightarrow> op_ClusterName p = c"
  by (auto simp: unselected_operation_iff)

lemma clusterOperations_split:
  assumes "clusterOperations tc h get sel unsel t ov key vs = Inr ops"
  obtains ops1 ops2 where "ops = ops1 @ ops2"
    "ops_loop (selected_operation tc h get t ov key vs) sel = Inr ops1"
    "ops_loop (unselected_operation get key) unsel = Inr ops2"
  using assms by (auto simp: clusterOperations_def rbind_Inr_iff)

lemma clusterOperations_distinct:
  assumes "clusterOperations tc h get sel unsel t ov key vs = Inr ops" and "distinct (sel @ unsel)"
  shows "distinct (map op_ClusterName ops)" and "set (map op_ClusterName ops) \<subseteq> set (sel @ unsel)"
proof -
  obtain ops1 ops2 where ops: "ops = ops1 @ ops2"
    and o1: "ops_loop (selected_operation tc h get t ov key vs) sel = Inr ops1"
    and o2: "ops_loop (unselected_operation get key) unsel = Inr ops2"
    by (rule clusterOperations_split [OF assms(1)])
  have s: "set (map op_ClusterName ops1) \<subseteq> set sel" "distinct (map op_ClusterName ops1)"
    using ops_loop_clusters [OF o1] ops_loop_distinct [OF o1] selected_operation_cluster assms(2)
    by (metis, simp)
  have u: "set (map op_ClusterName ops2) \<subseteq> set unsel" "distinct (map op_ClusterName ops2)"
    using ops_loop_clusters [OF o2] ops_loop_distinct [OF o2] unselected_operation_cluster assms(2)
    by (metis, simp)
  show "distinct (map op_ClusterName ops)"
    using s u assms(2) by (auto simp: ops)
  show "set (map op_ClusterName ops) \<subseteq> set (sel @ unsel)"
    using s u by (auto simp: ops)
qed

text \<open>When a selected or an unselected cluster needs nothing.\<close>

lemma selected_operation_None_iff:
  assumes "\<nexists>e. selected_operation tc h get t ov key vs c = Inl e"
  shows "selected_operation tc h get t ov key vs c = Inr None \<longleftrightarrow>
    (\<exists>cobj. get c key = Inr (Some cobj) \<and>
       (mr_Kind (GetTarget tc) = NamespaceKind \<and> IsPrimaryCluster t cobj \<or>
        (\<exists>obj obj1. objectForCluster tc t ov c = Inr obj \<and> objectForUpdateOp tc obj cobj = Inr obj1 \<and>
           mget vs c = Some (GetVersion h cobj) \<and> Equivalent h obj1 cobj)))"
proof -
  obtain obj where obj: "objectForCluster tc t ov c = Inr obj"
    using assms by (cases "objectForCluster tc t ov c") (auto simp: selected_operation_def)
  obtain r where r: "get c key = Inr r"
    using assms obj by (cases "get c key") (auto simp: selected_operation_def)
  show ?thesis
  proof (cases r)
    case None
    then show ?thesis using obj r by (simp add: selected_operation_def)
  next
    case (Some cobj)
    show ?thesis
    proof (cases "mr_Kind (GetTarget tc) = NamespaceKind \<and> IsPrimaryCluster t cobj")
      case True
      then show ?thesis using obj r Some by (simp add: selected_operation_def)
    next
      case False
      obtain obj1 where "objectForUpdateOp tc obj cobj = Inr obj1"
      proof (cases "objectForUpdateOp tc obj cobj")
        case (Inl e)
        have "\<exists>e. selected_operation tc h get t ov key vs c = Inl e"
          unfolding selected_operation_def obj r Some rbind_simps sum.case option.case if_not_P [OF False] Inl
          by blast
        with assms show thesis by blast
      qed (rule that)
      then show ?thesis
        using False obj r Some
        by (simp add: selected_operation_def Let_def split: option.split)
    qed
  qed
qed

lemma selected_operation_NoneI:
  assumes "get c key = Inr (Some cobj)" and "objectForCluster tc t ov c = Inr obj"
    and "mr_Kind (GetTarget tc) = NamespaceKind \<and> IsPrimaryCluster t cobj \<or>
      (\<exists>obj1. objectForUpdateOp tc obj cobj = Inr obj1 \<and> mget vs c = Some (GetVersion h cobj) \<and> Equivalent h obj1 cobj)"
  shows "selected_operation tc h get t ov key vs c = Inr None"
  using assms by (auto simp: selected_operation_def)

lemma unselected_operation_None_iff: "unselected_operation get key c = Inr None \<longleftrightarrow> get c key = Inr None"
  by (auto simp: unselected_operation_def split: sum.split option.split)

end
