(* ===== verification/Deletion_Helper.thy ===== *)
theory Deletion_Helper
  imports Federated_Updater
begin

section \<open>The deletion helper\<close>

text \<open>
  \<open>pkg/controller/util/deletionhelper/deletion_helper.go\<close>. The federated informer, the updater
  and the template client are the parameter \<open>deletion_env\<close>; the calls that change state are
  returned in order, so that the order "delete from the clusters, then drop the finalizer" can
  be stated. \<open>de_getFromAll\<close> lists the copies of the object in the ready clusters,
  \<open>de_unready\<close> the clusters whose copies cannot be seen.
\<close>

definition FinalizerDeleteFromUnderlyingClusters :: string where
  "FinalizerDeleteFromUnderlyingClusters = ''federation.kubernetes.io/delete-from-underlying-clusters''"

definition FinalizerOrphanDependents :: string where
  "FinalizerOrphanDependents = ''orphan''"

record deletion_env =
  de_updateObj :: "jobj \<Rightarrow> jobj go_result"
  de_unready :: "string list go_result"
  de_getFromAll :: "string \<Rightarrow> (string \<times> jobj) list go_result"
  de_update :: "FederatedOperation list \<Rightarrow> (string, string) gomap \<times> go_error list"

datatype deletion_call = UpdateObject jobj | UpdateClusters "FederatedOperation list"

definition objName :: "jobj \<Rightarrow> string" where
  "objName obj = qn_String (NewQualifiedName (meta_of obj))"

definition dh_addFinalizers :: "deletion_env \<Rightarrow> jobj \<Rightarrow> sset \<Rightarrow> jobj go_result \<times> deletion_call list" where
  "dh_addFinalizers env obj finalizers =
     (let (obj1, isUpdated) = AddFinalizers obj finalizers
      in if \<not> isUpdated then (Inr obj1, [])
         else (case de_updateObj env obj1 of
                 Inl e \<Rightarrow> (Inl (ErrWrapped ''failed to add finalizers'' e), [UpdateObject obj1])
               | Inr updatedObj \<Rightarrow> (Inr updatedObj, [UpdateObject obj1])))"

definition dh_removeFinalizers :: "deletion_env \<Rightarrow> jobj \<Rightarrow> sset \<Rightarrow> jobj go_result \<times> deletion_call list" where
  "dh_removeFinalizers env obj finalizers =
     (let (obj1, isUpdated) = RemoveFinalizers obj finalizers
      in if \<not> isUpdated then (Inr obj1, [])
         else (case de_updateObj env obj1 of
                 Inl e \<Rightarrow> (Inl (ErrWrapped ''failed to remove finalizers'' e), [UpdateObject obj1])
               | Inr updatedObj \<Rightarrow> (Inr updatedObj, [UpdateObject obj1])))"

definition EnsureFinalizers :: "deletion_env \<Rightarrow> jobj \<Rightarrow> jobj go_result \<times> deletion_call list" where
  "EnsureFinalizers env obj =
     (let f1 = (if HasFinalizer obj FinalizerDeleteFromUnderlyingClusters then []
                else sset_insert FinalizerDeleteFromUnderlyingClusters []);
          f2 = (if HasFinalizer obj FinalizerOrphanDependents then f1
                else sset_insert FinalizerOrphanDependents f1)
      in if length f2 \<noteq> 0 then dh_addFinalizers env obj f2 else (Inr obj, []))"

text \<open>The delete operations: all copies, except a namespace's own object in the primary cluster.\<close>

definition deletion_operations :: "jobj \<Rightarrow> string \<Rightarrow> (string \<times> jobj) list \<Rightarrow> FederatedOperation list" where
  "deletion_operations obj kind clusterNsObjs =
     map (\<lambda>(clusterName, clusterObj). \<lparr>op_Type = OperationTypeDelete, op_ClusterName = clusterName,
            op_Obj = clusterObj, op_Key = objName obj\<rparr>)
       (filter (\<lambda>(clusterName, clusterObj). \<not> (kind = NamespaceKind \<and> IsPrimaryCluster obj clusterObj))
          clusterNsObjs)"

definition HandleObjectInUnderlyingClusters ::
    "deletion_env \<Rightarrow> jobj \<Rightarrow> string \<Rightarrow> jobj go_result \<times> deletion_call list" where
  "HandleObjectInUnderlyingClusters env obj kind =
     (if \<not> HasFinalizer obj FinalizerDeleteFromUnderlyingClusters then (Inr obj, [])
      else if HasFinalizer obj FinalizerOrphanDependents
      then dh_removeFinalizers env obj
             (sset_of [FinalizerDeleteFromUnderlyingClusters, FinalizerOrphanDependents])
      else
        (case de_unready env of
           Inl e \<Rightarrow> (Inl (ErrWrapped ''failed to get a list of unready clusters'' e), [])
         | Inr unreadyClusters \<Rightarrow>
             (case de_getFromAll env (objName obj) of
                Inl e \<Rightarrow> (Inl (ErrWrapped ''failed to get object from underlying clusters'' e), [])
              | Inr clusterNsObjs \<Rightarrow>
                  (let operations = deletion_operations obj kind clusterNsObjs;
                       (_, errors) = de_update env operations
                   in if length errors > 0
                      then (Inl (ErrOther ''failed to execute deletions''), [UpdateClusters operations])
                      else if length operations > 0
                      then (Inl (ErrOther ''waiting for object to be deleted from clusters''),
                            [UpdateClusters operations])
                      else if length unreadyClusters \<noteq> 0
                      then (Inl (ErrOther ''waiting for clusters to become ready''),
                            [UpdateClusters operations])
                      else (let (r, calls) = dh_removeFinalizers env obj
                                  (sset_of [FinalizerDeleteFromUnderlyingClusters])
                            in (r, UpdateClusters operations # calls))))))"

subsection \<open>Facts\<close>

lemma finalizers_differ: "FinalizerDeleteFromUnderlyingClusters \<noteq> FinalizerOrphanDependents"
  by (simp add: FinalizerDeleteFromUnderlyingClusters_def FinalizerOrphanDependents_def)

lemma dh_removeFinalizers_calls:
  assumes "dh_removeFinalizers env obj fs = (r, calls)" and "distinct fs"
  shows "\<forall>c \<in> set calls. \<exists>o1. c = UpdateObject o1 \<and>
    set (GetFinalizers o1) = set (GetFinalizers obj) - set fs"
  using assms RemoveFinalizers_spec(1) [of fs obj]
  by (auto simp: dh_removeFinalizers_def split: prod.splits if_splits sum.splits)

lemma deletion_operations_Nil:
  "deletion_operations obj kind objs = [] \<longleftrightarrow>
    (\<forall>(c, o') \<in> set objs. kind = NamespaceKind \<and> IsPrimaryCluster obj o')"
  by (auto simp: deletion_operations_def filter_empty_conv)

text \<open>When the finalizer is given up: the three ways in which the handler writes the object.\<close>

lemma handle_update_cases:
  assumes run: "HandleObjectInUnderlyingClusters env obj kind = (r, calls)"
    and call: "UpdateObject o1 \<in> set calls"
  shows "HasFinalizer obj FinalizerDeleteFromUnderlyingClusters"
    and "HasFinalizer obj FinalizerOrphanDependents \<or>
      (\<exists>objs. de_unready env = Inr [] \<and> de_getFromAll env (objName obj) = Inr objs \<and>
         (\<forall>(c, o') \<in> set objs. kind = NamespaceKind \<and> IsPrimaryCluster obj o') \<and>
         snd (de_update env []) = [])"
proof -
  show "HasFinalizer obj FinalizerDeleteFromUnderlyingClusters"
    using run call by (auto simp: HandleObjectInUnderlyingClusters_def split: if_splits)
  show "HasFinalizer obj FinalizerOrphanDependents \<or>
      (\<exists>objs. de_unready env = Inr [] \<and> de_getFromAll env (objName obj) = Inr objs \<and>
         (\<forall>(c, o') \<in> set objs. kind = NamespaceKind \<and> IsPrimaryCluster obj o') \<and>
         snd (de_update env []) = [])"
  proof (cases "HasFinalizer obj FinalizerOrphanDependents")
    case False
    note run1 = run [unfolded HandleObjectInUnderlyingClusters_def if_not_P [OF False]]
    obtain unready where u: "de_unready env = Inr unready"
      using run1 call by (cases "de_unready env") (auto split: if_splits)
    obtain objs where g: "de_getFromAll env (objName obj) = Inr objs"
      using run1 call u by (cases "de_getFromAll env (objName obj)") (auto split: if_splits)
    have ops: "deletion_operations obj kind objs = [] \<and> unready = [] \<and>
        snd (de_update env (deletion_operations obj kind objs)) = []"
      using run1 call by (auto simp: u g Let_def split: prod.splits if_splits)
    then have "\<forall>(c, o') \<in> set objs. kind = NamespaceKind \<and> IsPrimaryCluster obj o'"
      using ops deletion_operations_Nil by metis
    moreover have "snd (de_update env []) = []"
      using ops by metis
    ultimately show ?thesis
      using u g ops by (intro disjI2 exI [of _ objs]) simp
  qed simp
qed

lemma handle_success:
  assumes run: "HandleObjectInUnderlyingClusters env obj kind = (r, calls)" and r: "r = Inr o1"
    and f: "HasFinalizer obj FinalizerDeleteFromUnderlyingClusters"
      "\<not> HasFinalizer obj FinalizerOrphanDependents"
  shows "de_unready env = Inr [] \<and>
    (\<exists>copies. de_getFromAll env (objName obj) = Inr copies \<and>
       (\<forall>(c, o') \<in> set copies. kind = NamespaceKind \<and> IsPrimaryCluster obj o'))"
proof -
  have "snd (RemoveFinalizers obj (sset_of [FinalizerDeleteFromUnderlyingClusters]))"
    using f(1) by (simp add: RemoveFinalizers_spec(2) HasFinalizer_iff)
  then have "\<exists>o1. UpdateObject o1 \<in> set (snd (dh_removeFinalizers env obj (sset_of [FinalizerDeleteFromUnderlyingClusters])))"
    by (auto simp: dh_removeFinalizers_def split: prod.splits sum.splits)
  then have "\<exists>o1. UpdateObject o1 \<in> set calls"
    using run r f
    by (force simp: HandleObjectInUnderlyingClusters_def Let_def split: sum.splits prod.splits if_splits)
  with handle_update_cases [OF run] f(2) show ?thesis by blast
qed

text \<open>What the handler writes, with the orphan finalizer and without it.\<close>

lemma dh_removeFinalizers_write:
  assumes "dh_removeFinalizers env obj fs = (r, calls)" and "distinct fs"
    and "f \<in> set fs" "HasFinalizer obj f"
  shows "\<exists>o1. calls = [UpdateObject o1] \<and> set (GetFinalizers o1) = set (GetFinalizers obj) - set fs"
proof -
  have "snd (RemoveFinalizers obj fs)"
    using RemoveFinalizers_spec(2) [OF assms(2), of obj] assms(3,4) by (auto simp: HasFinalizer_iff)
  then show ?thesis
    using assms(1) RemoveFinalizers_spec(1) [OF assms(2), of obj]
    by (auto simp: dh_removeFinalizers_def split: prod.splits sum.splits)
qed

lemma handle_orphan:
  assumes run: "HandleObjectInUnderlyingClusters env obj kind = (r, calls)"
    and f: "HasFinalizer obj FinalizerDeleteFromUnderlyingClusters" "HasFinalizer obj FinalizerOrphanDependents"
  shows "\<exists>o1. calls = [UpdateObject o1] \<and> set (GetFinalizers o1) = set (GetFinalizers obj)
    - {FinalizerDeleteFromUnderlyingClusters, FinalizerOrphanDependents}"
  using dh_removeFinalizers_write [of env obj "sset_of [FinalizerDeleteFromUnderlyingClusters, FinalizerOrphanDependents]" r calls,
    OF _ _ _ f(1)] run f
  by (simp add: HandleObjectInUnderlyingClusters_def)

lemma handle_writes:
  assumes run: "HandleObjectInUnderlyingClusters env obj kind = (r, calls)"
    and f: "HasFinalizer obj FinalizerDeleteFromUnderlyingClusters" "\<not> HasFinalizer obj FinalizerOrphanDependents"
    and don: "(\<exists>o1. r = Inr o1) \<or> (\<exists>o1. UpdateObject o1 \<in> set calls)"
  shows "\<exists>o1. calls = [UpdateClusters [], UpdateObject o1] \<and>
    set (GetFinalizers o1) = set (GetFinalizers obj) - {FinalizerDeleteFromUnderlyingClusters}"
proof -
  let ?fs = "sset_of [FinalizerDeleteFromUnderlyingClusters]"
  obtain r' calls' where rm: "dh_removeFinalizers env obj ?fs = (r', calls')"
    by (cases "dh_removeFinalizers env obj ?fs")
  have "calls = UpdateClusters [] # calls'"
    using run don f rm
    by (auto simp: HandleObjectInUnderlyingClusters_def Let_def split: sum.splits prod.splits if_splits)
  with dh_removeFinalizers_write [OF rm _ _ f(1)] show ?thesis by simp
qed

end
