(* ===== verification/Sync_Controller.thy ===== *)
theory Sync_Controller
  imports Sync_Operations Deletion_Helper
begin

section \<open>The sync controller\<close>

text \<open>
  \<open>pkg/controller/sync/controller.go\<close>: one run of \<open>reconcile\<close> on a key. The informers' stores and
  the API clients are the parameter \<open>sync_env\<close> (the member clusters are reached through
  \<open>de_update\<close>, the updater, which the deletion helper shares; the informer is asked for its ready
  clusters twice, by \<open>isSynced\<close> and for the placement, and may answer differently); \<open>pendingVersionUpdates\<close> is the
  state that is threaded through. A run returns the status, or \<open>None\<close> when it panics, the pending
  updates and the calls that change state, in order.
\<close>

record sync_env =
  se_typeConfig :: FederatedTypeConfig
  se_helper :: ComparisonHelper
  se_clustersSynced :: bool
  se_placementSynced :: bool
  se_syncReady :: "string list go_result"
  se_readyClusters :: "string list go_result"
  se_targetSynced :: "string list \<Rightarrow> bool"
  se_templateStore :: "string \<Rightarrow> jobj option go_result"
  se_overrideStore :: "(string \<Rightarrow> jobj option go_result) option"
  se_placementStore :: "string \<Rightarrow> jobj option go_result"
  se_versionStore :: "string \<Rightarrow> PropagatedVersion option go_result"
  se_target :: get_by_key
  se_parses :: "string \<Rightarrow> bool"
  se_deletion :: deletion_env
  se_versions :: version_api
  se_deleteVersion :: "string \<Rightarrow> string \<Rightarrow> go_error option"
  se_deleteTemplate :: "string \<Rightarrow> string \<Rightarrow> go_error option"

datatype sync_call =
    DeletionCall deletion_call
  | VersionCall version_call
  | DeleteVersion string string
  | DeleteTemplate string string
  | RunOperations "FederatedOperation list"

type_synonym sync_result = "ReconciliationStatus option \<times> sset \<times> sync_call list"

definition targetKind :: "sync_env \<Rightarrow> string" where
  "targetKind env = mr_Kind (GetTarget (se_typeConfig env))"

definition versionName :: "sync_env \<Rightarrow> string \<Rightarrow> string" where
  "versionName env resourceName = PropagatedVersionName (targetKind env) resourceName"

definition isSystemNamespace :: "string \<Rightarrow> bool" where
  "isSystemNamespace namespace \<longleftrightarrow> namespace = ''kube-system'' \<or> namespace = ''federation-system''"

definition isSynced :: "sync_env \<Rightarrow> bool" where
  "isSynced env =
     (if \<not> se_clustersSynced env then False
      else if \<not> se_placementSynced env then False
      else (case se_syncReady env of
              Inl _ \<Rightarrow> False
            | Inr clusters \<Rightarrow> if \<not> se_targetSynced env clusters then False else True))"

definition ComputePlacement :: "sync_env \<Rightarrow> string \<Rightarrow> string list \<Rightarrow> (string list \<times> string list) go_result" where
  "ComputePlacement env key clusterNames =
     (if targetKind env = NamespaceKind
      then NamespacePlacement_ComputePlacement (se_placementStore env key) clusterNames
      else ResourcePlacement_ComputePlacement (se_placementStore env key) clusterNames)"

text \<open>An error that is "not found" counts as success.\<close>

definition ignore_not_found :: "go_error option \<Rightarrow> go_error option" where
  "ignore_not_found err = (case err of Some e \<Rightarrow> if \<not> IsNotFound e then Some e else None | None \<Rightarrow> None)"

definition sync_delete :: "sync_env \<Rightarrow> jobj \<Rightarrow> string \<Rightarrow> QualifiedName \<Rightarrow> go_error option \<times> sync_call list" where
  "sync_delete env template kind qualifiedName =
     (let (r, dcalls) = HandleObjectInUnderlyingClusters (se_deletion env) template kind;
          calls = map DeletionCall dcalls
      in case r of
           Inl e \<Rightarrow> (Some e, calls)
         | Inr _ \<Rightarrow>
             if kind = NamespaceKind then (None, calls)
             else
               (let ns = qn_Namespace qualifiedName;
                    vname = versionName env (qn_Name qualifiedName);
                    calls1 = calls @ [DeleteVersion ns vname]
                in case ignore_not_found (se_deleteVersion env ns vname) of
                     Some e \<Rightarrow> (Some e, calls1)
                   | None \<Rightarrow>
                       (ignore_not_found (se_deleteTemplate env ns (qn_Name qualifiedName)),
                        calls1 @ [DeleteTemplate ns (qn_Name qualifiedName)])))"

definition syncToClusters :: "sync_env \<Rightarrow> sset \<Rightarrow> string list \<Rightarrow> string list \<Rightarrow> jobj \<Rightarrow> jobj option
    \<Rightarrow> PropagatedVersion option \<Rightarrow> sync_result" where
  "syncToClusters env pending selectedClusters unselectedClusters template override propagatedVersion =
     (let key = qn_String (NewQualifiedName (meta_of template));
          propagatedClusterVersions = getClusterVersions template override propagatedVersion
      in case clusterOperations (se_typeConfig env) (se_helper env) (se_target env) selectedClusters
                unselectedClusters template override key propagatedClusterVersions of
           Inl e \<Rightarrow> (if is_panic e then None else Some StatusError, pending, [])
         | Inr operations \<Rightarrow>
             if length operations = 0 then (Some StatusAllOK, pending, [])
             else
               (let (updatedClusterVersions, operationErrors) = de_update (se_deletion env) operations;
                    (_, pending1, vcalls) = updatePropagatedVersion (se_versions env) (targetKind env)
                       updatedClusterVersions template override propagatedVersion selectedClusters pending
                in (Some (if length operationErrors > 0 then StatusError else StatusAllOK), pending1,
                    RunOperations operations # map VersionCall vcalls)))"

text \<open>The part of \<open>reconcile\<close> after the template's finalizers are in place.\<close>

definition reconcile_placed :: "sync_env \<Rightarrow> sset \<Rightarrow> QualifiedName \<Rightarrow> string \<Rightarrow> jobj \<Rightarrow> sync_result" where
  "reconcile_placed env pending qualifiedName namespace template =
     (let key = qn_String qualifiedName in
      case se_readyClusters env of
        Inl _ \<Rightarrow> (Some StatusNotSynced, pending, [])
      | Inr clusterNames \<Rightarrow>
        (case ComputePlacement env key clusterNames of
          Inl _ \<Rightarrow> (Some StatusError, pending, [])
        | Inr (selectedClusters, unselectedClusters) \<Rightarrow>
          (case (case se_overrideStore env of None \<Rightarrow> Inr None | Some store \<Rightarrow> store key) of
            Inl _ \<Rightarrow> (Some StatusError, pending, [])
          | Inr override \<Rightarrow>
            (let propagatedVersionKey = qn_String
                   \<lparr>qn_Namespace = namespace, qn_Name = versionName env (qn_Name qualifiedName)\<rparr>
             in if sset_has pending propagatedVersionKey \<and> targetKind env \<noteq> NamespaceKind
                then (Some StatusNeedsRecheck, pending, [])
                else (case se_versionStore env propagatedVersionKey of
                        Inl _ \<Rightarrow> (Some StatusError, pending, [])
                      | Inr propagatedVersion \<Rightarrow>
                          syncToClusters env pending selectedClusters unselectedClusters template
                            override propagatedVersion)))))"

definition reconcile :: "sync_env \<Rightarrow> sset \<Rightarrow> QualifiedName \<Rightarrow> sync_result" where
  "reconcile env pending qualifiedName =
     (if \<not> isSynced env then (Some StatusNotSynced, pending, [])
      else
        (let templateKind = mr_Kind (GetTemplate (se_typeConfig env));
             key = qn_String qualifiedName;
             namespace = (if targetKind env = NamespaceKind then qn_Name qualifiedName
                          else qn_Namespace qualifiedName)
         in if targetKind env = NamespaceKind \<and> isSystemNamespace namespace
            then (Some StatusAllOK, pending, [])
            else
              (case se_templateStore env key of
                 Inl _ \<Rightarrow> (Some StatusError, pending, [])
               | Inr None \<Rightarrow> (Some StatusAllOK, pending, [])
               | Inr (Some template) \<Rightarrow>
                   if is_deleting (se_parses env) template
                   then (let (err, calls) = sync_delete env template templateKind qualifiedName
                         in (Some (if err = None then StatusAllOK else StatusError), pending, calls))
                   else
                     (let (r, dcalls) = EnsureFinalizers (se_deletion env) template
                      in case r of
                           Inl _ \<Rightarrow> (Some StatusError, pending, map DeletionCall dcalls)
                         | Inr template1 \<Rightarrow>
                             (let (status, pending1, calls) =
                                    reconcile_placed env pending qualifiedName namespace template1
                              in (status, pending1, map DeletionCall dcalls @ calls))))))"

text \<open>
  The informer's handler for updates of \<open>PropagatedVersion\<close> objects, and the worker's decision
  whether and how a key is delivered again. Delays are in milliseconds.
\<close>

definition on_version_update :: "PropagatedVersion \<Rightarrow> sset \<Rightarrow> sset" where
  "on_version_update version pending =
     (let key = qn_String (NewQualifiedName (pv_Meta version))
      in if sset_has pending key then sset_delete key pending else pending)"

record sync_delays =
  reviewDelay :: int
  clusterAvailableDelay :: int
  clusterUnavailableDelay :: int
  smallDelay :: int
  updateTimeout :: int

definition default_delays :: sync_delays where
  "default_delays = \<lparr>reviewDelay = 10000, clusterAvailableDelay = 20000,
     clusterUnavailableDelay = 60000, smallDelay = 3000, updateTimeout = 30000\<rparr>"

definition minimizeLatency :: "sync_delays \<Rightarrow> sync_delays" where
  "minimizeLatency d = d\<lparr>clusterAvailableDelay := 1000, clusterUnavailableDelay := 1000,
     reviewDelay := 50, smallDelay := 20, updateTimeout := 5000\<rparr>"

fun worker_requeue :: "sync_delays \<Rightarrow> ReconciliationStatus \<Rightarrow> (int \<times> bool) option" where
  "worker_requeue d StatusAllOK = None"
| "worker_requeue d StatusError = Some (0, True)"
| "worker_requeue d StatusNeedsRecheck = Some (reviewDelay d, False)"
| "worker_requeue d StatusNotSynced = Some (clusterAvailableDelay d, False)"

text \<open>
  What a cluster change delivers: all templates after \<open>smallDelay\<close>, and the cluster key again
  when the stores are not synced (the source does not return in that case).
\<close>

datatype sync_delivery = DeliverClusterKey int | DeliverObject QualifiedName int bool

definition reconcileOnClusterChange :: "sync_env \<Rightarrow> sync_delays \<Rightarrow> jobj list \<Rightarrow> sync_delivery list" where
  "reconcileOnClusterChange env d templates =
     (if \<not> isSynced env then [DeliverClusterKey (clusterAvailableDelay d)] else []) @
     map (\<lambda>obj. DeliverObject (NewQualifiedName (meta_of obj)) (smallDelay d) False) templates"

end
