(* ===== verification/Replica_Scheduler.thy ===== *)
theory Replica_Scheduler
  imports Planner_Model Federated_Informer Sync_Controller
begin

section \<open>The replica scheduler\<close>

text \<open>
  \<open>pkg/controller/util/podanalyzer/pod_helper.go\<close> and
  \<open>pkg/controller/replicaschedulingpreference\<close>: the analysis of the pods of a workload, the
  scheduler with its plugins for deployments and replica sets and their adapters, and the
  controller on top. Target objects come from federated informers; the pods of a cluster, JSON
  decoding, label validation and the federation API are parameters. \<open>Plan\<close> may not return, so
  what depends on it is an option; panics are \<open>GoPanic\<close> errors.
\<close>

subsection \<open>Analysis of pods\<close>

record PodCondition =
  pc_Type :: string
  pc_Status :: string
  pc_Reason :: string
  pc_LastTransitionTime :: int

record Pod =
  pd_Phase :: string
  pd_Conditions :: "PodCondition list"

record PodAnalysisResult =
  Total :: int
  RunningAndReady :: int
  Unschedulable :: int

definition UnschedulableThreshold :: int where "UnschedulableThreshold = 60"

fun analyze_conditions :: "int \<Rightarrow> string \<Rightarrow> PodCondition list \<Rightarrow> PodAnalysisResult \<Rightarrow> PodAnalysisResult" where
  "analyze_conditions currentTime phase [] result = result"
| "analyze_conditions currentTime phase (condition # rest) result =
     analyze_conditions currentTime phase rest
       (if phase = ''Running'' then
          (if pc_Type condition = ''Ready'' then result\<lparr>RunningAndReady := RunningAndReady result + 1\<rparr> else result)
        else if pc_Type condition = ''PodScheduled'' \<and> pc_Status condition = ''False'' \<and>
          pc_Reason condition = ''Unschedulable'' \<and>
          pc_LastTransitionTime condition + UnschedulableThreshold < currentTime
        then result\<lparr>Unschedulable := Unschedulable result + 1\<rparr> else result)"

text \<open>A pod that does not decode ends the analysis with the result so far.\<close>

fun analyze_loop :: "(jobj \<Rightarrow> Pod option) \<Rightarrow> int \<Rightarrow> jobj list \<Rightarrow> PodAnalysisResult \<Rightarrow> PodAnalysisResult" where
  "analyze_loop decode currentTime [] result = result"
| "analyze_loop decode currentTime (unstructuredPod # rest) result =
     (case decode unstructuredPod of
        None \<Rightarrow> result
      | Some pod \<Rightarrow> analyze_loop decode currentTime rest
          (analyze_conditions currentTime (pd_Phase pod) (pd_Conditions pod) (result\<lparr>Total := Total result + 1\<rparr>)))"

definition AnalyzePods :: "(jobj \<Rightarrow> Pod option) \<Rightarrow> jobj list \<Rightarrow> int \<Rightarrow> PodAnalysisResult" where
  "AnalyzePods decode podList currentTime =
     analyze_loop decode currentTime podList \<lparr>Total = 0, RunningAndReady = 0, Unschedulable = 0\<rparr>"

subsection \<open>Placements and overrides of the targets\<close>

text \<open>
  The deployment and replica set kinds have the same shape. \<open>wp_ClusterNames\<close> is \<open>None\<close> for a nil
  slice, which \<open>reflect.DeepEqual\<close> tells from an empty one.
\<close>

record workload_placement =
  wp_Meta :: ObjectMeta
  wp_ClusterNames :: "string list option"

record ClusterOverride =
  co_ClusterName :: string
  co_Replicas :: "int option"

record workload_override =
  wo_Meta :: ObjectMeta
  wo_Overrides :: "ClusterOverride list"

record adapter =
  ad_getPlacement :: "string \<Rightarrow> string \<Rightarrow> workload_placement go_result"
  ad_createPlacement :: "workload_placement \<Rightarrow> go_error option"
  ad_updatePlacement :: "workload_placement \<Rightarrow> go_error option"
  ad_getOverride :: "string \<Rightarrow> string \<Rightarrow> workload_override go_result"
  ad_createOverride :: "workload_override \<Rightarrow> go_error option"
  ad_updateOverride :: "workload_override \<Rightarrow> go_error option"

datatype target_call =
    CreatePlacement workload_placement
  | UpdatePlacement workload_placement
  | CreateOverride workload_override
  | UpdateOverride workload_override

text \<open>Both lists are sorted in place: the second component is the caller's list afterwards.\<close>

definition PlacementUpdateNeeded :: "string list option \<Rightarrow> string list \<Rightarrow> bool \<times> string list" where
  "PlacementUpdateNeeded names newNames = (map_option sort names \<noteq> Some (sort newNames), sort newNames)"

definition ReconcilePlacement :: "adapter \<Rightarrow> QualifiedName \<Rightarrow> string list \<Rightarrow> go_error option \<times> target_call list" where
  "ReconcilePlacement ad qualifiedName newClusterNames =
     (case ad_getPlacement ad (qn_Namespace qualifiedName) (qn_Name qualifiedName) of
        Inl err \<Rightarrow>
          if \<not> IsNotFound err then (Some err, [])
          else
            (let newPlacement = \<lparr>wp_Meta = empty_meta\<lparr>om_Namespace := qn_Namespace qualifiedName,
                   om_Name := qn_Name qualifiedName\<rparr>, wp_ClusterNames = Some newClusterNames\<rparr>
             in (ad_createPlacement ad newPlacement, [CreatePlacement newPlacement]))
      | Inr placement \<Rightarrow>
          (let (needed, newNames) = PlacementUpdateNeeded (wp_ClusterNames placement) newClusterNames
           in if needed
              then (let newPlacement = placement\<lparr>wp_ClusterNames := Some newNames\<rparr>
                    in (ad_updatePlacement ad newPlacement, [UpdatePlacement newPlacement]))
              else (None, [])))"

definition override_list :: "(string, int) gomap \<Rightarrow> ClusterOverride list" where
  "override_list result =
     map (\<lambda>(name, replicas). \<lparr>co_ClusterName = name, co_Replicas = Some (wrap32 replicas)\<rparr>) result"

fun override_loop :: "ClusterOverride list \<Rightarrow> (string, int) gomap \<Rightarrow> nat \<Rightarrow> bool \<times> nat" where
  "override_loop [] result checkLen = (False, checkLen)"
| "override_loop (override # rest) result checkLen =
     (case mget result (co_ClusterName override) of
        None \<Rightarrow> (True, checkLen)
      | Some replicas \<Rightarrow>
          if co_Replicas override = None then (True, checkLen)
          else if Some (wrap32 replicas) \<noteq> co_Replicas override then (True, checkLen)
          else override_loop rest result (checkLen + 1))"

definition OverrideUpdateNeeded :: "ClusterOverride list \<Rightarrow> (string, int) gomap \<Rightarrow> bool" where
  "OverrideUpdateNeeded overrides result =
     (let (found, checkLen) = override_loop overrides result 0
      in if found then True else checkLen \<noteq> length result)"

definition ReconcileOverride :: "adapter \<Rightarrow> QualifiedName \<Rightarrow> (string, int) gomap \<Rightarrow> go_error option \<times> target_call list" where
  "ReconcileOverride ad qualifiedName result =
     (case ad_getOverride ad (qn_Namespace qualifiedName) (qn_Name qualifiedName) of
        Inl err \<Rightarrow>
          if \<not> IsNotFound err then (Some err, [])
          else
            (let newOverride = \<lparr>wo_Meta = empty_meta\<lparr>om_Name := qn_Name qualifiedName,
                   om_Namespace := qn_Namespace qualifiedName\<rparr>, wo_Overrides = override_list result\<rparr>
             in (ad_createOverride ad newOverride, [CreateOverride newOverride]))
      | Inr override \<Rightarrow>
          if OverrideUpdateNeeded (wo_Overrides override) result
          then (let newOverride = override\<lparr>wo_Overrides := override_list result\<rparr>
                in (ad_updateOverride ad newOverride, [UpdateOverride newOverride]))
          else (None, []))"

text \<open>\<open>replicaset.go\<close> repeats the three methods for its own types.\<close>

definition ReplicaSet_ReconcilePlacement :: "adapter \<Rightarrow> QualifiedName \<Rightarrow> string list \<Rightarrow> go_error option \<times> target_call list" where
  "ReplicaSet_ReconcilePlacement = ReconcilePlacement"

definition ReplicaSetOverrideUpdateNeeded :: "ClusterOverride list \<Rightarrow> (string, int) gomap \<Rightarrow> bool" where
  "ReplicaSetOverrideUpdateNeeded = OverrideUpdateNeeded"

definition ReplicaSet_ReconcileOverride :: "adapter \<Rightarrow> QualifiedName \<Rightarrow> (string, int) gomap \<Rightarrow> go_error option \<times> target_call list" where
  "ReplicaSet_ReconcileOverride = ReconcileOverride"

subsection \<open>Plugins and scheduler\<close>

definition FederatedDeployment :: string where "FederatedDeployment = ''FederatedDeployment''"
definition FederatedReplicaSet :: string where "FederatedReplicaSet = ''FederatedReplicaSet''"

definition resources :: "(string, MetaAPIResource) gomap" where
  "resources =
     [(FederatedDeployment, \<lparr>mr_Group = ''apps'', mr_Version = ''v1'', mr_Kind = ''Deployment'',
         mr_Name = to_lower ''Deployment'' @ ''s'', mr_Namespaced = True\<rparr>),
      (FederatedReplicaSet, \<lparr>mr_Group = ''apps'', mr_Version = ''v1'', mr_Kind = ''ReplicaSet'',
         mr_Name = to_lower ''ReplicaSet'' @ ''s'', mr_Namespaced = True\<rparr>)]"

text \<open>
  The loop of \<open>NewReplicaScheduler\<close>: every plugin keeps the address of the loop variable, which Go
  1.10 allocates once for the whole loop, and reads it when a cluster is added. The variables are
  cells of a store; the first component of a plugin is its adapter's kind, the second the address.
\<close>

fun plugins_loop :: "nat \<Rightarrow> (string \<times> MetaAPIResource) list \<Rightarrow> (nat \<Rightarrow> MetaAPIResource option)
    \<Rightarrow> (string, string \<times> nat) gomap \<Rightarrow> (string, string \<times> nat) gomap \<times> (nat \<Rightarrow> MetaAPIResource option)" where
  "plugins_loop addr [] store plugins = (plugins, store)"
| "plugins_loop addr ((name, apiResource) # rest) store plugins =
     (let store1 = store(addr \<mapsto> apiResource)
      in plugins_loop addr rest store1 (mput name (name, addr) plugins))"

definition NewReplicaScheduler_plugins :: "(string \<times> MetaAPIResource) list
    \<Rightarrow> (string, string \<times> nat) gomap \<times> (nat \<Rightarrow> MetaAPIResource option)" where
  "NewReplicaScheduler_plugins order = plugins_loop 0 order Map.empty []"

text \<open>The resource that the target informer of a plugin lists and watches.\<close>

definition plugin_resource :: "(string \<times> MetaAPIResource) list \<Rightarrow> string \<Rightarrow> MetaAPIResource option" where
  "plugin_resource order name =
     (let (plugins, store) = NewReplicaScheduler_plugins order
      in case mget plugins name of None \<Rightarrow> None | Some (_, addr) \<Rightarrow> store addr)"

record 'cl plugin =
  pg_target :: "(target_obj, 'cl) federated_informer"
  pg_template :: "string \<Rightarrow> bool go_result"
  pg_adapter :: adapter

record 'cl scheduler_env =
  sc_plugins :: "(string, 'cl plugin) gomap"
  sc_pods :: "(target_obj, 'cl) federated_informer"
  sc_factory :: "'cl client_factory"
  sc_listPods :: "'cl \<Rightarrow> string \<Rightarrow> string \<Rightarrow> jobj list option go_result"
  sc_validLabel :: "string \<Rightarrow> string \<Rightarrow> bool"
  sc_decodePod :: "jobj \<Rightarrow> Pod option"
  sc_now :: int
  sc_sort :: "namedClusterPreferences list \<Rightarrow> namedClusterPreferences list"

definition informer_HasSynced :: "('o, 'cl) federated_informer \<Rightarrow> bool" where
  "informer_HasSynced f =
     (if \<not> fi_clustersSynced f then False
      else (case GetReadyClusters f of Inl _ \<Rightarrow> False | Inr clusters \<Rightarrow> store_ClustersSynced f clusters))"

definition plugin_HasSynced :: "'cl plugin \<Rightarrow> bool" where
  "plugin_HasSynced p = informer_HasSynced (pg_target p)"

definition TemplateExists :: "'cl plugin \<Rightarrow> string \<Rightarrow> bool" where
  "TemplateExists p key = (case pg_template p key of Inl _ \<Rightarrow> False | Inr exist \<Rightarrow> exist)"

definition scheduler_HasSynced :: "'cl scheduler_env \<Rightarrow> bool" where
  "scheduler_HasSynced s =
     (if \<not> list_all (\<lambda>(_, p). plugin_HasSynced p) (sc_plugins s) then False
      else informer_HasSynced (sc_pods s))"

definition scheduler_clusterNames :: "'cl scheduler_env \<Rightarrow> string list go_result" where
  "scheduler_clusterNames s = rbind (GetReadyClusters (sc_pods s)) (\<lambda>clusters. Inr (map cluster_name clusters))"

text \<open>\<open>labels.SelectorFromSet\<close> and its rendering; one invalid label makes the selector empty.\<close>

definition selector_string :: "(string \<Rightarrow> string \<Rightarrow> bool) \<Rightarrow> (string, string) gomap \<Rightarrow> string" where
  "selector_string valid ls =
     (if list_all (\<lambda>(k, v). valid k v) ls
      then join '','' (map (\<lambda>(k, v). k @ ''='' @ v) (sort_key fst ls)) else [])"

text \<open>\<open>podsGetter\<close>: a nil list of pods without an error is \<open>Inr None\<close>.\<close>

definition podsGetter :: "'cl scheduler_env \<Rightarrow> string \<Rightarrow> jobj \<Rightarrow> jobj list option go_result" where
  "podsGetter s cname obj =
     (case GetClientForCluster (sc_factory s) (sc_pods s) cname of
        Inl err \<Rightarrow> Inl err
      | Inr client \<Rightarrow>
          (case NestedStringMap obj [''spec'', ''selector'', ''matchLabels''] of
             Inl _ \<Rightarrow> Inl (ErrOther ''missing selector on object'')
           | Inr None \<Rightarrow> Inl (ErrOther ''missing selector on object'')
           | Inr (Some selectorLabels) \<Rightarrow>
               sc_listPods s client (GetNamespace obj) (selector_string (sc_validLabel s) selectorLabels)))"

definition replica_field :: "jobj \<Rightarrow> string list \<Rightarrow> int go_result" where
  "replica_field obj path =
     (case NestedInt64 obj path of
        Inl err \<Rightarrow> Inl (ErrWrapped ''Error retrieving field'' err)
      | Inr None \<Rightarrow> Inr 0
      | Inr (Some n) \<Rightarrow> Inr n)"

fun clustersReplicaState :: "(jobj \<Rightarrow> Pod option) \<Rightarrow> int \<Rightarrow> string list \<Rightarrow> string \<Rightarrow> (string \<Rightarrow> string \<Rightarrow> target_obj option go_result)
    \<Rightarrow> (string \<Rightarrow> jobj \<Rightarrow> jobj list option go_result) \<Rightarrow> (string, int) gomap \<times> (string, int) gomap
    \<Rightarrow> ((string, int) gomap \<times> (string, int) gomap) go_result" where
  "clustersReplicaState decode now [] key objectGetter getPods acc = Inr acc"
| "clustersReplicaState decode now (name # rest) key objectGetter getPods (current, capacity) =
     (case objectGetter name key of
        Inl err \<Rightarrow> Inl err
      | Inr None \<Rightarrow> clustersReplicaState decode now rest key objectGetter getPods (current, capacity)
      | Inr (Some OtherType) \<Rightarrow> Inl (GoPanic ''interface conversion'')
      | Inr (Some (Unstructured obj)) \<Rightarrow>
          rbind (replica_field obj [''spec'', ''replicas'']) (\<lambda>replicas.
          rbind (replica_field obj [''status'', ''readyreplicas'']) (\<lambda>readyReplicas.
            if replicas = readyReplicas
            then clustersReplicaState decode now rest key objectGetter getPods (mput name readyReplicas current, capacity)
            else
              (case getPods name obj of
                 Inl err \<Rightarrow> Inl err
               | Inr None \<Rightarrow> Inl (GoPanic ''interface conversion: interface is nil'')
               | Inr (Some podList) \<Rightarrow>
                   (let podStatus = AnalyzePods decode podList now;
                        unschedulable = Unschedulable podStatus
                    in clustersReplicaState decode now rest key objectGetter getPods
                         (mput name (RunningAndReady podStatus) (mput name 0 current),
                          if unschedulable > 0 then mput name (sub64 replicas unschedulable) capacity else capacity))))))"

text \<open>\<open>schedule\<close>, without its logging: the bodies of its three loops over maps, then the loops.\<close>

definition zero_entry :: "(string, int) gomap \<Rightarrow> string \<times> int \<Rightarrow> (string, int) gomap" where
  "zero_entry m p = mput (fst p) 0 m"

definition set_entry :: "(string, int) gomap \<Rightarrow> string \<times> int \<Rightarrow> (string, int) gomap" where
  "set_entry m p = mput (fst p) (snd p) m"

definition add_entry :: "(string, int) gomap \<Rightarrow> string \<times> int \<Rightarrow> (string, int) gomap" where
  "add_entry m p = mput (fst p) (add64 (mget0 0 m (fst p)) (snd p)) m"

definition schedule :: "(namedClusterPreferences list \<Rightarrow> namedClusterPreferences list) \<Rightarrow> ReplicaSchedulingPreferenceSpec
    \<Rightarrow> string \<Rightarrow> string list \<Rightarrow> (string, int) gomap \<Rightarrow> (string, int) gomap \<Rightarrow> (string, int) gomap option" where
  "schedule srt spec key clusterNames current capacity =
     map_option (\<lambda>(scheduleResult, overflow).
       foldl add_entry (foldl set_entry (foldl zero_entry [] current) scheduleResult) overflow)
     (Plan srt spec clusterNames current capacity key)"

definition default_clusters :: "ReplicaSchedulingPreferenceSpec \<Rightarrow> ReplicaSchedulingPreferenceSpec" where
  "default_clusters spec =
     (if length (Clusters spec) = 0
      then spec\<lparr>Clusters := [(''*'', \<lparr>MinReplicas = 0, MaxReplicas = None, Weight = 1\<rparr>)]\<rparr> else spec)"

definition GetSchedulingResult :: "'cl scheduler_env \<Rightarrow> 'cl plugin \<Rightarrow> ReplicaSchedulingPreferenceSpec \<Rightarrow> QualifiedName
    \<Rightarrow> string list \<Rightarrow> (string, int) gomap go_result option" where
  "GetSchedulingResult s plugin spec qualifiedName clusterNames =
     (let key = qn_String qualifiedName in
      case clustersReplicaState (sc_decodePod s) (sc_now s) clusterNames key (GetByKey (pg_target plugin))
             (podsGetter s) ([], []) of
        Inl err \<Rightarrow> Some (Inl err)
      | Inr (current, capacity) \<Rightarrow>
          map_option Inr (schedule (sc_sort s) (default_clusters spec) key clusterNames current capacity))"

definition ReconcileFederationTargets :: "adapter \<Rightarrow> QualifiedName \<Rightarrow> (string, int) gomap
    \<Rightarrow> go_error option \<times> target_call list" where
  "ReconcileFederationTargets ad qualifiedName result =
     (let (err, calls) = ReconcilePlacement ad qualifiedName (mkeys result)
      in case err of
           Some e \<Rightarrow> (Some e, calls)
         | None \<Rightarrow> (let (err2, calls2) = ReconcileOverride ad qualifiedName result in (err2, calls @ calls2)))"

text \<open>
  \<open>Reconcile\<close>: \<open>None\<close> when \<open>Plan\<close> does not return or the run panics; a kind without a plugin
  dereferences nil.
\<close>

definition scheduler_Reconcile :: "'cl scheduler_env \<Rightarrow> ReplicaSchedulingPreferenceSpec \<Rightarrow> QualifiedName
    \<Rightarrow> (ReconciliationStatus \<times> target_call list) option" where
  "scheduler_Reconcile s rsp qualifiedName =
     (case scheduler_clusterNames s of
        Inl _ \<Rightarrow> Some (StatusError, [])
      | Inr clusterNames \<Rightarrow>
          if length clusterNames = 0 then Some (StatusAllOK, [])
          else
            (let kind = TargetKind rsp in
             if kind \<noteq> FederatedDeployment \<and> kind \<noteq> FederatedReplicaSet then Some (StatusNeedsRecheck, [])
             else
               (case mget (sc_plugins s) kind of
                  None \<Rightarrow> None
                | Some plugin \<Rightarrow>
                    if \<not> TemplateExists plugin (qn_String qualifiedName) then Some (StatusAllOK, [])
                    else
                      (case GetSchedulingResult s plugin rsp qualifiedName clusterNames of
                         None \<Rightarrow> None
                       | Some (Inl e) \<Rightarrow> if is_panic e then None else Some (StatusError, [])
                       | Some (Inr result) \<Rightarrow>
                           (let (err, calls) = ReconcileFederationTargets (pg_adapter plugin) qualifiedName result
                            in Some (if err = None then StatusAllOK else StatusError, calls))))))"

subsection \<open>The controller\<close>

text \<open>The store holds preferences, or objects of another type.\<close>

datatype rsp_item = RspItem ObjectMeta ReplicaSchedulingPreferenceSpec | RspOther

record 'cl rsp_env =
  re_synced :: bool
  re_store :: "string \<Rightarrow> rsp_item option go_result"
  re_scheduler :: "'cl scheduler_env"

definition rsp_isSynced :: "'cl rsp_env \<Rightarrow> bool" where
  "rsp_isSynced env \<longleftrightarrow> re_synced env \<and> scheduler_HasSynced (re_scheduler env)"

definition objFromCache :: "'cl rsp_env \<Rightarrow> string \<Rightarrow> rsp_item option go_result" where
  "objFromCache env key =
     (case re_store env key of
        Inl err \<Rightarrow> Inl err
      | Inr None \<Rightarrow> Inr None
      | Inr (Some cachedObj) \<Rightarrow> Inr (Some cachedObj))"

definition rsp_reconcile :: "'cl rsp_env \<Rightarrow> QualifiedName \<Rightarrow> (ReconciliationStatus \<times> target_call list) option" where
  "rsp_reconcile env qualifiedName =
     (if \<not> rsp_isSynced env then Some (StatusNotSynced, [])
      else
        (case objFromCache env (qn_String qualifiedName) of
           Inl _ \<Rightarrow> Some (StatusAllOK, [])
         | Inr None \<Rightarrow> Some (StatusAllOK, [])
         | Inr (Some RspOther) \<Rightarrow> Some (StatusError, [])
         | Inr (Some (RspItem meta typedRsp)) \<Rightarrow> scheduler_Reconcile (re_scheduler env) typedRsp qualifiedName))"

definition rsp_default_delays :: sync_delays where
  "rsp_default_delays = \<lparr>reviewDelay = 10000, clusterAvailableDelay = 20000,
     clusterUnavailableDelay = 60000, smallDelay = 3000, updateTimeout = 30000\<rparr>"

definition rsp_minimizeLatency :: "sync_delays \<Rightarrow> sync_delays" where
  "rsp_minimizeLatency s = s\<lparr>clusterAvailableDelay := 1000, clusterUnavailableDelay := 1000,
     reviewDelay := 50, smallDelay := 20, updateTimeout := 5000\<rparr>"

fun rsp_worker :: "sync_delays \<Rightarrow> ReconciliationStatus \<Rightarrow> (int \<times> bool) option" where
  "rsp_worker s StatusAllOK = None"
| "rsp_worker s StatusError = Some (0, True)"
| "rsp_worker s StatusNeedsRecheck = Some (reviewDelay s, False)"
| "rsp_worker s StatusNotSynced = Some (clusterAvailableDelay s, False)"

definition rsp_reconcileOnClusterChange :: "'cl rsp_env \<Rightarrow> sync_delays \<Rightarrow> ObjectMeta list \<Rightarrow> sync_delivery list" where
  "rsp_reconcileOnClusterChange env s objs =
     (if \<not> rsp_isSynced env then [DeliverClusterKey (clusterAvailableDelay s)] else []) @
     map (\<lambda>obj. DeliverObject (NewQualifiedName obj) (smallDelay s) False) objs"

end
