(* ===== verification/Scheduler_Claims.thy ===== *)
theory Scheduler_Claims
  imports Replica_Scheduler Planner_Claims
begin

section \<open>Properties of the replica scheduler\<close>

subsection \<open>The scheduling result\<close>

lemma foldl_zero:
  "mget (foldl zero_entry m l) k = (if k \<in> fst ` set l then Some 0 else mget m k)"
  "gomap_ok m \<Longrightarrow> gomap_ok (foldl zero_entry m l)"
  by (induction l arbitrary: m) (auto simp: zero_entry_def)

lemma foldl_set:
  assumes "gomap_ok l"
  shows "mget (foldl set_entry m l) k = (case mget l k of Some v \<Rightarrow> Some v | None \<Rightarrow> mget m k)"
  using assms
proof (induction l arbitrary: m)
  case (Cons p l)
  then have "gomap_ok l" "mget l (fst p) = None" by (simp_all add: gomap_ok_def map_of_eq_None_iff)
  then show ?case using Cons.IH by (cases p) (auto simp: set_entry_def split: option.split)
qed simp

lemma foldl_add:
  assumes "gomap_ok l"
  shows "mget (foldl add_entry m l) k = (case mget l k of Some v \<Rightarrow> Some (add64 (mget0 0 m k) v) | None \<Rightarrow> mget m k)"
  using assms
proof (induction l arbitrary: m)
  case (Cons p l)
  then have "gomap_ok l" "mget l (fst p) = None" by (simp_all add: gomap_ok_def map_of_eq_None_iff)
  then show ?case using Cons.IH by (cases p) (auto simp: add_entry_def split: option.split)
qed simp

lemma foldl_entry_ok:
  "gomap_ok m \<Longrightarrow> gomap_ok (foldl set_entry m l)" "gomap_ok m \<Longrightarrow> gomap_ok (foldl add_entry m l)"
  by (induction l arbitrary: m) (simp_all add: set_entry_def add_entry_def)

text \<open>The maps of a plan have distinct keys.\<close>

definition maps_ok :: "dist_state \<Rightarrow> bool" where
  "maps_ok s \<longleftrightarrow> gomap_ok (d_plan s) \<and> gomap_ok (d_overflow s)"

lemma dist_step_maps_ok: "maps_ok s \<Longrightarrow> maps_ok (dist_step cap ws d p s)"
  using dist_clamp_overflow_ok [of cap p _ "d_overflow s"]
  by (auto simp: maps_ok_def dist_step_def Let_def split: prod.split)

lemma dist_clusters_maps_ok: "maps_ok s \<Longrightarrow> maps_ok (dist_clusters cap ws d ps s)"
  by (induction ps arbitrary: s) (simp_all add: dist_step_maps_ok)

lemma dist_round_maps_ok: "maps_ok s \<Longrightarrow> maps_ok (dist_round cap s)"
  unfolding dist_round_def by (rule dist_clusters_maps_ok) (simp add: maps_ok_def)

lemma plan_select_ok: "gomap_ok plan \<Longrightarrow> gomap_ok (snd (plan_select prefs key cs ps plan))"
  by (induction cs arbitrary: ps plan) (auto split: option.split)

lemma plan_min_ok: "gomap_ok plan \<Longrightarrow> gomap_ok (snd (plan_min cap ps r plan))"
  by (induction ps arbitrary: r plan) (auto simp: Let_def)

lemma plan_prealloc_ok: "gomap_ok plan \<Longrightarrow> gomap_ok (fst (snd (plan_prealloc cur cap ps r plan pre)))"
  by (induction ps arbitrary: r plan pre) (auto simp: Let_def split: option.split)

lemma plan_start_maps_ok: "maps_ok (plan_start srt spec cs cur cap key)"
proof -
  obtain prefs0 plan0 where sel: "plan_select (Clusters spec) key cs [] [] = (prefs0, plan0)"
    by (cases "plan_select (Clusters spec) key cs [] []")
  obtain r1 plan1 where min: "plan_min cap (srt prefs0) (TotalReplicas spec) plan0 = (r1, plan1)"
    by (cases "plan_min cap (srt prefs0) (TotalReplicas spec) plan0")
  obtain r2 plan2 pre where pre: "plan_prealloc cur cap (srt prefs0) r1 plan1 [] = (r2, plan2, pre)"
    by (cases "plan_prealloc cur cap (srt prefs0) r1 plan1 []")
  have "gomap_ok plan0" using plan_select_ok [of "[]" "Clusters spec" key cs "[]"] by (simp add: sel)
  then have "gomap_ok plan1" using plan_min_ok [of plan0 cap "srt prefs0" "TotalReplicas spec"] by (simp add: min)
  moreover from this have "gomap_ok plan2"
    using plan_prealloc_ok [of plan1 cur cap "srt prefs0" r1 "[]"] by (simp add: pre)
  ultimately show ?thesis by (cases "Rebalance spec") (simp_all add: plan_start_def sel min pre maps_ok_def Let_def)
qed

lemma trim_overflow_ok: "gomap_ok ov \<Longrightarrow> gomap_ok (trim_overflow r ov)"
  unfolding trim_overflow_def gomap_ok_def
  by (rule distinct_map_filter) (simp add: comp_def case_prod_beta)

lemma Plan_gomap_ok:
  assumes "Plan srt spec clusters current cap key = Some (pl, ov)"
  shows "gomap_ok pl" "gomap_ok ov"
proof -
  obtain s' where s': "plan_distribute cap (plan_start srt spec clusters current cap key) = Some s'"
    "pl = d_plan s'" "ov = (if Rebalance spec then d_overflow s' else trim_overflow (d_remaining s') (d_overflow s'))"
    using assms by (auto simp: Plan_def)
  have "maps_ok s'"
    using s'(1) unfolding plan_distribute_def
    by (rule while_option_rule [rotated]) (simp_all add: dist_round_maps_ok plan_start_maps_ok)
  then show "gomap_ok pl" "gomap_ok ov"
    by (simp_all add: s' maps_ok_def trim_overflow_ok)
qed

text \<open>
  C22. \<open>schedule\<close>: for sane inputs (among them capacities that are not negative) it returns, has an
  entry for exactly the given clusters (also those that get nothing), and every number of replicas is
  the planned plus the overflowing ones, is not negative, at most \<open>TotalReplicas\<close>, and survives the
  conversion to \<open>int32\<close> of the overrides.
\<close>

theorem schedule_sound:
  assumes "go_sorter byWeight_Less srt" and "plan_input_ok spec clusters current cap"
    and "fst ` set current \<subseteq> set clusters" and "fst ` set cap \<subseteq> set clusters"
  shows "\<exists>pl ov result. Plan srt spec clusters current cap key = Some (pl, ov) \<and>
    schedule srt spec key clusters current cap = Some result \<and> gomap_ok result \<and>
    set (mkeys result) = set clusters \<and>
    (\<forall>c \<in> set clusters. mget result c = Some (mget0 0 pl c + mget0 0 ov c) \<and>
       0 \<le> mget0 0 result c \<and> mget0 0 result c \<le> TotalReplicas spec \<and>
       wrap32 (mget0 0 result c) = mget0 0 result c)"
proof -
  note inp = plan_input_okD [OF assms(2)]
  obtain pl ov where plan: "Plan srt spec clusters current cap key = Some (pl, ov)"
    using Plan_returns_ex [OF assms(1,2)] by blast
  note ok = Plan_gomap_ok [OF plan]
  obtain s s' where s': "pl = d_plan s'" "loop_inv clusters (TotalReplicas spec) cap s'" "dom (mget pl) = set clusters"
    by (rule Plan_run [OF assms(1,2) plan]) blast
  note over = Plan_overflow_facts [OF assms(1,2) plan]
  have ov_keys: "k \<in> set clusters" if "mget ov k = Some v" for k v
    
  proof -
    have "(k, mget0 0 pl k) \<in> set cap" using over(2) [OF that] by (rule map_of_SomeD)
    then show ?thesis using assms(4) by force
  qed
  define result where "result = foldl add_entry (foldl set_entry (foldl zero_entry [] current) pl) ov"
  have run: "schedule srt spec key clusters current cap = Some result"
    by (simp add: schedule_def plan result_def)
  have val: "mget result c = Some (mget0 0 pl c + mget0 0 ov c)"
    and bounds: "0 \<le> mget0 0 pl c + mget0 0 ov c" "mget0 0 pl c + mget0 0 ov c \<le> TotalReplicas spec"
    if c: "c \<in> set clusters" for c
  proof -
    obtain r where r: "mget pl c = Some r" using s'(3) c by blast
    have inv: "0 \<le> r" "r + 0 \<le> TotalReplicas spec"
      using s'(1,2) c r unfolding loop_inv_def dist_inv_def mget0_def by force+
    show "0 \<le> mget0 0 pl c + mget0 0 ov c" "mget0 0 pl c + mget0 0 ov c \<le> TotalReplicas spec"
      using over(1,3) [of c] c inv r by (cases "mget ov c"; force simp: mget0_def)+
    then have "add64 (mget0 0 pl c) (mget0 0 ov c) = mget0 0 pl c + mget0 0 ov c"
      using inp(3) by (simp add: add64_def wrap64_id)
    then show "mget result c = Some (mget0 0 pl c + mget0 0 ov c)"
      using r by (simp add: result_def foldl_add [OF ok(2)] foldl_set [OF ok(1)] mget0_def split: option.splits)
  qed
  have keys: "set (mkeys result) = set clusters"
  proof -
    have "k \<in> set (mkeys result) \<longleftrightarrow> k \<in> set clusters" for k
    proof
      assume "k \<in> set (mkeys result)"
      then have "mget result k \<noteq> None" by (simp add: map_of_eq_None_iff)
      then have "mget ov k \<noteq> None \<or> mget pl k \<noteq> None \<or> k \<in> fst ` set current"
        by (auto simp: result_def foldl_add [OF ok(2)] foldl_set [OF ok(1)] foldl_zero split: option.splits if_splits)
      then show "k \<in> set clusters" using ov_keys s'(3) assms(3) by blast
    next
      assume "k \<in> set clusters"
      then have "mget result k \<noteq> None" by (simp add: val)
      then show "k \<in> set (mkeys result)" by (simp add: map_of_eq_None_iff)
    qed
    then show ?thesis by blast
  qed
  have "gomap_ok result" by (simp add: result_def foldl_entry_ok foldl_zero)
  moreover have "wrap32 (mget0 0 result c) = mget0 0 result c \<and> 0 \<le> mget0 0 result c \<and> mget0 0 result c \<le> TotalReplicas spec"
    if "c \<in> set clusters" for c
    using bounds [OF that] inp(3) by (simp add: mget0_def val [OF that] wrap32_id)
  ultimately show ?thesis using plan run keys val by blast
qed

theorem schedule_sound_witness:
  "\<exists>result. schedule (go_sort byWeight_Less) demo_spec ''k'' demo_clusters demo_current demo_cap = Some result
     \<and> set (mkeys result) = set demo_clusters"
proof -
  have "fst ` set demo_current \<subseteq> set demo_clusters" "fst ` set demo_cap \<subseteq> set demo_clusters"
    by simp_all
  from schedule_sound [OF demo_facts this] show ?thesis by blast
qed

text \<open>
  Two details of the input: a running pod whose \<open>Ready\<close> condition is \<open>False\<close> counts as ready, and the
  field \<open>readyReplicas\<close> of the API is not the one that is read.
\<close>

lemma ready_status_ignored:
  "AnalyzePods (\<lambda>_. Some \<lparr>pd_Phase = ''Running'', pd_Conditions = [\<lparr>pc_Type = ''Ready'', pc_Status = ''False'',
     pc_Reason = [], pc_LastTransitionTime = 0\<rparr>]\<rparr>) [[]] t = \<lparr>Total = 1, RunningAndReady = 1, Unschedulable = 0\<rparr>"
  by (simp add: AnalyzePods_def)

lemma readyReplicas_ignored:
  "replica_field [(''status'', JObj [(''readyReplicas'', JInt 3)])] [''status'', ''readyreplicas''] = Inr 0"
  by code_simp

text \<open>
  The estimated capacity of a cluster is its replicas less its unschedulable pods, which is
  negative while old pods are still there. It is not checked: one cluster with one replica and
  three unschedulable pods gives a plan of minus two replicas for it and seven of five replicas for
  the other cluster, and the override is written with these numbers.
\<close>

definition pending_pod :: Pod where
  "pending_pod = \<lparr>pd_Phase = ''Pending'', pd_Conditions = [\<lparr>pc_Type = ''PodScheduled'', pc_Status = ''False'',
     pc_Reason = ''Unschedulable'', pc_LastTransitionTime = 0\<rparr>]\<rparr>"

definition demo_workload :: "string \<Rightarrow> string \<Rightarrow> target_obj option go_result" where
  "demo_workload cluster key = (if cluster = ''c1''
     then Inr (Some (Unstructured [(''spec'', JObj [(''replicas'', JInt 1)])])) else Inr None)"

lemma negative_capacity:
  "clustersReplicaState (\<lambda>_. Some pending_pod) 100 [''c1'', ''c2''] ''ns/web'' demo_workload (\<lambda>_ _. Inr (Some [[], [], []])) ([], [])
     = Inr ([(''c1'', 0)], [(''c1'', - 2)]) \<and>
   map_option override_list (schedule (go_sort byWeight_Less)
       (default_clusters \<lparr>TargetKind = FederatedDeployment, TotalReplicas = 5, Rebalance = False, Clusters = []\<rparr>)
       ''ns/web'' [''c1'', ''c2''] [(''c1'', 0)] [(''c1'', - 2)])
     = Some [\<lparr>co_ClusterName = ''c1'', co_Replicas = Some (- 2)\<rparr>, \<lparr>co_ClusterName = ''c2'', co_Replicas = Some 7\<rparr>]"
  by code_simp

subsection \<open>The plugins\<close>

lemma plugins_loop_spec:
  "plugins_loop addr order store plugins =
     (foldl (\<lambda>m p. mput (fst p) (fst p, addr) m) plugins order,
      if order = [] then store else store(addr \<mapsto> snd (last order)))"
  by (induction order arbitrary: store plugins) auto

lemma foldl_plugins:
  "mget (foldl (\<lambda>m p. mput (fst p) (fst p, addr) m) m order) k =
     (if k \<in> fst ` set order then Some (k, addr) else mget m k)"
  by (induction order arbitrary: m) auto

text \<open>
  The plugins are made in a loop over a map that passes the address of the loop variable, so in
  every iteration order both target informers watch the resource visited last: exactly one of the
  two kinds is watched by the wrong informer.
\<close>

lemma plugins_share_resource:
  assumes "mset order = mset resources"
  shows "plugin_resource order FederatedDeployment = plugin_resource order FederatedReplicaSet \<and>
    (\<exists>!name. name \<in> {FederatedDeployment, FederatedReplicaSet} \<and>
       plugin_resource order name \<noteq> mget resources name)"
proof -
  have set: "set order = set resources" using assms by (metis set_mset_mset)
  have ne: "order \<noteq> []" using assms by (auto simp: resources_def)
  have keys: "fst ` set order = {FederatedDeployment, FederatedReplicaSet}"
    by (simp add: set resources_def)
  have res: "plugin_resource order name = Some (snd (last order))"
    if "name \<in> {FederatedDeployment, FederatedReplicaSet}" for name
    using that ne by (simp add: plugin_resource_def NewReplicaScheduler_plugins_def plugins_loop_spec foldl_plugins keys)
  have "last order \<in> set resources" using ne set last_in_set by blast
  then have last: "mget resources (fst (last order)) = Some (snd (last order))"
    by (auto simp: resources_def FederatedDeployment_def FederatedReplicaSet_def)
  have two: "mget resources FederatedDeployment \<noteq> mget resources FederatedReplicaSet" "FederatedDeployment \<noteq> FederatedReplicaSet"
    by (simp_all add: resources_def FederatedDeployment_def FederatedReplicaSet_def)
  have l: "fst (last order) \<in> {FederatedDeployment, FederatedReplicaSet}"
    using keys ne last_in_set by (metis imageI)
  show ?thesis using res last two l by (auto simp: Ex1_def)
qed

subsection \<open>The targets\<close>

lemma override_loop_False:
  "override_loop os result n = (False, m) \<longleftrightarrow>
     m = n + length os \<and> (\<forall>ov \<in> set os. \<exists>r. mget result (co_ClusterName ov) = Some r \<and> co_Replicas ov = Some (wrap32 r))"
  by (induction os arbitrary: n) (auto split: option.split)

lemma OverrideUpdateNeeded_iff:
  "\<not> OverrideUpdateNeeded os result \<longleftrightarrow> length os = length result \<and>
     (\<forall>ov \<in> set os. \<exists>r. mget result (co_ClusterName ov) = Some r \<and> co_Replicas ov = Some (wrap32 r))"
proof (cases "override_loop os result 0")
  case (Pair found m)
  then show ?thesis
    using override_loop_False [of os result 0 m] override_loop_False [of os result 0 "length os"]
    by (cases found) (auto simp: OverrideUpdateNeeded_def)
qed

text \<open>The override as a map from clusters to replicas.\<close>

definition overrides_map :: "ClusterOverride list \<Rightarrow> (string, int option) gomap" where
  "overrides_map os = map (\<lambda>ov. (co_ClusterName ov, co_Replicas ov)) os"

lemma overrides_map_list: "mget (overrides_map (override_list result)) k = map_option (\<lambda>r. Some (wrap32 r)) (mget result k)"
  by (induction result) (auto simp: overrides_map_def override_list_def)

text \<open>With distinct cluster names on both sides the check by length is exact.\<close>

lemma OverrideUpdateNeeded_exact:
  assumes "gomap_ok result" "gomap_ok (overrides_map os)"
  shows "\<not> OverrideUpdateNeeded os result \<longleftrightarrow>
    (\<forall>k. mget (overrides_map os) k = map_option (\<lambda>r. Some (wrap32 r)) (mget result k))"
proof -
  have names: "map fst (overrides_map os) = map co_ClusterName os" by (simp add: overrides_map_def)
  have d: "distinct (map co_ClusterName os)" "distinct (map fst result)"
    using assms by (simp_all add: gomap_ok_def names)
  have get: "mget (overrides_map os) k = Some v \<longleftrightarrow> (\<exists>ov \<in> set os. co_ClusterName ov = k \<and> co_Replicas ov = v)" for k v
    using assms(2) by (auto simp: gomap_ok_def overrides_map_def image_iff)
  show ?thesis
  proof
    assume ok: "\<not> OverrideUpdateNeeded os result"
    then have len: "length os = length result"
      and val: "\<And>ov. ov \<in> set os \<Longrightarrow> \<exists>r. mget result (co_ClusterName ov) = Some r \<and> co_Replicas ov = Some (wrap32 r)"
      unfolding OverrideUpdateNeeded_iff by blast+
    have sub: "co_ClusterName ` set os \<subseteq> fst ` set result" using val by (force dest: map_of_SomeD)
    moreover have "card (co_ClusterName ` set os) = length result" "card (fst ` set result) = length result"
      using d len by (metis distinct_card length_map list.set_map)+
    ultimately have eq: "co_ClusterName ` set os = fst ` set result" by (metis card_subset_eq finite_imageI finite_set)
    show "\<forall>k. mget (overrides_map os) k = map_option (\<lambda>r. Some (wrap32 r)) (mget result k)"
    proof
      fix k
      show "mget (overrides_map os) k = map_option (\<lambda>r. Some (wrap32 r)) (mget result k)"
      proof (cases "k \<in> fst ` set result")
        case True
        then obtain ov where "ov \<in> set os" "co_ClusterName ov = k" using eq by (metis imageE)
        with val [of ov] show ?thesis using get [of k "co_Replicas ov"] by auto
      next
        case False
        then have "mget result k = None" "mget (overrides_map os) k = None"
          using eq by (simp_all add: map_of_eq_None_iff overrides_map_def image_image)
        then show ?thesis by simp
      qed
    qed
  next
    assume eq: "\<forall>k. mget (overrides_map os) k = map_option (\<lambda>r. Some (wrap32 r)) (mget result k)"
    have "set (map co_ClusterName os) = set (map fst result)"
    proof -
      have "dom (mget (overrides_map os)) = dom (mget result)" using eq by (auto simp: dom_def)
      then show ?thesis by (simp add: dom_map_of_conv_image_fst overrides_map_def image_image)
    qed
    then have "length os = length result" using d by (metis distinct_card length_map)
    moreover have "\<exists>r. mget result (co_ClusterName ov) = Some r \<and> co_Replicas ov = Some (wrap32 r)" if "ov \<in> set os" for ov
      using get [of "co_ClusterName ov" "co_Replicas ov"] that eq by auto
    ultimately show "\<not> OverrideUpdateNeeded os result" unfolding OverrideUpdateNeeded_iff by blast
  qed
qed

text \<open>What the API holds after a run: the last object written, or else the one read.\<close>

fun written_placement :: "target_call list \<Rightarrow> workload_placement option" where
  "written_placement [] = None"
| "written_placement (CreatePlacement p # _) = Some p"
| "written_placement (UpdatePlacement p # _) = Some p"
| "written_placement (_ # cs) = written_placement cs"

fun written_override :: "target_call list \<Rightarrow> workload_override option" where
  "written_override [] = None"
| "written_override (CreateOverride p # _) = Some p"
| "written_override (UpdateOverride p # _) = Some p"
| "written_override (_ # cs) = written_override cs"

definition placement_after :: "adapter \<Rightarrow> QualifiedName \<Rightarrow> target_call list \<Rightarrow> workload_placement go_result" where
  "placement_after ad qn calls = (case written_placement calls of Some p \<Rightarrow> Inr p
     | None \<Rightarrow> ad_getPlacement ad (qn_Namespace qn) (qn_Name qn))"

definition override_after :: "adapter \<Rightarrow> QualifiedName \<Rightarrow> target_call list \<Rightarrow> workload_override go_result" where
  "override_after ad qn calls = (case written_override calls of Some ov \<Rightarrow> Inr ov
     | None \<Rightarrow> ad_getOverride ad (qn_Namespace qn) (qn_Name qn))"

lemma ReconcilePlacement_after:
  assumes "ReconcilePlacement ad qn names = (None, calls)"
  shows "\<exists>p l. written_override calls = None \<and> placement_after ad qn calls = Inr p \<and>
    wp_ClusterNames p = Some l \<and> sort l = sort names"
  using assms
  by (auto simp: ReconcilePlacement_def placement_after_def PlacementUpdateNeeded_def Let_def sorted_sort_id
      split: sum.splits if_splits)

lemma ReconcileOverride_after:
  assumes "ReconcileOverride ad qn result = (None, calls)" and "gomap_ok result"
    and "\<And>ov. ad_getOverride ad (qn_Namespace qn) (qn_Name qn) = Inr ov \<Longrightarrow> gomap_ok (overrides_map (wo_Overrides ov))"
  shows "\<exists>ov. written_placement calls = None \<and> override_after ad qn calls = Inr ov \<and>
    gomap_ok (overrides_map (wo_Overrides ov)) \<and>
    (\<forall>k. mget (overrides_map (wo_Overrides ov)) k = map_option (\<lambda>r. Some (wrap32 r)) (mget result k))"
proof -
  have new: "gomap_ok (overrides_map (override_list result))"
    using assms(2) by (simp add: gomap_ok_def overrides_map_def override_list_def comp_def case_prod_beta)
  show ?thesis
  proof (cases "ad_getOverride ad (qn_Namespace qn) (qn_Name qn)")
    case (Inl err)
    with assms(1) new show ?thesis
      by (auto simp: ReconcileOverride_def override_after_def overrides_map_list Let_def split: if_splits)
  next
    case (Inr ov)
    show ?thesis
    proof (cases "OverrideUpdateNeeded (wo_Overrides ov) result")
      case True
      with Inr assms(1) new show ?thesis
        by (auto simp: ReconcileOverride_def override_after_def overrides_map_list Let_def)
    next
      case False
      with Inr assms show ?thesis
        using OverrideUpdateNeeded_exact [OF assms(2) assms(3) [OF Inr]]
        by (auto simp: ReconcileOverride_def override_after_def)
    qed
  qed
qed

text \<open>
  C23. \<open>ReconcileFederationTargets\<close> is a round trip: when it succeeds, the placement in the API names
  exactly the clusters of the result and the override read back gives the result, as \<open>int32\<close>
  values; and another run with the same result, in whatever order its map is visited, finds
  nothing to change and makes no call.
\<close>

theorem ReconcileFederationTargets_roundtrip:
  assumes "ReconcileFederationTargets ad qn result = (None, calls)" and "gomap_ok result"
    and "\<And>ov. ad_getOverride ad (qn_Namespace qn) (qn_Name qn) = Inr ov \<Longrightarrow> gomap_ok (overrides_map (wo_Overrides ov))"
  shows "\<exists>p l ov. placement_after ad qn calls = Inr p \<and> override_after ad qn calls = Inr ov \<and>
    wp_ClusterNames p = Some l \<and> set l = set (mkeys result) \<and>
    (\<forall>k. mget (overrides_map (wo_Overrides ov)) k = map_option (\<lambda>r. Some (wrap32 r)) (mget result k)) \<and>
    (\<forall>result'. mset result' = mset result \<longrightarrow>
       ReconcileFederationTargets (ad\<lparr>ad_getPlacement := (\<lambda>_ _. Inr p), ad_getOverride := (\<lambda>_ _. Inr ov)\<rparr>) qn result'
         = (None, []))"
proof -
  obtain calls1 where c1: "ReconcilePlacement ad qn (mkeys result) = (None, calls1)"
    using assms(1) by (cases "ReconcilePlacement ad qn (mkeys result)")
      (auto simp: ReconcileFederationTargets_def split: option.splits prod.splits)
  obtain calls2 where c2: "ReconcileOverride ad qn result = (None, calls2)" "calls = calls1 @ calls2"
    using assms(1) c1 by (auto simp: ReconcileFederationTargets_def split: prod.splits)
  obtain p l where p: "written_override calls1 = None" "placement_after ad qn calls1 = Inr p"
    "wp_ClusterNames p = Some l" "sort l = sort (mkeys result)"
    using ReconcilePlacement_after [OF c1] by blast
  obtain ov where ov: "written_placement calls2 = None" "override_after ad qn calls2 = Inr ov"
    "gomap_ok (overrides_map (wo_Overrides ov))"
    "\<forall>k. mget (overrides_map (wo_Overrides ov)) k = map_option (\<lambda>r. Some (wrap32 r)) (mget result k)"
    using ReconcileOverride_after [OF c2(1) assms(2,3)] by blast
  have wp: "written_placement (calls1 @ calls2) = (case written_placement calls1 of Some p \<Rightarrow> Some p | None \<Rightarrow> written_placement calls2)"
    by (induction calls1 rule: written_placement.induct) auto
  have wo: "written_override (calls1 @ calls2) = (case written_override calls1 of Some p \<Rightarrow> Some p | None \<Rightarrow> written_override calls2)"
    by (induction calls1 rule: written_override.induct) auto
  have after: "placement_after ad qn calls = Inr p" "override_after ad qn calls = Inr ov"
    using p(1,2) ov(1,2) wp wo unfolding placement_after_def override_after_def c2(2)
    by (simp_all split: option.splits)
  have set: "set l = set (mkeys result)" using p(4) by (metis set_sort)
  have again: "ReconcileFederationTargets (ad\<lparr>ad_getPlacement := (\<lambda>_ _. Inr p), ad_getOverride := (\<lambda>_ _. Inr ov)\<rparr>) qn result'
      = (None, [])" if "mset result' = mset result" for result'
  proof -
    note perm = gomap_perm [OF assms(2) that [symmetric]]
    have "mset (mkeys result') = mset (mkeys result)" using that by (metis mset_map)
    then have "sort (mkeys result') = sort (mkeys result)" by (metis properties_for_sort mset_sort sorted_sort)
    then have "PlacementUpdateNeeded (wp_ClusterNames p) (mkeys result') = (False, sort (mkeys result'))"
      using p(3,4) by (simp add: PlacementUpdateNeeded_def)
    moreover have "\<not> OverrideUpdateNeeded (wo_Overrides ov) result'"
      using ov(4) perm(2) by (simp add: OverrideUpdateNeeded_exact [OF perm(1) ov(3)])
    ultimately show ?thesis
      by (simp add: ReconcileFederationTargets_def ReconcilePlacement_def ReconcileOverride_def split: prod.split)
  qed
  show ?thesis using after p(3) set ov(4) again by blast
qed

definition demo_adapter :: adapter where
  "demo_adapter = \<lparr>ad_getPlacement = (\<lambda>_ _. Inl (ErrNotFound [])), ad_createPlacement = (\<lambda>_. None),
     ad_updatePlacement = (\<lambda>_. None),
     ad_getOverride = (\<lambda>_ _. Inr \<lparr>wo_Meta = empty_meta, wo_Overrides = [\<lparr>co_ClusterName = ''c1'', co_Replicas = Some 1\<rparr>]\<rparr>),
     ad_createOverride = (\<lambda>_. None), ad_updateOverride = (\<lambda>_. None)\<rparr>"

theorem ReconcileFederationTargets_roundtrip_witness:
  "\<exists>p ov. ReconcileFederationTargets (demo_adapter\<lparr>ad_getPlacement := (\<lambda>_ _. Inr p), ad_getOverride := (\<lambda>_ _. Inr ov)\<rparr>)
     \<lparr>qn_Namespace = ''ns'', qn_Name = ''web''\<rparr> [(''c2'', 3), (''c1'', 2)] = (None, [])"
proof -
  let ?qn = "\<lparr>qn_Namespace = ''ns'', qn_Name = ''web''\<rparr>" and ?result = "[(''c1'', 2), (''c2'', 3)] :: (string, int) gomap"
  have ok: "gomap_ok ?result" by (simp add: gomap_ok_def)
  have "fst (ReconcileFederationTargets demo_adapter ?qn ?result) = None" by code_simp
  then obtain calls where run: "ReconcileFederationTargets demo_adapter ?qn ?result = (None, calls)"
    by (metis prod.collapse)
  have get: "gomap_ok (overrides_map (wo_Overrides ov))"
    if "ad_getOverride demo_adapter (qn_Namespace ?qn) (qn_Name ?qn) = Inr ov" for ov
    using that by (auto simp: demo_adapter_def overrides_map_def gomap_ok_def)
  have perm: "mset [(''c2'', 3), (''c1'', 2)] = mset ?result" by simp
  from ReconcileFederationTargets_roundtrip [OF run ok get] perm show ?thesis by blast
qed

end
