(* ===== verification/Join_Cluster.thy ===== *)
theory Join_Cluster
  imports Cluster_Config
begin

section \<open>Joining a cluster\<close>

text \<open>
  \<open>pkg/kubefnord/join.go\<close>, \<open>pkg/kubefnord/util/util.go\<close> and \<open>pkg/kubefnord/options/options.go\<close>: the
  command that adds a cluster to the federation. The API servers are a world \<open>'w\<close> that every
  request may change, seen through the parameter \<open>join_env\<close>; \<open>'c\<close> is a client of one of
  them. The calls that were made are logged in order. \<open>je_polls\<close> is how often
  \<open>wait.PollImmediate\<close> runs its condition, which depends on the clock.
\<close>

subsection \<open>Names and options\<close>

definition ClusterServiceAccountName :: "string \<Rightarrow> string \<Rightarrow> string" where
  "ClusterServiceAccountName joiningClusterName hostClusterName = joiningClusterName @ ''-'' @ hostClusterName"

definition ClusterRoleName :: "string \<Rightarrow> string" where
  "ClusterRoleName serviceAccountName = ''federation-controller-manager:'' @ serviceAccountName"

record SubcommandOptions =
  op_ClusterName :: string
  op_Host :: string
  op_FederationNamespace :: string
  op_Kubeconfig :: string
  op_DryRun :: bool

record joinFederation = SubcommandOptions +
  jf_clusterContext :: string
  jf_secretName :: string
  jf_addToRegistry :: bool

definition SetOptionsName :: "'a SubcommandOptions_scheme \<Rightarrow> string list \<Rightarrow> 'a SubcommandOptions_scheme go_result" where
  "SetOptionsName opts args =
     (if length args = 0 then Inl (ErrOther ''NAME is required'')
      else Inr (opts\<lparr>op_FederationNamespace := FederationSystemNamespace, op_ClusterName := args ! 0\<rparr>))"

definition Complete :: "joinFederation \<Rightarrow> string list \<Rightarrow> joinFederation go_result" where
  "Complete j args =
     rbind (SetOptionsName j args) (\<lambda>j.
       if jf_clusterContext j = [] then Inr (j\<lparr>jf_clusterContext := op_ClusterName j\<rparr>) else Inr j)"

subsection \<open>Objects of the API servers\<close>

record ServiceAccount =
  acc_Name :: string
  acc_Namespace :: string
  acc_Secrets :: "string list"

record Secret =
  se_Name :: string
  se_GenerateName :: string
  se_Namespace :: string
  se_Type :: string
  se_Data :: "(string, string) gomap"

record PolicyRule =
  pr_Verbs :: "string list"
  pr_APIGroups :: "string list"
  pr_Resources :: "string list"
  pr_NonResourceURLs :: "string list"

record ClusterRole =
  cr_Name :: string
  cr_Namespace :: string
  cr_Rules :: "PolicyRule list"

record Subject =
  sj_Kind :: string
  sj_Name :: string
  sj_Namespace :: string

record RoleRef =
  rr_APIGroup :: string
  rr_Kind :: string
  rr_Name :: string

record ClusterRoleBinding =
  rb_Name :: string
  rb_Namespace :: string
  rb_Subjects :: "Subject list"
  rb_RoleRef :: RoleRef

record RegistryCluster =
  rg_Name :: string
  rg_ServerEndpoints :: "ServerAddressByClientCIDR list"

text \<open>The first argument of a namespaced request is the namespace of the client.\<close>

datatype join_call =
    GetServiceAccount string string
  | CreateServiceAccount string ServiceAccount
  | GetCluster string string
  | CreateCluster string RegistryCluster
  | CreateNamespace string
  | CreateClusterRole ClusterRole
  | CreateClusterRoleBinding ClusterRoleBinding
  | GetSecret string string
  | CreateSecret string Secret
  | CreateFederatedCluster string FederatedCluster

fun is_read :: "join_call \<Rightarrow> bool" where
  "is_read (GetServiceAccount _ _) = True"
| "is_read (GetCluster _ _) = True"
| "is_read (GetSecret _ _) = True"
| "is_read _ = False"

text \<open>
  \<open>je_do\<close> answers the requests whose reply the code only tests for an error. The constructors
  \<open>NewForConfigOrDie\<close> return \<open>None\<close> where they panic.
\<close>

record ('c, 'w) join_env =
  je_newClient :: "rest_config \<Rightarrow> 'c option"
  je_newFed :: "rest_config \<Rightarrow> 'c option"
  je_newRegistry :: "rest_config \<Rightarrow> 'c option"
  je_config :: "string \<Rightarrow> string \<Rightarrow> rest_config go_result"
  je_getServiceAccount :: "'c \<Rightarrow> string \<Rightarrow> string \<Rightarrow> 'w \<Rightarrow> ServiceAccount go_result \<times> 'w"
  je_getSecret :: "'c \<Rightarrow> string \<Rightarrow> string \<Rightarrow> 'w \<Rightarrow> Secret go_result \<times> 'w"
  je_createSecret :: "'c \<Rightarrow> string \<Rightarrow> Secret \<Rightarrow> 'w \<Rightarrow> Secret go_result \<times> 'w"
  je_do :: "'c \<Rightarrow> join_call \<Rightarrow> 'w \<Rightarrow> unit go_result \<times> 'w"
  je_polls :: nat

subsection \<open>Sequencing of requests\<close>

type_synonym ('c, 'w) join_state = "'w \<times> ('c \<times> join_call) list"
type_synonym ('c, 'w, 'a) join_m = "('c, 'w) join_state \<Rightarrow> 'a go_result \<times> ('c, 'w) join_state"

definition jreturn :: "'a go_result \<Rightarrow> ('c, 'w, 'a) join_m" where
  "jreturn r s = (r, s)"

definition jbind :: "('c, 'w, 'a) join_m \<Rightarrow> ('a \<Rightarrow> ('c, 'w, 'b) join_m) \<Rightarrow> ('c, 'w, 'b) join_m" where
  "jbind m f s = (case m s of (Inl e, s') \<Rightarrow> (Inl e, s') | (Inr a, s') \<Rightarrow> f a s')"

text \<open>The reply of a request with its error, for code that goes on after one.\<close>

definition jtry :: "('c, 'w, 'a) join_m \<Rightarrow> ('c, 'w, 'a go_result) join_m" where
  "jtry m s = (case m s of (r, s') \<Rightarrow> (Inr r, s'))"

definition jcall :: "'c \<Rightarrow> join_call \<Rightarrow> ('w \<Rightarrow> 'a go_result \<times> 'w) \<Rightarrow> ('c, 'w, 'a) join_m" where
  "jcall c call f s = (case f (fst s) of (r, w) \<Rightarrow> (r, w, snd s @ [(c, call)]))"

definition jget_sa :: "('c, 'w) join_env \<Rightarrow> 'c \<Rightarrow> string \<Rightarrow> string \<Rightarrow> ('c, 'w, ServiceAccount) join_m" where
  "jget_sa env c ns name = jcall c (GetServiceAccount ns name) (je_getServiceAccount env c ns name)"

definition jget_secret :: "('c, 'w) join_env \<Rightarrow> 'c \<Rightarrow> string \<Rightarrow> string \<Rightarrow> ('c, 'w, Secret) join_m" where
  "jget_secret env c ns name = jcall c (GetSecret ns name) (je_getSecret env c ns name)"

definition jcreate_secret :: "('c, 'w) join_env \<Rightarrow> 'c \<Rightarrow> string \<Rightarrow> Secret \<Rightarrow> ('c, 'w, Secret) join_m" where
  "jcreate_secret env c ns secret = jcall c (CreateSecret ns secret) (je_createSecret env c ns secret)"

definition jdo :: "('c, 'w) join_env \<Rightarrow> 'c \<Rightarrow> join_call \<Rightarrow> ('c, 'w, unit) join_m" where
  "jdo env c call = jcall c call (je_do env c call)"

definition NewForConfigOrDie :: "'c option \<Rightarrow> 'c go_result" where
  "NewForConfigOrDie client = (case client of None \<Rightarrow> Inl (GoPanic ''NewForConfigOrDie'') | Some c \<Rightarrow> Inr c)"

definition HostClientset :: "('c, 'w) join_env \<Rightarrow> rest_config \<Rightarrow> 'c go_result" where
  "HostClientset env config = NewForConfigOrDie (je_newClient env config)"

definition ClusterClientset :: "('c, 'w) join_env \<Rightarrow> rest_config \<Rightarrow> 'c go_result" where
  "ClusterClientset env config = NewForConfigOrDie (je_newClient env config)"

definition ClusterRegistryClientset :: "('c, 'w) join_env \<Rightarrow> rest_config \<Rightarrow> 'c go_result" where
  "ClusterRegistryClientset env config = NewForConfigOrDie (je_newRegistry env config)"

definition FedClientset :: "('c, 'w) join_env \<Rightarrow> rest_config \<Rightarrow> 'c go_result" where
  "FedClientset env config = NewForConfigOrDie (je_newFed env config)"

definition HostConfig :: "('c, 'w) join_env \<Rightarrow> string \<Rightarrow> string \<Rightarrow> rest_config go_result" where
  "HostConfig env ctxt kubeconfigPath = rbind (je_config env ctxt kubeconfigPath) Inr"

definition ClusterConfig :: "('c, 'w) join_env \<Rightarrow> string \<Rightarrow> string \<Rightarrow> rest_config go_result" where
  "ClusterConfig env ctxt kubeconfigPath = rbind (je_config env ctxt kubeconfigPath) Inr"

subsection \<open>The steps of a join\<close>

text \<open>A successful \<open>Get\<close> of client-go returns an object, so \<open>sa\<close> is not nil there.\<close>

definition performPreflightChecks :: "('c, 'w) join_env \<Rightarrow> 'c \<Rightarrow> string \<Rightarrow> string \<Rightarrow> string \<Rightarrow> ('c, 'w, unit) join_m" where
  "performPreflightChecks env clusterClientset name host federationNamespace =
     jbind (jtry (jget_sa env clusterClientset federationNamespace (ClusterServiceAccountName name host)))
       (\<lambda>r. jreturn (case r of
          Inl err \<Rightarrow> if IsNotFound err then Inr () else Inl err
        | Inr sa \<Rightarrow> Inl (ErrOther ''service account already exists in joining cluster'')))"

definition new_registry_cluster :: "string \<Rightarrow> string \<Rightarrow> RegistryCluster" where
  "new_registry_cluster host joiningClusterName =
     \<lparr>rg_Name = joiningClusterName,
      rg_ServerEndpoints = [\<lparr>sa_ClientCIDR = ''0.0.0.0/0'', sa_ServerAddress = host\<rparr>]\<rparr>"

definition registerCluster :: "('c, 'w) join_env \<Rightarrow> 'c \<Rightarrow> string \<Rightarrow> string \<Rightarrow> bool \<Rightarrow> ('c, 'w, unit) join_m" where
  "registerCluster env crClientset host joiningClusterName dryRun =
     (if dryRun then jreturn (Inr ())
      else jdo env crClientset
             (CreateCluster MulticlusterPublicNamespace (new_registry_cluster host joiningClusterName)))"

definition addToClusterRegistry :: "('c, 'w) join_env \<Rightarrow> rest_config \<Rightarrow> string \<Rightarrow> string \<Rightarrow> bool \<Rightarrow> ('c, 'w, unit) join_m" where
  "addToClusterRegistry env hostConfig host joiningClusterName dryRun =
     jbind (jreturn (ClusterRegistryClientset env hostConfig))
       (\<lambda>crClientset. registerCluster env crClientset host joiningClusterName dryRun)"

definition verifyExistsInClusterRegistry :: "('c, 'w) join_env \<Rightarrow> rest_config \<Rightarrow> string \<Rightarrow> ('c, 'w, unit) join_m" where
  "verifyExistsInClusterRegistry env hostConfig joiningClusterName =
     jbind (jreturn (ClusterRegistryClientset env hostConfig)) (\<lambda>crClientset.
     jbind (jtry (jdo env crClientset (GetCluster MulticlusterPublicNamespace joiningClusterName)))
       (\<lambda>r. jreturn (case r of
          Inl err \<Rightarrow> if IsNotFound err then Inl (ErrOther ''Cluster does not exist in the cluster registry.'') else Inl err
        | Inr _ \<Rightarrow> Inr ())))"

definition new_federated_cluster :: "string \<Rightarrow> string \<Rightarrow> FederatedCluster" where
  "new_federated_cluster joiningClusterName secretName =
     \<lparr>fc_Meta = empty_meta\<lparr>om_Name := joiningClusterName\<rparr>,
      fc_Spec = \<lparr>fs_ClusterRef = joiningClusterName, fs_SecretRef = Some secretName\<rparr>,
      fc_Status = \<lparr>fst_Conditions = [], fst_Zone = [], fst_Region = []\<rparr>\<rparr>"

definition createFederatedCluster :: "('c, 'w) join_env \<Rightarrow> 'c \<Rightarrow> string \<Rightarrow> string \<Rightarrow> bool \<Rightarrow> ('c, 'w, unit) join_m" where
  "createFederatedCluster env fedClientset joiningClusterName secretName dryRun =
     (if dryRun then jreturn (Inr ())
      else jdo env fedClientset
             (CreateFederatedCluster FederationSystemNamespace (new_federated_cluster joiningClusterName secretName)))"

definition createFederationNamespace :: "('c, 'w) join_env \<Rightarrow> 'c \<Rightarrow> string \<Rightarrow> bool \<Rightarrow> ('c, 'w, string) join_m" where
  "createFederationNamespace env clusterClientset federationNamespace dryRun =
     (if dryRun then jreturn (Inr federationNamespace)
      else jbind (jtry (jdo env clusterClientset (CreateNamespace federationNamespace)))
        (\<lambda>r. jreturn (case r of
           Inl err \<Rightarrow> if \<not> IsAlreadyExists err then Inl err else Inr federationNamespace
         | Inr _ \<Rightarrow> Inr federationNamespace)))"

definition createServiceAccount :: "('c, 'w) join_env \<Rightarrow> 'c \<Rightarrow> string \<Rightarrow> string \<Rightarrow> string \<Rightarrow> bool \<Rightarrow> ('c, 'w, string) join_m" where
  "createServiceAccount env clusterClientset namespace joiningClusterName hostClusterName dryRun =
     (let saName = ClusterServiceAccountName joiningClusterName hostClusterName;
          sa = \<lparr>acc_Name = saName, acc_Namespace = namespace, acc_Secrets = []\<rparr>
      in if dryRun then jreturn (Inr saName)
         else jbind (jdo env clusterClientset (CreateServiceAccount namespace sa)) (\<lambda>_. jreturn (Inr saName)))"

definition join_rules :: "PolicyRule list" where
  "join_rules =
     [\<lparr>pr_Verbs = [''*''], pr_APIGroups = [''*''], pr_Resources = [''*''], pr_NonResourceURLs = []\<rparr>,
      \<lparr>pr_Verbs = [''Get''], pr_APIGroups = [], pr_Resources = [], pr_NonResourceURLs = [''/healthz'']\<rparr>]"

definition new_cluster_role :: "string \<Rightarrow> string \<Rightarrow> ClusterRole" where
  "new_cluster_role saName namespace =
     \<lparr>cr_Name = ClusterRoleName saName, cr_Namespace = namespace, cr_Rules = join_rules\<rparr>"

definition new_role_binding :: "string \<Rightarrow> string \<Rightarrow> ClusterRoleBinding" where
  "new_role_binding saName namespace =
     \<lparr>rb_Name = ClusterRoleName saName, rb_Namespace = namespace,
      rb_Subjects = [\<lparr>sj_Kind = ''ServiceAccount'', sj_Name = saName, sj_Namespace = namespace\<rparr>],
      rb_RoleRef = \<lparr>rr_APIGroup = ''rbac.authorization.k8s.io'', rr_Kind = ''ClusterRole'',
        rr_Name = ClusterRoleName saName\<rparr>\<rparr>"

definition createClusterRoleBinding :: "('c, 'w) join_env \<Rightarrow> 'c \<Rightarrow> string \<Rightarrow> string \<Rightarrow> bool \<Rightarrow> ('c, 'w, unit) join_m" where
  "createClusterRoleBinding env clusterClientset saName namespace dryRun =
     (if dryRun then jreturn (Inr ())
      else jbind (jdo env clusterClientset (CreateClusterRole (new_cluster_role saName namespace)))
        (\<lambda>_. jdo env clusterClientset (CreateClusterRoleBinding (new_role_binding saName namespace))))"

definition SecretTypeServiceAccountToken :: string where
  "SecretTypeServiceAccountToken = ''kubernetes.io/service-account-token''"

text \<open>
  The condition polled for: \<open>Some secret\<close> is \<open>true\<close> with the variable \<open>secret\<close> set. Errors are
  swallowed, so an account or a secret that cannot be read is asked for again.
\<close>

fun secrets_loop :: "('c, 'w) join_env \<Rightarrow> 'c \<Rightarrow> string \<Rightarrow> string list \<Rightarrow> ('c, 'w, Secret option) join_m" where
  "secrets_loop env c namespace [] = jreturn (Inr None)"
| "secrets_loop env c namespace (saSecretName # rest) =
     jbind (jtry (jget_secret env c namespace saSecretName)) (\<lambda>r. case r of
       Inl err \<Rightarrow> jreturn (Inr None)
     | Inr secret \<Rightarrow>
         if se_Type secret = SecretTypeServiceAccountToken then jreturn (Inr (Some secret))
         else secrets_loop env c namespace rest)"

definition secret_condition :: "('c, 'w) join_env \<Rightarrow> 'c \<Rightarrow> string \<Rightarrow> string \<Rightarrow> ('c, 'w, Secret option) join_m" where
  "secret_condition env c namespace saName =
     jbind (jtry (jget_sa env c namespace saName)) (\<lambda>r. case r of
       Inl err \<Rightarrow> jreturn (Inr None)
     | Inr sa \<Rightarrow> secrets_loop env c namespace (acc_Secrets sa))"

fun poll_secret :: "('c, 'w) join_env \<Rightarrow> 'c \<Rightarrow> string \<Rightarrow> string \<Rightarrow> nat \<Rightarrow> ('c, 'w, Secret) join_m" where
  "poll_secret env c namespace saName 0 = jreturn (Inl (ErrOther ''timed out waiting for the condition''))"
| "poll_secret env c namespace saName (Suc n) =
     jbind (secret_condition env c namespace saName) (\<lambda>r. case r of
       None \<Rightarrow> poll_secret env c namespace saName n
     | Some secret \<Rightarrow> jreturn (Inr secret))"

definition host_secret :: "string \<Rightarrow> string \<Rightarrow> string \<Rightarrow> Secret \<Rightarrow> Secret" where
  "host_secret namespace joiningClusterName secretName secret =
     (let v1Secret = \<lparr>se_Name = [], se_GenerateName = [], se_Namespace = namespace, se_Type = [], se_Data = se_Data secret\<rparr>
      in if secretName = [] then v1Secret\<lparr>se_GenerateName := joiningClusterName @ ''-''\<rparr>
         else v1Secret\<lparr>se_Name := secretName\<rparr>)"

definition populateSecretInHostCluster :: "('c, 'w) join_env \<Rightarrow> 'c \<Rightarrow> 'c \<Rightarrow> string \<Rightarrow> string \<Rightarrow> string \<Rightarrow> string
    \<Rightarrow> bool \<Rightarrow> ('c, 'w, Secret) join_m" where
  "populateSecretInHostCluster env clusterClientset hostClientset saName namespace joiningClusterName secretName dryRun =
     (if dryRun then
        jreturn (Inr \<lparr>se_Name = secretName, se_GenerateName = [], se_Namespace = [], se_Type = [], se_Data = []\<rparr>)
      else jbind (poll_secret env clusterClientset namespace saName (je_polls env)) (\<lambda>secret.
        jcreate_secret env hostClientset namespace (host_secret namespace joiningClusterName secretName secret)))"

definition createRBACSecret :: "('c, 'w) join_env \<Rightarrow> 'c \<Rightarrow> 'c \<Rightarrow> string \<Rightarrow> string \<Rightarrow> string \<Rightarrow> string \<Rightarrow> bool
    \<Rightarrow> ('c, 'w, Secret) join_m" where
  "createRBACSecret env hostClientset joiningClientset namespace joiningClusterName hostClusterName secretName dryRun =
     jbind (createServiceAccount env joiningClientset namespace joiningClusterName hostClusterName dryRun) (\<lambda>saName.
     jbind (createClusterRoleBinding env joiningClientset saName namespace dryRun) (\<lambda>_.
     populateSecretInHostCluster env joiningClientset hostClientset saName namespace joiningClusterName secretName dryRun))"

definition JoinCluster :: "('c, 'w) join_env \<Rightarrow> rest_config \<Rightarrow> rest_config \<Rightarrow> string \<Rightarrow> string \<Rightarrow> string \<Rightarrow> string
    \<Rightarrow> bool \<Rightarrow> bool \<Rightarrow> ('c, 'w, unit) join_m" where
  "JoinCluster env hostConfig clusterConfig federationNamespace host joiningClusterName secretName addToRegistry dryRun =
     jbind (jreturn (HostClientset env hostConfig)) (\<lambda>hostClientset.
     jbind (jreturn (ClusterClientset env clusterConfig)) (\<lambda>clusterClientset.
     jbind (jreturn (FedClientset env hostConfig)) (\<lambda>fedClientset.
     jbind (performPreflightChecks env clusterClientset joiningClusterName host federationNamespace) (\<lambda>_.
     jbind (if addToRegistry
            then addToClusterRegistry env hostConfig (rc_Host clusterConfig) joiningClusterName dryRun
            else verifyExistsInClusterRegistry env hostConfig joiningClusterName) (\<lambda>_.
     jbind (createFederationNamespace env clusterClientset federationNamespace dryRun) (\<lambda>_.
     jbind (createRBACSecret env hostClientset clusterClientset federationNamespace joiningClusterName host
              secretName dryRun) (\<lambda>secret.
     createFederatedCluster env fedClientset joiningClusterName (se_Name secret) dryRun)))))))"

definition Run :: "('c, 'w) join_env \<Rightarrow> joinFederation \<Rightarrow> ('c, 'w, unit) join_m" where
  "Run env j =
     jbind (jreturn (HostConfig env (op_Host j) (op_Kubeconfig j))) (\<lambda>hostConfig.
     jbind (jreturn (ClusterConfig env (jf_clusterContext j) (op_Kubeconfig j))) (\<lambda>clusterConfig.
     JoinCluster env hostConfig clusterConfig (op_FederationNamespace j) (op_Host j) (op_ClusterName j)
       (jf_secretName j) (jf_addToRegistry j) (op_DryRun j)))"

text \<open>The command: \<open>Complete\<close>, then \<open>Run\<close>; an error of either ends the process with its message.\<close>

definition join_command :: "('c, 'w) join_env \<Rightarrow> joinFederation \<Rightarrow> string list \<Rightarrow> ('c, 'w, unit) join_m" where
  "join_command env opts args = jbind (jreturn (Complete opts args)) (Run env)"

end
