(* ===== verification/Join_Claims.thy ===== *)
theory Join_Claims
  imports Join_Cluster
begin

section \<open>Properties of a join\<close>

text \<open>
  What a join does to the API servers: nothing in a dry run, the requests of a successful run in
  their order, and what a run that fails half way leaves behind.
\<close>

lemma jbind_Inr_iff:
  "jbind m f s = (Inr b, s') \<longleftrightarrow> (\<exists>a s1. m s = (Inr a, s1) \<and> f a s1 = (Inr b, s'))"
  by (auto simp: jbind_def split: prod.splits sum.splits)

lemma jbind_cases:
  obtains e s1 where "m s = (Inl e, s1)" "jbind m f s = (Inl e, s1)"
  | a s1 where "m s = (Inr a, s1)" "jbind m f s = f a s1"
  by (cases "m s"; cases "fst (m s)") (auto simp: jbind_def)

lemma jreturn_Inr_iff: "jreturn r s = (Inr b, s') \<longleftrightarrow> r = Inr b \<and> s' = s"
  by (auto simp: jreturn_def)

lemma jtry_Inr_iff: "jtry m s = (Inr r, s') \<longleftrightarrow> m s = (r, s')"
  by (auto simp: jtry_def split: prod.splits)

lemma jcall_iff: "jcall c call f s = (r, s') \<longleftrightarrow>
    f (fst s) = (r, fst s') \<and> snd s' = snd s @ [(c, call)]"
  by (cases s; cases s') (auto simp: jcall_def split: prod.splits)

lemma NewForConfigOrDie_iff: "NewForConfigOrDie client = Inr c \<longleftrightarrow> client = Some c"
  by (auto simp: NewForConfigOrDie_def split: option.splits)

lemmas jrequest_defs = jget_sa_def jget_secret_def jcreate_secret_def jdo_def
lemmas jclient_defs = HostClientset_def ClusterClientset_def FedClientset_def ClusterRegistryClientset_def
  NewForConfigOrDie_iff
lemmas jsteps = jbind_Inr_iff jreturn_Inr_iff jtry_Inr_iff jcall_iff

subsection \<open>Dry runs\<close>

definition reads_only :: "nat \<Rightarrow> ('c, 'w, 'a) join_m \<Rightarrow> bool" where
  "reads_only n m \<longleftrightarrow> (\<forall>s. \<exists>calls. snd (snd (m s)) = snd s @ calls \<and>
     list_all (\<lambda>(c, call). is_read call) calls \<and> length calls \<le> n)"

lemma reads_only_jreturn [intro]: "reads_only n (jreturn r)"
  by (simp add: reads_only_def jreturn_def)

lemma reads_only_jcall [intro]: "is_read call \<Longrightarrow> reads_only (Suc 0) (jcall c call f)"
  by (auto simp: reads_only_def jcall_def split: prod.splits)

lemma reads_only_jtry [intro]: "reads_only n m \<Longrightarrow> reads_only n (jtry m)"
  by (simp add: reads_only_def jtry_def case_prod_beta)

lemma reads_only_jbind:
  assumes m: "reads_only a m" and f: "\<And>x. reads_only b (f x)"
  shows "reads_only (a + b) (jbind m f)"
  unfolding reads_only_def
proof
  fix s
  obtain r s1 where ms: "m s = (r, s1)" by (metis prod.collapse)
  obtain calls where c: "snd s1 = snd s @ calls" "list_all (\<lambda>(c, call). is_read call) calls" "length calls \<le> a"
    using m ms unfolding reads_only_def by (metis snd_conv)
  show "\<exists>calls. snd (snd (jbind m f s)) = snd s @ calls \<and>
     list_all (\<lambda>(c, call). is_read call) calls \<and> length calls \<le> a + b"
  proof (cases r)
    case Inl
    with ms c show ?thesis by (auto simp: jbind_def)
  next
    case (Inr x)
    obtain calls' where "snd (snd (f x s1)) = snd s1 @ calls'"
      "list_all (\<lambda>(c, call). is_read call) calls'" "length calls' \<le> b"
      using f unfolding reads_only_def by blast
    with Inr ms c show ?thesis by (intro exI [of _ "calls @ calls'"]) (simp add: jbind_def)
  qed
qed

lemma reads_only_then_return: "reads_only n m \<Longrightarrow> reads_only n (jbind m (\<lambda>x. jreturn (g x)))"
  using reads_only_jbind [of n m 0, OF _ reads_only_jreturn] by simp

lemma reads_only_pure: "(\<And>x. reads_only n (f x)) \<Longrightarrow> reads_only n (jbind (jreturn r) f)"
  using reads_only_jbind [of 0 "jreturn r" n f, OF reads_only_jreturn] by simp

lemma reads_only_preflight: "reads_only 1 (performPreflightChecks env c name host ns)"
  unfolding performPreflightChecks_def jget_sa_def One_nat_def
  by (intro reads_only_then_return reads_only_jtry reads_only_jcall) simp

lemma reads_only_verify: "reads_only 1 (verifyExistsInClusterRegistry env hostConfig name)"
  unfolding verifyExistsInClusterRegistry_def jdo_def One_nat_def
  by (intro reads_only_pure reads_only_then_return reads_only_jtry reads_only_jcall) simp

text \<open>
  A dry run creates nothing: it sends at most two requests, both reads, whatever the API servers
  answer. It does send them, although the flag promises no server requests.
\<close>

lemma join_dry_run:
  assumes "op_DryRun j"
  shows "\<exists>calls. snd (snd (Run env j s)) = snd s @ calls \<and> list_all (\<lambda>(c, call). is_read call) calls \<and>
    length calls \<le> 2"
proof -
  have dry: "op_DryRun j = True" using assms by simp
  have reg: "reads_only 1 (if jf_addToRegistry j
      then addToClusterRegistry env hc h (op_ClusterName j) (op_DryRun j)
      else verifyExistsInClusterRegistry env hc (op_ClusterName j))" for hc h
    using assms reads_only_verify
    by (auto simp: addToClusterRegistry_def registerCluster_def intro!: reads_only_pure reads_only_jreturn)
  have tail: "reads_only 0 (jbind (createFederationNamespace env c ns (op_DryRun j)) (\<lambda>_.
      jbind (createRBACSecret env h c ns name host sn (op_DryRun j)) (\<lambda>secret.
      createFederatedCluster env f name (se_Name secret) (op_DryRun j))))" for h c f ns name host sn
    by (simp add: dry createFederationNamespace_def createRBACSecret_def createServiceAccount_def Let_def
        createClusterRoleBinding_def populateSecretInHostCluster_def createFederatedCluster_def
        reads_only_def jbind_def jreturn_def)
  have "reads_only (1 + (1 + 0))
      (JoinCluster env hc cc ns host (op_ClusterName j) sn (jf_addToRegistry j) (op_DryRun j))" for hc cc ns host sn
    unfolding JoinCluster_def
    by (rule reads_only_pure, rule reads_only_pure, rule reads_only_pure, rule reads_only_jbind,
        rule reads_only_preflight, rule reads_only_jbind, rule reg, rule tail)
  then have "reads_only 2 (JoinCluster env hc cc ns host (op_ClusterName j) sn (jf_addToRegistry j) (op_DryRun j))"
    for hc cc ns host sn
    by (metis add_0_right one_add_one)
  then have "reads_only 2 (Run env j)"
    unfolding Run_def by (intro reads_only_pure)
  then show ?thesis unfolding reads_only_def by blast
qed

text \<open>
  Concrete API servers: the world lists the service accounts; each comes with a token; \<open>ok\<close> tells
  whether cluster roles can be created.
\<close>

fun demo_do :: "bool \<Rightarrow> string \<Rightarrow> join_call \<Rightarrow> string list \<Rightarrow> unit go_result \<times> string list" where
  "demo_do ok c (CreateServiceAccount ns sa) w = (Inr (), acc_Name sa # w)"
| "demo_do ok c (CreateClusterRole role) w = (if ok then Inr () else Inl (ErrOther ''forbidden''), w)"
| "demo_do ok c call w = (Inr (), w)"

definition demo_config :: "string \<Rightarrow> rest_config" where
  "demo_config h = \<lparr>rc_Host = h, rc_CAData = [], rc_BearerToken = [], rc_QPS = 0, rc_Burst = 0\<rparr>"

definition demo_join :: "bool \<Rightarrow> (string, string list) join_env" where
  "demo_join ok =
     \<lparr>je_newClient = (\<lambda>config. Some (rc_Host config)), je_newFed = (\<lambda>_. Some ''fed''), je_newRegistry = (\<lambda>_. Some ''registry''),
      je_config = (\<lambda>ctxt _. Inr (demo_config ctxt)),
      je_getServiceAccount = (\<lambda>c ns name w. (if name \<in> set w
         then Inr \<lparr>acc_Name = name, acc_Namespace = ns, acc_Secrets = [''token'']\<rparr> else Inl (ErrNotFound name), w)),
      je_getSecret = (\<lambda>c ns name w. (Inr \<lparr>se_Name = name, se_GenerateName = [], se_Namespace = ns,
         se_Type = SecretTypeServiceAccountToken, se_Data = [(''token'', ''abc'')]\<rparr>, w)),
      je_createSecret = (\<lambda>c ns secret w. (Inr secret, w)),
      je_do = demo_do ok, je_polls = 1\<rparr>"

definition demo_options :: "bool \<Rightarrow> joinFederation" where
  "demo_options dryRun =
     \<lparr>op_ClusterName = ''c1'', op_Host = ''host'', op_FederationNamespace = ''ns'', op_Kubeconfig = [],
      op_DryRun = dryRun, jf_clusterContext = ''c1'', jf_secretName = ''s1'', jf_addToRegistry = False\<rparr>"

lemma join_dry_run_example:
  "\<exists>calls. snd (snd (Run (demo_join True) (demo_options True) ([], []))) = [] @ calls \<and>
     list_all (\<lambda>(c, call). is_read call) calls \<and> length calls \<le> 2"
  using join_dry_run [of "demo_options True" "demo_join True" "([], [])"]
  by (simp only: demo_options_def SubcommandOptions.simps joinFederation.simps snd_conv simp_thms)

subsection \<open>Successful runs\<close>

text \<open>The token of a service account: a secret it names, of the right type, as the API returned both.\<close>

definition account_token :: "('c, 'w) join_env \<Rightarrow> 'c \<Rightarrow> string \<Rightarrow> string \<Rightarrow> Secret \<Rightarrow> bool" where
  "account_token env c ns saName tok \<longleftrightarrow> se_Type tok = SecretTypeServiceAccountToken \<and>
     (\<exists>w1 acc w2 n w3 w4. je_getServiceAccount env c ns saName w1 = (Inr acc, w2) \<and> n \<in> set (acc_Secrets acc) \<and>
        je_getSecret env c ns n w3 = (Inr tok, w4))"

definition reads_to :: "('c, 'w) join_state \<Rightarrow> ('c, 'w) join_state \<Rightarrow> bool" where
  "reads_to s s' \<longleftrightarrow> filter (\<lambda>(c, call). \<not> is_read call) (snd s') = filter (\<lambda>(c, call). \<not> is_read call) (snd s)"

lemma secrets_loop_spec:
  "secrets_loop env c ns names s = (r, s') \<Longrightarrow> reads_to s s' \<and> (\<exists>t. r = Inr t \<and>
     (\<forall>tok. t = Some tok \<longrightarrow> se_Type tok = SecretTypeServiceAccountToken \<and>
        (\<exists>n \<in> set names. \<exists>w w'. je_getSecret env c ns n w = (Inr tok, w'))))"
proof (induction names arbitrary: s)
  case Nil
  then show ?case by (auto simp: jreturn_def reads_to_def)
next
  case (Cons n names)
  obtain g w1 where g: "je_getSecret env c ns n (fst s) = (g, w1)" by (metis prod.collapse)
  note step = Cons.prems [simplified jbind_def jtry_def jget_secret_def jcall_def secrets_loop.simps g, simplified]
  show ?case
  proof (cases g)
    case Inl
    with step show ?thesis by (auto simp: jreturn_def reads_to_def)
  next
    case (Inr secret)
    show ?thesis
    proof (cases "se_Type secret = SecretTypeServiceAccountToken")
      case True
      with step Inr g show ?thesis by (auto simp: jreturn_def reads_to_def)
    next
      case False
      with step Inr have "secrets_loop env c ns names (w1, snd s @ [(c, GetSecret ns n)]) = (r, s')" by simp
      from Cons.IH [OF this] show ?thesis by (auto simp: reads_to_def)
    qed
  qed
qed

lemma secret_condition_spec:
  "secret_condition env c ns saName s = (r, s') \<Longrightarrow> reads_to s s' \<and> (\<exists>t. r = Inr t \<and>
     (\<forall>tok. t = Some tok \<longrightarrow> account_token env c ns saName tok))"
proof -
  assume step: "secret_condition env c ns saName s = (r, s')"
  obtain g w1 where g: "je_getServiceAccount env c ns saName (fst s) = (g, w1)" by (metis prod.collapse)
  note step' = step [simplified secret_condition_def jbind_def jtry_def jget_sa_def jcall_def g, simplified]
  show ?thesis
  proof (cases g)
    case Inl
    with step' show ?thesis by (auto simp: jreturn_def reads_to_def)
  next
    case (Inr acc)
    with step' have "secrets_loop env c ns (acc_Secrets acc) (w1, snd s @ [(c, GetServiceAccount ns saName)]) = (r, s')"
      by simp
    from secrets_loop_spec [OF this] g Inr show ?thesis
      by (fastforce simp: reads_to_def account_token_def)
  qed
qed

lemma poll_secret_spec:
  "poll_secret env c ns saName n s = (r, s') \<Longrightarrow> reads_to s s' \<and>
     (\<forall>tok. r = Inr tok \<longrightarrow> account_token env c ns saName tok)"
proof (induction n arbitrary: s)
  case 0
  then show ?case by (auto simp: jreturn_def reads_to_def)
next
  case (Suc n)
  obtain t s1 where c: "secret_condition env c ns saName s = (Inr t, s1)"
    using secret_condition_spec by (metis prod.collapse)
  from secret_condition_spec [OF this] Suc c show ?case
    by (cases t) (fastforce simp: jbind_def jreturn_def reads_to_def)+
qed

definition changes :: "('c \<times> join_call) list \<Rightarrow> ('c \<times> join_call) list" where
  "changes calls = filter (\<lambda>(c, call). \<not> is_read call) calls"

lemma changes_append [simp]: "changes (a @ b) = changes a @ changes b"
  by (simp add: changes_def)

lemma changes_single: "changes ((c, call) # calls) = (if is_read call then [] else [(c, call)]) @ changes calls"
  by (simp add: changes_def)

lemma changes_Nil [simp]: "changes [] = []"
  by (simp add: changes_def)

lemma reads_to_changes: "reads_to s s' \<longleftrightarrow> changes (snd s') = changes (snd s)"
  by (simp add: reads_to_def changes_def)

lemma preflight_Inr:
  "performPreflightChecks env c name host ns s = (Inr u, s') \<Longrightarrow> changes (snd s') = changes (snd s)"
  by (auto simp: performPreflightChecks_def jget_sa_def jsteps changes_single)

lemma registry_Inr:
  "(if add then addToClusterRegistry env hc h name False else verifyExistsInClusterRegistry env hc name) s = (Inr u, s')
   \<Longrightarrow> \<exists>r. je_newRegistry env hc = Some r \<and> changes (snd s') = changes (snd s) @
     (if add then [(r, CreateCluster MulticlusterPublicNamespace (new_registry_cluster h name))] else [])"
  by (auto simp: addToClusterRegistry_def registerCluster_def verifyExistsInClusterRegistry_def jdo_def
      jclient_defs jsteps changes_single split: if_splits)

lemma namespace_Inr:
  "createFederationNamespace env c ns False s = (Inr u, s') \<Longrightarrow>
     changes (snd s') = changes (snd s) @ [(c, CreateNamespace ns)]"
  by (auto simp: createFederationNamespace_def jdo_def jsteps changes_single)

lemma rbac_Inr:
  assumes "createRBACSecret env h c ns name host sn False s = (Inr created, s')"
  shows "\<exists>tok. account_token env c ns (ClusterServiceAccountName name host) tok \<and>
    (\<exists>w w'. je_createSecret env h ns (host_secret ns name sn tok) w = (Inr created, w')) \<and>
    changes (snd s') = changes (snd s) @
      [(c, CreateServiceAccount ns \<lparr>acc_Name = ClusterServiceAccountName name host, acc_Namespace = ns, acc_Secrets = []\<rparr>),
       (c, CreateClusterRole (new_cluster_role (ClusterServiceAccountName name host) ns)),
       (c, CreateClusterRoleBinding (new_role_binding (ClusterServiceAccountName name host) ns)),
       (h, CreateSecret ns (host_secret ns name sn tok))]"
proof -
  let ?sa = "ClusterServiceAccountName name host"
  from assms obtain s1 s2 u where
    acc: "createServiceAccount env c ns name host False s = (Inr ?sa, s1)" and
    role: "createClusterRoleBinding env c ?sa ns False s1 = (Inr u, s2)" and
    pop: "populateSecretInHostCluster env c h ?sa ns name sn False s2 = (Inr created, s')"
    unfolding createRBACSecret_def jbind_Inr_iff
    by (auto simp: createServiceAccount_def Let_def jsteps)
  from pop obtain tok s3 where
    poll: "poll_secret env c ns ?sa (je_polls env) s2 = (Inr tok, s3)" and
    put: "jcreate_secret env h ns (host_secret ns name sn tok) s3 = (Inr created, s')"
    by (auto simp: populateSecretInHostCluster_def jbind_Inr_iff)
  from acc role put poll_secret_spec [OF poll] show ?thesis
    by (intro exI [of _ tok])
      (auto simp: createServiceAccount_def createClusterRoleBinding_def Let_def jdo_def jcreate_secret_def
        jsteps changes_single reads_to_changes)
qed

text \<open>
  C25. A successful join has made exactly these changes, in this order: it registered the cluster if
  asked to, created the namespace, account, role and binding in the joining cluster, copied a token
  of that account to the host cluster, and created a federated cluster naming the secret created.
\<close>

theorem join_success:
  assumes "JoinCluster env hc cc ns host name sn add False s = (Inr (), s')"
  shows "\<exists>h c f r tok created.
    je_newClient env hc = Some h \<and> je_newClient env cc = Some c \<and> je_newFed env hc = Some f \<and>
    je_newRegistry env hc = Some r \<and>
    account_token env c ns (ClusterServiceAccountName name host) tok \<and>
    (\<exists>w w'. je_createSecret env h ns (host_secret ns name sn tok) w = (Inr created, w')) \<and>
    changes (snd s') = changes (snd s) @
      (if add then [(r, CreateCluster MulticlusterPublicNamespace (new_registry_cluster (rc_Host cc) name))] else []) @
      [(c, CreateNamespace ns),
       (c, CreateServiceAccount ns \<lparr>acc_Name = ClusterServiceAccountName name host, acc_Namespace = ns, acc_Secrets = []\<rparr>),
       (c, CreateClusterRole (new_cluster_role (ClusterServiceAccountName name host) ns)),
       (c, CreateClusterRoleBinding (new_role_binding (ClusterServiceAccountName name host) ns)),
       (h, CreateSecret ns (host_secret ns name sn tok)),
       (f, CreateFederatedCluster FederationSystemNamespace (new_federated_cluster name (se_Name created)))]"
proof -
  from assms obtain h c f s1 s2 s3 s4 u1 u2 u3 created where
    clients: "je_newClient env hc = Some h" "je_newClient env cc = Some c" "je_newFed env hc = Some f" and
    pre: "performPreflightChecks env c name host ns s = (Inr u1, s1)" and
    reg: "(if add then addToClusterRegistry env hc (rc_Host cc) name False
       else verifyExistsInClusterRegistry env hc name) s1 = (Inr u2, s2)" and
    nsp: "createFederationNamespace env c ns False s2 = (Inr u3, s3)" and
    rbac: "createRBACSecret env h c ns name host sn False s3 = (Inr created, s4)" and
    fed: "createFederatedCluster env f name (se_Name created) False s4 = (Inr (), s')"
    unfolding JoinCluster_def jbind_Inr_iff jreturn_Inr_iff jclient_defs by blast
  from fed have "changes (snd s') = changes (snd s4) @
      [(f, CreateFederatedCluster FederationSystemNamespace (new_federated_cluster name (se_Name created)))]"
    by (simp add: createFederatedCluster_def jdo_def jcall_iff changes_single)
  with clients preflight_Inr [OF pre] registry_Inr [OF reg] namespace_Inr [OF nsp] rbac_Inr [OF rbac]
  show ?thesis by fastforce
qed

definition demo_run :: "bool \<Rightarrow> unit go_result \<times> (string, string list) join_state" where
  "demo_run ok = JoinCluster (demo_join ok) (demo_config ''host'') (demo_config ''c1'') ''ns'' ''host'' ''c1'' ''s1'' ok False ([], [])"

lemma demo_run_ok: "fst (demo_run True) = Inr ()"
  by code_simp

theorem join_success_witness:
  "\<exists>tok. account_token (demo_join True) ''c1'' ''ns'' (ClusterServiceAccountName ''c1'' ''host'') tok \<and>
     (''host'', CreateSecret ''ns'' (host_secret ''ns'' ''c1'' ''s1'' tok)) \<in> set (changes (snd (snd (demo_run True))))"
proof -
  have "demo_run True = (Inr (), snd (demo_run True))"
    using demo_run_ok by (metis prod.collapse)
  from join_success [OF this [unfolded demo_run_def]]
  show ?thesis by (auto simp: demo_join_def demo_config_def demo_run_def)
qed

subsection \<open>Runs that fail half way\<close>

text \<open>
  Once an account was created in the joining cluster, reading it finds it, whatever other requests of
  a join follow: \<open>P\<close> holds of the worlds in which it exists.
\<close>

definition durable_account :: "('c, 'w) join_env \<Rightarrow> 'c \<Rightarrow> string \<Rightarrow> string \<Rightarrow> ('w \<Rightarrow> bool) \<Rightarrow> bool" where
  "durable_account env c ns saName P \<longleftrightarrow>
     (\<forall>acc w w'. acc_Name acc = saName \<and> je_do env c (CreateServiceAccount ns acc) w = (Inr (), w') \<longrightarrow> P w') \<and>
     (\<forall>w. P w \<longrightarrow> (\<exists>acc w'. je_getServiceAccount env c ns saName w = (Inr acc, w'))) \<and>
     (\<forall>c' call w. P w \<longrightarrow> P (snd (je_do env c' call w))) \<and>
     (\<forall>c' ns' n w. P w \<longrightarrow> P (snd (je_getServiceAccount env c' ns' n w))) \<and>
     (\<forall>c' ns' n w. P w \<longrightarrow> P (snd (je_getSecret env c' ns' n w))) \<and>
     (\<forall>c' ns' secret w. P w \<longrightarrow> P (snd (je_createSecret env c' ns' secret w)))"

lemma durable_created:
  assumes "durable_account env c ns saName P" and "je_do env c (CreateServiceAccount ns acc) w = (Inr (), w')"
    and "acc_Name acc = saName"
  shows "P w'"
  using assms unfolding durable_account_def by blast

lemma durable_found:
  assumes "durable_account env c ns saName P" and "P w"
  shows "\<exists>acc w'. je_getServiceAccount env c ns saName w = (Inr acc, w')"
  using assms by (simp add: durable_account_def)

definition keeps :: "('w \<Rightarrow> bool) \<Rightarrow> ('c, 'w, 'a) join_m \<Rightarrow> bool" where
  "keeps P m \<longleftrightarrow> (\<forall>s. P (fst s) \<longrightarrow> P (fst (snd (m s))))"

lemma keeps_jreturn [intro]: "keeps P (jreturn r)"
  by (simp add: keeps_def jreturn_def)

lemma keeps_jtry [intro]: "keeps P m \<Longrightarrow> keeps P (jtry m)"
  by (simp add: keeps_def jtry_def case_prod_beta)

lemma keeps_jbind [intro]:
  assumes "keeps P m" and "\<And>x. keeps P (f x)"
  shows "keeps P (jbind m f)"
  unfolding keeps_def
proof (intro allI impI)
  fix s :: "('b, 'a) join_state"
  assume "P (fst s)"
  with assms(1) have "P (fst (snd (m s)))" unfolding keeps_def by blast
  with assms(2) show "P (fst (snd (jbind m f s)))"
    by (cases rule: jbind_cases [of m s f]) (auto simp: keeps_def)
qed

lemma keeps_sum [intro]: "(\<And>a. keeps P (f a)) \<Longrightarrow> (\<And>b. keeps P (g b)) \<Longrightarrow> keeps P (case_sum f g x)"
  by (cases x) auto

lemma keeps_option [intro]: "keeps P f \<Longrightarrow> (\<And>b. keeps P (g b)) \<Longrightarrow> keeps P (case_option f g x)"
  by (cases x) auto

lemma keeps_if [intro]: "keeps P f \<Longrightarrow> keeps P g \<Longrightarrow> keeps P (if b then f else g)"
  by simp

lemma keeps_jcall [intro]: "(\<And>w. P w \<Longrightarrow> P (snd (f w))) \<Longrightarrow> keeps P (jcall c call f)"
  by (simp add: keeps_def jcall_def case_prod_beta)

lemma keeps_requests:
  assumes "durable_account env c ns saName P"
  shows "keeps P (jdo env c' call)" and "keeps P (jget_sa env c' ns' n)" and "keeps P (jget_secret env c' ns' n)"
    and "keeps P (jcreate_secret env c' ns' secret)"
  using assms unfolding jrequest_defs durable_account_def by (auto intro!: keeps_jcall)

lemma keeps_tail:
  assumes d: "durable_account env c ns saName P"
  shows "keeps P (createClusterRoleBinding env c' sa' ns' dry)" and "keeps P (createFederatedCluster env f name sn dry)"
    and "keeps P (populateSecretInHostCluster env c' h sa' ns' name sn dry)"
proof -
  note k = keeps_requests [OF d]
  have loop: "keeps P (secrets_loop env c' ns' names)" for names
    by (induction names) (auto intro!: k)
  have condition: "keeps P (secret_condition env c' ns' sa')"
    unfolding secret_condition_def by (auto intro!: k loop)
  have "keeps P (poll_secret env c' ns' sa' n)" for n
    by (induction n) (auto intro!: condition)
  then show "keeps P (populateSecretInHostCluster env c' h sa' ns' name sn dry)"
    by (auto simp: populateSecretInHostCluster_def intro!: k)
  show "keeps P (createClusterRoleBinding env c' sa' ns' dry)" "keeps P (createFederatedCluster env f name sn dry)"
    by (auto simp: createClusterRoleBinding_def createFederatedCluster_def intro!: k)
qed

text \<open>The steps before the role is created.\<close>

definition creates_role :: "('c \<times> join_call) list \<Rightarrow> bool" where
  "creates_role calls \<longleftrightarrow> (\<exists>c role. (c, CreateClusterRole role) \<in> set calls)"

definition no_role :: "('c, 'w, 'a) join_m \<Rightarrow> bool" where
  "no_role m \<longleftrightarrow> (\<forall>s. creates_role (snd (snd (m s))) \<longrightarrow> creates_role (snd s))"

lemma no_role_jreturn [intro]: "no_role (jreturn r)"
  by (simp add: no_role_def jreturn_def)

lemma no_role_jtry [intro]: "no_role m \<Longrightarrow> no_role (jtry m)"
  by (simp add: no_role_def jtry_def case_prod_beta)

lemma no_role_jcall [intro]: "(\<And>role. call \<noteq> CreateClusterRole role) \<Longrightarrow> no_role (jcall c call f)"
  by (auto simp: no_role_def jcall_def case_prod_beta creates_role_def)

lemma no_role_jbind [intro]:
  assumes "no_role m" and "\<And>x. no_role (f x)"
  shows "no_role (jbind m f)"
  unfolding no_role_def
proof (intro allI impI)
  fix s :: "('b, 'a) join_state"
  assume "creates_role (snd (snd (jbind m f s)))"
  with assms(2) have "creates_role (snd (snd (m s)))"
    by (cases rule: jbind_cases [of m s f]) (auto simp: no_role_def)
  with assms(1) show "creates_role (snd s)" unfolding no_role_def by blast
qed

lemma no_role_if [intro]: "no_role f \<Longrightarrow> no_role g \<Longrightarrow> no_role (if b then f else g)"
  by simp

lemma no_role_steps:
  "no_role (performPreflightChecks env c name host ns)"
  "no_role (if add then addToClusterRegistry env hc h name dry else verifyExistsInClusterRegistry env hc name)"
  "no_role (createFederationNamespace env c ns dry)"
  "no_role (createServiceAccount env c ns name host dry)"
  by (auto simp: performPreflightChecks_def addToClusterRegistry_def registerCluster_def verifyExistsInClusterRegistry_def
      createFederationNamespace_def createServiceAccount_def Let_def jrequest_defs
      intro!: no_role_jbind no_role_jtry no_role_jcall no_role_jreturn no_role_if)

lemma past_step:
  assumes "jbind m f s = (r, s')" and "no_role m" and "creates_role (snd s')" and "\<not> creates_role (snd s)"
  shows "\<exists>a s1. m s = (Inr a, s1) \<and> f a s1 = (r, s') \<and> \<not> creates_role (snd s1)"
proof -
  obtain x s1 where m: "m s = (x, s1)" by (metis prod.collapse)
  with assms(2,4) have "\<not> creates_role (snd s1)"
    unfolding no_role_def by (metis snd_conv)
  with m assms(1,3) show ?thesis by (cases x) (auto simp: jbind_def)
qed

lemma past_pureE:
  assumes "jbind (jreturn x) f s = (r, s')" and "creates_role (snd s')" and "\<not> creates_role (snd s)"
  obtains a where "x = Inr a" and "f a s = (r, s')"
  using past_step [OF assms(1) no_role_jreturn assms(2,3)] by (auto simp: jreturn_def)

lemma past_stepE:
  assumes "jbind m f s = (r, s')" and "no_role m" and "creates_role (snd s')" and "\<not> creates_role (snd s)"
  obtains a s1 where "m s = (Inr a, s1)" and "f a s1 = (r, s')" and "\<not> creates_role (snd s1)"
  using past_step [OF assms] by blast

lemma jbind_assoc: "jbind (jbind m f) g = jbind m (\<lambda>x. jbind (f x) g)"
  by (auto simp: jbind_def fun_eq_iff split: prod.split sum.split)

lemma join_past_account:
  assumes "JoinCluster env hc cc ns host name sn add False s = (r, s')"
    and "creates_role (snd s')" and "\<not> creates_role (snd s)"
  obtains h c f sa s3 s4 where "HostClientset env hc = Inr h" and "ClusterClientset env cc = Inr c"
    and "FedClientset env hc = Inr f"
    and "createServiceAccount env c ns name host False s3 = (Inr sa, s4)"
    and "jbind (createClusterRoleBinding env c sa ns False) (\<lambda>_.
       jbind (populateSecretInHostCluster env c h sa ns name sn False) (\<lambda>secret.
       createFederatedCluster env f name (se_Name secret) False)) s4 = (r, s')"
proof -
  from assms show thesis
    unfolding JoinCluster_def createRBACSecret_def jbind_assoc
    apply -
    apply (erule past_pureE, assumption, assumption)
    apply (erule past_pureE, assumption, assumption)
    apply (erule past_pureE, assumption, assumption)
    apply (erule past_stepE, rule no_role_steps, assumption, assumption)
    apply (erule past_stepE, rule no_role_steps, assumption, assumption)
    apply (erule past_stepE, rule no_role_steps, assumption, assumption)
    apply (erule past_stepE, rule no_role_steps, assumption, assumption)
    apply (erule that)
    apply assumption+
    done
qed

text \<open>
  C24. A join that got past the creation of the service account cannot be repeated: whether it went on
  to fail or to succeed, every later join of the same cluster, with whatever secret name, registry
  and dry-run options, stops at the preflight check with its one read.
\<close>

theorem join_not_repeatable:
  assumes "JoinCluster env hc cc ns host name sn add False (w, []) = (r, s')" and "creates_role (snd s')"
    and "je_newClient env cc = Some c" and "durable_account env c ns (ClusterServiceAccountName name host) P"
  shows "\<exists>w2. JoinCluster env hc cc ns host name sn2 add2 dry2 s' =
    (Inl (ErrOther ''service account already exists in joining cluster''), w2,
     snd s' @ [(c, GetServiceAccount ns (ClusterServiceAccountName name host))])"
proof -
  let ?sa = "ClusterServiceAccountName name host"
  have cl: "ClusterClientset env cc = Inr c" using assms(3) by (simp add: jclient_defs)
  have nr: "\<not> creates_role (snd (w, []))" by (simp add: creates_role_def)
  obtain h c' f sa s3 s4 where clients: "HostClientset env hc = Inr h" "FedClientset env hc = Inr f" and
    c': "ClusterClientset env cc = Inr c'" and
    acc': "createServiceAccount env c' ns name host False s3 = (Inr sa, s4)" and
    rest': "jbind (createClusterRoleBinding env c' sa ns False) (\<lambda>_.
       jbind (populateSecretInHostCluster env c' h sa ns name sn False) (\<lambda>secret.
       createFederatedCluster env f name (se_Name secret) False)) s4 = (r, s')"
    by (rule join_past_account [OF assms(1,2) nr]) (rule that)
  have "c' = c" using cl c' by simp
  note acc = acc' [unfolded this] and rest = rest' [unfolded this]
  have "P (fst s4)"
    using acc by (auto simp: createServiceAccount_def Let_def jdo_def jsteps dest!: durable_created [OF assms(4)])
  moreover have "keeps P (jbind (createClusterRoleBinding env c sa ns False) (\<lambda>_.
       jbind (populateSecretInHostCluster env c h sa ns name sn False) (\<lambda>secret.
       createFederatedCluster env f name (se_Name secret) False)))"
    by (intro keeps_jbind keeps_tail [OF assms(4)])
  ultimately have "P (fst s')" using rest unfolding keeps_def by (metis snd_conv)
  with durable_found [OF assms(4)]
  obtain acc w2 where "je_getServiceAccount env c ns ?sa (fst s') = (Inr acc, w2)" by blast
  then show ?thesis using clients cl
    by (simp add: JoinCluster_def performPreflightChecks_def jbind_def jreturn_def jtry_def jget_sa_def jcall_def)
qed

lemma demo_durable:
  "durable_account (demo_join ok) c ns saName (\<lambda>w. saName \<in> set w)"
proof -
  have "set w \<subseteq> set (snd (demo_do ok c' call w))" for c' call w
    by (cases call) auto
  then show ?thesis by (fastforce simp: durable_account_def demo_join_def)
qed

lemma demo_run_fails: "fst (demo_run False) = Inl (ErrOther ''forbidden'') \<and> creates_role (snd (snd (demo_run False)))"
proof -
  have "fst (demo_run False) = Inl (ErrOther ''forbidden'') \<and>
      last (snd (snd (demo_run False))) = (''c1'', CreateClusterRole (new_cluster_role ''c1-host'' ''ns'')) \<and>
      snd (snd (demo_run False)) \<noteq> []"
    by code_simp
  then show ?thesis unfolding creates_role_def by (metis last_in_set)
qed

theorem join_not_repeatable_witness:
  "\<exists>w2. JoinCluster (demo_join False) (demo_config ''host'') (demo_config ''c1'') ''ns'' ''host'' ''c1'' ''s2'' True False
      (snd (demo_run False)) =
    (Inl (ErrOther ''service account already exists in joining cluster''), w2,
     snd (snd (demo_run False)) @ [(''c1'', GetServiceAccount ''ns'' (ClusterServiceAccountName ''c1'' ''host''))])"
proof (rule join_not_repeatable)
  show "JoinCluster (demo_join False) (demo_config ''host'') (demo_config ''c1'') ''ns'' ''host'' ''c1'' ''s1'' False False
      ([], []) = (Inl (ErrOther ''forbidden''), snd (demo_run False))"
    using demo_run_fails by (metis demo_run_def prod.collapse)
  show "creates_role (snd (snd (demo_run False)))" using demo_run_fails by blast
  show "je_newClient (demo_join False) (demo_config ''c1'') = Some ''c1''"
    by (simp add: demo_join_def demo_config_def)
  show "durable_account (demo_join False) ''c1'' ''ns'' (ClusterServiceAccountName ''c1'' ''host'')
      (\<lambda>w. ClusterServiceAccountName ''c1'' ''host'' \<in> set w)"
    by (rule demo_durable)
qed

end
