(* ===== verification/Type_Controller.thy ===== *)
theory Type_Controller
  imports Api_Types
begin

section \<open>The controller of federated type configurations\<close>

text \<open>
  \<open>pkg/controller/federatedtypeconfig/controller.go\<close>: it starts and stops a sync controller for every
  type configuration. Stop channels are numbered in the order they are made; closing a
  channel twice panics. A sync controller runs from its start until its channel is closed. The
  lister returns a pointer into its cache, so the writes of the handlers to a configuration are
  writes to the cache. The lister's errors, the API and \<open>StartFederationSyncController\<close>
  are parameters. This theory has the functions as sequential code. The lock is held for single
  map operations only, so \<open>shutDown\<close>, which is another goroutine, may come in between: the
  theory \<open>Type_Interleaving\<close> runs the same pieces in every order.
\<close>

definition type_finalizer :: string where
  "type_finalizer = ''core.federation.k8s.io/federated-type-config''"

record type_controller =
  ct_cache :: "(string, FederatedTypeConfig) gomap"
  ct_stopChannels :: "(string, nat) gomap"
  ct_nextChannel :: nat
  ct_closed :: "nat list"
  ct_started :: "(nat \<times> FederatedTypeConfig) list"
  ct_updates :: "FederatedTypeConfig list"

record type_env =
  te_listerErr :: "go_error option"
  te_update :: "FederatedTypeConfig \<Rightarrow> go_error option"
  te_start :: "FederatedTypeConfig \<Rightarrow> go_error option"

abbreviation tc_Name :: "FederatedTypeConfig \<Rightarrow> string" where
  "tc_Name tc \<equiv> om_Name (tc_Meta tc)"

definition NewTypeController :: type_controller where
  "NewTypeController = \<lparr>ct_cache = [], ct_stopChannels = [], ct_nextChannel = 0, ct_closed = [], ct_started = [],
     ct_updates = []\<rparr>"

definition close_channel :: "nat \<Rightarrow> type_controller \<Rightarrow> type_controller go_result" where
  "close_channel ch c =
     (if ch \<in> set (ct_closed c) then Inl (GoPanic ''close of closed channel'')
      else Inr (c\<lparr>ct_closed := ch # ct_closed c\<rparr>))"

definition getStopChannel :: "string \<Rightarrow> type_controller \<Rightarrow> nat option" where
  "getStopChannel name c = mget (ct_stopChannels c) name"

text \<open>The loop over a copy of the map, whose entries are deleted as they are visited.\<close>

fun shutDown_loop :: "(string \<times> nat) list \<Rightarrow> type_controller \<Rightarrow> type_controller go_result" where
  "shutDown_loop [] c = Inr c"
| "shutDown_loop ((key, stopChannel) # rest) c =
     rbind (close_channel stopChannel c) (\<lambda>c.
       shutDown_loop rest (c\<lparr>ct_stopChannels := mdel key (ct_stopChannels c)\<rparr>))"

definition shutDown :: "type_controller \<Rightarrow> type_controller go_result" where
  "shutDown c = shutDown_loop (ct_stopChannels c) c"

text \<open>What \<open>stopController\<close> does with the lock held, after it has closed the channel.\<close>

definition delete_channel :: "string \<Rightarrow> type_controller \<Rightarrow> type_controller" where
  "delete_channel key c = c\<lparr>ct_stopChannels := mdel key (ct_stopChannels c)\<rparr>"

definition stopController :: "string \<Rightarrow> nat \<Rightarrow> type_controller \<Rightarrow> type_controller go_result" where
  "stopController key stopChan c =
     rbind (close_channel stopChan c) (\<lambda>c. Inr (delete_channel key c))"

definition write_cached :: "FederatedTypeConfig \<Rightarrow> type_controller \<Rightarrow> type_controller" where
  "write_cached tc c = c\<lparr>ct_cache := mput (tc_Name tc) tc (ct_cache c)\<rparr>"

text \<open>
  \<open>startController\<close> up to the lock (the error of the start, the configuration with its defaults, the
  new channel) and with the lock held.
\<close>

definition start_sync :: "type_env \<Rightarrow> FederatedTypeConfig \<Rightarrow> type_controller
    \<Rightarrow> (go_error option \<times> FederatedTypeConfig \<times> nat \<times> type_controller) go_result" where
  "start_sync env tc c =
     (let tc' = SetFederatedTypeConfigDefaults tc;
          stopChan = ct_nextChannel c;
          c1 = (write_cached tc' c)\<lparr>ct_nextChannel := stopChan + 1\<rparr>
      in case te_start env tc' of
           Some err \<Rightarrow>
             rbind (close_channel stopChan c1) (\<lambda>c2.
               Inr (Some (ErrWrapped ''Error starting sync controller'' err), tc', stopChan, c2))
         | None \<Rightarrow> Inr (None, tc', stopChan, c1\<lparr>ct_started := ct_started c1 @ [(stopChan, tc')]\<rparr>))"

definition add_channel :: "FederatedTypeConfig \<Rightarrow> nat \<Rightarrow> type_controller \<Rightarrow> type_controller" where
  "add_channel tc stopChan c = c\<lparr>ct_stopChannels := mput (tc_Name tc) stopChan (ct_stopChannels c)\<rparr>"

definition startController :: "type_env \<Rightarrow> FederatedTypeConfig \<Rightarrow> type_controller
    \<Rightarrow> (go_error option \<times> type_controller) go_result" where
  "startController env tc c =
     rbind (start_sync env tc c) (\<lambda>(err, tc', stopChan, c1).
       case err of Some e \<Rightarrow> Inr (Some e, c1) | None \<Rightarrow> Inr (None, add_channel tc' stopChan c1))"

definition set_finalizers :: "FederatedTypeConfig \<Rightarrow> sset \<Rightarrow> FederatedTypeConfig" where
  "set_finalizers tc finalizers = tc\<lparr>tc_Meta := (tc_Meta tc)\<lparr>om_Finalizers := sset_list finalizers\<rparr>\<rparr>"

text \<open>The object is changed before the update, whose error does not undo that.\<close>

definition ensureFinalizer :: "type_env \<Rightarrow> FederatedTypeConfig \<Rightarrow> type_controller
    \<Rightarrow> go_error option \<times> FederatedTypeConfig \<times> type_controller" where
  "ensureFinalizer env tc c =
     (let finalizers = sset_of (om_Finalizers (tc_Meta tc)) in
      if sset_has finalizers type_finalizer then (None, tc, c)
      else
        (let tc' = set_finalizers tc (sset_insert type_finalizer finalizers)
         in (te_update env tc', tc', (write_cached tc' c)\<lparr>ct_updates := ct_updates c @ [tc']\<rparr>)))"

definition removeFinalizer :: "type_env \<Rightarrow> FederatedTypeConfig \<Rightarrow> type_controller \<Rightarrow> go_error option \<times> type_controller" where
  "removeFinalizer env tc c =
     (let finalizers = sset_of (om_Finalizers (tc_Meta tc)) in
      if \<not> sset_has finalizers type_finalizer then (None, c)
      else
        (let tc' = set_finalizers tc (sset_delete type_finalizer finalizers)
         in (te_update env tc', (write_cached tc' c)\<lparr>ct_updates := ct_updates c @ [tc']\<rparr>)))"

definition Reconcile_found :: "type_env \<Rightarrow> string \<Rightarrow> FederatedTypeConfig \<Rightarrow> nat option \<Rightarrow> type_controller
    \<Rightarrow> (go_error option \<times> type_controller) go_result" where
  "Reconcile_found env name typeConfig running c =
     (if om_DeletionTimestamp (tc_Meta typeConfig) \<noteq> None then
        rbind (case running of None \<Rightarrow> Inr c | Some stopChan \<Rightarrow> stopController name stopChan c) (\<lambda>c.
          Inr (removeFinalizer env typeConfig c))
      else
        (case ensureFinalizer env typeConfig c of
           (Some err, typeConfig, c) \<Rightarrow> Inr (Some err, c)
         | (None, typeConfig, c) \<Rightarrow>
             (let enabled = ts_PropagationEnabled (tc_Spec typeConfig) in
              case running of
                None \<Rightarrow> if enabled then startController env typeConfig c else Inr (None, c)
              | Some stopChan \<Rightarrow>
                  if \<not> enabled then rbind (stopController name stopChan c) (\<lambda>c. Inr (None, c))
                  else Inr (None, c))))"

definition Reconcile_type :: "type_env \<Rightarrow> string \<Rightarrow> type_controller \<Rightarrow> (go_error option \<times> type_controller) go_result" where
  "Reconcile_type env name c =
     (case te_listerErr env of
        Some err \<Rightarrow> if IsNotFound err then Inr (None, c) else Inr (Some err, c)
      | None \<Rightarrow>
          (case mget (ct_cache c) name of
             None \<Rightarrow> Inr (None, c)
           | Some typeConfig \<Rightarrow> Reconcile_found env name typeConfig (getStopChannel name c) c))"

end
