(* ===== verification/Type_Interleaving.thy ===== *)
theory Type_Interleaving
  imports Type_Controller
begin

section \<open>The goroutines of the type configuration controller\<close>

text \<open>
  \<open>pkg/controller/federatedtypeconfig/controller.go\<close> at run time: the goroutine of the informer, the
  worker that calls \<open>Reconcile\<close> (\<open>cmd/controller-manager/main.go\<close> leaves the parallelism of the
  generic controller at its default of one) and the goroutine that waits for the stop channel and
  calls \<open>shutDown\<close>, in any interleaving. A step is what a goroutine does between two points where
  another one can change what it sees: the lookup, one operation on the map under the lock, closing a
  channel, a write to the configuration with its update, a start. \<open>shutDown\<close> holds the lock from
  its first step to its last, and the steps of the worker that need the lock wait meanwhile. The
  outcomes of the API and of a start are those of the environment of the step.

  The worker keeps a pointer to the configuration. As long as the informer has not replaced or
  removed the object in its cache (\<open>tt_linked\<close>), the worker's writes are writes to the cache.
\<close>

datatype reconcile_at =
    Returned "go_error option"
  | Looked string FederatedTypeConfig
  | Read string FederatedTypeConfig "nat option"
  | Ensured string FederatedTypeConfig "nat option"
  | Closed string FederatedTypeConfig
  | Removing FederatedTypeConfig
  | Started FederatedTypeConfig nat

datatype shutDown_at = NotStopped | Holding "(string \<times> nat) list" | Stopped

record type_threads =
  tt_ctrl :: type_controller
  tt_reconcile :: reconcile_at
  tt_linked :: bool
  tt_shutDown :: shutDown_at

definition NewThreads :: type_threads where
  "NewThreads = \<lparr>tt_ctrl = NewTypeController, tt_reconcile = Returned None, tt_linked = True, tt_shutDown = NotStopped\<rparr>"

fun reconcile_name :: "reconcile_at \<Rightarrow> string option" where
  "reconcile_name (Returned e) = None"
| "reconcile_name (Looked name tc) = Some name"
| "reconcile_name (Read name tc running) = Some name"
| "reconcile_name (Ensured name tc running) = Some name"
| "reconcile_name (Closed name tc) = Some name"
| "reconcile_name (Removing tc) = Some (tc_Name tc)"
| "reconcile_name (Started tc ch) = Some (tc_Name tc)"

fun is_deleted :: "FederatedTypeConfig \<Rightarrow> bool" where
  "is_deleted tc \<longleftrightarrow> om_DeletionTimestamp (tc_Meta tc) \<noteq> None"

subsection \<open>Steps\<close>

text \<open>The informer replaces or removes an object.\<close>

definition informer_put :: "FederatedTypeConfig \<Rightarrow> type_threads \<Rightarrow> type_threads" where
  "informer_put tc s = s\<lparr>tt_ctrl := write_cached tc (tt_ctrl s),
     tt_linked := tt_linked s \<and> reconcile_name (tt_reconcile s) \<noteq> Some (tc_Name tc)\<rparr>"

definition informer_remove :: "string \<Rightarrow> type_threads \<Rightarrow> type_threads" where
  "informer_remove name s = s\<lparr>tt_ctrl := (tt_ctrl s)\<lparr>ct_cache := mdel name (ct_cache (tt_ctrl s))\<rparr>,
     tt_linked := tt_linked s \<and> reconcile_name (tt_reconcile s) \<noteq> Some name\<rparr>"

text \<open>The worker calls \<open>Reconcile\<close>, which looks the configuration up.\<close>

definition reconcile_begin :: "type_env \<Rightarrow> string \<Rightarrow> type_threads \<Rightarrow> type_threads" where
  "reconcile_begin env name s =
     s\<lparr>tt_linked := True, tt_reconcile :=
       (case te_listerErr env of
          Some err \<Rightarrow> if IsNotFound err then Returned None else Returned (Some err)
        | None \<Rightarrow>
            (case mget (ct_cache (tt_ctrl s)) name of
               None \<Rightarrow> Returned None
             | Some typeConfig \<Rightarrow> Looked name typeConfig))\<rparr>"

text \<open>Writes through the pointer of the worker.\<close>

definition through :: "bool \<Rightarrow> type_controller \<Rightarrow> type_controller \<Rightarrow> type_controller" where
  "through linked c c' = (if linked then c' else c'\<lparr>ct_cache := ct_cache c\<rparr>)"

text \<open>The next step of a \<open>Reconcile\<close> in progress, with the lock free or not; \<open>None\<close> when it waits.\<close>

fun reconcile_next :: "type_env \<Rightarrow> bool \<Rightarrow> bool \<Rightarrow> reconcile_at \<Rightarrow> type_controller
    \<Rightarrow> (reconcile_at \<times> type_controller) go_result option" where
  "reconcile_next env free linked (Returned e) c = None"
| "reconcile_next env free linked (Looked name tc) c =
     (if free then Some (Inr (Read name tc (getStopChannel name c), c)) else None)"
| "reconcile_next env free linked (Read name tc running) c =
     Some (if is_deleted tc
           then (case running of
                   None \<Rightarrow> Inr (Removing tc, c)
                 | Some stopChan \<Rightarrow> rbind (close_channel stopChan c) (\<lambda>c'. Inr (Closed name tc, c')))
           else (case ensureFinalizer env tc c of
                   (Some err, tc', c') \<Rightarrow> Inr (Returned (Some err), through linked c c')
                 | (None, tc', c') \<Rightarrow> Inr (Ensured name tc' running, through linked c c')))"
| "reconcile_next env free linked (Ensured name tc running) c =
     Some (let enabled = ts_PropagationEnabled (tc_Spec tc) in
           case running of
             None \<Rightarrow>
               if enabled
               then rbind (start_sync env tc c) (\<lambda>(err, tc', stopChan, c').
                 case err of
                   Some e \<Rightarrow> Inr (Returned (Some e), through linked c c')
                 | None \<Rightarrow> Inr (Started tc' stopChan, through linked c c'))
               else Inr (Returned None, c)
           | Some stopChan \<Rightarrow>
               if \<not> enabled then rbind (close_channel stopChan c) (\<lambda>c'. Inr (Closed name tc, c'))
               else Inr (Returned None, c))"
| "reconcile_next env free linked (Closed name tc) c =
     (if free then Some (Inr (if is_deleted tc then Removing tc else Returned None, delete_channel name c)) else None)"
| "reconcile_next env free linked (Removing tc) c =
     Some (case removeFinalizer env tc c of (err, c') \<Rightarrow> Inr (Returned err, through linked c c'))"
| "reconcile_next env free linked (Started tc stopChan) c =
     (if free then Some (Inr (Returned None, add_channel tc stopChan c)) else None)"

definition lock_free :: "type_threads \<Rightarrow> bool" where
  "lock_free s = (case tt_shutDown s of Holding _ \<Rightarrow> False | _ \<Rightarrow> True)"

definition reconcile_step :: "type_env \<Rightarrow> type_threads \<Rightarrow> type_threads go_result option" where
  "reconcile_step env s =
     map_option (map_sum id (\<lambda>(at, c). s\<lparr>tt_reconcile := at, tt_ctrl := c\<rparr>))
       (reconcile_next env (lock_free s) (tt_linked s) (tt_reconcile s) (tt_ctrl s))"

text \<open>
  \<open>shutDown\<close> takes the lock, visits the entries of the map, which nobody else can change meanwhile,
  and gives the lock back. It is called once.
\<close>

definition shutDown_step :: "type_threads \<Rightarrow> type_threads go_result option" where
  "shutDown_step s =
     (case tt_shutDown s of
        NotStopped \<Rightarrow> Some (Inr (s\<lparr>tt_shutDown := Holding (ct_stopChannels (tt_ctrl s))\<rparr>))
      | Holding [] \<Rightarrow> Some (Inr (s\<lparr>tt_shutDown := Stopped\<rparr>))
      | Holding ((key, stopChannel) # rest) \<Rightarrow>
          Some (rbind (close_channel stopChannel (tt_ctrl s)) (\<lambda>c.
            Inr (s\<lparr>tt_ctrl := delete_channel key c, tt_shutDown := Holding rest\<rparr>)))
      | Stopped \<Rightarrow> None)"

inductive type_exec :: "type_threads \<Rightarrow> bool" where
  exec_new: "type_exec NewThreads"
| exec_put: "type_exec s \<Longrightarrow> type_exec (informer_put tc s)"
| exec_remove: "type_exec s \<Longrightarrow> type_exec (informer_remove name s)"
| exec_begin: "type_exec s \<Longrightarrow> tt_reconcile s = Returned e \<Longrightarrow> type_exec (reconcile_begin env name s)"
| exec_reconcile: "type_exec s \<Longrightarrow> reconcile_step env s = Some (Inr s') \<Longrightarrow> type_exec s'"
| exec_shutDown: "type_exec s \<Longrightarrow> shutDown_step s = Some (Inr s') \<Longrightarrow> type_exec s'"

text \<open>The sync controllers that run for a name.\<close>

definition runs_for :: "type_controller \<Rightarrow> string \<Rightarrow> nat set" where
  "runs_for c name = {ch. \<exists>tc. (ch, tc) \<in> set (ct_started c) \<and> ch \<notin> set (ct_closed c) \<and> tc_Name tc = name}"

subsection \<open>Reconcile alone\<close>

text \<open>The steps of the worker, as long as it does not have to wait, with the same outcomes for each.\<close>

fun run_reconcile :: "nat \<Rightarrow> type_env \<Rightarrow> type_threads \<Rightarrow> type_threads go_result" where
  "run_reconcile 0 env s = Inr s"
| "run_reconcile (Suc n) env s =
     (case reconcile_step env s of None \<Rightarrow> Inr s | Some r \<Rightarrow> rbind r (run_reconcile n env))"

text \<open>With no other goroutine in between the steps make up the sequential \<open>Reconcile_type\<close>.\<close>

lemma through_linked [simp]: "through True c c' = c'"
  by (simp add: through_def)

lemma run_reconcile_returned [simp]: "tt_reconcile s = Returned e \<Longrightarrow> run_reconcile n env s = Inr s"
  by (cases n) (simp_all add: reconcile_step_def)

lemma run_reconcile_step:
  assumes "reconcile_next env (lock_free s) (tt_linked s) (tt_reconcile s) (tt_ctrl s) = Some r"
  shows "run_reconcile (Suc n) env s =
    rbind r (\<lambda>(at, c). run_reconcile n env (s\<lparr>tt_reconcile := at, tt_ctrl := c\<rparr>))"
  using assms by (cases r) (auto simp: reconcile_step_def)

abbreviation observed :: "type_threads go_result \<Rightarrow> (reconcile_at \<times> type_controller) go_result" where
  "observed r \<equiv> map_sum id (\<lambda>s'. (tt_reconcile s', tt_ctrl s')) r"

lemma run_reconcile_deleted:
  assumes "lock_free s" "tt_linked s" "tt_reconcile s = Read name tc running" "is_deleted tc"
  shows "observed (run_reconcile (Suc (Suc (Suc n))) env s) =
    map_sum id (\<lambda>(err, c'). (Returned err, c')) (Reconcile_found env name tc running (tt_ctrl s))"
proof (cases running)
  case None
  obtain err c' where "removeFinalizer env tc (tt_ctrl s) = (err, c')" by fastforce
  with None assms show ?thesis
    by (simp add: run_reconcile_step Reconcile_found_def del: run_reconcile.simps)
next
  case (Some ch)
  show ?thesis
  proof (cases "close_channel ch (tt_ctrl s)")
    case (Inl e)
    with Some assms show ?thesis
      by (simp add: run_reconcile_step Reconcile_found_def stopController_def del: run_reconcile.simps)
  next
    case (Inr c1)
    obtain err c' where "removeFinalizer env tc (delete_channel name c1) = (err, c')" by fastforce
    with Inr Some assms show ?thesis
      by (simp add: run_reconcile_step Reconcile_found_def stopController_def lock_free_def del: run_reconcile.simps)
  qed
qed

lemma run_reconcile_live:
  assumes "lock_free s" "tt_linked s" "tt_reconcile s = Read name tc running" "\<not> is_deleted tc"
  shows "observed (run_reconcile (Suc (Suc (Suc n))) env s) =
    map_sum id (\<lambda>(err, c'). (Returned err, c')) (Reconcile_found env name tc running (tt_ctrl s))"
proof -
  obtain e tc' c1 where ens: "ensureFinalizer env tc (tt_ctrl s) = (e, tc', c1)" by (cases "ensureFinalizer env tc (tt_ctrl s)")
  show ?thesis
  proof (cases e)
    case (Some err)
    with ens assms show ?thesis by (simp add: run_reconcile_step Reconcile_found_def del: run_reconcile.simps)
  next
    case ok: None
    let ?s = "s\<lparr>tt_reconcile := Ensured name tc' running, tt_ctrl := c1\<rparr>"
    have first: "run_reconcile (Suc (Suc (Suc n))) env s = run_reconcile (Suc (Suc n)) env ?s"
      using ok ens assms by (simp add: run_reconcile_step del: run_reconcile.simps)
    have rest: "observed (run_reconcile (Suc (Suc n)) env ?s) = map_sum id (\<lambda>(err, c'). (Returned err, c'))
      (let enabled = ts_PropagationEnabled (tc_Spec tc') in
              case running of
                None \<Rightarrow> if enabled then startController env tc' c1 else Inr (None, c1)
              | Some stopChan \<Rightarrow>
                  if \<not> enabled then rbind (stopController name stopChan c1) (\<lambda>c. Inr (None, c))
                  else Inr (None, c1))"
    proof (cases running)
      case None
      show ?thesis
      proof (cases "start_sync env tc' c1")
        case (Inl e)
        with None assms show ?thesis
          by (simp add: run_reconcile_step startController_def lock_free_def del: run_reconcile.simps)
      next
        case (Inr r)
        obtain se tc2 ch c2 where "r = (se, tc2, ch, c2)" by (cases r)
        with Inr None assms show ?thesis
          by (cases se) (auto simp: run_reconcile_step startController_def lock_free_def simp del: run_reconcile.simps)
      qed
    next
      case (Some ch)
      have "is_deleted tc' = is_deleted tc"
        using ens by (auto simp: ensureFinalizer_def Let_def set_finalizers_def split: if_splits)
      with Some assms show ?thesis
        by (cases "close_channel ch c1")
          (auto simp: run_reconcile_step stopController_def lock_free_def simp del: run_reconcile.simps is_deleted.simps)
    qed
    show ?thesis unfolding first rest using ok ens assms(4) by (simp add: Reconcile_found_def)
  qed
qed

lemma run_reconcile_alone:
  assumes "lock_free s"
  shows "observed (run_reconcile 4 env (reconcile_begin env name s)) =
    map_sum id (\<lambda>(err, c'). (Returned err, c')) (Reconcile_type env name (tt_ctrl s))"
proof (cases "te_listerErr env")
  case (Some e)
  then show ?thesis by (simp add: reconcile_begin_def Reconcile_type_def)
next
  case ok: None
  show ?thesis
  proof (cases "mget (ct_cache (tt_ctrl s)) name")
    case None
    with ok show ?thesis by (simp add: reconcile_begin_def Reconcile_type_def)
  next
    case (Some tc)
    let ?c = "tt_ctrl s"
    let ?s = "s\<lparr>tt_linked := True, tt_reconcile := Read name tc (getStopChannel name ?c)\<rparr>"
    have four: "4 = Suc (Suc (Suc (Suc 0)))" by simp
    have "run_reconcile 4 env (reconcile_begin env name s) = run_reconcile (Suc (Suc (Suc 0))) env ?s"
    proof -
      have "?s\<lparr>tt_ctrl := ?c\<rparr> = ?s" by (cases s) simp
      moreover have "reconcile_begin env name s = s\<lparr>tt_linked := True, tt_reconcile := Looked name tc\<rparr>" (is "_ = ?b")
        using ok Some by (simp add: reconcile_begin_def)
      moreover have "reconcile_next env (lock_free ?b) (tt_linked ?b) (tt_reconcile ?b) (tt_ctrl ?b) =
          Some (Inr (Read name tc (getStopChannel name ?c), ?c))"
        using assms by (simp add: lock_free_def)
      ultimately show ?thesis
        unfolding four by (simp add: run_reconcile_step del: run_reconcile.simps)
    qed
    moreover have "lock_free ?s" using assms by (simp add: lock_free_def)
    ultimately show ?thesis
      using run_reconcile_deleted [of ?s name tc _ 0 env] run_reconcile_live [of ?s name tc _ 0 env] ok Some
      by (cases "is_deleted tc") (simp_all add: Reconcile_type_def del: run_reconcile.simps is_deleted.simps)
  qed
qed

end
