(* ===== verification/Type_Invariant.thy ===== *)
theory Type_Invariant
  imports Type_Interleaving
begin

section \<open>The invariant of the type configuration controller\<close>

text \<open>
  The state between two reconciliations, and what the functions of the controller do to it when
  they run to their end.
\<close>

subsection \<open>Writes to configurations\<close>

lemma defaults_meta [simp]: "tc_Meta (SetFederatedTypeConfigDefaults tc) = tc_Meta tc"
  by (simp add: SetFederatedTypeConfigDefaults_def Let_def)

lemma defaults_enabled [simp]:
  "ts_PropagationEnabled (tc_Spec (SetFederatedTypeConfigDefaults tc)) = ts_PropagationEnabled (tc_Spec tc)"
  by (simp add: SetFederatedTypeConfigDefaults_def Let_def)

lemma defaults_idem [simp]:
  "SetFederatedTypeConfigDefaults (SetFederatedTypeConfigDefaults tc) = SetFederatedTypeConfigDefaults tc"
proof -
  have related: "map_option (default_related t) (map_option (default_related t) r) = map_option (default_related t) r" for t r
    by (cases r) (simp_all add: default_related_idem)
  show ?thesis
    unfolding SetFederatedTypeConfigDefaults_def Let_def
    by (simp add: default_target_idem default_related_idem related)
qed

lemma set_finalizers_sel [simp]:
  "tc_Name (set_finalizers tc f) = tc_Name tc" "tc_Spec (set_finalizers tc f) = tc_Spec tc"
  "om_DeletionTimestamp (tc_Meta (set_finalizers tc f)) = om_DeletionTimestamp (tc_Meta tc)"
  "om_Finalizers (tc_Meta (set_finalizers tc f)) = sset_list f"
  by (simp_all add: set_finalizers_def)

lemma write_cached_sel [simp]:
  "ct_cache (write_cached tc c) = mput (tc_Name tc) tc (ct_cache c)"
  "ct_stopChannels (write_cached tc c) = ct_stopChannels c" "ct_nextChannel (write_cached tc c) = ct_nextChannel c"
  "ct_closed (write_cached tc c) = ct_closed c" "ct_started (write_cached tc c) = ct_started c"
  by (simp_all add: write_cached_def)

subsection \<open>The invariant\<close>

text \<open>
  Channels are fresh, configurations are stored under their names and handed over with their
  defaults (\<open>base_inv\<close>); apart from the names in \<open>X\<close>, the map holds exactly the open channels of
  started controllers, each under the name of its configuration (\<open>map_inv\<close>).
\<close>

definition base_inv :: "type_controller \<Rightarrow> bool" where
  "base_inv c \<longleftrightarrow>
     gomap_ok (ct_stopChannels c) \<and>
     (\<forall>name tc. mget (ct_cache c) name = Some tc \<longrightarrow> tc_Name tc = name) \<and>
     (\<forall>ch tc. (ch, tc) \<in> set (ct_started c) \<longrightarrow> ch < ct_nextChannel c \<and> SetFederatedTypeConfigDefaults tc = tc) \<and>
     (\<forall>ch \<in> set (ct_closed c). ch < ct_nextChannel c) \<and>
     distinct (map fst (ct_started c))"

definition map_inv :: "string set \<Rightarrow> type_controller \<Rightarrow> bool" where
  "map_inv X c \<longleftrightarrow> (\<forall>name. name \<notin> X \<longrightarrow> (\<forall>ch. mget (ct_stopChannels c) name = Some ch \<longleftrightarrow> ch \<in> runs_for c name))"

definition type_inv :: "type_controller \<Rightarrow> bool" where
  "type_inv c \<longleftrightarrow> base_inv c \<and> map_inv {} c"

lemma base_invD:
  assumes "base_inv c"
  shows "gomap_ok (ct_stopChannels c)"
    and "mget (ct_cache c) name = Some tc \<Longrightarrow> tc_Name tc = name"
    and "(ch, tc) \<in> set (ct_started c) \<Longrightarrow> ch < ct_nextChannel c"
    and "(ch, tc) \<in> set (ct_started c) \<Longrightarrow> SetFederatedTypeConfigDefaults tc = tc"
    and "ch \<in> set (ct_closed c) \<Longrightarrow> ch < ct_nextChannel c"
    and "distinct (map fst (ct_started c))"
  using assms unfolding base_inv_def by blast+

lemma map_invD: "map_inv X c \<Longrightarrow> name \<notin> X \<Longrightarrow> mget (ct_stopChannels c) name = Some ch \<longleftrightarrow> ch \<in> runs_for c name"
  unfolding map_inv_def by blast

lemma map_invI: "(\<And>name ch. name \<notin> X \<Longrightarrow> mget (ct_stopChannels c) name = Some ch \<longleftrightarrow> ch \<in> runs_for c name) \<Longrightarrow> map_inv X c"
  unfolding map_inv_def by blast

lemma type_invD:
  assumes "type_inv c"
  shows "base_inv c" "map_inv {} c"
    and "mget (ct_stopChannels c) name = Some ch \<longleftrightarrow> ch \<in> runs_for c name"
  using assms map_invD [of "{}" c name ch] by (simp_all add: type_inv_def)

lemma runs_for_open: "ch \<in> runs_for c name \<Longrightarrow> ch \<notin> set (ct_closed c)"
  by (auto simp: runs_for_def)

lemma runs_for_cong:
  "ct_started c' = ct_started c \<Longrightarrow> ct_closed c' = ct_closed c \<Longrightarrow> runs_for c' = runs_for c"
  by (simp add: runs_for_def fun_eq_iff)

lemma inv_cache:
  assumes "ct_stopChannels c' = ct_stopChannels c" "ct_nextChannel c' = ct_nextChannel c"
    "ct_closed c' = ct_closed c" "ct_started c' = ct_started c"
  shows "runs_for c' = runs_for c" and "map_inv X c \<Longrightarrow> map_inv X c'"
    and "base_inv c \<Longrightarrow> (\<And>name tc. mget (ct_cache c') name = Some tc \<Longrightarrow> tc_Name tc = name) \<Longrightarrow> base_inv c'"
  using assms runs_for_cong [OF assms(4,3)] by (simp_all add: map_inv_def base_inv_def)

lemma type_inv_cache:
  assumes "type_inv c" and "\<And>name tc. mget (ct_cache c') name = Some tc \<Longrightarrow> tc_Name tc = name"
    and "ct_stopChannels c' = ct_stopChannels c" "ct_nextChannel c' = ct_nextChannel c"
      "ct_closed c' = ct_closed c" "ct_started c' = ct_started c"
  shows "type_inv c'"
  using assms(1) inv_cache(2) [OF assms(3-6)] inv_cache(3) [OF assms(3-6) _ assms(2)] by (simp add: type_inv_def)

lemma base_inv_write: "base_inv c \<Longrightarrow> base_inv (write_cached tc c)"
  by (rule inv_cache(3) [of _ c]) (auto split: if_splits dest: base_invD(2))

lemma type_inv_write: "type_inv c \<Longrightarrow> type_inv (write_cached tc c)"
  by (rule type_inv_cache) (auto split: if_splits dest: base_invD(2) type_invD(1))

lemma runs_for_name: "ch \<in> runs_for c name \<Longrightarrow> ch \<in> runs_for c name' \<Longrightarrow> distinct (map fst (ct_started c)) \<Longrightarrow> name = name'"
  unfolding runs_for_def by (auto dest: eq_key_imp_eq_value)

text \<open>The pieces that \<open>stopController\<close> and \<open>startController\<close> are made of.\<close>

lemma close_registered:
  assumes "base_inv c" "map_inv X c" "k \<notin> X" and "mget (ct_stopChannels c) k = Some ch"
  obtains c' where "close_channel ch c = Inr c'" "c' = c\<lparr>ct_closed := ch # ct_closed c\<rparr>" "base_inv c'" "map_inv (insert k X) c'"
    "\<And>name. runs_for c' name = (if name = k then {} else runs_for c name)"
proof -
  let ?c = "c\<lparr>ct_closed := ch # ct_closed c\<rparr>"
  have mem: "x \<in> runs_for c k \<longleftrightarrow> x = ch" for x
    using map_invD [OF assms(2,3), of x] assms(4) by auto
  have "runs_for ?c name = runs_for c name - {ch}" for name by (auto simp: runs_for_def)
  moreover have "name \<noteq> k \<Longrightarrow> ch \<notin> runs_for c name" for name
    using runs_for_name [OF _ _ base_invD(6) [OF assms(1)]] mem by blast
  ultimately have runs: "runs_for ?c name = (if name = k then {} else runs_for c name)" for name
    using mem by auto
  have "ch < ct_nextChannel c"
    using mem [of ch] base_invD(3) [OF assms(1)] by (auto simp: runs_for_def)
  then have "base_inv ?c" using assms(1) by (simp add: base_inv_def)
  moreover have "map_inv (insert k X) ?c" by (rule map_invI) (use map_invD [OF assms(2)] runs in simp)
  moreover have "close_channel ch c = Inr ?c"
    using runs_for_open [of ch c k] mem [of ch] by (simp add: close_channel_def)
  ultimately show thesis using that runs by blast
qed

lemma delete_channel_sel [simp]:
  "ct_cache (delete_channel k c) = ct_cache c" "ct_updates (delete_channel k c) = ct_updates c"
  "ct_stopChannels (delete_channel k c) = mdel k (ct_stopChannels c)" "ct_closed (delete_channel k c) = ct_closed c"
  "ct_started (delete_channel k c) = ct_started c" "runs_for (delete_channel k c) = runs_for c"
  by (simp_all add: delete_channel_def runs_for_def fun_eq_iff)

lemma delete_channel_inv:
  assumes "base_inv c" "map_inv X c" "runs_for c k = {}"
  shows "base_inv (delete_channel k c)" "map_inv (X - {k}) (delete_channel k c)"
proof -
  show "base_inv (delete_channel k c)" using assms(1) unfolding base_inv_def by (simp add: delete_channel_def)
  show "map_inv (X - {k}) (delete_channel k c)"
    by (rule map_invI) (use map_invD [OF assms(2)] assms(3) in auto)
qed

lemma add_channel_sel [simp]:
  "ct_cache (add_channel tc ch c) = ct_cache c" "ct_updates (add_channel tc ch c) = ct_updates c"
  "ct_stopChannels (add_channel tc ch c) = mput (tc_Name tc) ch (ct_stopChannels c)"
  "ct_closed (add_channel tc ch c) = ct_closed c" "ct_started (add_channel tc ch c) = ct_started c"
  "runs_for (add_channel tc ch c) = runs_for c"
  by (simp_all add: add_channel_def runs_for_def fun_eq_iff)

lemma add_channel_inv:
  assumes "base_inv c" "map_inv X c" "runs_for c (tc_Name tc) = {ch}"
  shows "base_inv (add_channel tc ch c)" "map_inv (X - {tc_Name tc}) (add_channel tc ch c)"
proof -
  show "base_inv (add_channel tc ch c)" using assms(1) unfolding base_inv_def by (simp add: add_channel_def)
  show "map_inv (X - {tc_Name tc}) (add_channel tc ch c)"
    by (rule map_invI) (use map_invD [OF assms(2)] assms(3) in auto)
qed

lemma start_sync_ok:
  assumes "base_inv c" "map_inv X c" "runs_for c (tc_Name tc) = {}"
  defines "tc' \<equiv> SetFederatedTypeConfigDefaults tc"
  obtains c' where "start_sync env tc c = Inr (map_option (ErrWrapped ''Error starting sync controller'') (te_start env tc'),
      tc', ct_nextChannel c, c')"
    "base_inv c'" "ct_cache c' = mput (tc_Name tc) tc' (ct_cache c)"
    "ct_stopChannels c' = ct_stopChannels c" "ct_updates c' = ct_updates c"
    "te_start env tc' = None \<Longrightarrow> map_inv (insert (tc_Name tc) X) c'"
    "te_start env tc' \<noteq> None \<Longrightarrow> map_inv X c'"
    "\<And>name. runs_for c' name = (if name = tc_Name tc \<and> te_start env tc' = None then {ct_nextChannel c} else runs_for c name)"
proof -
  let ?ch = "ct_nextChannel c"
  note inv = base_invD [OF assms(1)]
  have fresh: "?ch \<notin> set (ct_closed c)" "(?ch, x) \<notin> set (ct_started c)" for x
    using inv(3,5) less_irrefl by blast+
  have later: "(ch, x) \<in> set (ct_started c) \<Longrightarrow> ch < Suc ?ch" "ch \<in> set (ct_closed c) \<Longrightarrow> ch < Suc ?ch" for ch x
    using inv(3,5) less_SucI by blast+
  have name: "tc_Name tc' = tc_Name tc" by (simp add: tc'_def)
  show thesis
  proof (cases "te_start env tc'")
    case (Some err)
    let ?c = "(write_cached tc' c)\<lparr>ct_nextChannel := ?ch + 1, ct_closed := ?ch # ct_closed c\<rparr>"
    have runs: "runs_for ?c name = runs_for c name" for name
      using fresh by (auto simp: runs_for_def)
    have "base_inv ?c"
      unfolding base_inv_def using inv(1,2,4,6) name by (auto split: if_splits dest: later)
    moreover have "start_sync env tc c = Inr (Some (ErrWrapped ''Error starting sync controller'' err), tc', ?ch, ?c)"
      using Some fresh by (simp add: start_sync_def Let_def close_channel_def tc'_def)
    moreover have "map_inv X ?c" using assms(2) unfolding map_inv_def runs by simp
    ultimately show thesis using Some runs name by (intro that [of ?c]) (simp_all add: write_cached_def)
  next
    case None
    let ?c = "(write_cached tc' c)\<lparr>ct_nextChannel := ?ch + 1, ct_started := ct_started c @ [(?ch, tc')]\<rparr>"
    have runs: "runs_for ?c name = (if name = tc_Name tc then {?ch} else runs_for c name)" for name
      using fresh assms(3) name by (auto simp: runs_for_def)
    have "base_inv ?c"
      unfolding base_inv_def using inv(1,2,4,6) name fresh by (auto simp: tc'_def split: if_splits dest: later)
    moreover have "start_sync env tc c = Inr (None, tc', ?ch, ?c)"
      using None by (simp add: start_sync_def Let_def tc'_def)
    moreover have "map_inv (insert (tc_Name tc) X) ?c"
      by (rule map_invI) (use map_invD [OF assms(2)] runs in simp)
    ultimately show thesis using None runs name by (intro that [of ?c]) (simp_all add: write_cached_def)
  qed
qed

lemma stopController_ok:
  assumes "type_inv c" and "mget (ct_stopChannels c) name = Some ch"
  shows "\<exists>c'. stopController name ch c = Inr c' \<and> type_inv c' \<and> ct_cache c' = ct_cache c \<and> ct_updates c' = ct_updates c \<and>
    ct_stopChannels c' = mdel name (ct_stopChannels c) \<and> ct_started c' = ct_started c \<and>
    (\<forall>name'. runs_for c' name' = (if name' = name then {} else runs_for c name'))"
proof -
  obtain c1 where c1: "close_channel ch c = Inr c1" "c1 = c\<lparr>ct_closed := ch # ct_closed c\<rparr>" "base_inv c1" "map_inv {name} c1"
    "\<And>n. runs_for c1 n = (if n = name then {} else runs_for c n)"
    using close_registered [OF type_invD(1,2) [OF assms(1)] _ assms(2)] by blast
  have "runs_for c1 name = {}" by (simp add: c1(5))
  from delete_channel_inv [OF c1(3,4) this] have "type_inv (delete_channel name c1)" by (simp add: type_inv_def)
  with c1 show ?thesis by (simp add: stopController_def)
qed

lemma shutDown_loop_ok:
  assumes "type_inv c" and "gomap_ok entries" and "\<And>k. mget entries k = mget (ct_stopChannels c) k"
  shows "\<exists>c'. shutDown_loop entries c = Inr c' \<and> type_inv c' \<and> ct_started c' = ct_started c \<and> (\<forall>name. runs_for c' name = {})"
  using assms
proof (induction entries arbitrary: c)
  case Nil
  then have "runs_for c name = {}" for name using type_invD(3) [OF Nil.prems(1), of name] by auto
  with Nil show ?case by simp
next
  case (Cons e rest)
  obtain name ch where e: "e = (name, ch)" by fastforce
  with Cons.prems(3) [of name] have ch: "mget (ct_stopChannels c) name = Some ch" by simp
  from stopController_ok [OF Cons.prems(1) this] obtain c' where
    stop: "stopController name ch c = Inr c'" "type_inv c'" "ct_stopChannels c' = mdel name (ct_stopChannels c)"
      "ct_started c' = ct_started c" by blast
  have "mget rest k = mget (ct_stopChannels c') k" for k
    using Cons.prems(2) Cons.prems(3) [of k] stop(3) e by (auto simp: gomap_ok_def map_of_eq_None_iff split: if_splits)
  moreover have "shutDown_loop (e # rest) c = shutDown_loop rest c'"
    using stop(1) by (auto simp: e stopController_def delete_channel_def rbind_Inr_iff)
  moreover have "gomap_ok rest" using Cons.prems(2) by (simp add: gomap_ok_def)
  ultimately show ?case using Cons.IH [OF stop(2)] stop(4) by simp
qed

lemma startController_ok:
  assumes "type_inv c" and "mget (ct_stopChannels c) (tc_Name tc) = None"
  shows "\<exists>c'. startController env tc c = Inr (map_option (ErrWrapped ''Error starting sync controller'')
      (te_start env (SetFederatedTypeConfigDefaults tc)), c') \<and> type_inv c' \<and> ct_updates c' = ct_updates c \<and>
    ct_cache c' = mput (tc_Name tc) (SetFederatedTypeConfigDefaults tc) (ct_cache c) \<and>
    (\<forall>name. runs_for c' name = (if name = tc_Name tc \<and> te_start env (SetFederatedTypeConfigDefaults tc) = None
       then {ct_nextChannel c} else runs_for c name))"
proof -
  let ?tc = "SetFederatedTypeConfigDefaults tc"
  have "runs_for c (tc_Name tc) = {}" using type_invD(3) [OF assms(1), of "tc_Name tc"] assms(2) by auto
  from start_sync_ok [OF type_invD(1,2) [OF assms(1)] this, of env] obtain c' where
    c': "start_sync env tc c = Inr (map_option (ErrWrapped ''Error starting sync controller'') (te_start env ?tc),
      ?tc, ct_nextChannel c, c')" "base_inv c'" "ct_cache c' = mput (tc_Name tc) ?tc (ct_cache c)"
    "ct_updates c' = ct_updates c" "te_start env ?tc = None \<Longrightarrow> map_inv {tc_Name tc} c'"
    "te_start env ?tc \<noteq> None \<Longrightarrow> map_inv {} c'"
    "\<And>name. runs_for c' name = (if name = tc_Name tc \<and> te_start env ?tc = None then {ct_nextChannel c} else runs_for c name)"
    by metis
  show ?thesis
  proof (cases "te_start env ?tc")
    case (Some err)
    with c' show ?thesis by (simp add: startController_def type_inv_def)
  next
    case None
    then have "runs_for c' (tc_Name ?tc) = {ct_nextChannel c}" "map_inv {tc_Name ?tc} c'" using c'(5,7) by simp_all
    from add_channel_inv [OF c'(2) this(2,1)] have "type_inv (add_channel ?tc (ct_nextChannel c) c')"
      by (simp add: type_inv_def)
    with None c' show ?thesis by (simp add: startController_def)
  qed
qed

lemma runs_for_nonempty:
  "type_inv c \<Longrightarrow> runs_for c name = (case mget (ct_stopChannels c) name of None \<Rightarrow> {} | Some ch \<Rightarrow> {ch})"
proof -
  assume "type_inv c"
  then have "runs_for c name = {ch. mget (ct_stopChannels c) name = Some ch}" using type_invD(3) by blast
  then show ?thesis by (auto split: option.split)
qed

text \<open>
  The updates that bring the finalizer of a configuration in line: none when it is, and otherwise one,
  which changes nothing else.
\<close>

definition finalizer_updates :: "bool \<Rightarrow> FederatedTypeConfig \<Rightarrow> FederatedTypeConfig list \<Rightarrow> bool" where
  "finalizer_updates live tc us \<longleftrightarrow>
     (let old = set (om_Finalizers (tc_Meta tc)) in
      if type_finalizer \<in> old \<longleftrightarrow> live then us = []
      else \<exists>fs. us = [tc\<lparr>tc_Meta := (tc_Meta tc)\<lparr>om_Finalizers := fs\<rparr>\<rparr>] \<and>
             set fs = (if live then insert type_finalizer old else old - {type_finalizer}))"

lemma ensureFinalizer_ok:
  assumes "type_inv c" and "mget (ct_cache c) (tc_Name tc) = Some tc"
  shows "\<exists>e tc' c'. ensureFinalizer env tc c = (e, tc', c') \<and> type_inv c' \<and> ct_stopChannels c' = ct_stopChannels c \<and>
    runs_for c' = runs_for c \<and> tc_Spec tc' = tc_Spec tc \<and> tc_Name tc' = tc_Name tc \<and>
    om_DeletionTimestamp (tc_Meta tc') = om_DeletionTimestamp (tc_Meta tc) \<and>
    type_finalizer \<in> set (om_Finalizers (tc_Meta tc')) \<and> mget (ct_cache c') (tc_Name tc) = Some tc' \<and>
    (\<exists>us. ct_updates c' = ct_updates c @ us \<and> finalizer_updates True tc us) \<and>
    ((\<forall>x. te_update env x = None) \<longrightarrow> e = None)"
proof (cases "type_finalizer \<in> set (om_Finalizers (tc_Meta tc))")
  case True
  with assms show ?thesis by (auto simp: ensureFinalizer_def finalizer_updates_def Let_def sset.has)
next
  case False
  let ?tc = "set_finalizers tc (sset_insert type_finalizer (sset_of (om_Finalizers (tc_Meta tc))))"
  let ?c = "(write_cached ?tc c)\<lparr>ct_updates := ct_updates c @ [?tc]\<rparr>"
  have "ensureFinalizer env tc c = (te_update env ?tc, ?tc, ?c)"
    using False by (simp add: ensureFinalizer_def Let_def sset.has)
  moreover have "runs_for ?c = runs_for c" by (rule runs_for_cong) simp_all
  moreover have "type_inv ?c"
    by (rule type_inv_cache [OF type_inv_write [OF assms(1), of ?tc]])
      (auto split: if_splits dest: base_invD(2) [OF type_invD(1) [OF assms(1)]])
  moreover have "finalizer_updates True tc [?tc]"
    using False by (auto simp: finalizer_updates_def set_finalizers_def Let_def sset.list_of)
  ultimately show ?thesis by (auto simp: sset.list_of)
qed

lemma removeFinalizer_ok:
  assumes "type_inv c"
  shows "\<exists>e c'. removeFinalizer env tc c = (e, c') \<and> type_inv c' \<and> ct_stopChannels c' = ct_stopChannels c \<and>
    runs_for c' = runs_for c \<and>
    (mget (ct_cache c) (tc_Name tc) = Some tc \<longrightarrow> (\<exists>tc'. mget (ct_cache c') (tc_Name tc) = Some tc' \<and>
       om_DeletionTimestamp (tc_Meta tc') = om_DeletionTimestamp (tc_Meta tc) \<and>
       type_finalizer \<notin> set (om_Finalizers (tc_Meta tc')))) \<and>
    (\<exists>us. ct_updates c' = ct_updates c @ us \<and> finalizer_updates False tc us) \<and>
    ((\<forall>x. te_update env x = None) \<longrightarrow> e = None)"
proof (cases "type_finalizer \<in> set (om_Finalizers (tc_Meta tc))")
  case False
  with assms show ?thesis by (auto simp: removeFinalizer_def finalizer_updates_def Let_def sset.has)
next
  case True
  let ?tc = "set_finalizers tc (sset_delete type_finalizer (sset_of (om_Finalizers (tc_Meta tc))))"
  let ?c = "(write_cached ?tc c)\<lparr>ct_updates := ct_updates c @ [?tc]\<rparr>"
  have "removeFinalizer env tc c = (te_update env ?tc, ?c)"
    using True by (simp add: removeFinalizer_def Let_def sset.has)
  moreover have "runs_for ?c = runs_for c" by (rule runs_for_cong) simp_all
  moreover have "type_inv ?c"
    by (rule type_inv_cache [OF type_inv_write [OF assms(1), of ?tc]])
      (auto split: if_splits dest: base_invD(2) [OF type_invD(1) [OF assms(1)]])
  moreover have "finalizer_updates False tc [?tc]"
    using True by (auto simp: finalizer_updates_def set_finalizers_def Let_def sset.list_of sset.delete_s)
  ultimately show ?thesis by (auto simp: sset.list_of sset.delete_s)
qed

lemma Reconcile_deleted_ok:
  assumes "type_inv c" and "mget (ct_cache c) name = Some tc" and "om_DeletionTimestamp (tc_Meta tc) \<noteq> None"
  shows "\<exists>err c' tc'. Reconcile_found env name tc (getStopChannel name c) c = Inr (err, c') \<and> type_inv c' \<and>
    runs_for c' name = {} \<and> (\<forall>name'. name' \<noteq> name \<longrightarrow> runs_for c' name' = runs_for c name') \<and>
    mget (ct_cache c') name = Some tc' \<and> om_DeletionTimestamp (tc_Meta tc') \<noteq> None \<and>
    (\<exists>us. ct_updates c' = ct_updates c @ us \<and> finalizer_updates False tc us) \<and>
    type_finalizer \<notin> set (om_Finalizers (tc_Meta tc')) \<and> ((\<forall>x. te_update env x = None) \<longrightarrow> err = None)"
proof -
  have name: "tc_Name tc = name" using base_invD(2) [OF type_invD(1) [OF assms(1)] assms(2)] .
  obtain c1 where c1: "(case getStopChannel name c of None \<Rightarrow> Inr c | Some ch \<Rightarrow> stopController name ch c) = Inr c1"
    "type_inv c1" "ct_cache c1 = ct_cache c" "ct_updates c1 = ct_updates c"
    "runs_for c1 name = {}" "\<forall>name'. name' \<noteq> name \<longrightarrow> runs_for c1 name' = runs_for c name'"
  proof (cases "mget (ct_stopChannels c) name")
    case None
    with that [of c] assms(1) runs_for_nonempty [OF assms(1), of name] show ?thesis by (simp add: getStopChannel_def)
  next
    case (Some ch)
    from stopController_ok [OF assms(1) this] show ?thesis
      using that Some by (auto simp: getStopChannel_def)
  qed
  obtain e c2 where r: "removeFinalizer env tc c1 = (e, c2)" by fastforce
  from removeFinalizer_ok [OF c1(2), of env tc] assms(2,3) c1 name r show ?thesis
    by (auto simp: Reconcile_found_def)
qed

lemma Reconcile_live_ok:
  assumes "type_inv c" and "mget (ct_cache c) name = Some tc" and "om_DeletionTimestamp (tc_Meta tc) = None"
  shows "\<exists>err c'. Reconcile_found env name tc (getStopChannel name c) c = Inr (err, c') \<and> type_inv c' \<and>
    (\<forall>name'. name' \<noteq> name \<longrightarrow> runs_for c' name' = runs_for c name') \<and>
    (\<exists>us. ct_updates c' = ct_updates c @ us \<and> finalizer_updates True tc us) \<and>
    ((\<forall>x. te_update env x = None) \<and> (\<forall>x. te_start env x = None) \<longrightarrow> err = None \<and>
      (runs_for c' name \<noteq> {} \<longleftrightarrow> ts_PropagationEnabled (tc_Spec tc)) \<and>
      (\<exists>tc'. mget (ct_cache c') name = Some tc' \<and> om_DeletionTimestamp (tc_Meta tc') = None \<and>
        ts_PropagationEnabled (tc_Spec tc') = ts_PropagationEnabled (tc_Spec tc) \<and>
        type_finalizer \<in> set (om_Finalizers (tc_Meta tc'))))"
proof -
  have name: "tc_Name tc = name" using base_invD(2) [OF type_invD(1) [OF assms(1)] assms(2)] .
  obtain e tc1 c1 where r: "ensureFinalizer env tc c = (e, tc1, c1)" "type_inv c1" "ct_stopChannels c1 = ct_stopChannels c"
    "runs_for c1 = runs_for c" "tc_Spec tc1 = tc_Spec tc" "tc_Name tc1 = name"
    "om_DeletionTimestamp (tc_Meta tc1) = None" "type_finalizer \<in> set (om_Finalizers (tc_Meta tc1))"
    "mget (ct_cache c1) name = Some tc1" "(\<forall>x. te_update env x = None) \<longrightarrow> e = None"
    "\<exists>us. ct_updates c1 = ct_updates c @ us \<and> finalizer_updates True tc us"
    using ensureFinalizer_ok [OF assms(1), of tc env] assms(2,3) name by auto
  show ?thesis
  proof (cases e)
    case (Some err)
    with r assms(3) show ?thesis by (auto simp: Reconcile_found_def)
  next
    case None
    show ?thesis
    proof (cases "mget (ct_stopChannels c) name")
      case not_running: None
      show ?thesis
      proof (cases "ts_PropagationEnabled (tc_Spec tc)")
        case True
        obtain c2 where
          "startController env tc1 c1 = Inr (map_option (ErrWrapped ''Error starting sync controller'')
             (te_start env (SetFederatedTypeConfigDefaults tc1)), c2)" "type_inv c2" "ct_updates c2 = ct_updates c1"
          "ct_cache c2 = mput name (SetFederatedTypeConfigDefaults tc1) (ct_cache c1)"
          "\<forall>n. runs_for c2 n = (if n = name \<and> te_start env (SetFederatedTypeConfigDefaults tc1) = None
             then {ct_nextChannel c1} else runs_for c n)"
          using startController_ok [OF r(2), of tc1 env, unfolded r(3,4,6)] not_running by blast
        with None True r not_running assms(3) show ?thesis
          by (auto simp: Reconcile_found_def getStopChannel_def)
      next
        case False
        with None r not_running assms(3) runs_for_nonempty [OF assms(1), of name] show ?thesis
          by (auto simp: Reconcile_found_def getStopChannel_def)
      qed
    next
      case (Some ch)
      show ?thesis
      proof (cases "ts_PropagationEnabled (tc_Spec tc)")
        case True
        with None Some r assms(3) runs_for_nonempty [OF assms(1), of name] show ?thesis
          by (auto simp: Reconcile_found_def getStopChannel_def)
      next
        case False
        obtain c2 where
          "stopController name ch c1 = Inr c2" "type_inv c2" "ct_cache c2 = ct_cache c1" "ct_updates c2 = ct_updates c1"
          "\<forall>n. runs_for c2 n = (if n = name then {} else runs_for c n)"
          using stopController_ok [OF r(2), of name ch, unfolded r(3,4)] Some by blast
        with None False Some r assms(3) show ?thesis
          by (auto simp: Reconcile_found_def getStopChannel_def)
      qed
    qed
  qed
qed

lemma Reconcile_type_ok:
  assumes "type_inv c"
  shows "\<exists>err c'. Reconcile_type env name c = Inr (err, c') \<and> type_inv c'"
proof (cases "te_listerErr env")
  case (Some err)
  with assms show ?thesis by (simp add: Reconcile_type_def)
next
  case lister: None
  show ?thesis
  proof (cases "mget (ct_cache c) name")
    case None
    with assms lister show ?thesis by (simp add: Reconcile_type_def)
  next
    case (Some tc)
    with lister have "Reconcile_type env name c = Reconcile_found env name tc (getStopChannel name c) c"
      by (simp add: Reconcile_type_def)
    with Reconcile_deleted_ok [OF assms Some, of env] Reconcile_live_ok [OF assms Some, of env]
    show ?thesis by (cases "om_DeletionTimestamp (tc_Meta tc)") fastforce+
  qed
qed

lemma shutDown_ok:
  assumes "type_inv c"
  shows "\<exists>c'. shutDown c = Inr c' \<and> type_inv c' \<and> ct_started c' = ct_started c \<and> (\<forall>name. runs_for c' name = {})"
  unfolding shutDown_def by (rule shutDown_loop_ok [OF assms base_invD(1) [OF type_invD(1) [OF assms]] refl])

text \<open>What the sync controllers rely on in the configuration they are started with.\<close>

definition related_ok :: "APIResource \<Rightarrow> APIResource \<Rightarrow> bool" where
  "related_ok template r \<longleftrightarrow> ar_PluralName r \<noteq> [] \<and> (ar_Group template \<noteq> [] \<longrightarrow> ar_Group r \<noteq> []) \<and>
     (ar_Version template \<noteq> [] \<longrightarrow> ar_Version r \<noteq> [])"

definition config_ok :: "FederatedTypeConfig \<Rightarrow> bool" where
  "config_ok tc \<longleftrightarrow> (let template = ts_Template (tc_Spec tc) in
     ar_PluralName template \<noteq> [] \<and> related_ok template (ts_Placement (tc_Spec tc)) \<and>
     (case ts_Override (tc_Spec tc) of None \<Rightarrow> True | Some r \<Rightarrow> related_ok template r))"

lemma related_ok_default: "related_ok t (default_related t r)"
  by (simp add: related_ok_def default_related_def setStringDefault_nonempty pluralName_nonempty)

lemma config_ok_defaults: "config_ok (SetFederatedTypeConfigDefaults tc)"
  by (simp add: config_ok_def SetFederatedTypeConfigDefaults_def Let_def related_ok_default setStringDefault_nonempty
      pluralName_nonempty split: option.split)


end
