(* ===== verification/Type_Claims.thy ===== *)
theory Type_Claims
  imports Type_Invariant
begin

section \<open>Properties of the type configuration controller\<close>

text \<open>
  What holds in every interleaving of its goroutines, that reconciling brings the running sync
  controllers in line with the configurations, and two ways it goes wrong: an update that fails is
  not retried, and shutting down while a controller is being stopped closes a channel twice.
\<close>

subsection \<open>The invariant of the interleavings\<close>

text \<open>
  What the worker knows at each of its steps; \<open>fresh\<close> says that \<open>shutDown\<close> has not begun. A channel
  that it has read is still registered, unless \<open>shutDown\<close> has closed it.
\<close>

definition held :: "bool \<Rightarrow> string \<Rightarrow> nat option \<Rightarrow> type_controller \<Rightarrow> bool" where
  "held fresh name running c =
     (case running of
        None \<Rightarrow> mget (ct_stopChannels c) name = None
      | Some ch \<Rightarrow> mget (ct_stopChannels c) name = Some ch \<or> \<not> fresh \<and> ch \<in> set (ct_closed c))"

fun thread_inv :: "bool \<Rightarrow> reconcile_at \<Rightarrow> type_controller \<Rightarrow> bool" where
  "thread_inv fresh (Returned e) c \<longleftrightarrow> map_inv {} c"
| "thread_inv fresh (Looked name tc) c \<longleftrightarrow> tc_Name tc = name \<and> map_inv {} c"
| "thread_inv fresh (Read name tc running) c \<longleftrightarrow> tc_Name tc = name \<and> map_inv {} c \<and> held fresh name running c"
| "thread_inv fresh (Ensured name tc running) c \<longleftrightarrow> tc_Name tc = name \<and> map_inv {} c \<and> held fresh name running c"
| "thread_inv fresh (Closed name tc) c \<longleftrightarrow> tc_Name tc = name \<and> map_inv {name} c \<and> runs_for c name = {} \<and>
     (\<forall>ch. mget (ct_stopChannels c) name = Some ch \<longrightarrow> ch \<in> set (ct_closed c)) \<and>
     (fresh \<longrightarrow> mget (ct_stopChannels c) name \<noteq> None)"
| "thread_inv fresh (Removing tc) c \<longleftrightarrow> map_inv {} c"
| "thread_inv fresh (Started tc ch) c \<longleftrightarrow> map_inv {tc_Name tc} c \<and> runs_for c (tc_Name tc) = {ch} \<and>
     mget (ct_stopChannels c) (tc_Name tc) = None"

definition threads_inv :: "type_threads \<Rightarrow> bool" where
  "threads_inv s \<longleftrightarrow> base_inv (tt_ctrl s) \<and> thread_inv (tt_shutDown s = NotStopped) (tt_reconcile s) (tt_ctrl s) \<and>
     (case tt_shutDown s of
        Holding rest \<Rightarrow> gomap_ok rest \<and> (\<forall>k. mget rest k = mget (ct_stopChannels (tt_ctrl s)) k)
      | _ \<Rightarrow> True)"

text \<open>Writes to the cache, and a step of the other goroutines that only closes and deletes.\<close>

lemma thread_inv_cache:
  assumes "ct_stopChannels c' = ct_stopChannels c" "ct_nextChannel c' = ct_nextChannel c"
    "ct_closed c' = ct_closed c" "ct_started c' = ct_started c"
  shows "thread_inv fresh at c' = thread_inv fresh at c"
  using inv_cache(1) [OF assms] assms by (cases at) (simp_all add: map_inv_def held_def split: option.split)

lemma through_sel [simp]:
  "ct_stopChannels (through l c c') = ct_stopChannels c'" "ct_nextChannel (through l c c') = ct_nextChannel c'"
  "ct_closed (through l c c') = ct_closed c'" "ct_started (through l c c') = ct_started c'"
  "runs_for (through l c c') = runs_for c'"
  by (auto simp: through_def intro: runs_for_cong)

lemma through_inv:
  assumes "base_inv c" "base_inv c'"
  shows "base_inv (through l c c')" "map_inv X (through l c c') = map_inv X c'"
proof -
  show "base_inv (through l c c')"
    by (rule inv_cache(3) [OF _ _ _ _ assms(2)])
      (use base_invD(2) [OF assms(1)] base_invD(2) [OF assms(2)] in \<open>auto simp: through_def split: if_splits\<close>)
  show "map_inv X (through l c c') = map_inv X c'" by (simp add: map_inv_def)
qed

lemma ensureFinalizer_writes:
  assumes "ensureFinalizer env tc c = (e, tc', c')" "base_inv c"
  shows "base_inv c'" "tc_Name tc' = tc_Name tc" "ct_stopChannels c' = ct_stopChannels c"
    "ct_closed c' = ct_closed c" "runs_for c' = runs_for c" "map_inv X c' = map_inv X c"
proof -
  have eqs: "ct_stopChannels c' = ct_stopChannels c \<and> ct_nextChannel c' = ct_nextChannel c \<and>
      ct_closed c' = ct_closed c \<and> ct_started c' = ct_started c \<and> tc_Name tc' = tc_Name tc \<and>
      (ct_cache c' = ct_cache c \<or> ct_cache c' = ct_cache (write_cached tc' c))"
    using assms(1) by (auto simp: ensureFinalizer_def Let_def split: if_splits)
  then show "tc_Name tc' = tc_Name tc" "ct_stopChannels c' = ct_stopChannels c" "ct_closed c' = ct_closed c" by simp_all
  show runs: "runs_for c' = runs_for c" by (rule inv_cache(1)) (simp_all add: eqs)
  show "map_inv X c' = map_inv X c" using eqs by (simp add: map_inv_def runs)
  show "base_inv c'"
    by (rule inv_cache(3) [OF _ _ _ _ assms(2)])
      (use eqs base_invD(2) [OF assms(2)] in \<open>auto split: if_splits\<close>)
qed

lemma removeFinalizer_writes:
  assumes "removeFinalizer env tc c = (e, c')" "base_inv c"
  shows "base_inv c'" "ct_stopChannels c' = ct_stopChannels c" "map_inv X c' = map_inv X c"
proof -
  have eqs: "ct_stopChannels c' = ct_stopChannels c \<and> ct_nextChannel c' = ct_nextChannel c \<and>
      ct_closed c' = ct_closed c \<and> ct_started c' = ct_started c \<and>
      (\<forall>name tc'. mget (ct_cache c') name = Some tc' \<longrightarrow> mget (ct_cache c) name = Some tc' \<or> tc_Name tc' = name)"
    using assms(1) by (auto simp: removeFinalizer_def Let_def split: if_splits)
  then show "ct_stopChannels c' = ct_stopChannels c" by simp
  have runs: "runs_for c' = runs_for c" by (rule inv_cache(1)) (simp_all add: eqs)
  show "map_inv X c' = map_inv X c" using eqs by (simp add: map_inv_def runs)
  show "base_inv c'"
    by (rule inv_cache(3) [OF _ _ _ _ assms(2)])
      (use eqs base_invD(2) [OF assms(2)] in \<open>auto split: if_splits\<close>)
qed

text \<open>The close of a channel that the worker has read.\<close>

lemma close_held:
  assumes "base_inv c" "map_inv {} c" "held fresh name (Some ch) c"
  shows "(\<exists>c'. close_channel ch c = Inr c' \<and> base_inv c' \<and> ct_stopChannels c' = ct_stopChannels c \<and>
      map_inv {name} c' \<and> runs_for c' name = {} \<and>
      (\<forall>ch. mget (ct_stopChannels c') name = Some ch \<longrightarrow> ch \<in> set (ct_closed c')) \<and>
      mget (ct_stopChannels c') name \<noteq> None) \<or>
    (\<not> fresh \<and> ch \<in> set (ct_closed c) \<and> close_channel ch c = Inl (GoPanic ''close of closed channel''))"
proof (cases "mget (ct_stopChannels c) name = Some ch")
  case True
  from close_registered [OF assms(1,2) _ this] obtain c' where "close_channel ch c = Inr c'"
    "c' = c\<lparr>ct_closed := ch # ct_closed c\<rparr>" "base_inv c'" "map_inv {name} c'"
    "\<And>n. runs_for c' n = (if n = name then {} else runs_for c n)"
    by blast
  with True show ?thesis by simp
next
  case False
  with assms(3) show ?thesis by (simp add: held_def close_channel_def)
qed

definition may_panic :: "reconcile_at \<Rightarrow> type_controller \<Rightarrow> bool" where
  "may_panic at c \<longleftrightarrow> (\<exists>name tc ch. ch \<in> set (ct_closed c) \<and>
     (at = Read name tc (Some ch) \<or> at = Ensured name tc (Some ch)))"

lemma reconcile_next_inv:
  assumes "base_inv c" "thread_inv fresh at c" "reconcile_next env free linked at c = Some r"
  shows "case r of
      Inl e \<Rightarrow> \<not> fresh \<and> may_panic at c
    | Inr (at', c') \<Rightarrow> base_inv c' \<and> thread_inv fresh at' c' \<and> (free \<or> ct_stopChannels c' = ct_stopChannels c)"
proof (cases at)
  case (Looked name tc)
  with assms have "free" "r = Inr (Read name tc (getStopChannel name c), c)" by (simp_all split: if_splits)
  with Looked assms(1,2) show ?thesis by (auto simp: held_def getStopChannel_def split: option.split)
next
  case (Read name tc running)
  then have inv: "tc_Name tc = name" "map_inv {} c" "held fresh name running c" using assms(2) by simp_all
  show ?thesis
  proof (cases "is_deleted tc")
    case True
    show ?thesis
    proof (cases running)
      case None
      with True Read assms inv show ?thesis by auto
    next
      case (Some ch)
      with close_held [OF assms(1) inv(2), of fresh name ch] True Read assms(3) inv show ?thesis
        by (auto simp: may_panic_def simp del: is_deleted.simps)
    qed
  next
    case False
    obtain e tc' c1 where e: "ensureFinalizer env tc c = (e, tc', c1)" by (cases "ensureFinalizer env tc c")
    note w = ensureFinalizer_writes [OF e assms(1)]
    note t = through_inv [OF assms(1) w(1), where l = linked]
    have r: "r = Inr (case e of Some err \<Rightarrow> Returned (Some err) | None \<Rightarrow> Ensured name tc' running, through linked c c1)"
      using assms(3) e Read False by (auto split: option.splits simp del: is_deleted.simps)
    have "held fresh name running (through linked c c1)"
      using inv(3) w by (simp add: held_def split: option.splits)
    then show ?thesis using inv w t by (auto simp: r split: option.split)
  qed
next
  case (Ensured name tc running)
  then have inv: "tc_Name tc = name" "map_inv {} c" "held fresh name running c" using assms(2) by simp_all
  show ?thesis
  proof (cases "running = None \<and> ts_PropagationEnabled (tc_Spec tc)")
    case True
    then have none: "mget (ct_stopChannels c) name = None" using inv(3) by (simp add: held_def)
    then have "runs_for c (tc_Name tc) = {}" using map_invD [OF inv(2), of name] inv(1) by auto
    from start_sync_ok [OF assms(1) inv(2) this, of env] obtain c1 where
      c1: "start_sync env tc c = Inr (map_option (ErrWrapped ''Error starting sync controller'')
          (te_start env (SetFederatedTypeConfigDefaults tc)), SetFederatedTypeConfigDefaults tc, ct_nextChannel c, c1)"
        "base_inv c1" "ct_stopChannels c1 = ct_stopChannels c"
        "te_start env (SetFederatedTypeConfigDefaults tc) = None \<Longrightarrow> map_inv {tc_Name tc} c1"
        "te_start env (SetFederatedTypeConfigDefaults tc) \<noteq> None \<Longrightarrow> map_inv {} c1"
        "\<And>name. runs_for c1 name = (if name = tc_Name tc \<and> te_start env (SetFederatedTypeConfigDefaults tc) = None
           then {ct_nextChannel c} else runs_for c name)"
      by metis
    note t = through_inv [OF assms(1) c1(2), where l = linked]
    show ?thesis
      using assms(3) Ensured True c1 t none inv(1)
      by (cases "te_start env (SetFederatedTypeConfigDefaults tc)") auto
  next
    case False
    show ?thesis
    proof (cases running)
      case None
      with False Ensured assms inv show ?thesis by auto
    next
      case (Some ch)
      with close_held [OF assms(1) inv(2), of fresh name ch] Ensured assms(1,3) inv show ?thesis
        by (auto simp: may_panic_def Let_def split: if_splits)
    qed
  qed
next
  case (Closed name tc)
  then have inv: "tc_Name tc = name" "map_inv {name} c" "runs_for c name = {}" using assms(2) by simp_all
  have "free" "r = Inr (if is_deleted tc then Removing tc else Returned None, delete_channel name c)"
    using assms(3) Closed by (simp_all split: if_splits)
  with delete_channel_inv [OF assms(1) inv(2,3)] show ?thesis by simp
next
  case (Removing tc)
  obtain e c1 where e: "removeFinalizer env tc c = (e, c1)" by (cases "removeFinalizer env tc c")
  note w = removeFinalizer_writes [OF e assms(1)]
  from Removing e assms(2,3) through_inv [OF assms(1) w(1), where l = linked] w show ?thesis by auto
next
  case (Started tc ch)
  then have inv: "map_inv {tc_Name tc} c" "runs_for c (tc_Name tc) = {ch}" using assms(2) by simp_all
  have "free" "r = Inr (Returned None, add_channel tc ch c)"
    using assms(3) Started by (simp_all split: if_splits)
  with add_channel_inv [OF assms(1) inv] show ?thesis by simp
qed (use assms in simp_all)

fun in_flux :: "reconcile_at \<Rightarrow> string set" where
  "in_flux (Closed name tc) = {name}"
| "in_flux (Started tc ch) = {tc_Name tc}"
| "in_flux _ = {}"

lemma thread_inv_map: "thread_inv fresh at c \<Longrightarrow> map_inv (in_flux at) c"
  by (cases at) simp_all

lemma shutDown_close:
  assumes "base_inv c" "thread_inv fresh at c" "mget (ct_stopChannels c) k = Some ch"
  shows "(\<exists>c1. close_channel ch c = Inr c1 \<and> base_inv (delete_channel k c1) \<and> thread_inv False at (delete_channel k c1) \<and>
      ct_stopChannels c1 = ct_stopChannels c) \<or>
    (\<exists>name tc e. at = Closed name tc \<and> close_channel ch c = Inl e)"
proof (cases "k \<in> in_flux at")
  case True
  with assms(2,3) show ?thesis by (cases at) (auto simp: close_channel_def)
next
  case False
  from close_registered [OF assms(1) thread_inv_map [OF assms(2)] False assms(3)] obtain c1 where
    c1: "close_channel ch c = Inr c1" "c1 = c\<lparr>ct_closed := ch # ct_closed c\<rparr>" "base_inv c1" "map_inv (insert k (in_flux at)) c1"
      "\<And>name. runs_for c1 name = (if name = k then {} else runs_for c name)"
    by blast
  have "runs_for c1 k = {}" by (simp add: c1(5))
  note del = delete_channel_inv [OF c1(3,4) this]
  have m: "map_inv (in_flux at) (delete_channel k c1)" using del(2) False by simp
  have "held False name running (delete_channel k c1)" if "held fresh name running c" for name running
    using that assms(3) c1(2) by (auto simp: held_def split: option.splits)
  then have "thread_inv False at (delete_channel k c1)"
    using assms(2) m False c1(2,5) by (cases at) auto
  with c1(1,2) del(1) show ?thesis by simp
qed

lemma thread_inv_weaken: "thread_inv fresh at c \<Longrightarrow> thread_inv False at c"
  by (cases at) (auto simp: held_def split: option.splits)

lemma shutDown_step_inv:
  assumes "threads_inv s" "shutDown_step s = Some r"
  shows "case r of Inl e \<Rightarrow> (\<exists>name tc. tt_reconcile s = Closed name tc) | Inr s' \<Rightarrow> threads_inv s'"
proof (cases "tt_shutDown s")
  case NotStopped
  with assms thread_inv_weaken [of True] show ?thesis
    by (auto simp: shutDown_step_def threads_inv_def base_inv_def)
next
  case (Holding entries)
  show ?thesis
  proof (cases entries)
    case Nil
    with Holding assms show ?thesis by (auto simp: shutDown_step_def threads_inv_def)
  next
    case (Cons e rest)
    obtain k ch where e: "e = (k, ch)" by fastforce
    let ?c = "tt_ctrl s"
    have inv: "base_inv ?c" "thread_inv False (tt_reconcile s) ?c" "gomap_ok entries"
      "\<And>x. mget entries x = mget (ct_stopChannels ?c) x"
      using assms(1) Holding by (simp_all add: threads_inv_def)
    have "mget (ct_stopChannels ?c) k = Some ch" using inv(4) [of k] Cons e by simp
    from shutDown_close [OF inv(1,2) this] show ?thesis
    proof
      assume "\<exists>c1. close_channel ch ?c = Inr c1 \<and> base_inv (delete_channel k c1) \<and>
        thread_inv False (tt_reconcile s) (delete_channel k c1) \<and> ct_stopChannels c1 = ct_stopChannels ?c"
      then obtain c1 where c1: "close_channel ch ?c = Inr c1" "base_inv (delete_channel k c1)"
        "thread_inv False (tt_reconcile s) (delete_channel k c1)" "ct_stopChannels c1 = ct_stopChannels ?c" by blast
      have r: "r = Inr (s\<lparr>tt_ctrl := delete_channel k c1, tt_shutDown := Holding rest\<rparr>)"
        using assms(2) Holding Cons e c1(1) by (simp add: shutDown_step_def)
      have "mget rest x = mget (mdel k (ct_stopChannels ?c)) x" for x
        using inv(3) inv(4) [of x] Cons e by (auto simp: gomap_ok_def map_of_eq_None_iff split: if_splits)
      with c1 inv(3) Cons show ?thesis by (simp add: r threads_inv_def gomap_ok_def)
    next
      assume "\<exists>name tc e. tt_reconcile s = Closed name tc \<and> close_channel ch ?c = Inl e"
      then show ?thesis using assms(2) Holding Cons e by (auto simp: shutDown_step_def)
    qed
  qed
next
  case Stopped
  with assms(2) show ?thesis by (simp add: shutDown_step_def)
qed

lemma reconcile_step_inv:
  assumes "threads_inv s" "reconcile_step env s = Some r"
  shows "case r of Inl e \<Rightarrow> tt_shutDown s \<noteq> NotStopped \<and> may_panic (tt_reconcile s) (tt_ctrl s) | Inr s' \<Rightarrow> threads_inv s'"
proof -
  obtain r' where r': "reconcile_next env (lock_free s) (tt_linked s) (tt_reconcile s) (tt_ctrl s) = Some r'"
    "r = map_sum id (\<lambda>(at, c). s\<lparr>tt_reconcile := at, tt_ctrl := c\<rparr>) r'"
    using assms(2) by (auto simp: reconcile_step_def)
  have "base_inv (tt_ctrl s)" "thread_inv (tt_shutDown s = NotStopped) (tt_reconcile s) (tt_ctrl s)"
    using assms(1) by (simp_all add: threads_inv_def)
  from reconcile_next_inv [OF this r'(1)] show ?thesis
    using assms(1) r'(2)
    by (auto simp: threads_inv_def lock_free_def split: sum.splits shutDown_at.splits)
qed

lemma type_exec_inv: "type_exec s \<Longrightarrow> threads_inv s"
proof (induction rule: type_exec.induct)
  case exec_new
  show ?case
    by (simp add: threads_inv_def NewThreads_def NewTypeController_def base_inv_def map_inv_def runs_for_def)
next
  case (exec_put s tc)
  have "thread_inv f at (write_cached tc (tt_ctrl s)) = thread_inv f at (tt_ctrl s)" for f at
    by (rule thread_inv_cache) simp_all
  with exec_put.IH base_inv_write [of "tt_ctrl s" tc] show ?case
    by (simp add: threads_inv_def informer_put_def split: shutDown_at.splits)
next
  case (exec_remove s name)
  let ?c = "(tt_ctrl s)\<lparr>ct_cache := mdel name (ct_cache (tt_ctrl s))\<rparr>"
  have "thread_inv f at ?c = thread_inv f at (tt_ctrl s)" for f at
    by (rule thread_inv_cache) simp_all
  moreover have "base_inv ?c" if "base_inv (tt_ctrl s)"
    by (rule inv_cache(3) [OF _ _ _ _ that]) (auto split: if_splits dest: base_invD(2) [OF that])
  ultimately show ?case using exec_remove.IH
    by (simp add: threads_inv_def informer_remove_def split: shutDown_at.splits)
next
  case (exec_begin s e env name)
  then have "map_inv {} (tt_ctrl s)" "base_inv (tt_ctrl s)" by (simp_all add: threads_inv_def)
  then have "thread_inv f (tt_reconcile (reconcile_begin env name s)) (tt_ctrl s)" for f
    using base_invD(2) [of "tt_ctrl s"] by (auto simp: reconcile_begin_def split: option.split)
  with exec_begin.IH show ?case
    by (simp add: threads_inv_def reconcile_begin_def split: shutDown_at.splits)
next
  case (exec_reconcile s env s')
  then show ?case using reconcile_step_inv [of s env "Inr s'"] by simp
next
  case (exec_shutDown s s')
  then show ?case using shutDown_step_inv [of s "Inr s'"] by simp
qed

text \<open>Between two reconciliations the full invariant holds, also while \<open>shutDown\<close> runs and after it.\<close>

lemma type_exec_idle: "type_exec s \<Longrightarrow> tt_reconcile s = Returned e \<Longrightarrow> tt_ctrl s = c \<Longrightarrow> type_inv c"
  using type_exec_inv [of s] by (auto simp: threads_inv_def type_inv_def)

text \<open>In every state at most one sync controller runs for a name.\<close>

lemma runs_for_single:
  assumes "threads_inv s"
  shows "\<exists>ch. runs_for (tt_ctrl s) name \<subseteq> {ch}"
proof (cases "name \<in> in_flux (tt_reconcile s)")
  case True
  with assms show ?thesis by (cases "tt_reconcile s") (auto simp: threads_inv_def)
next
  case False
  have "map_inv (in_flux (tt_reconcile s)) (tt_ctrl s)"
    using assms thread_inv_map unfolding threads_inv_def by blast
  from map_invD [OF this False] have "x \<in> runs_for (tt_ctrl s) name \<Longrightarrow> y \<in> runs_for (tt_ctrl s) name \<Longrightarrow> x = y" for x y
    by (metis option.inject)
  then show ?thesis by (cases "runs_for (tt_ctrl s) name = {}") blast+
qed

subsection \<open>Safety\<close>

text \<open>
  C20. In every interleaving of the informer, the worker and \<open>shutDown\<close>: the worker panics only once
  \<open>shutDown\<close> has begun, at the close of a channel that it had read and that is closed by now, and
  \<open>shutDown\<close> panics only while the worker is between closing a channel and deleting it from the map
  (both can happen: \<open>shutdown_race\<close>, \<open>shutdown_race_back\<close>); at most one sync controller runs per
  configuration; each was started with complete resource names, groups and versions; and whenever
  no reconciliation is in progress the map of channels holds exactly the running sync controllers
  and shutting down stops them all.
\<close>

theorem type_controllers_wellformed:
  assumes "type_exec s"
  shows "(\<forall>env e. reconcile_step env s = Some (Inl e) \<longrightarrow> tt_shutDown s \<noteq> NotStopped \<and>
       (\<exists>name tc ch. ch \<in> set (ct_closed (tt_ctrl s)) \<and>
          (tt_reconcile s = Read name tc (Some ch) \<or> tt_reconcile s = Ensured name tc (Some ch)))) \<and>
    (\<forall>e. shutDown_step s = Some (Inl e) \<longrightarrow> (\<exists>name tc. tt_reconcile s = Closed name tc)) \<and>
    (\<forall>name. \<exists>ch. runs_for (tt_ctrl s) name \<subseteq> {ch}) \<and>
    (\<forall>(ch, tc) \<in> set (ct_started (tt_ctrl s)). SetFederatedTypeConfigDefaults tc = tc \<and> config_ok tc) \<and>
    (\<forall>e. tt_reconcile s = Returned e \<longrightarrow>
       (\<forall>name. runs_for (tt_ctrl s) name = (case getStopChannel name (tt_ctrl s) of None \<Rightarrow> {} | Some ch \<Rightarrow> {ch})) \<and>
       (\<exists>c'. shutDown (tt_ctrl s) = Inr c' \<and> (\<forall>name. runs_for c' name = {})))"
proof -
  note inv = type_exec_inv [OF assms]
  have base: "base_inv (tt_ctrl s)" using inv by (simp add: threads_inv_def)
  have "SetFederatedTypeConfigDefaults tc = tc \<and> config_ok tc" if "(ch, tc) \<in> set (ct_started (tt_ctrl s))" for ch tc
    using base_invD(4) [OF base that] config_ok_defaults [of tc] by simp
  moreover have "tt_shutDown s \<noteq> NotStopped \<and> may_panic (tt_reconcile s) (tt_ctrl s)"
    if "reconcile_step env s = Some (Inl e)" for env e
    using reconcile_step_inv [OF inv that] by simp
  moreover have "\<exists>name tc. tt_reconcile s = Closed name tc" if "shutDown_step s = Some (Inl e)" for e
    using shutDown_step_inv [OF inv that] by simp
  moreover have "runs_for (tt_ctrl s) name = (case getStopChannel name (tt_ctrl s) of None \<Rightarrow> {} | Some ch \<Rightarrow> {ch})"
    "\<exists>c'. shutDown (tt_ctrl s) = Inr c' \<and> (\<forall>name. runs_for c' name = {})"
    if "tt_reconcile s = Returned e" for e name
    using runs_for_nonempty [OF type_exec_idle [OF assms that refl]] shutDown_ok [OF type_exec_idle [OF assms that refl]]
    by (auto simp: getStopChannel_def)
  ultimately show ?thesis
    using runs_for_single [OF inv] unfolding may_panic_def by (intro conjI allI impI) blast+
qed

text \<open>A configuration and the run that starts its controller.\<close>

definition demo_resource :: "string \<Rightarrow> APIResource" where
  "demo_resource kind = \<lparr>ar_Group = ''g'', ar_Version = ''v1'', ar_Kind = kind, ar_PluralName = []\<rparr>"

definition demo_type :: "string option \<Rightarrow> FederatedTypeConfig" where
  "demo_type deleted =
     \<lparr>tc_Meta = empty_meta\<lparr>om_Name := ''secrets'', om_DeletionTimestamp := deleted\<rparr>,
      tc_Spec = \<lparr>ts_Target = demo_resource ''Secret'', ts_Namespaced = True, ts_ComparisonField = [],
        ts_PropagationEnabled = True, ts_Template = demo_resource ''FederatedSecret'',
        ts_Placement = demo_resource ''FederatedSecretPlacement'', ts_Override = None, ts_OverridePath = []\<rparr>\<rparr>"

definition demo_type_env :: type_env where
  "demo_type_env = \<lparr>te_listerErr = None, te_update = (\<lambda>_. None), te_start = (\<lambda>_. None)\<rparr>"

definition demo_type_state :: type_controller where
  "demo_type_state = write_cached (demo_type None) NewTypeController"

definition demo_threads :: type_threads where
  "demo_threads = reconcile_begin demo_type_env ''secrets'' (informer_put (demo_type None) NewThreads)"

lemma demo_threads_exec: "type_exec demo_threads" "type_exec (informer_put (demo_type None) NewThreads)"
proof -
  show idle: "type_exec (informer_put (demo_type None) NewThreads)" by (intro type_exec.intros)
  show "type_exec demo_threads"
    unfolding demo_threads_def
    by (rule exec_begin [OF idle, of None]) (simp add: informer_put_def NewThreads_def)
qed

lemma sum_map_Inr:
  assumes "map_sum id f z = Inr y"
  obtains x where "z = Inr x" "y = f x"
  using assms by (cases z) auto

lemma type_exec_run: "type_exec s \<Longrightarrow> run_reconcile n env s = Inr s' \<Longrightarrow> type_exec s' \<and> tt_shutDown s' = tt_shutDown s"
proof (induction n arbitrary: s)
  case (Suc n)
  show ?case
  proof (cases "reconcile_step env s")
    case (Some r)
    with Suc.prems(2) obtain s1 where "r = Inr s1" "run_reconcile n env s1 = Inr s'"
      by (auto simp: rbind_Inr_iff)
    moreover have "tt_shutDown s1 = tt_shutDown s" using Some calculation(1)
      by (auto simp: reconcile_step_def elim!: sum_map_Inr)
    ultimately show ?thesis using Suc.IH [of s1] Suc.prems(1) Some exec_reconcile by auto
  qed (use Suc.prems in simp)
qed simp

text \<open>The state after the worker has started the controller.\<close>

lemma demo_started:
  obtains s where "type_exec s" "tt_reconcile s = Returned None" "runs_for (tt_ctrl s) ''secrets'' \<noteq> {}"
    "tt_shutDown s = NotStopped"
proof -
  let ?i = "informer_put (demo_type None) NewThreads" and ?c = "write_cached (demo_type None) NewTypeController"
  have i: "tt_ctrl ?i = ?c" "tt_reconcile ?i = Returned None" "lock_free ?i"
    by (simp_all add: informer_put_def NewThreads_def lock_free_def)
  have tc: "mget (ct_cache ?c) ''secrets'' = Some (demo_type None)" "om_DeletionTimestamp (tc_Meta (demo_type None)) = None"
    "ts_PropagationEnabled (tc_Spec (demo_type None))"
    by (simp_all add: NewTypeController_def demo_type_def empty_meta_def)
  have inv: "type_inv ?c" using type_exec_idle [OF demo_threads_exec(2) i(2,1)] .
  from Reconcile_live_ok [OF inv tc(1,2), of demo_type_env] tc(3) obtain c' where
    "Reconcile_found demo_type_env ''secrets'' (demo_type None) (getStopChannel ''secrets'' ?c) ?c = Inr (None, c')"
    and runs: "runs_for c' ''secrets'' \<noteq> {}"
    by (auto simp: demo_type_env_def)
  then have "Reconcile_type demo_type_env ''secrets'' ?c = Inr (None, c')"
    using tc(1) by (simp add: Reconcile_type_def demo_type_env_def)
  with run_reconcile_alone [OF i(3), of demo_type_env "''secrets''"] obtain s where
    "run_reconcile 4 demo_type_env demo_threads = Inr s" "tt_reconcile s = Returned None" "tt_ctrl s = c'"
    unfolding demo_threads_def i(1) by (cases "run_reconcile 4 demo_type_env (reconcile_begin demo_type_env ''secrets'' ?i)") auto
  with runs type_exec_run [OF demo_threads_exec(1)] show thesis
    by (intro that [of s]) (auto simp: demo_threads_def reconcile_begin_def informer_put_def NewThreads_def)
qed

theorem type_controllers_wellformed_witness:
  "\<exists>(s :: type_threads) c'. runs_for (tt_ctrl s) ''secrets'' \<noteq> {} \<and> shutDown (tt_ctrl s) = Inr c' \<and> (\<forall>name. runs_for c' name = {})"
proof -
  obtain s where s: "type_exec s" "tt_reconcile s = Returned None" "runs_for (tt_ctrl s) ''secrets'' \<noteq> {}"
    by (rule demo_started)
  from type_controllers_wellformed [OF s(1)] s(2) have "\<exists>c'. shutDown (tt_ctrl s) = Inr c' \<and> (\<forall>name. runs_for c' name = {})"
    by simp
  with s(3) show ?thesis by blast
qed

text \<open>
  C21. Reconciling converges: whatever happened before, when the API and the start succeed, one
  \<open>Reconcile\<close> of a known configuration, with no \<open>shutDown\<close> in between, returns without an error,
  leaves its sync controller running exactly if it is enabled and not being deleted, and touches no
  other one. It sends the API exactly the update that is needed: none when the configuration has the
  finalizer and is live, or has not and is being deleted; otherwise one that adds or removes the
  finalizer and nothing else. So a configuration that the API has as the cache has it carries the
  finalizer afterwards, in both, exactly if it is live. A second \<open>Reconcile\<close>, with whatever outcomes,
  changes nothing and sends nothing. (An update that fails is not made up for:
  \<open>failed_finalizer_orphans\<close>.)
\<close>

theorem Reconcile_converges:
  assumes "type_exec s" "tt_reconcile s = Returned e" "tt_ctrl s = c"
    and "te_listerErr env = None" and "mget (ct_cache c) name = Some tc"
    and "\<And>x. te_update env x = None" and "\<And>x. te_start env x = None"
  defines "live \<equiv> om_DeletionTimestamp (tc_Meta tc) = None"
  shows "\<exists>c' tc' us. Reconcile_type env name c = Inr (None, c') \<and>
    (runs_for c' name \<noteq> {} \<longleftrightarrow> live \<and> ts_PropagationEnabled (tc_Spec tc)) \<and>
    (\<forall>name'. name' \<noteq> name \<longrightarrow> runs_for c' name' = runs_for c name') \<and>
    ct_updates c' = ct_updates c @ us \<and> finalizer_updates live tc us \<and>
    (type_finalizer \<in> set (om_Finalizers (tc_Meta (last (tc # us)))) \<longleftrightarrow> live) \<and>
    mget (ct_cache c') name = Some tc' \<and> (type_finalizer \<in> set (om_Finalizers (tc_Meta tc')) \<longleftrightarrow> live) \<and>
    (\<forall>env'. te_listerErr env' = None \<longrightarrow> Reconcile_type env' name c' = Inr (None, c'))"
proof -
  note inv = type_exec_idle [OF assms(1-3)]
  have fin: "type_finalizer \<in> set (om_Finalizers (tc_Meta (last (tc # us)))) \<longleftrightarrow> live"
    if us: "finalizer_updates live tc us" for us
  proof (cases "type_finalizer \<in> set (om_Finalizers (tc_Meta tc)) \<longleftrightarrow> live")
    case True
    then show ?thesis using us unfolding finalizer_updates_def Let_def by simp
  next
    case False
    then obtain fs where "us = [tc\<lparr>tc_Meta := (tc_Meta tc)\<lparr>om_Finalizers := fs\<rparr>\<rparr>]"
      "set fs = (if live then insert type_finalizer (set (om_Finalizers (tc_Meta tc)))
        else set (om_Finalizers (tc_Meta tc)) - {type_finalizer})"
      using us unfolding finalizer_updates_def Let_def by auto
    then show ?thesis by (cases live) simp_all
  qed
  show ?thesis
  proof (cases "om_DeletionTimestamp (tc_Meta tc)")
    case None
    then have live: "live" by (simp add: live_def)
    from Reconcile_live_ok [OF inv assms(5) None, of env] assms(6,7) obtain c' tc' us where
      r: "Reconcile_found env name tc (getStopChannel name c) c = Inr (None, c')" "type_inv c'"
        "\<forall>name'. name' \<noteq> name \<longrightarrow> runs_for c' name' = runs_for c name'"
        "runs_for c' name \<noteq> {} \<longleftrightarrow> ts_PropagationEnabled (tc_Spec tc)"
        "mget (ct_cache c') name = Some tc'" "om_DeletionTimestamp (tc_Meta tc') = None"
        "ts_PropagationEnabled (tc_Spec tc') = ts_PropagationEnabled (tc_Spec tc)"
        "type_finalizer \<in> set (om_Finalizers (tc_Meta tc'))"
        "ct_updates c' = ct_updates c @ us" "finalizer_updates live tc us"
      using live by auto
    have "Reconcile_type env' name c' = Inr (None, c')" if "te_listerErr env' = None" for env'
      using that r(2-8) runs_for_nonempty [OF r(2), of name]
      by (auto simp: Reconcile_type_def Reconcile_found_def ensureFinalizer_def Let_def sset.has getStopChannel_def
          split: option.splits)
    moreover have "Reconcile_type env name c = Inr (None, c')" using r(1) assms(4,5) by (simp add: Reconcile_type_def)
    ultimately show ?thesis using live r(3-5,8-10) fin [OF r(10)] by blast
  next
    case (Some t)
    then have dead: "\<not> live" by (simp add: live_def)
    from Reconcile_deleted_ok [OF inv assms(5), of env] Some assms(6) obtain c' tc' us where
      r: "Reconcile_found env name tc (getStopChannel name c) c = Inr (None, c')" "type_inv c'" "runs_for c' name = {}"
        "\<forall>name'. name' \<noteq> name \<longrightarrow> runs_for c' name' = runs_for c name'"
        "mget (ct_cache c') name = Some tc'" "om_DeletionTimestamp (tc_Meta tc') \<noteq> None"
        "type_finalizer \<notin> set (om_Finalizers (tc_Meta tc'))"
        "ct_updates c' = ct_updates c @ us" "finalizer_updates live tc us"
      using dead by auto
    have "Reconcile_type env' name c' = Inr (None, c')" if "te_listerErr env' = None" for env'
      using that r(2-7) runs_for_nonempty [OF r(2), of name]
      by (auto simp: Reconcile_type_def Reconcile_found_def removeFinalizer_def Let_def sset.has getStopChannel_def
          split: option.splits)
    moreover have "Reconcile_type env name c = Inr (None, c')" using r(1) assms(4,5) by (simp add: Reconcile_type_def)
    ultimately show ?thesis using dead r(3-5,7-9) fin [OF r(9)] by blast
  qed
qed

theorem Reconcile_converges_witness:
  "\<exists>c' tc1. Reconcile_type demo_type_env ''secrets'' (write_cached (demo_type None) NewTypeController) = Inr (None, c') \<and>
    runs_for c' ''secrets'' \<noteq> {} \<and> ct_updates c' = [tc1] \<and> type_finalizer \<in> set (om_Finalizers (tc_Meta tc1))"
proof -
  let ?i = "informer_put (demo_type None) NewThreads" and ?c = "write_cached (demo_type None) NewTypeController"
  have i: "tt_reconcile ?i = Returned None" "tt_ctrl ?i = ?c" by (simp_all add: informer_put_def NewThreads_def)
  have tc: "mget (ct_cache ?c) ''secrets'' = Some (demo_type None)" "om_DeletionTimestamp (tc_Meta (demo_type None)) = None"
    "ts_PropagationEnabled (tc_Spec (demo_type None))" "om_Finalizers (tc_Meta (demo_type None)) = []" "ct_updates ?c = []"
    by (simp_all add: NewTypeController_def demo_type_def empty_meta_def write_cached_def)
  have "te_listerErr demo_type_env = None" "\<And>x. te_update demo_type_env x = None" "\<And>x. te_start demo_type_env x = None"
    by (simp_all add: demo_type_env_def)
  from Reconcile_converges [OF demo_threads_exec(2) i this(1) tc(1) this(2,3)] obtain c' us where
    r: "Reconcile_type demo_type_env ''secrets'' ?c = Inr (None, c')" "runs_for c' ''secrets'' \<noteq> {}" "ct_updates c' = us"
      "finalizer_updates True (demo_type None) us"
    using tc(2,3,5) by auto
  then show ?thesis using tc(4) by (auto simp: finalizer_updates_def)
qed

subsection \<open>Two defects\<close>

text \<open>
  An update that fails to add the finalizer leaves it in the cached object, so the retry starts the
  controller without updating; the object can then be deleted at once, and its controller stays.
\<close>

lemma failed_finalizer_orphans:
  assumes "type_exec s" "tt_reconcile s = Returned e" "tt_ctrl s = c" and "mget (ct_cache c) name = Some tc" and "om_DeletionTimestamp (tc_Meta tc) = None"
    and "type_finalizer \<notin> set (om_Finalizers (tc_Meta tc))" and "ts_PropagationEnabled (tc_Spec tc)"
    and "getStopChannel name c = None" and "te_listerErr env1 = None" and "te_update env1 = (\<lambda>_. Some err)"
    and "te_listerErr env2 = None" and "te_start env2 = (\<lambda>_. None)"
  shows "\<exists>c1 c2. Reconcile_type env1 name c = Inr (Some err, c1) \<and> Reconcile_type env2 name c1 = Inr (None, c2) \<and>
    ct_updates c2 = ct_updates c1 \<and> (\<forall>env. te_listerErr env = None \<longrightarrow>
      (let c3 = c2\<lparr>ct_cache := mdel name (ct_cache c2)\<rparr>
       in Reconcile_type env name c3 = Inr (None, c3) \<and> runs_for c3 name \<noteq> {}))"
proof -
  note inv = type_exec_idle [OF assms(1-3)]
  have name: "tc_Name tc = name" using base_invD(2) [OF type_invD(1) [OF inv] assms(4)] .
  let ?tc = "set_finalizers tc (sset_insert type_finalizer (sset_of (om_Finalizers (tc_Meta tc))))"
  let ?c1 = "(write_cached ?tc c)\<lparr>ct_updates := ct_updates c @ [?tc]\<rparr>"
  have first: "Reconcile_type env1 name c = Inr (Some err, ?c1)"
    using assms by (simp add: Reconcile_type_def Reconcile_found_def ensureFinalizer_def Let_def sset.has)
  have inv1: "type_inv ?c1"
    by (rule type_inv_cache [OF type_inv_write [OF inv, of ?tc]])
      (auto split: if_splits dest: base_invD(2) [OF type_invD(1) [OF inv]])
  have "mget (ct_stopChannels ?c1) (tc_Name ?tc) = None" using assms(8) name by (simp add: getStopChannel_def)
  from startController_ok [OF inv1 this, of env2] obtain c2 where
    start: "startController env2 ?tc ?c1 = Inr (None, c2)" "ct_updates c2 = ct_updates ?c1"
      "runs_for c2 name \<noteq> {}"
    using assms(12) name by auto
  have "Reconcile_type env2 name ?c1 = Inr (None, c2)"
    using assms name start(1)
    by (simp add: Reconcile_type_def Reconcile_found_def ensureFinalizer_def Let_def sset.has sset.list_of
        getStopChannel_def)
  moreover have "runs_for (c2\<lparr>ct_cache := m\<rparr>) name = runs_for c2 name" for m
    by (rule arg_cong [OF runs_for_cong, of _ _ "\<lambda>f. f name"]) simp_all
  ultimately show ?thesis
    using first start(2,3) by (intro exI [of _ ?c1] exI [of _ c2]) (simp add: Reconcile_type_def Let_def)
qed

text \<open>
  \<open>stopController\<close> closes its channel before it takes the lock. When \<open>shutDown\<close> runs after the
  worker has read the channel, the worker closes it a second time; when \<open>shutDown\<close> begins after the
  worker has closed the channel, \<open>shutDown\<close> closes it a second time. Either way the process panics.
\<close>

lemma shutDown_runs:
  assumes "type_exec s" "tt_shutDown s = Holding rest" "\<And>name tc. tt_reconcile s \<noteq> Closed name tc"
  shows "\<exists>s'. type_exec s' \<and> tt_reconcile s' = tt_reconcile s \<and> tt_shutDown s' = Holding []"
  using assms
proof (induction rest arbitrary: s)
  case (Cons e rest)
  obtain k ch where e: "e = (k, ch)" by fastforce
  obtain r where r: "shutDown_step s = Some r" using Cons.prems(2) e by (simp add: shutDown_step_def)
  from shutDown_step_inv [OF type_exec_inv [OF Cons.prems(1)] r] Cons.prems(3) obtain s1 where s1: "r = Inr s1"
    by (cases r) auto
  then have "tt_reconcile s1 = tt_reconcile s" "tt_shutDown s1 = Holding rest"
    using r Cons.prems(2) e by (auto simp: shutDown_step_def rbind_Inr_iff)
  with Cons.IH [OF exec_shutDown [OF Cons.prems(1)], of s1] r s1 Cons.prems(3) show ?case by auto
qed blast

lemma shutdown_race:
  assumes "type_exec s" and "tt_reconcile s = Read name tc (Some ch)" and "is_deleted tc" and "tt_shutDown s = NotStopped"
  shows "\<exists>s'. type_exec s' \<and> tt_reconcile s' = tt_reconcile s \<and>
    (\<forall>env. reconcile_step env s' = Some (Inl (GoPanic ''close of closed channel'')))"
proof -
  let ?s = "s\<lparr>tt_shutDown := Holding (ct_stopChannels (tt_ctrl s))\<rparr>"
  have "type_exec ?s" using exec_shutDown [OF assms(1)] assms(4) by (simp add: shutDown_step_def)
  from shutDown_runs [OF this] assms(2) obtain s' where s': "type_exec s'" "tt_reconcile s' = Read name tc (Some ch)"
    "tt_shutDown s' = Holding []" by auto
  have "mget (ct_stopChannels (tt_ctrl s')) k = None" for k
    using type_exec_inv [OF s'(1)] s'(3) by (auto simp: threads_inv_def)
  then have "ch \<in> set (ct_closed (tt_ctrl s'))"
    using type_exec_inv [OF s'(1)] s'(2) by (auto simp: threads_inv_def held_def)
  then have "reconcile_step env s' = Some (Inl (GoPanic ''close of closed channel''))" for env
    using s'(2) assms(3) by (simp add: reconcile_step_def close_channel_def)
  with s'(1,2) assms(2) show ?thesis by auto
qed

lemma shutdown_race_example:
  "\<exists>s. type_exec s \<and> (\<forall>env. reconcile_step env s = Some (Inl (GoPanic ''close of closed channel'')))"
proof -
  obtain s where s: "type_exec s" "tt_reconcile s = Returned None" "runs_for (tt_ctrl s) ''secrets'' \<noteq> {}"
    "tt_shutDown s = NotStopped"
    by (rule demo_started)
  let ?tc = "demo_type (Some ''now'')"
  let ?s1 = "informer_put ?tc s"
  let ?s2 = "reconcile_begin demo_type_env ''secrets'' ?s1"
  have s1: "type_exec ?s1" "tt_reconcile ?s1 = Returned None" using exec_put [OF s(1)] s(2) by (simp_all add: informer_put_def)
  have tc: "tc_Name ?tc = ''secrets''" "is_deleted ?tc" by (simp_all add: demo_type_def empty_meta_def)
  have s2: "type_exec ?s2" by (rule exec_begin [OF s1])
  obtain ch where ch: "getStopChannel ''secrets'' (tt_ctrl ?s1) = Some ch"
    using runs_for_nonempty [OF type_exec_idle [OF s(1,2) refl], of "''secrets''"] s(3)
    by (auto simp: getStopChannel_def informer_put_def split: option.splits)
  have "reconcile_step demo_type_env ?s2 = Some (Inr (?s2\<lparr>tt_reconcile := Read ''secrets'' ?tc (Some ch)\<rparr>))"
    using ch tc(1) s(4)
    by (simp add: reconcile_step_def reconcile_begin_def demo_type_env_def informer_put_def lock_free_def)
  from shutdown_race [OF exec_reconcile [OF s2 this] _ tc(2)] s(4) show ?thesis
    by (auto simp: reconcile_begin_def informer_put_def)
qed

lemma shutdown_race_back:
  assumes "type_exec s" and "tt_reconcile s = Closed name tc" and "tt_shutDown s = NotStopped"
  shows "\<exists>s' e. type_exec s' \<and> tt_reconcile s' = tt_reconcile s \<and> shutDown_step s' = Some (Inl e)"
proof -
  have hit: "\<exists>s' e. type_exec s' \<and> tt_reconcile s' = Closed name tc \<and> shutDown_step s' = Some (Inl e)"
    if "type_exec s" "tt_reconcile s = Closed name tc" "tt_shutDown s = Holding rest" "mget rest name \<noteq> None" for s rest
    using that
  proof (induction rest arbitrary: s)
    case (Cons e rest)
    obtain k ch where e: "e = (k, ch)" by fastforce
    obtain r where r: "shutDown_step s = Some r" using Cons.prems(3) e by (simp add: shutDown_step_def)
    show ?case
    proof (cases r)
      case (Inl err)
      with r Cons.prems(1,2) show ?thesis by blast
    next
      case (Inr s1)
      have "mget (ct_stopChannels (tt_ctrl s)) k = Some ch"
      proof -
        have "mget (e # rest) k = mget (ct_stopChannels (tt_ctrl s)) k"
          using type_exec_inv [OF Cons.prems(1)] Cons.prems(3) by (simp add: threads_inv_def)
        then show ?thesis by (simp add: e)
      qed
      then have "k = name \<Longrightarrow> ch \<in> set (ct_closed (tt_ctrl s))"
        using type_exec_inv [OF Cons.prems(1)] Cons.prems(2) by (simp add: threads_inv_def)
      then have "k \<noteq> name" using r Inr Cons.prems(3) e by (auto simp: shutDown_step_def close_channel_def)
      moreover have "tt_reconcile s1 = Closed name tc" "tt_shutDown s1 = Holding rest"
        using r Inr Cons.prems(2,3) e by (auto simp: shutDown_step_def rbind_Inr_iff)
      ultimately show ?thesis
        using Cons.IH [OF exec_shutDown [OF Cons.prems(1)], of s1] r Inr Cons.prems(4) e by auto
    qed
  qed simp
  let ?s = "s\<lparr>tt_shutDown := Holding (ct_stopChannels (tt_ctrl s))\<rparr>"
  have "type_exec ?s" using exec_shutDown [OF assms(1)] assms(3) by (simp add: shutDown_step_def)
  moreover have "mget (ct_stopChannels (tt_ctrl s)) name \<noteq> None"
    using type_exec_inv [OF assms(1)] assms(2,3) by (simp add: threads_inv_def)
  ultimately show ?thesis using hit [of ?s] assms(2) by simp
qed

end
