(* ===== verification/Requeue.thy ===== *)
theory Requeue
  imports Backoff_Delivery Sync_Controller Service_DNS Replica_Scheduler
begin

section \<open>Requeueing of keys\<close>

text \<open>
  The controllers share a worker loop: it reconciles a key and, depending on the status, delivers
  it again. \<open>requeue_policy\<close> is the contract of that decision, met by the workers of the sync, the
  service DNS and the scheduling preference controllers with either set of delays; in it the
  decision is composed with the backoff and the delaying deliverer.
\<close>

text \<open>The \<open>switch\<close> at the end of a worker's iteration.\<close>

definition requeue :: "(int \<times> bool) option \<Rightarrow> int \<Rightarrow> QualifiedName \<Rightarrow> Backoff \<times> QualifiedName delivererHeap
    \<Rightarrow> Backoff \<times> QualifiedName delivererHeap" where
  "requeue decision now qualifiedName state =
     (case decision of
        None \<Rightarrow> state
      | Some (delay, failed) \<Rightarrow> controller_deliver now qualifiedName delay failed state)"

lemma controller_deliver_facts:
  assumes "backoff_ok b" and "heap_ok dh" and "controller_deliver now qn delay failed (b, dh) = (b', dh')"
  shows "backoff_ok b' \<and> bo_max b' = bo_max b" and "heap_ok dh'"
    and "k \<noteq> qn_String qn \<Longrightarrow> pending dh' k = pending dh k"
    and "\<exists>x. pending dh' (qn_String qn) = Some x \<and> it_DeliveryTime x \<le> now + delay + (if failed then bo_max b else 0)"
proof -
  let ?b = "if failed then Backoff_Next now (qn_String qn) now b else Backoff_Reset (qn_String qn) b"
  let ?delay = "if failed then delay + Backoff_Get ?b (qn_String qn) else delay"
  let ?item = "\<lparr>it_Key = qn_String qn, it_Value = qn, it_DeliveryTime = now + ?delay\<rparr>"
  have b': "b' = ?b" and dh': "dh' = deliverer_update ?item dh"
    using assms(3) by (simp_all add: controller_deliver_def Let_def)
  show "backoff_ok b' \<and> bo_max b' = bo_max b"
    unfolding b' using backoff_ok_Next [OF assms(1)] backoff_ok_Reset [OF assms(1)]
    by (simp add: Backoff_Reset_def)
  show "heap_ok dh'" unfolding dh' by (rule dq.update(1) [OF assms(2)])
  have view: "pending dh' = queue_update ?item (pending dh)"
    unfolding dh' by (rule dq.update(2) [OF assms(2)])
  show "pending dh' k = pending dh k" if "k \<noteq> qn_String qn"
    using that by (simp add: view queue_update_def split: option.split)
  have "Backoff_Get ?b (qn_String qn) \<le> bo_max b" if failed
    using that Backoff_Next_Get [OF assms(1), of now "qn_String qn" now "qn_String qn"] assms(1)
    by (auto simp: backoff_ok_def split: option.splits)
  then show "\<exists>x. pending dh' (qn_String qn) = Some x \<and> it_DeliveryTime x \<le> now + delay + (if failed then bo_max b else 0)"
    by (auto simp: view queue_update_def split: option.split)
qed

locale requeue_policy =
  fixes decide :: "'s \<Rightarrow> (int \<times> bool) option" and finished failed :: 's and longest :: int
  assumes finished: "decide finished = None"
    and failed: "decide failed = Some (0, True)"
    and other: "s \<noteq> finished \<Longrightarrow> s \<noteq> failed \<Longrightarrow> \<exists>d. decide s = Some (d, False) \<and> d \<le> longest"
begin

lemma requeue_ok:
  assumes "backoff_ok b" and "heap_ok dh" and "requeue (decide s) now qn (b, dh) = (b', dh')"
  shows "backoff_ok b' \<and> bo_max b' = bo_max b \<and> heap_ok dh'"
  using assms controller_deliver_facts(1,2) [OF assms(1,2)]
  by (auto simp: requeue_def split: option.splits)

lemma unfinished_pending:
  assumes "backoff_ok b" and "heap_ok dh" and "requeue (decide s) now qn (b, dh) = (b', dh')" and "s \<noteq> finished"
    and "longest \<le> bo_max b"
  shows "\<exists>x. pending dh' (qn_String qn) = Some x \<and> it_DeliveryTime x \<le> now + bo_max b"
proof (cases "s = failed")
  case True
  with assms(3) have "controller_deliver now qn 0 True (b, dh) = (b', dh')"
    by (simp add: requeue_def failed)
  from controller_deliver_facts(4) [OF assms(1,2) this] show ?thesis by simp
next
  case False
  from other [OF assms(4) this] obtain d where d: "decide s = Some (d, False)" "d \<le> longest" by blast
  with assms(3) have "controller_deliver now qn d False (b, dh) = (b', dh')"
    by (simp add: requeue_def)
  from controller_deliver_facts(4) [OF assms(1,2) this] d(2) assms(5) show ?thesis by fastforce
qed

lemma others_untouched:
  assumes "backoff_ok b" and "heap_ok dh" and "requeue (decide s) now qn (b, dh) = (b', dh')" and "k \<noteq> qn_String qn"
  shows "pending dh' k = pending dh k"
  using assms(3) controller_deliver_facts(3) [OF assms(1,2) _ assms(4)]
  by (auto simp: requeue_def split: option.splits)

end

definition sync_longest :: "sync_delays \<Rightarrow> int" where
  "sync_longest d = max (reviewDelay d) (clusterAvailableDelay d)"

definition dns_longest :: "dns_delays \<Rightarrow> int" where
  "dns_longest d = max (dns_reviewDelay d) (dns_clusterAvailableDelay d)"

interpretation sync_policy: requeue_policy "worker_requeue d" StatusAllOK StatusError "sync_longest d" for d
proof
  show "\<exists>delay. worker_requeue d s = Some (delay, False) \<and> delay \<le> sync_longest d"
    if "s \<noteq> StatusAllOK" "s \<noteq> StatusError" for s
    using that by (cases s) (simp_all add: sync_longest_def)
qed simp_all

interpretation rsp_policy: requeue_policy "rsp_worker d" StatusAllOK StatusError "sync_longest d" for d
proof
  show "\<exists>delay. rsp_worker d s = Some (delay, False) \<and> delay \<le> sync_longest d"
    if "s \<noteq> StatusAllOK" "s \<noteq> StatusError" for s
    using that by (cases s) (simp_all add: sync_longest_def)
qed simp_all

interpretation dns_policy: requeue_policy "dns_worker d" statusAllOK statusError "dns_longest d" for d
proof
  show "\<exists>delay. dns_worker d s = Some (delay, False) \<and> delay \<le> dns_longest d"
    if "s \<noteq> statusAllOK" "s \<noteq> statusError" for s
    using that by (cases s) (simp_all add: dns_longest_def)
qed simp_all

text \<open>The delays the controllers use, all within the minute that is their maximal backoff.\<close>

lemma sync_delays_bound: "d \<in> {default_delays, minimizeLatency default_delays} \<Longrightarrow> sync_longest d \<le> 60000"
  by (auto simp: sync_longest_def default_delays_def minimizeLatency_def)

lemma rsp_delays_bound: "d \<in> {rsp_default_delays, rsp_minimizeLatency rsp_default_delays} \<Longrightarrow> sync_longest d \<le> 60000"
  by (auto simp: sync_longest_def rsp_default_delays_def rsp_minimizeLatency_def)

lemma dns_delays_bound: "d \<in> {dns_default_delays, dns_minimizeLatency dns_default_delays} \<Longrightarrow> dns_longest d \<le> 60000"
  by (auto simp: dns_longest_def dns_default_delays_def dns_minimizeLatency_def)

lemmas delays_bounds = sync_delays_bound rsp_delays_bound dns_delays_bound

end
