(* ===== verification/Controller_Start.thy ===== *)
theory Controller_Start
  imports Requeue Type_Controller
begin

section \<open>Starting the controllers, and their events\<close>

text \<open>
  What the constructors of the sync, service DNS and scheduling preference controllers set up: which
  resources their stores watch, the errors on the way, and what each event of an informer
  delivers. Creating a client for a resource is the parameter \<open>newClient\<close>; an event is that of
  \<open>Util_Meta\<close>, with \<open>deep_eq\<close> for \<open>reflect.DeepEqual\<close>.
\<close>

subsection \<open>The sync controller\<close>

text \<open>\<open>su_namespacePlugin\<close> says which of the two placement plugins is used.\<close>

record sync_setup =
  su_userAgent :: string
  su_delays :: sync_delays
  su_backoff :: Backoff
  su_typeConfig :: FederatedTypeConfig
  su_pending :: sset
  su_templates :: MetaAPIResource
  su_overrides :: "MetaAPIResource option"
  su_placements :: MetaAPIResource
  su_namespacePlugin :: bool
  su_helper :: ComparisonHelper
  su_targets :: MetaAPIResource

definition client_for :: "(MetaAPIResource \<Rightarrow> go_error option) \<Rightarrow> MetaAPIResource \<Rightarrow> MetaAPIResource go_result" where
  "client_for newClient apiResource =
     (case newClient apiResource of Some err \<Rightarrow> Inl err | None \<Rightarrow> Inr apiResource)"

definition newFederationSyncController :: "(MetaAPIResource \<Rightarrow> go_error option) \<Rightarrow> FederatedTypeConfig
    \<Rightarrow> sync_setup go_result" where
  "newFederationSyncController newClient typeConfig =
     (let templateAPIResource = GetTemplate typeConfig;
          userAgent = to_lower (mr_Kind templateAPIResource) @ ''-controller''
      in rbind (client_for newClient templateAPIResource) (\<lambda>templates.
         rbind (case GetOverride typeConfig of
            None \<Rightarrow> Inr None
          | Some overrideAPIResource \<Rightarrow> rbind (client_for newClient overrideAPIResource) (\<lambda>r. Inr (Some r)))
           (\<lambda>overrides.
         rbind (client_for newClient (GetPlacement typeConfig)) (\<lambda>placements.
         rbind (NewComparisonHelper (GetComparisonField typeConfig)) (\<lambda>helper.
           Inr \<lparr>su_userAgent = userAgent, su_delays = default_delays, su_backoff = NewBackOff 5000 60000,
             su_typeConfig = typeConfig, su_pending = [], su_templates = templates, su_overrides = overrides,
             su_placements = placements, su_namespacePlugin = (mr_Kind (GetTarget typeConfig) = NamespaceKind),
             su_helper = helper, su_targets = GetTarget typeConfig\<rparr>)))))"

definition StartFederationSyncController :: "(MetaAPIResource \<Rightarrow> go_error option) \<Rightarrow> FederatedTypeConfig \<Rightarrow> bool
    \<Rightarrow> sync_setup go_result" where
  "StartFederationSyncController newClient typeConfig latency =
     rbind (newFederationSyncController newClient typeConfig) (\<lambda>controller.
       Inr (if latency then controller\<lparr>su_delays := minimizeLatency (su_delays controller)\<rparr> else controller))"

text \<open>
  The events: of the stores of templates, overrides and placements, of the recorded versions, of
  the target objects in the clusters, and of the clusters themselves.
\<close>

datatype sync_event =
    TemplateEvent "jobj event"
  | OverrideEvent "jobj event"
  | PlacementEvent "jobj event"
  | VersionEvent "PropagatedVersion event"
  | TargetEvent "jobj event"
  | ClusterAvailableEvent
  | ClusterUnavailableEvent

definition deliver_all :: "int \<Rightarrow> jobj list \<Rightarrow> sync_delivery list" where
  "deliver_all delay objs = map (\<lambda>obj. DeliverObject (NewQualifiedName (meta_of obj)) delay False) objs"

fun on_sync_event :: "(jobj \<Rightarrow> jobj \<Rightarrow> bool) \<Rightarrow> sync_delays \<Rightarrow> sync_event \<Rightarrow> sset \<Rightarrow> sync_delivery list \<times> sset" where
  "on_sync_event deep_eq d (TemplateEvent e) pend = (deliver_all 0 (TriggerOnAllChanges deep_eq e), pend)"
| "on_sync_event deep_eq d (OverrideEvent e) pend = (deliver_all 0 (TriggerOnAllChanges deep_eq e), pend)"
| "on_sync_event deep_eq d (PlacementEvent e) pend = (deliver_all 0 (TriggerOnAllChanges deep_eq e), pend)"
| "on_sync_event deep_eq d (VersionEvent (Updated old cur)) pend = ([], on_version_update cur pend)"
| "on_sync_event deep_eq d (VersionEvent (Added cur)) pend = ([], pend)"
| "on_sync_event deep_eq d (VersionEvent (Deleted old)) pend = ([], pend)"
| "on_sync_event deep_eq d (TargetEvent e) pend = (deliver_all (reviewDelay d) (TriggerOnAllChanges deep_eq e), pend)"
| "on_sync_event deep_eq d ClusterAvailableEvent pend = ([DeliverClusterKey (clusterAvailableDelay d)], pend)"
| "on_sync_event deep_eq d ClusterUnavailableEvent pend = ([DeliverClusterKey (clusterUnavailableDelay d)], pend)"

subsection \<open>Service DNS and scheduling preferences\<close>

text \<open>
  The service DNS controller delivers the records, services and endpoints that change at
  once; its endpoint informer has no cluster handlers. The scheduling preference controller delivers
  preferences, templates, overrides and placements at once and target objects after the review delay,
  and hands its cluster handlers to every plugin and the pod informer, each of which calls them.
\<close>

datatype dns_event =
    RecordEvent "jobj event"
  | ServiceEvent "jobj event"
  | EndpointsEvent "jobj event"
  | DnsClusterAvailable
  | DnsClusterUnavailable

fun on_dns_event :: "(jobj \<Rightarrow> jobj \<Rightarrow> bool) \<Rightarrow> dns_delays \<Rightarrow> dns_event \<Rightarrow> dns_delivery list" where
  "on_dns_event deep_eq d (RecordEvent e) =
     map (\<lambda>obj. DnsObject (NewQualifiedName (meta_of obj)) 0 False) (TriggerOnAllChanges deep_eq e)"
| "on_dns_event deep_eq d (ServiceEvent e) =
     map (\<lambda>obj. DnsObject (NewQualifiedName (meta_of obj)) 0 False) (TriggerOnAllChanges deep_eq e)"
| "on_dns_event deep_eq d (EndpointsEvent e) =
     map (\<lambda>obj. DnsObject (NewQualifiedName (meta_of obj)) 0 False) (TriggerOnAllChanges deep_eq e)"
| "on_dns_event deep_eq d DnsClusterAvailable = [DnsClusterKey (dns_clusterAvailableDelay d)]"
| "on_dns_event deep_eq d DnsClusterUnavailable = [DnsClusterKey (dns_clusterUnavailableDelay d)]"

datatype rsp_event =
    PreferenceEvent "jobj event"
  | FederationEvent "jobj event"
  | WorkloadEvent "jobj event"
  | PodEvent "jobj event"
  | RspClusterAvailable
  | RspClusterUnavailable

fun on_rsp_event :: "(jobj \<Rightarrow> jobj \<Rightarrow> bool) \<Rightarrow> sync_delays \<Rightarrow> rsp_event \<Rightarrow> sync_delivery list" where
  "on_rsp_event deep_eq d (PreferenceEvent e) = deliver_all 0 (TriggerOnAllChanges deep_eq e)"
| "on_rsp_event deep_eq d (FederationEvent e) = deliver_all 0 (TriggerOnAllChanges deep_eq e)"
| "on_rsp_event deep_eq d (WorkloadEvent e) = deliver_all (reviewDelay d) (TriggerOnAllChanges deep_eq e)"
| "on_rsp_event deep_eq d (PodEvent e) = []"
| "on_rsp_event deep_eq d RspClusterAvailable = [DeliverClusterKey (clusterAvailableDelay d)]"
| "on_rsp_event deep_eq d RspClusterUnavailable = [DeliverClusterKey (clusterUnavailableDelay d)]"

subsection \<open>Facts\<close>

lemma client_for_Inr_iff: "client_for newClient r = Inr r' \<longleftrightarrow> newClient r = None \<and> r' = r"
  by (auto simp: client_for_def split: option.split)

lemma NewComparisonHelper_Inr_iff:
  "(\<exists>h. NewComparisonHelper f = Inr h) \<longleftrightarrow> f = ''ResourceVersion'' \<or> f = ''Generation''"
  by (simp add: NewComparisonHelper_def)

text \<open>When a sync controller starts: every client can be made and the comparison field is known.\<close>

lemma newFederationSyncController_Inr_iff:
  "(\<exists>c. newFederationSyncController newClient tc = Inr c) \<longleftrightarrow>
     (\<forall>r \<in> {GetTemplate tc, GetPlacement tc} \<union> set_option (GetOverride tc). newClient r = None) \<and>
     (GetComparisonField tc = ''ResourceVersion'' \<or> GetComparisonField tc = ''Generation'')"
  unfolding newFederationSyncController_def Let_def rbind_Inr_iff client_for_Inr_iff
    NewComparisonHelper_Inr_iff [symmetric]
  by (cases "GetOverride tc") (auto simp: rbind_Inr_iff client_for_Inr_iff)

end
