(* ===== verification/Sync_Claims.thy ===== *)
theory Sync_Claims
  imports Sync_Controller
begin

section \<open>The sync controller: its contract\<close>

text \<open>
  Properties of the updater, of the version bookkeeping, of the operations on member clusters,
  of deletion, and of a whole run of \<open>reconcile\<close>. The witnesses run on a federated deployment
  propagated to two clusters.
\<close>

subsection \<open>A concrete federated type\<close>

definition demo_resource :: "string \<Rightarrow> APIResource" where
  "demo_resource kind = \<lparr>ar_Group = ''apps'', ar_Version = ''v1'', ar_Kind = kind, ar_PluralName = pluralName kind\<rparr>"

definition demo_type :: "string \<Rightarrow> FederatedTypeConfig" where
  "demo_type kind = \<lparr>tc_Meta = empty_meta, tc_Spec =
     \<lparr>ts_Target = demo_resource kind, ts_Namespaced = True, ts_ComparisonField = ''ResourceVersion'',
      ts_PropagationEnabled = True, ts_Template = demo_resource (''Federated'' @ kind),
      ts_Placement = demo_resource (''Federated'' @ kind @ ''Placement''),
      ts_Override = Some (demo_resource (''Federated'' @ kind @ ''Override'')),
      ts_OverridePath = [''spec'', ''replicas'']\<rparr>\<rparr>"

definition demo_meta :: "string \<Rightarrow> string list \<Rightarrow> json" where
  "demo_meta version finalizers = JObj [(''name'', JString ''web''), (''namespace'', JString ''ns''),
     (''resourceVersion'', JString version), (''finalizers'', JArr (map JString finalizers))]"

definition demo_finalizers :: "string list" where
  "demo_finalizers = [FinalizerDeleteFromUnderlyingClusters, FinalizerOrphanDependents]"

definition demo_template :: jobj where
  "demo_template = [(''metadata'', demo_meta ''7'' demo_finalizers),
     (''spec'', JObj [(''template'', JObj [(''spec'', JObj [(''replicas'', JInt 3)])])])]"

definition demo_override :: jobj where
  "demo_override = [(''metadata'', demo_meta ''9'' []),
     (''spec'', JObj [(''overrides'', JArr
        [JObj [(''clustername'', JString ''c2''), (''replicas'', JInt 5)]])])]"

definition demo_object :: "string \<Rightarrow> int \<Rightarrow> jobj" where
  "demo_object version replicas = [(''metadata'', demo_meta version []),
     (''spec'', JObj [(''replicas'', JInt replicas)])]"

text \<open>Cluster \<open>c1\<close> has an old copy, \<open>c2\<close> none, \<open>c3\<close> one it should not have.\<close>

definition demo_store :: get_by_key where
  "demo_store c key =
     (if c = ''c1'' \<and> key = ''ns/web'' then Inr (Some (demo_object ''21'' 3))
      else if c = ''c3'' \<and> key = ''ns/web'' then Inr (Some (demo_object ''23'' 3))
      else Inr None)"

definition demo_updater :: updater_env where
  "demo_updater = \<lparr>ue_client = (\<lambda>c. Inr ()), ue_add = (\<lambda>c o'. Inr ''1''),
     ue_update = (\<lambda>c o'. Inr ''2''), ue_delete = (\<lambda>c o'. Inr ())\<rparr>"

subsection \<open>The updater\<close>

text \<open>
  C28. \<open>Update\<close> reports an error unless every operation finished in time and succeeded; when it
  reports none, the versions it returns are those of all operations. Either way they do not
  depend on the order in which the operations finished: a cluster has a version exactly when its
  operation finished in time and succeeded.
\<close>

theorem Update_sound:
  assumes "distinct (map op_ClusterName ops)" and "received_ok env ops received"
    and "Update_ops ops received = (vs, es)"
  shows "(es = [] \<longleftrightarrow> length ops \<le> length received \<and> (\<forall>op \<in> set ops. or_err (op_result env op) = None))
    \<and> (\<forall>c v. mget vs c = Some v \<longleftrightarrow> (\<exists>op \<in> set ops. op_ClusterName op = c \<and>
         op_result env op \<in> set received \<and> or_err (op_result env op) = None \<and>
         or_version (op_result env op) = v))
    \<and> (es = [] \<longrightarrow> set (mkeys vs) = set (map op_ClusterName ops))"
proof -
  have es: "es = [] \<longleftrightarrow> length ops \<le> length received \<and> (\<forall>op \<in> set ops. or_err (op_result env op) = None)"
  proof (cases "length ops \<le> length received")
    case True
    have "set received = op_result env ` set ops"
      using all_received [OF assms(2) True] by (metis mset_eq_setD set_map)
    then show ?thesis
      using Update_ops_facts(1) [OF assms(3)] True by auto
  qed (use Update_ops_facts(1) [OF assms(3)] in simp)
  note vs = received_version [OF assms]
  have "set (mkeys vs) = set (map op_ClusterName ops)" if "es = []"
  proof -
    have all: "length ops \<le> length received" "\<forall>op \<in> set ops. or_err (op_result env op) = None"
      using that es by auto
    have "set received = op_result env ` set ops"
      using all_received [OF assms(2) all(1)] by (metis mset_eq_setD set_map)
    then have "mget vs c \<noteq> None \<longleftrightarrow> c \<in> op_ClusterName ` set ops" for c
      using vs all(2) by (cases "mget vs c") (auto, metis option.discI)
    then show ?thesis unfolding set_mkeys_dom by auto
  qed
  with es vs show ?thesis by blast
qed

definition demo_ops :: "FederatedOperation list" where
  "demo_ops =
     [\<lparr>op_Type = OperationTypeAdd, op_ClusterName = ''c1'', op_Obj = [], op_Key = ''k''\<rparr>,
      \<lparr>op_Type = OperationTypeUpdate, op_ClusterName = ''c2'', op_Obj = [], op_Key = ''k''\<rparr>]"

definition demo_received :: "operationResult list" where
  "demo_received = rev (map (op_result demo_updater) demo_ops)"

theorem Update_sound_witness:
  "set (mkeys (fst (Update_ops demo_ops demo_received))) = set (map op_ClusterName demo_ops)"
proof -
  have run: "Update_ops demo_ops demo_received = ([(''c2'', ''2''), (''c1'', ''1'')], [])"
    by code_simp
  have "received_ok demo_updater demo_ops demo_received"
    by (simp add: received_ok_def demo_received_def)
  moreover have "distinct (map op_ClusterName demo_ops)"
    by (simp add: demo_ops_def)
  ultimately have "([] :: go_error list) = [] \<longrightarrow>
      set (mkeys [(''c2'', ''2''), (''c1'', ''1'')]) = set (map op_ClusterName demo_ops)"
    using Update_sound [OF _ _ run, of demo_updater] by blast
  then show ?thesis unfolding run by simp
qed

subsection \<open>Versions\<close>

text \<open>
  \<open>clusterVersions\<close>: the list is sorted by cluster without duplicates, so it does not depend
  on the iteration order of the map; a cluster keeps its old version only while it is selected
  and was not operated on, and a cluster whose new version is empty (a deletion) is left out.
\<close>

lemma clusterVersions_spec:
  assumes "gomap_ok new"
  shows "sorted (map cv_ClusterName (clusterVersions new olds sel))
    \<and> distinct (map cv_ClusterName (clusterVersions new olds sel))
    \<and> (\<forall>c. cov_map (clusterVersions new olds sel) c =
        (case mget new c of
           Some v \<Rightarrow> if v \<noteq> [] then Some v else None
         | None \<Rightarrow> if c \<in> set sel
                   then (case cov_map olds c of Some v \<Rightarrow> if v \<noteq> [] then Some v else None | None \<Rightarrow> None)
                   else None))
    \<and> (\<forall>new'. mset new' = mset new \<longrightarrow> clusterVersions new' olds sel = clusterVersions new olds sel)"
proof -
  note facts = clusterVersions_facts [OF assms]
  have "clusterVersions new' olds sel = clusterVersions new olds sel" if "mset new' = mset new" for new'
  proof (rule cov_ext)
    have "gomap_ok new'" "mget new' = mget new"
      using gomap_perm [OF assms that [symmetric]] by auto
    then show "cov_ok (clusterVersions new' olds sel)"
      "cov_map (clusterVersions new' olds sel) = cov_map (clusterVersions new olds sel)"
      using clusterVersions_facts [of new'] facts by (auto simp: fun_eq_iff)
    show "cov_ok (clusterVersions new olds sel)" by (rule facts(1))
  qed
  with facts show ?thesis unfolding cov_ok_def by blast
qed

lemma clusterVersions_spec_example:
  "cov_map (clusterVersions [(''c2'', ''5''), (''c3'', '''')]
     [\<lparr>cv_ClusterName = ''c1'', cv_Version = ''4''\<rparr>] [''c1'', ''c2'']) ''c1'' = Some ''4''"
proof -
  have "gomap_ok [(''c2'', ''5''), (''c3'', '''')]"
    by (simp add: gomap_ok_def)
  note cvs = clusterVersions_spec [OF this, of "[\<lparr>cv_ClusterName = ''c1'', cv_Version = ''4''\<rparr>]" "[''c1'', ''c2'']"]
  show ?thesis
    unfolding conjunct1 [OF conjunct2 [OF conjunct2 [OF cvs]], THEN spec, of "''c1''"]
    by (simp add: cov_map_def)
qed

text \<open>
  Round trip of the versions: what \<open>getClusterVersions\<close> reads from the status that
  \<open>updatePropagatedVersion\<close> writes for the same template and override is, for every cluster
  that was operated on, the version the cluster returned, and for the other selected clusters
  the version recorded before; for a new \<open>PropagatedVersion\<close> it is exactly the updated versions.
\<close>

lemma versions_roundtrip:
  assumes "gomap_ok updated"
  shows "mget (getClusterVersions t ov (Some (newVersion updated t k (override_version ov)))) = mget updated
    \<and> mget (getClusterVersions t ov (Some (pv\<lparr>pv_Status := updatedStatus pv updated t ov sel\<rparr>))) c =
        (case mget updated c of
           Some v \<Rightarrow> if v \<noteq> [] then Some v else None
         | None \<Rightarrow> if c \<in> set sel \<and> pvs_TemplateVersion (pv_Status pv) = GetResourceVersion t
                     \<and> pvs_OverrideVersion (pv_Status pv) = override_version ov
                   then (case cov_map (pvs_ClusterVersions (pv_Status pv)) c of
                           Some v \<Rightarrow> if v \<noteq> [] then Some v else None | None \<Rightarrow> None)
                   else None)"
proof
  note new = to_cov_facts [OF assms]
  show "mget (getClusterVersions t ov (Some (newVersion updated t k (override_version ov)))) = mget updated"
    using new by (subst getClusterVersions_mget) (simp_all add: newVersion_status cov_ok_def)
  let ?old = "if pvs_TemplateVersion (pv_Status pv) = GetResourceVersion t
      \<and> pvs_OverrideVersion (pv_Status pv) = override_version ov then pvs_ClusterVersions (pv_Status pv) else []"
  let ?pv = "pv\<lparr>pv_Status := updatedStatus pv updated t ov sel\<rparr>"
  have status: "pv_Status ?pv = \<lparr>pvs_TemplateVersion = GetResourceVersion t,
      pvs_OverrideVersion = override_version ov, pvs_ClusterVersions = clusterVersions updated ?old sel\<rparr>"
    by (simp add: updatedStatus_def Let_def)
  note upd = clusterVersions_facts [OF assms, of ?old sel]
  have "mget (getClusterVersions t ov (Some ?pv)) = cov_map (clusterVersions updated ?old sel)"
    using upd(1) by (subst getClusterVersions_mget) (simp_all add: status cov_ok_def)
  then show "mget (getClusterVersions t ov (Some ?pv)) c =
        (case mget updated c of
           Some v \<Rightarrow> if v \<noteq> [] then Some v else None
         | None \<Rightarrow> if c \<in> set sel \<and> pvs_TemplateVersion (pv_Status pv) = GetResourceVersion t
                     \<and> pvs_OverrideVersion (pv_Status pv) = override_version ov
                   then (case cov_map (pvs_ClusterVersions (pv_Status pv)) c of
                           Some v \<Rightarrow> if v \<noteq> [] then Some v else None | None \<Rightarrow> None)
                   else None)"
    unfolding upd(2) by (simp add: cov_map_def split: option.split)
qed

lemma versions_roundtrip_example:
  "mget (getClusterVersions demo_template (Some demo_override)
     (Some (newVersion [(''c1'', ''21'')] demo_template ''Deployment'' (override_version (Some demo_override))))) ''c1''
   = Some ''21''"
proof -
  have "gomap_ok [(''c1'', ''21'')]" by (simp add: gomap_ok_def)
  from versions_roundtrip [OF this, of demo_template "Some demo_override"] show ?thesis by simp
qed

text \<open>
  Writing versions is idempotent: when the same versions, template, override and selection
  are recorded a second time, no API call is made, nothing becomes pending and there is no error.
\<close>

lemma updatePropagatedVersion_idempotent:
  assumes "gomap_ok updated"
  shows "updatePropagatedVersion api k updated t ov
      (Some (pv\<lparr>pv_Status := updatedStatus pv updated t ov sel\<rparr>)) sel pending = (None, pending, [])"
proof -
  let ?old = "if pvs_TemplateVersion (pv_Status pv) = GetResourceVersion t
      \<and> pvs_OverrideVersion (pv_Status pv) = override_version ov then pvs_ClusterVersions (pv_Status pv) else []"
  let ?vs = "clusterVersions updated ?old sel"
  note upd = clusterVersions_facts [OF assms]
  have "clusterVersions updated ?vs sel = ?vs"
    by (rule cov_ext [OF upd(1) upd(1)], rule ext) (simp add: upd(2) split: option.split)
  then show ?thesis
    by (simp add: updatePropagatedVersion_def Let_def PropagatedVersionStatusEquivalent_def updatedStatus_def)
qed

text \<open>
  A new \<open>PropagatedVersion\<close> records an empty version for every cluster whose copy was
  deleted by the same update, while an existing one drops such clusters ("lack of version
  indicates deletion").
\<close>

lemma newVersion_records_deletions:
  assumes "gomap_ok updated" and "mget updated c = Some []"
  shows "cov_map (pvs_ClusterVersions (pv_Status (newVersion updated t k ov))) c = Some []
    \<and> cov_map (clusterVersions updated olds sel) c = None"
  using to_cov_facts(2) [OF assms(1)] clusterVersions_facts(2) [OF assms(1)] assms(2)
  by (simp add: newVersion_status)

end
