(* ===== verification/Sync_Claims2.thy ===== *)
theory Sync_Claims2
  imports Sync_Claims
begin

section \<open>The sync controller: operations, deletion and reconciliation\<close>

text \<open>
  The second part of the contract of the sync controller, over the definitions of
  \<open>Sync_Operations\<close>, \<open>Deletion_Helper\<close> and \<open>Sync_Controller\<close>.
\<close>

subsection \<open>Operations\<close>

lemma selected_operation_iff:
  "selected_operation tc h get t ov key vs c = Inr (Some p) \<longleftrightarrow>
    (\<exists>obj. objectForCluster tc t ov c = Inr obj \<and> get c key = Inr None \<and>
       p = \<lparr>op_Type = OperationTypeAdd, op_ClusterName = c, op_Obj = obj, op_Key = key\<rparr>) \<or>
    (\<exists>obj cobj obj1. objectForCluster tc t ov c = Inr obj \<and> get c key = Inr (Some cobj) \<and>
       \<not> (mr_Kind (GetTarget tc) = NamespaceKind \<and> IsPrimaryCluster t cobj) \<and>
       objectForUpdateOp tc obj cobj = Inr obj1 \<and>
       (mget vs c \<noteq> Some (GetVersion h cobj) \<or> \<not> Equivalent h obj1 cobj) \<and>
       p = \<lparr>op_Type = OperationTypeUpdate, op_ClusterName = c, op_Obj = obj1, op_Key = key\<rparr>)"
  (is "?l \<longleftrightarrow> ?add \<or> ?update")
proof
  assume ?l
  then show "?add \<or> ?update" by (rule selected_operation_cases) blast+
next
  assume "?add \<or> ?update"
  then show ?l
  proof
    assume ?update
    then show ?l
      unfolding selected_operation_def by (auto simp: Let_def split: option.split)
  qed (auto simp: selected_operation_def)
qed

lemma selected_operation_total:
  assumes "\<nexists>e. selected_operation tc h get t ov key vs c = Inl e"
  shows "\<exists>obj. objectForCluster tc t ov c = Inr obj \<and> (\<forall>cobj. get c key = Inr (Some cobj) \<longrightarrow>
    \<not> (mr_Kind (GetTarget tc) = NamespaceKind \<and> IsPrimaryCluster t cobj) \<longrightarrow>
    (\<exists>obj1. objectForUpdateOp tc obj cobj = Inr obj1))"
proof -
  obtain obj where obj: "objectForCluster tc t ov c = Inr obj"
    using assms by (cases "objectForCluster tc t ov c") (auto simp: selected_operation_def)
  have "\<exists>obj1. objectForUpdateOp tc obj cobj = Inr obj1"
    if "get c key = Inr (Some cobj)" "\<not> (mr_Kind (GetTarget tc) = NamespaceKind \<and> IsPrimaryCluster t cobj)" for cobj
    using assms unfolding selected_operation_def obj that(1) rbind_simps sum.case option.case if_not_P [OF that(2)]
    by (cases "objectForUpdateOp tc obj cobj") auto
  with obj show ?thesis by blast
qed

text \<open>Type and object of the operation for a cluster.\<close>

definition is_operation :: "FederatedOperation option go_result \<Rightarrow> FederatedOperationType \<Rightarrow> jobj \<Rightarrow> bool" where
  "is_operation r ty obj \<longleftrightarrow> (\<exists>p. r = Inr (Some p) \<and> op_Type p = ty \<and> op_Obj p = obj)"

lemma is_selected_operation:
  "is_operation (selected_operation tc h get t ov key vs c) ty obj1 \<longleftrightarrow>
    ty = OperationTypeAdd \<and> get c key = Inr None \<and> objectForCluster tc t ov c = Inr obj1 \<or>
    ty = OperationTypeUpdate \<and> (\<exists>obj cobj. objectForCluster tc t ov c = Inr obj \<and> get c key = Inr (Some cobj) \<and>
       \<not> (mr_Kind (GetTarget tc) = NamespaceKind \<and> IsPrimaryCluster t cobj) \<and>
       objectForUpdateOp tc obj cobj = Inr obj1 \<and>
       (mget vs c \<noteq> Some (GetVersion h cobj) \<or> \<not> Equivalent h obj1 cobj))"
  (is "_ \<longleftrightarrow> ty = OperationTypeAdd \<and> ?add \<or> ty = OperationTypeUpdate \<and> (\<exists>obj cobj. ?update obj cobj)")
proof
  assume "is_operation (selected_operation tc h get t ov key vs c) ty obj1"
  then obtain p where p: "selected_operation tc h get t ov key vs c = Inr (Some p)" "op_Type p = ty" "op_Obj p = obj1"
    unfolding is_operation_def by blast
  from p(1) show "ty = OperationTypeAdd \<and> ?add \<or> ty = OperationTypeUpdate \<and> (\<exists>obj cobj. ?update obj cobj)"
  proof (cases rule: selected_operation_cases)
    case (add obj)
    with p(2,3) show ?thesis by simp
  next
    case (update obj obj2 cobj)
    have "ty = OperationTypeUpdate" "obj2 = obj1" using p(2,3) update(4) by simp_all
    with update(1-3,5,6) show ?thesis by blast
  qed
next
  assume "ty = OperationTypeAdd \<and> ?add \<or> ty = OperationTypeUpdate \<and> (\<exists>obj cobj. ?update obj cobj)"
  then have "selected_operation tc h get t ov key vs c =
      Inr (Some \<lparr>op_Type = ty, op_ClusterName = c, op_Obj = obj1, op_Key = key\<rparr>)"
    unfolding selected_operation_iff by blast
  then show "is_operation (selected_operation tc h get t ov key vs c) ty obj1"
    unfolding is_operation_def by simp
qed

lemma is_unselected_operation:
  "is_operation (unselected_operation get key c) ty obj \<longleftrightarrow>
    ty = OperationTypeDelete \<and> get c key = Inr (Some obj)"
  unfolding is_operation_def unselected_operation_iff by (rule iffI) auto

text \<open>
  C5. \<open>clusterOperations\<close> is sound and complete: at most one operation per cluster, all for the
  key. The desired object of every selected cluster is computed; it is added exactly in the
  selected clusters that have none. An update, with the object that \<open>objectForUpdateOp\<close> makes
  of the desired and the present one, is due exactly in the selected clusters that have an object
  (other than the namespace in the primary cluster) whose recorded version is missing or not its
  version, or that is not equivalent to the update. The present object is deleted exactly from
  the unselected clusters that have one.
\<close>

theorem clusterOperations_sound:
  assumes "clusterOperations tc h get sel unsel t ov key vs = Inr ops" and "distinct (sel @ unsel)"
  shows "distinct (map op_ClusterName ops) \<and> (\<forall>p \<in> set ops. op_Key p = key) \<and>
    (\<forall>c \<in> set sel. \<exists>obj. objectForCluster tc t ov c = Inr obj \<and> (\<forall>cobj. get c key = Inr (Some cobj) \<longrightarrow>
        \<not> (mr_Kind (GetTarget tc) = NamespaceKind \<and> IsPrimaryCluster t cobj) \<longrightarrow>
        (\<exists>obj1. objectForUpdateOp tc obj cobj = Inr obj1))) \<and>
    (\<forall>c obj. (\<exists>p \<in> set ops. op_ClusterName p = c \<and> op_Type p = OperationTypeAdd \<and> op_Obj p = obj)
        \<longleftrightarrow> c \<in> set sel \<and> get c key = Inr None \<and> objectForCluster tc t ov c = Inr obj) \<and>
    (\<forall>c obj1. (\<exists>p \<in> set ops. op_ClusterName p = c \<and> op_Type p = OperationTypeUpdate \<and> op_Obj p = obj1)
        \<longleftrightarrow> c \<in> set sel \<and> (\<exists>obj cobj. objectForCluster tc t ov c = Inr obj \<and> get c key = Inr (Some cobj) \<and>
           \<not> (mr_Kind (GetTarget tc) = NamespaceKind \<and> IsPrimaryCluster t cobj) \<and>
           objectForUpdateOp tc obj cobj = Inr obj1 \<and>
           (mget vs c \<noteq> Some (GetVersion h cobj) \<or> \<not> Equivalent h obj1 cobj))) \<and>
    (\<forall>c o'. (\<exists>p \<in> set ops. op_ClusterName p = c \<and> op_Type p = OperationTypeDelete \<and> op_Obj p = o')
        \<longleftrightarrow> c \<in> set unsel \<and> get c key = Inr (Some o'))"
  (is "_ \<and> _ \<and> ?total \<and> ?adds \<and> ?updates \<and> ?deletes")
proof -
  obtain ops1 ops2 where ops: "ops = ops1 @ ops2"
    and o1: "ops_loop (selected_operation tc h get t ov key vs) sel = Inr ops1"
    and o2: "ops_loop (unselected_operation get key) unsel = Inr ops2"
    by (rule clusterOperations_split [OF assms(1)])
  have mem: "(\<exists>p \<in> set ops. op_ClusterName p = c \<and> op_Type p = ty \<and> op_Obj p = obj) \<longleftrightarrow>
      c \<in> set sel \<and> is_operation (selected_operation tc h get t ov key vs c) ty obj \<or>
      c \<in> set unsel \<and> is_operation (unselected_operation get key c) ty obj" for c ty obj
    unfolding ops set_append ops_loop_set [OF o1] ops_loop_set [OF o2] is_operation_def
    using selected_operation_cluster unselected_operation_cluster by blast
  have "\<forall>c \<in> set sel. \<nexists>e. selected_operation tc h get t ov key vs c = Inl e"
    using ops_loop_error [of "selected_operation tc h get t ov key vs" sel] o1 by auto
  then have ?total using selected_operation_total by blast
  moreover have ?adds ?updates ?deletes
    unfolding mem is_selected_operation is_unselected_operation by blast+
  moreover have "\<forall>p \<in> set ops. op_Key p = key"
    unfolding ops set_append ops_loop_set [OF o1] ops_loop_set [OF o2]
    by (auto simp: unselected_operation_iff dest: selected_operation_cluster)
  ultimately show ?thesis
    using clusterOperations_distinct(1) [OF assms] by blast
qed

definition demo_sync_ops :: "FederatedOperation list go_result" where
  "demo_sync_ops = clusterOperations (demo_type ''Deployment'') ResourceHelper demo_store [''c1'', ''c2''] [''c3'']
     demo_template (Some demo_override) ''ns/web'' []"

lemma demo_sync_ops_run:
  "map_sum id (map (\<lambda>p. (op_Type p, op_ClusterName p))) demo_sync_ops
    = Inr [(OperationTypeUpdate, ''c1''), (OperationTypeAdd, ''c2''), (OperationTypeDelete, ''c3'')]"
  by code_simp

lemma demo_sync_ops_Inr:
  obtains ops where "demo_sync_ops = Inr ops"
proof (cases demo_sync_ops)
  case (Inl e)
  from demo_sync_ops_run [unfolded Inl] show thesis by simp
qed (rule that)

theorem clusterOperations_sound_witness:
  "\<exists>p \<in> set (projr demo_sync_ops). op_ClusterName p = ''c2'' \<and> op_Type p = OperationTypeAdd"
proof -
  obtain ops where ops: "demo_sync_ops = Inr ops"
    by (rule demo_sync_ops_Inr)
  have "distinct ([''c1'', ''c2''] @ [''c3''])" by simp
  note snd = clusterOperations_sound [OF ops [unfolded demo_sync_ops_def] this]
  obtain obj where "objectForCluster (demo_type ''Deployment'') demo_template (Some demo_override) ''c2'' = Inr obj"
    using snd by fastforce
  then have "\<exists>p \<in> set ops. op_ClusterName p = ''c2'' \<and> op_Type p = OperationTypeAdd \<and> op_Obj p = obj"
    using snd by (simp add: demo_store_def)
  then show ?thesis unfolding ops by auto
qed

text \<open>
  C29. Convergence: \<open>clusterOperations\<close> has nothing to do exactly when every selected cluster
  holds an object whose version is the recorded one and that is equivalent to the desired object
  (or holds the namespace of the primary cluster itself), and no unselected cluster holds one.
\<close>

theorem clusterOperations_quiescent:
  assumes "clusterOperations tc h get sel unsel t ov key vs = Inr ops"
  shows "ops = [] \<longleftrightarrow>
    (\<forall>c \<in> set sel. \<exists>cobj. get c key = Inr (Some cobj) \<and>
       (mr_Kind (GetTarget tc) = NamespaceKind \<and> IsPrimaryCluster t cobj \<or>
        (\<exists>obj obj1. objectForCluster tc t ov c = Inr obj \<and> objectForUpdateOp tc obj cobj = Inr obj1 \<and>
           mget vs c = Some (GetVersion h cobj) \<and> Equivalent h obj1 cobj))) \<and>
    (\<forall>c \<in> set unsel. get c key = Inr None)"
proof -
  obtain ops1 ops2 where ops: "ops = ops1 @ ops2"
    and o1: "ops_loop (selected_operation tc h get t ov key vs) sel = Inr ops1"
    and o2: "ops_loop (unselected_operation get key) unsel = Inr ops2"
    by (rule clusterOperations_split [OF assms])
  have nil: "os = [] \<longleftrightarrow> (\<forall>c \<in> set cs. f c = Inr None)" if "ops_loop f cs = Inr os" for f cs os
    using that unfolding ops_loop_Nil [symmetric] by simp
  have sel_ok: "\<nexists>e. selected_operation tc h get t ov key vs c = Inl e" if "c \<in> set sel" for c
    using ops_loop_error [of "selected_operation tc h get t ov key vs" sel] o1 that by auto
  show ?thesis
    unfolding ops append_is_Nil_conv nil [OF o1] nil [OF o2] unselected_operation_None_iff
    using selected_operation_None_iff [OF sel_ok] by simp
qed

theorem clusterOperations_quiescent_witness:
  "projr demo_sync_ops \<noteq> [] \<and> demo_store ''c2'' ''ns/web'' = Inr None"
proof -
  obtain ops where ops: "demo_sync_ops = Inr ops"
    by (rule demo_sync_ops_Inr)
  show ?thesis
    unfolding ops using clusterOperations_quiescent [OF ops [unfolded demo_sync_ops_def]]
    by (simp add: demo_store_def)
qed

end
