(* ===== verification/Sync_Claims3.thy ===== *)
theory Sync_Claims3
  imports Sync_Claims2
begin

section \<open>The sync controller: desired objects, deletion and reconciliation\<close>

text \<open>
  The third part of the contract of the sync controller: what an object for a cluster looks
  like, when finalizers are given up, and what a run of \<open>reconcile\<close> may do.
\<close>

subsection \<open>Desired objects\<close>

lemma apply_overrides_spec:
  assumes "apply_overrides path c (map JObj entries) obj = Inr obj'"
  shows "case List.find (\<lambda>e. jget e ''clustername'' = JString c) entries of
      None \<Rightarrow> obj' = obj
    | Some e \<Rightarrow> obj' = (case mget e (last path) of None \<Rightarrow> obj | Some data \<Rightarrow> setNestedField obj data path)"
  using assms by (induction entries) (auto split: if_splits option.splits)

lemma apply_overrides_total: "\<exists>obj'. apply_overrides path c (map JObj entries) obj = Inr obj'"
  by (induction entries) (auto split: option.split)

text \<open>
  C30. Overrides: the object for a cluster is the template's body, with the data of the first
  override entry that names the cluster put at the override path. After that the object has
  the data at that path, and every field on a path apart from it is the body's. The object is the
  body itself when no entry names the cluster, when the first one that does has no data under the
  last component of the path, or when the path runs through a field of the body that is not a map.
\<close>

theorem objectForCluster_overrides:
  assumes "mr_Kind (GetTarget tc) \<noteq> NamespaceKind" and "template_body tc t = Inr body"
    and "NestedSlice ov [''spec'', ''overrides''] = Inr (Some (map JObj entries))"
    and "GetOverridePath tc = path" "path \<noteq> []"
  shows "\<exists>obj. objectForCluster tc t (Some ov) c = Inr obj \<and>
    (case List.find (\<lambda>e. jget e ''clustername'' = JString c) entries of
       None \<Rightarrow> obj = body
     | Some e \<Rightarrow>
        (case mget e (last path) of
           None \<Rightarrow> obj = body
         | Some data \<Rightarrow>
             (case setNestedFieldNoCopy body data path of
                Inl err \<Rightarrow> obj = body
              | Inr overridden \<Rightarrow>
                  obj = overridden \<and> nested_from (JObj obj) path = Inr (Some data) \<and>
                  (\<forall>q r. apart path q \<longrightarrow> nested_from (JObj body) q = Inr r \<longrightarrow> nested_from (JObj obj) q = Inr r))))"
proof -
  obtain obj where obj: "apply_overrides path c (map JObj entries) body = Inr obj"
    using apply_overrides_total by metis
  have "objectForCluster tc t (Some ov) c = Inr obj"
    using assms obj by (simp add: objectForCluster_def)
  moreover have "setNestedField body data path =
      (case setNestedFieldNoCopy body data path of Inl err \<Rightarrow> body | Inr overridden \<Rightarrow> overridden)" for data
    by (simp add: setNestedField_def SetNestedField_def set_or_keep_def split: sum.split)
  ultimately show ?thesis
    using apply_overrides_spec [OF obj]
    by (intro exI [of _ obj])
      (auto simp: nested_after_set_same nested_after_set_apart split: option.splits sum.splits)
qed

definition demo_body :: jobj where
  "demo_body = projr (template_body (demo_type ''Deployment'') demo_template)"

theorem objectForCluster_overrides_witness:
  "\<exists>obj. objectForCluster (demo_type ''Deployment'') demo_template (Some demo_override) ''c2'' = Inr obj \<and>
    nested_from (JObj obj) [''spec'', ''replicas''] = Inr (Some (JInt 5))"
proof -
  have a: "mr_Kind (GetTarget (demo_type ''Deployment'')) \<noteq> NamespaceKind" by code_simp
  have b: "template_body (demo_type ''Deployment'') demo_template = Inr demo_body"
    unfolding demo_body_def by code_simp
  have c: "NestedSlice demo_override [''spec'', ''overrides''] = Inr (Some (map JObj
      [[(''clustername'', JString ''c2''), (''replicas'', JInt 5)]]))" by code_simp
  have d: "GetOverridePath (demo_type ''Deployment'') = [''spec'', ''replicas'']" by code_simp
  have "map_sum id (\<lambda>m. True) (setNestedFieldNoCopy demo_body (JInt 5) [''spec'', ''replicas'']) = Inr True"
    by code_simp
  then obtain m where m: "setNestedFieldNoCopy demo_body (JInt 5) [''spec'', ''replicas''] = Inr m"
    by (cases "setNestedFieldNoCopy demo_body (JInt 5) [''spec'', ''replicas'']")
      (simp_all del: setNestedFieldNoCopy.simps)
  from objectForCluster_overrides [OF a b c d, of "''c2''"] m show ?thesis
    by (auto simp: jget_def mget0_def simp del: setNestedFieldNoCopy.simps nested_from.simps)
qed

lemma NestedSlice_apart:
  assumes "nested_from (JObj obj) path = Inr r" "nested_from (JObj obj') path = Inr r"
  shows "NestedSlice obj path = NestedSlice obj' path"
  using assms by (simp add: NestedSlice_def nestedFieldNoCopy_def)

lemma NestedSlice_found: "NestedSlice obj path = Inr r \<Longrightarrow> \<exists>r'. nested_from (JObj obj) path = Inr r'"
  by (auto simp: NestedSlice_def nestedFieldNoCopy_def split: sum.splits)

text \<open>
  C31. Updating a service: the cluster IP that the cluster has assigned is kept in the update.
  The ports of the update are exactly the ports of the desired object, whatever ports the
  cluster's service has: node ports assigned by the cluster are not retained, since the source
  writes the node port it has read back to the cluster's own port.
\<close>

theorem serviceForUpdateOp_spec:
  assumes "serviceForUpdateOp desired cobj = Inr r"
  shows "(\<forall>ip. NestedString cobj [''spec'', ''clusterIP''] = Inr (Some ip) \<longrightarrow> ip \<noteq> [] \<longrightarrow>
            NestedString r [''spec'', ''clusterIP''] = Inr (Some ip)) \<and>
    (\<forall>cports ports. NestedSlice cobj [''spec'', ''ports''] = Inr (Some cports) \<longrightarrow>
        NestedSlice desired [''spec'', ''ports''] = Inr (Some ports) \<longrightarrow>
        NestedSlice r [''spec'', ''ports''] = Inr (Some ports))"
proof -
  obtain d1 where d1: "retain_clusterIP desired cobj = Inr d1"
    using assms by (auto simp: serviceForUpdateOp_def rbind_Inr_iff)
  note run = assms [unfolded serviceForUpdateOp_def d1 rbind_simps]
  have ap: "apart [''spec'', ''clusterIP''] [''spec'', ''ports'']" "apart [''spec'', ''ports''] [''spec'', ''clusterIP'']"
    by simp_all
  have ip: "nested_from (JObj d1) [''spec'', ''clusterIP''] = Inr (Some (JString i))"
    if "NestedString cobj [''spec'', ''clusterIP''] = Inr (Some i)" "i \<noteq> []" for i
  proof -
    have "setNestedFieldNoCopy desired (JString i) [''spec'', ''clusterIP''] = Inr d1"
      using d1 [unfolded retain_clusterIP_def that(1)] that(2)
      by (simp add: SetNestedField_def split: sum.splits del: setNestedFieldNoCopy.simps)
    then show ?thesis by (rule nested_after_set_same)
  qed
  have ports: "NestedSlice d1 [''spec'', ''ports''] = Inr (Some ps)"
    if ps: "NestedSlice desired [''spec'', ''ports''] = Inr (Some ps)" for ps
  proof -
    obtain q where q: "nested_from (JObj desired) [''spec'', ''ports''] = Inr q"
      using NestedSlice_found [OF ps] by blast
    have "d1 = desired \<or> (\<exists>i. setNestedFieldNoCopy desired (JString i) [''spec'', ''clusterIP''] = Inr d1)"
      using d1 unfolding retain_clusterIP_def
      by (auto simp: SetNestedField_def split: sum.splits option.splits if_splits simp del: setNestedFieldNoCopy.simps)
    then have "nested_from (JObj d1) [''spec'', ''ports''] = Inr q"
      using q nested_after_set_apart [OF _ ap(1) q] by blast
    with q ps show ?thesis by (metis NestedSlice_apart)
  qed
  have final: "r = d1 \<or> (\<exists>ps. setNestedFieldNoCopy d1 (JArr ps) [''spec'', ''ports''] = Inr r \<and>
      (\<forall>qs. NestedSlice d1 [''spec'', ''ports''] = Inr (Some qs) \<longrightarrow> ps = qs))"
    using run
    by (auto simp: SetNestedSlice_def SetNestedField_def rbind_Inr_iff Let_def
        split: sum.splits option.splits simp del: setNestedFieldNoCopy.simps)
  show ?thesis
  proof (intro conjI allI impI)
    fix i
    assume i: "NestedString cobj [''spec'', ''clusterIP''] = Inr (Some i)" "i \<noteq> []"
    have "nested_from (JObj r) [''spec'', ''clusterIP''] = Inr (Some (JString i))"
      using final ip [OF i] nested_after_set_apart [OF _ ap(2) ip [OF i]] by blast
    then show "NestedString r [''spec'', ''clusterIP''] = Inr (Some i)"
      by (simp add: NestedString_def nestedFieldNoCopy_def del: nested_from.simps)
  next
    fix cports ps
    assume "NestedSlice desired [''spec'', ''ports''] = Inr (Some ps)"
    note ps = ports [OF this]
    from final show "NestedSlice r [''spec'', ''ports''] = Inr (Some ps)"
    proof
      assume "\<exists>qs. setNestedFieldNoCopy d1 (JArr qs) [''spec'', ''ports''] = Inr r \<and>
        (\<forall>ts. NestedSlice d1 [''spec'', ''ports''] = Inr (Some ts) \<longrightarrow> qs = ts)"
      then have "setNestedFieldNoCopy d1 (JArr ps) [''spec'', ''ports''] = Inr r"
        using ps by blast
      then have "nested_from (JObj r) [''spec'', ''ports''] = Inr (Some (JArr ps))"
        by (rule nested_after_set_same)
      then show ?thesis
        by (simp add: NestedSlice_def nestedFieldNoCopy_def del: nested_from.simps)
    qed (use ps in simp)
  qed
qed

definition demo_port :: "(string \<times> json) list \<Rightarrow> json" where
  "demo_port extra = JObj ([(''name'', JString ''http''), (''protocol'', JString ''TCP''), (''port'', JInt 80)] @ extra)"

definition demo_service :: "string \<Rightarrow> json list \<Rightarrow> jobj" where
  "demo_service ip ports = [(''spec'', JObj [(''clusterIP'', JString ip), (''ports'', JArr ports)])]"

theorem serviceForUpdateOp_spec_witness:
  "NestedSlice (demo_service ''10.0.0.7'' [demo_port []]) [''spec'', ''ports''] = Inr (Some [demo_port []])
   \<and> NestedString (demo_service ''10.0.0.7'' [demo_port []]) [''spec'', ''clusterIP''] = Inr (Some ''10.0.0.7'')"
proof -
  have run: "serviceForUpdateOp (demo_service [] [demo_port []])
      (demo_service ''10.0.0.7'' [demo_port [(''nodePort'', JInt 30080)]])
    = Inr (demo_service ''10.0.0.7'' [demo_port []])"
    by code_simp
  have ip: "NestedString (demo_service ''10.0.0.7'' [demo_port [(''nodePort'', JInt 30080)]]) [''spec'', ''clusterIP'']
    = Inr (Some ''10.0.0.7'')" by code_simp
  have cp: "NestedSlice (demo_service ''10.0.0.7'' [demo_port [(''nodePort'', JInt 30080)]]) [''spec'', ''ports'']
    = Inr (Some [demo_port [(''nodePort'', JInt 30080)]])" by code_simp
  have dp: "NestedSlice (demo_service [] [demo_port []]) [''spec'', ''ports''] = Inr (Some [demo_port []])"
    by code_simp
  note both = serviceForUpdateOp_spec [OF run]
  show ?thesis
    using conjunct1 [OF both, rule_format, OF ip] conjunct2 [OF both, rule_format, OF cp dp] by simp
qed

end
