(* ===== verification/Sync_Claims4.thy ===== *)
theory Sync_Claims4
  imports Sync_Claims3
begin

section \<open>The sync controller: deletion and reconciliation\<close>

text \<open>
  When the deletion helper gives up the finalizer, and what one run of \<open>reconcile\<close> may do to
  the member clusters and to the federation API.
\<close>

subsection \<open>Deletion\<close>

text \<open>
  C3. No orphans by accident: when a federated object with the deletion finalizer is handled and
  the handler succeeds or writes the object, there are two cases. With the orphan finalizer it
  makes one call, which writes the object without both finalizers, and no cluster is touched
  whatever copies there are. Without it, no cluster is unready, so that no copy can be hidden, no
  copy is left in any ready cluster, except a namespace's own object in the primary cluster, and
  the object is written without the deletion finalizer.
\<close>

theorem finalizer_kept_until_gone:
  assumes "HandleObjectInUnderlyingClusters env obj kind = (r, calls)"
    and "HasFinalizer obj FinalizerDeleteFromUnderlyingClusters"
    and "(\<exists>o1. r = Inr o1) \<or> (\<exists>o1. UpdateObject o1 \<in> set calls)"
  shows "if HasFinalizer obj FinalizerOrphanDependents
    then \<exists>o1. calls = [UpdateObject o1] \<and> set (GetFinalizers o1) = set (GetFinalizers obj)
       - {FinalizerDeleteFromUnderlyingClusters, FinalizerOrphanDependents}
    else de_unready env = Inr [] \<and>
      (\<exists>copies. de_getFromAll env (objName obj) = Inr copies \<and>
         (\<forall>(c, o') \<in> set copies. kind = NamespaceKind \<and> IsPrimaryCluster obj o')) \<and>
      (\<exists>o1. calls = [UpdateClusters [], UpdateObject o1] \<and> set (GetFinalizers o1) = set (GetFinalizers obj)
         - {FinalizerDeleteFromUnderlyingClusters})"
proof (cases "HasFinalizer obj FinalizerOrphanDependents")
  case True
  with handle_orphan [OF assms(1,2)] show ?thesis by simp
next
  case False
  have "de_unready env = Inr [] \<and> (\<exists>copies. de_getFromAll env (objName obj) = Inr copies \<and>
      (\<forall>(c, o') \<in> set copies. kind = NamespaceKind \<and> IsPrimaryCluster obj o'))"
    using handle_success [OF assms(1) _ assms(2) False] handle_update_cases(2) [OF assms(1)] assms(3) False
    by blast
  with handle_writes [OF assms(1,2) False assms(3)] show ?thesis
    unfolding if_not_P [OF False] by blast
qed

definition demo_deleted :: jobj where
  "demo_deleted = [(''metadata'', JObj [(''name'', JString ''web''), (''namespace'', JString ''ns''),
     (''deletionTimestamp'', JString ''2018-08-01T00:00:00Z''),
     (''finalizers'', JArr [JString FinalizerDeleteFromUnderlyingClusters])])]"

definition demo_deletion :: "(string \<times> jobj) list \<Rightarrow> deletion_env" where
  "demo_deletion copies = \<lparr>de_updateObj = (\<lambda>o'. Inr o'), de_unready = Inr [],
     de_getFromAll = (\<lambda>k. Inr copies),
     de_update = (\<lambda>ops. Update_ops ops (map (op_result demo_updater) ops))\<rparr>"

theorem finalizer_kept_until_gone_witness:
  "de_unready (demo_deletion []) = Inr []"
proof -
  have run: "HandleObjectInUnderlyingClusters (demo_deletion []) demo_deleted ''FederatedDeployment''
    = (Inr (SetFinalizers demo_deleted []), [UpdateClusters [], UpdateObject (SetFinalizers demo_deleted [])])"
    by code_simp
  have f: "HasFinalizer demo_deleted FinalizerDeleteFromUnderlyingClusters"
    "\<not> HasFinalizer demo_deleted FinalizerOrphanDependents"
    by code_simp+
  from finalizer_kept_until_gone [OF run f(1)] f(2) show ?thesis by simp
qed

text \<open>
  \<open>EnsureFinalizers\<close>: the object sent to the API server has both finalizers and keeps those
  it had, no call is made when it has both already, and when the server stores what it is sent a
  second run makes no call.
\<close>

lemma EnsureFinalizers_spec:
  assumes "meta_ok obj" and "EnsureFinalizers env obj = (r, calls)"
  shows "(\<forall>o1. UpdateObject o1 \<in> set calls \<longrightarrow> set (GetFinalizers o1) = set (GetFinalizers obj)
       \<union> {FinalizerDeleteFromUnderlyingClusters, FinalizerOrphanDependents})
    \<and> (calls = [] \<longleftrightarrow> HasFinalizer obj FinalizerDeleteFromUnderlyingClusters \<and>
         HasFinalizer obj FinalizerOrphanDependents)
    \<and> (\<forall>o1. (\<forall>o'. de_updateObj env o' = Inr o') \<longrightarrow> r = Inr o1 \<longrightarrow> EnsureFinalizers env o1 = (Inr o1, []))"
proof -
  define f where "f = (let f1 = (if HasFinalizer obj FinalizerDeleteFromUnderlyingClusters then []
                else sset_insert FinalizerDeleteFromUnderlyingClusters [])
      in (if HasFinalizer obj FinalizerOrphanDependents then f1
                else sset_insert FinalizerOrphanDependents f1))"
  have run: "(if length f \<noteq> 0 then dh_addFinalizers env obj f else (Inr obj, [])) = (r, calls)"
    using assms(2) unfolding EnsureFinalizers_def f_def Let_def .
  have f: "set f = {FinalizerDeleteFromUnderlyingClusters, FinalizerOrphanDependents} - set (GetFinalizers obj)"
    by (auto simp: f_def Let_def HasFinalizer_iff)
  obtain obj1 upd where add: "AddFinalizers obj f = (obj1, upd)"
    by (cases "AddFinalizers obj f")
  note spec = AddFinalizers_spec [OF assms(1), of f, unfolded add fst_conv snd_conv]
  have obj1: "set (GetFinalizers obj1) = set (GetFinalizers obj) \<union> set f"
    by (rule spec(1))
  have "set f \<inter> set (GetFinalizers obj) = {}"
    unfolding f by blast
  then have upd: "upd \<longleftrightarrow> f \<noteq> []"
    unfolding spec(2) by (cases f) auto
  have both: "EnsureFinalizers env o1 = (Inr o1, [])"
    if "{FinalizerDeleteFromUnderlyingClusters, FinalizerOrphanDependents} \<subseteq> set (GetFinalizers o1)" for o1
    using that by (simp add: EnsureFinalizers_def HasFinalizer_iff)
  have nil: "f = [] \<longleftrightarrow> HasFinalizer obj FinalizerDeleteFromUnderlyingClusters \<and>
         HasFinalizer obj FinalizerOrphanDependents"
    using f by (metis Diff_eq_empty_iff HasFinalizer_iff empty_set insert_subset set_empty empty_subsetI)
  show ?thesis
  proof (cases "f = []")
    case True
    with run nil both show ?thesis by (auto simp: HasFinalizer_iff)
  next
    case False
    then have calls: "calls = [UpdateObject obj1]" "\<And>o1. (\<forall>o'. de_updateObj env o' = Inr o') \<Longrightarrow> r = Inr o1 \<Longrightarrow> o1 = obj1"
      using run upd by (auto simp: dh_addFinalizers_def add split: sum.splits)
    have "set (GetFinalizers obj1) = set (GetFinalizers obj)
       \<union> {FinalizerDeleteFromUnderlyingClusters, FinalizerOrphanDependents}"
      using obj1 f by auto
    with calls False nil both show ?thesis by auto
  qed
qed

lemma EnsureFinalizers_spec_example:
  "snd (EnsureFinalizers (demo_deletion []) demo_deleted) \<noteq> []"
proof -
  have m: "meta_ok demo_deleted" by code_simp
  obtain r calls where run: "EnsureFinalizers (demo_deletion []) demo_deleted = (r, calls)"
    by (cases "EnsureFinalizers (demo_deletion []) demo_deleted")
  have "\<not> HasFinalizer demo_deleted FinalizerOrphanDependents" by code_simp
  then show ?thesis
    using EnsureFinalizers_spec [OF m run] by (simp add: run)
qed

subsection \<open>Reconciliation\<close>

lemma syncToClusters_ops:
  assumes "syncToClusters env pending sel unsel t ov pv = (st, pending', calls)"
    and "RunOperations ops \<in> set calls"
  shows "\<exists>vs. clusterOperations (se_typeConfig env) (se_helper env) (se_target env) sel unsel t ov
      (qn_String (NewQualifiedName (meta_of t))) vs = Inr ops"
  using assms by (auto simp: syncToClusters_def Let_def split: sum.splits if_splits prod.splits)

lemma reconcile_placed_ops:
  assumes "reconcile_placed env pending qn ns t = (st, pending', calls)"
    and "RunOperations ops \<in> set calls"
  shows "\<exists>ready sel unsel pv ov. se_readyClusters env = Inr ready \<and>
    ComputePlacement env (qn_String qn) ready = Inr (sel, unsel) \<and>
    syncToClusters env pending sel unsel t ov pv = (st, pending', calls)"
  using assms by (fastforce simp: reconcile_placed_def Let_def split: sum.splits if_splits prod.splits)

lemma ComputePlacement_partition:
  assumes "ComputePlacement env key names = Inr (sel, unsel)"
  shows "set sel \<union> set unsel = set names" "set sel \<inter> set unsel = {}"
    "distinct names \<Longrightarrow> distinct (sel @ unsel)"
proof -
  have cases: "NamespacePlacement_ComputePlacement (se_placementStore env key) names = Inr (sel, unsel) \<or>
      ResourcePlacement_ComputePlacement (se_placementStore env key) names = Inr (sel, unsel)"
    using assms by (auto simp: ComputePlacement_def split: if_splits)
  then show "set sel \<union> set unsel = set names" "set sel \<inter> set unsel = {}"
    using namespace_placement.partition resource_placement.partition by blast+
  show "distinct (sel @ unsel)" if "distinct names"
    using cases that namespace_placement.nodup resource_placement.nodup by blast
qed

lemma reconcile_calls:
  assumes "reconcile env pending qn = (st, pending', calls)" and "calls \<noteq> []"
  obtains (deleting) t err where "isSynced env" "se_templateStore env (qn_String qn) = Inr (Some t)"
      "is_deleting (se_parses env) t"
      "sync_delete env t (mr_Kind (GetTemplate (se_typeConfig env))) qn = (err, calls)"
    | (no_finalizers) t dcalls where "calls = map DeletionCall dcalls"
    | (placed) t t1 dcalls ns calls1 where "isSynced env" "se_templateStore env (qn_String qn) = Inr (Some t)"
      "\<not> is_deleting (se_parses env) t" "EnsureFinalizers (se_deletion env) t = (Inr t1, dcalls)"
      "reconcile_placed env pending qn ns t1 = (st, pending', calls1)"
      "calls = map DeletionCall dcalls @ calls1"
proof -
  have sync: "isSynced env"
    using assms by (auto simp: reconcile_def split: if_splits)
  define ns where "ns = (if targetKind env = NamespaceKind then qn_Name qn else qn_Namespace qn)"
  have go: "\<not> (targetKind env = NamespaceKind \<and> isSystemNamespace ns)"
    using assms sync by (auto simp: reconcile_def Let_def ns_def)
  have sync': "(\<not> isSynced env) = False" using sync by simp
  note run = assms(1) [unfolded reconcile_def Let_def sync' if_False ns_def [symmetric] if_not_P [OF go]]
  obtain t where t: "se_templateStore env (qn_String qn) = Inr (Some t)"
    using run assms(2)
    by (cases "se_templateStore env (qn_String qn)"; cases "projr (se_templateStore env (qn_String qn))") simp_all
  note run1 = run [unfolded t sum.case option.case]
  show thesis
  proof (cases "is_deleting (se_parses env) t")
    case True
    obtain err cs where d: "sync_delete env t (mr_Kind (GetTemplate (se_typeConfig env))) qn = (err, cs)"
      by (cases "sync_delete env t (mr_Kind (GetTemplate (se_typeConfig env))) qn")
    with run1 True have "cs = calls" by simp
    with deleting [OF sync t True] d show thesis by simp
  next
    case False
    obtain r dcalls where e: "EnsureFinalizers (se_deletion env) t = (r, dcalls)"
      by (cases "EnsureFinalizers (se_deletion env) t")
    note run2 = run1 [unfolded if_not_P [OF False] e prod.case]
    show thesis
    proof (cases r)
      case (Inl e)
      with run2 have "calls = map DeletionCall dcalls" by simp
      then show thesis by (rule no_finalizers)
    next
      case (Inr t1)
      obtain st1 p1 calls1 where p: "reconcile_placed env pending qn ns t1 = (st1, p1, calls1)"
        by (cases "reconcile_placed env pending qn ns t1") auto
      with run2 Inr have "st1 = st" "p1 = pending'" "calls = map DeletionCall dcalls @ calls1" by simp_all
      with placed [OF sync t False e [unfolded Inr]] p show thesis by simp
    qed
  qed
qed

lemma sync_delete_no_operations:
  "sync_delete env t k qn = (err, calls) \<Longrightarrow> RunOperations ops \<notin> set calls"
  by (auto simp: sync_delete_def Let_def split: prod.splits sum.splits option.splits if_splits)

lemma syncToClusters_no_delete:
  "syncToClusters env p sel unsel t ov pv = (st, p', calls) \<Longrightarrow> DeleteTemplate ns name \<notin> set calls"
  by (auto simp: syncToClusters_def Let_def split: sum.splits prod.splits if_splits)

lemma reconcile_placed_no_delete:
  "reconcile_placed env p qn n t = (st, p', calls) \<Longrightarrow> DeleteTemplate ns name \<notin> set calls"
  by (auto simp: reconcile_placed_def Let_def dest: syncToClusters_no_delete
      split: sum.splits prod.splits if_splits)

text \<open>
  C7. \<open>reconcile\<close> touches the member clusters only when all stores are synced and the template
  exists and is not being deleted; then it runs operations on ready clusters only, at most one
  per cluster, adds and updates only where the placement selects the cluster and deletes only
  where it does not.
\<close>

theorem reconcile_operations_safe:
  assumes "reconcile env pending qn = (st, pending', calls)" and "RunOperations ops \<in> set calls"
    and "se_readyClusters env = Inr ready" "distinct ready"
  shows "isSynced env \<and>
    (\<exists>t. se_templateStore env (qn_String qn) = Inr (Some t) \<and> \<not> is_deleting (se_parses env) t) \<and>
    distinct (map op_ClusterName ops) \<and> set (map op_ClusterName ops) \<subseteq> set ready \<and>
    (\<exists>sel unsel. ComputePlacement env (qn_String qn) ready = Inr (sel, unsel) \<and>
       (\<forall>p \<in> set ops. (op_Type p = OperationTypeDelete \<longrightarrow> op_ClusterName p \<in> set unsel) \<and>
          (op_Type p \<noteq> OperationTypeDelete \<longrightarrow> op_ClusterName p \<in> set sel)))"
proof -
  have "calls \<noteq> []" using assms(2) by auto
  then obtain t t1 ns calls1 where t: "isSynced env" "se_templateStore env (qn_String qn) = Inr (Some t)"
    "\<not> is_deleting (se_parses env) t" and placed: "reconcile_placed env pending qn ns t1 = (st, pending', calls1)"
    and ops: "RunOperations ops \<in> set calls1"
    by (rule reconcile_calls [OF assms(1)]) (use assms(2) sync_delete_no_operations in auto)
  obtain sel unsel pv ov where pl: "ComputePlacement env (qn_String qn) ready = Inr (sel, unsel)"
    and sync: "syncToClusters env pending sel unsel t1 ov pv = (st, pending', calls1)"
    using reconcile_placed_ops [OF placed ops] assms(3) by auto
  obtain vs where co: "clusterOperations (se_typeConfig env) (se_helper env) (se_target env) sel unsel t1 ov
      (qn_String (NewQualifiedName (meta_of t1))) vs = Inr ops"
    using syncToClusters_ops [OF sync ops] by blast
  note part = ComputePlacement_partition [OF pl]
  have dist: "distinct (sel @ unsel)" by (rule part(3) [OF assms(4)])
  note dst = clusterOperations_distinct [OF co dist]
  obtain ops1 ops2 where split: "ops = ops1 @ ops2"
    and o1: "ops_loop (selected_operation (se_typeConfig env) (se_helper env) (se_target env) t1 ov
      (qn_String (NewQualifiedName (meta_of t1))) vs) sel = Inr ops1"
    and o2: "ops_loop (unselected_operation (se_target env) (qn_String (NewQualifiedName (meta_of t1)))) unsel = Inr ops2"
    by (rule clusterOperations_split [OF co])
  have "op_ClusterName p \<in> set sel \<and> op_Type p \<noteq> OperationTypeDelete" if "p \<in> set ops1" for p
    using that unfolding ops_loop_set [OF o1] by (auto elim!: selected_operation_cases)
  moreover have "op_ClusterName p \<in> set unsel \<and> op_Type p = OperationTypeDelete" if "p \<in> set ops2" for p
    using that unfolding ops_loop_set [OF o2] by (auto simp: unselected_operation_iff)
  ultimately have "\<forall>p \<in> set ops. (op_Type p = OperationTypeDelete \<longrightarrow> op_ClusterName p \<in> set unsel) \<and>
          (op_Type p \<noteq> OperationTypeDelete \<longrightarrow> op_ClusterName p \<in> set sel)"
    by (auto simp: split)
  with t pl dst part(1) show ?thesis by auto
qed

definition demo_env :: "jobj \<Rightarrow> sync_env" where
  "demo_env template =
     \<lparr>se_typeConfig = demo_type ''Deployment'', se_helper = ResourceHelper, se_clustersSynced = True,
      se_placementSynced = True, se_syncReady = Inr [''c1'', ''c2'', ''c3''],
      se_readyClusters = Inr [''c1'', ''c2'', ''c3''], se_targetSynced = (\<lambda>cs. True),
      se_templateStore = (\<lambda>k. Inr (if k = ''ns/web'' then Some template else None)),
      se_overrideStore = Some (\<lambda>k. Inr (Some demo_override)),
      se_placementStore = (\<lambda>k. Inr (Some [(''spec'', JObj [(''clusternames'', JArr [JString ''c1'', JString ''c2''])])])),
      se_versionStore = (\<lambda>k. Inr None), se_target = demo_store, se_parses = (\<lambda>s. True),
      se_deletion = demo_deletion [],
      se_versions = \<lparr>va_create = (\<lambda>v. Inr v), va_updateStatus = (\<lambda>v. Inr ())\<rparr>,
      se_deleteVersion = (\<lambda>ns n. None), se_deleteTemplate = (\<lambda>ns n. Some (ErrNotFound n))\<rparr>"

definition demo_run :: sync_result where
  "demo_run = reconcile (demo_env demo_template) [] \<lparr>qn_Namespace = ''ns'', qn_Name = ''web''\<rparr>"

definition run_ops :: "sync_call \<Rightarrow> FederatedOperation list option" where
  "run_ops call = (case call of RunOperations ops \<Rightarrow> Some ops | _ \<Rightarrow> None)"

lemma demo_run_ops:
  "map (\<lambda>p. (op_Type p, op_ClusterName p)) (the (run_ops (hd (snd (snd demo_run)))))
     = [(OperationTypeUpdate, ''c1''), (OperationTypeAdd, ''c2''), (OperationTypeDelete, ''c3'')]
   \<and> run_ops (hd (snd (snd demo_run))) \<noteq> None \<and> length (snd (snd demo_run)) = 3
   \<and> fst demo_run = Some StatusAllOK"
  by code_simp

theorem reconcile_operations_safe_witness:
  "isSynced (demo_env demo_template)"
proof -
  obtain st pending' calls where run: "demo_run = (st, pending', calls)" by (cases demo_run) auto
  obtain c cs where calls: "calls = c # cs"
    using demo_run_ops [unfolded run] by (cases calls) simp_all
  have "run_ops c \<noteq> None" using demo_run_ops unfolding run calls by simp
  then obtain ops where "c = RunOperations ops" by (cases c) (auto simp: run_ops_def)
  then have mem: "RunOperations ops \<in> set calls" by (simp add: calls)
  have "se_readyClusters (demo_env demo_template) = Inr [''c1'', ''c2'', ''c3'']" by (simp add: demo_env_def)
  from reconcile_operations_safe [OF run [unfolded demo_run_def] mem this] show ?thesis by simp
qed

text \<open>
  C32. \<open>reconcile\<close> deletes a template from the federation API only when the template is being
  deleted, and then last, after its \<open>PropagatedVersion\<close>. What it did before depends on the
  finalizers of the template. Without the deletion finalizer: nothing. With it and the orphan
  finalizer: the template was written without both, and the copies are left where they are. With
  the deletion finalizer alone: no cluster is unready, no copy is left in a ready cluster (except a
  namespace's own object in the primary cluster), and the template was written without the
  finalizer.
\<close>

theorem reconcile_delete_safe:
  assumes "reconcile env pending qn = (st, pending', calls)" and "DeleteTemplate ns name \<in> set calls"
  shows "\<exists>t dcalls. se_templateStore env (qn_String qn) = Inr (Some t) \<and> is_deleting (se_parses env) t \<and>
    calls = map DeletionCall dcalls @ [DeleteVersion ns (versionName env name), DeleteTemplate ns name] \<and>
    ns = qn_Namespace qn \<and> name = qn_Name qn \<and>
    (\<not> HasFinalizer t FinalizerDeleteFromUnderlyingClusters \<longrightarrow> dcalls = []) \<and>
    (HasFinalizer t FinalizerDeleteFromUnderlyingClusters \<longrightarrow> HasFinalizer t FinalizerOrphanDependents \<longrightarrow>
       (\<exists>o1. dcalls = [UpdateObject o1] \<and> set (GetFinalizers o1) = set (GetFinalizers t)
          - {FinalizerDeleteFromUnderlyingClusters, FinalizerOrphanDependents})) \<and>
    (HasFinalizer t FinalizerDeleteFromUnderlyingClusters \<longrightarrow> \<not> HasFinalizer t FinalizerOrphanDependents \<longrightarrow>
       de_unready (se_deletion env) = Inr [] \<and>
       (\<exists>copies. de_getFromAll (se_deletion env) (objName t) = Inr copies \<and>
          (\<forall>(c, o') \<in> set copies. mr_Kind (GetTemplate (se_typeConfig env)) = NamespaceKind \<and> IsPrimaryCluster t o')) \<and>
       (\<exists>o1. dcalls = [UpdateClusters [], UpdateObject o1] \<and> set (GetFinalizers o1) = set (GetFinalizers t)
          - {FinalizerDeleteFromUnderlyingClusters}))"
proof -
  let ?kind = "mr_Kind (GetTemplate (se_typeConfig env))"
  have "calls \<noteq> []" using assms(2) by auto
  then obtain t err where t: "se_templateStore env (qn_String qn) = Inr (Some t)"
    and live: "is_deleting (se_parses env) t" and del: "sync_delete env t ?kind qn = (err, calls)"
    by (rule reconcile_calls [OF assms(1)]) (use assms(2) reconcile_placed_no_delete in auto)
  obtain r dcalls where h: "HandleObjectInUnderlyingClusters (se_deletion env) t ?kind = (r, dcalls)"
    by (cases "HandleObjectInUnderlyingClusters (se_deletion env) t ?kind")
  obtain o1 where r: "r = Inr o1"
    using assms(2) del h by (cases r) (auto simp: sync_delete_def Let_def)
  then have res: "(\<exists>o1. r = Inr o1) \<or> (\<exists>o1. UpdateObject o1 \<in> set dcalls)" by blast
  have "calls = map DeletionCall dcalls @ [DeleteVersion ns (versionName env name), DeleteTemplate ns name] \<and>
    ns = qn_Namespace qn \<and> name = qn_Name qn"
    using assms(2) del h r
    by (auto simp: sync_delete_def Let_def split: option.splits if_splits)
  moreover have "dcalls = []" if "\<not> HasFinalizer t FinalizerDeleteFromUnderlyingClusters"
    using h that by (simp add: HandleObjectInUnderlyingClusters_def)
  ultimately show ?thesis
    using t live handle_orphan [OF h] handle_success [OF h r] handle_writes [OF h _ _ res] by blast
qed

definition demo_delete_run :: sync_result where
  "demo_delete_run = reconcile (demo_env demo_deleted) [] \<lparr>qn_Namespace = ''ns'', qn_Name = ''web''\<rparr>"

lemma demo_delete_run_eq:
  "demo_delete_run = (Some StatusAllOK, [],
     [DeletionCall (UpdateClusters []), DeletionCall (UpdateObject (SetFinalizers demo_deleted [])),
      DeleteVersion ''ns'' ''deployment-web'', DeleteTemplate ''ns'' ''web''])"
  by code_simp

theorem reconcile_delete_safe_witness:
  "is_deleting (se_parses (demo_env demo_deleted)) demo_deleted"
proof -
  have "DeleteTemplate ''ns'' ''web'' \<in> set (snd (snd demo_delete_run))"
    unfolding demo_delete_run_eq by simp
  moreover have "se_templateStore (demo_env demo_deleted)
      (qn_String \<lparr>qn_Namespace = ''ns'', qn_Name = ''web''\<rparr>) = Inr (Some demo_deleted)"
    by code_simp
  ultimately show ?thesis
    using reconcile_delete_safe [OF demo_delete_run_eq [unfolded demo_delete_run_def], of "''ns''" "''web''"]
    unfolding demo_delete_run_eq by (metis Inr_inject option.inject snd_conv)
qed

end
