(* ===== verification/Sync_Convergence.thy ===== *)
theory Sync_Convergence
  imports Sync_Claims4
begin

section \<open>Convergence of the sync controller\<close>

text \<open>
  How the parts of the sync controller work together over two reconciliations: the operations of
  the first, the updater that runs them, the versions recorded from their results, and the
  operations of the second.
\<close>

text \<open>The status that is written for the versions of an update.\<close>

definition recorded_status :: "(string, string) gomap \<Rightarrow> jobj \<Rightarrow> string \<Rightarrow> jobj option \<Rightarrow> PropagatedVersion option
    \<Rightarrow> string list \<Rightarrow> PropagatedVersionStatus" where
  "recorded_status vs t k ov pv sel =
     (case pv of None \<Rightarrow> pv_Status (newVersion vs t k (override_version ov)) | Some v \<Rightarrow> updatedStatus v vs t ov sel)"

lemma updatePropagatedVersion_records:
  assumes "updatePropagatedVersion api k vs t ov pv sel pending = (None, pending', calls)"
    and "\<And>v c. va_create api v = Inr c \<Longrightarrow> pv_Status c = pv_Status v"
  shows "(\<exists>v. last calls = UpdateVersionStatus v \<and> calls \<noteq> [] \<and> pv_Status v = recorded_status vs t k ov pv sel) \<or>
    calls = [] \<and> (\<exists>v. pv = Some v \<and> pv_Status v = recorded_status vs t k ov pv sel)"
  using assms by (cases pv)
    (auto simp: updatePropagatedVersion_def recorded_status_def Let_def PropagatedVersionStatusEquivalent_def
      split: sum.splits if_splits)

text \<open>What the API servers of the member clusters do: an operation that succeeded is visible.\<close>

definition clusters_store :: "FederatedTypeConfig \<Rightarrow> ComparisonHelper \<Rightarrow> jobj \<Rightarrow> jobj option \<Rightarrow> string \<Rightarrow> updater_env
    \<Rightarrow> FederatedOperation list \<Rightarrow> get_by_key \<Rightarrow> get_by_key \<Rightarrow> bool" where
  "clusters_store tc h t ov key env ops get get' \<longleftrightarrow>
     (\<forall>c. c \<notin> op_ClusterName ` set ops \<longrightarrow> get' c key = get c key) \<and>
     (\<forall>p \<in> set ops. if op_Type p = OperationTypeDelete then get' (op_ClusterName p) key = Inr None
        else (\<exists>cobj obj obj1. get' (op_ClusterName p) key = Inr (Some cobj) \<and>
          GetVersion h cobj = or_version (op_result env p) \<and> GetVersion h cobj \<noteq> [] \<and>
          objectForCluster tc t ov (op_ClusterName p) = Inr obj \<and> objectForUpdateOp tc obj cobj = Inr obj1 \<and>
          Equivalent h obj1 cobj))"

lemma getClusterVersions_recorded:
  assumes "gomap_ok vs" and "pv_Status pv' = recorded_status vs t k ov pv sel"
    and "\<And>v. pv = Some v \<Longrightarrow> cov_ok (pvs_ClusterVersions (pv_Status v))" and "v \<noteq> []"
    and "mget vs c = Some v \<or> mget vs c = None \<and> c \<in> set sel \<and> mget (getClusterVersions t ov pv) c = Some v"
  shows "mget (getClusterVersions t ov (Some pv')) c = Some v"
proof (cases pv)
  case None
  with assms(2) have s: "pv_Status pv' = \<lparr>pvs_TemplateVersion = GetResourceVersion t,
      pvs_OverrideVersion = override_version ov, pvs_ClusterVersions = to_cov vs\<rparr>"
    by (simp add: recorded_status_def newVersion_status)
  have "mget vs c = Some v" using assms(5) None by (simp add: getClusterVersions_def)
  then show ?thesis
    using to_cov_facts [OF assms(1)] getClusterVersions_mget [of pv' t ov] by (simp add: s cov_ok_def)
next
  case (Some old)
  let ?same = "GetResourceVersion t = pvs_TemplateVersion (pv_Status old) \<and>
    override_version ov = pvs_OverrideVersion (pv_Status old)"
  let ?old = "if ?same then pvs_ClusterVersions (pv_Status old) else []"
  have s: "pv_Status pv' = \<lparr>pvs_TemplateVersion = GetResourceVersion t,
      pvs_OverrideVersion = override_version ov, pvs_ClusterVersions = clusterVersions vs ?old sel\<rparr>"
    using assms(2) Some by (auto simp: recorded_status_def updatedStatus_def Let_def)
  note facts = clusterVersions_facts [OF assms(1), of ?old sel]
  have new: "mget (getClusterVersions t ov (Some pv')) = cov_map (clusterVersions vs ?old sel)"
    using facts(1) getClusterVersions_mget [of pv' t ov] by (simp add: s cov_ok_def)
  have "mget (getClusterVersions t ov pv) c = cov_map ?old c"
  proof (cases ?same)
    case True
    then show ?thesis
      using getClusterVersions_mget [of old t ov] assms(3) Some by (simp add: cov_ok_def)
  next
    case False
    then have "getClusterVersions t ov (Some old) = []" by (auto simp: getClusterVersions_def)
    with False Some show ?thesis by (auto simp: cov_map_def)
  qed
  with assms(4,5) show ?thesis unfolding new facts(2) by auto
qed

text \<open>
  The operations converge: when all operations of a reconciliation succeed, the clusters
  store what they are sent and the versions are recorded, the next reconciliation of the same
  template, override and placement has nothing to do and records nothing.
\<close>

lemma sync_converges:
  assumes ops: "clusterOperations tc h get sel unsel t ov key (getClusterVersions t ov pv) = Inr ops"
    and dist: "distinct (sel @ unsel)"
    and run: "received_ok env ops received" "Update_ops ops received = (vs, [])"
    and store: "clusters_store tc h t ov key env ops get get'"
    and old: "\<And>v. pv = Some v \<Longrightarrow> cov_ok (pvs_ClusterVersions (pv_Status v))"
      "\<And>c cobj. get c key = Inr (Some cobj) \<Longrightarrow> GetVersion h cobj \<noteq> []"
    and recorded: "pv_Status pv' = recorded_status vs t k ov pv sel"
  shows "clusterOperations tc h get' sel unsel t ov key (getClusterVersions t ov (Some pv')) = Inr []"
proof -
  let ?old = "getClusterVersions t ov pv" and ?new = "getClusterVersions t ov (Some pv')"
  obtain ops1 ops2 where split: "ops = ops1 @ ops2"
    and o1: "ops_loop (selected_operation tc h get t ov key ?old) sel = Inr ops1"
    and o2: "ops_loop (unselected_operation get key) unsel = Inr ops2"
    by (rule clusterOperations_split [OF ops])
  note set1 = ops_loop_set [OF o1] and set2 = ops_loop_set [OF o2]
  have names: "distinct (map op_ClusterName ops)"
    using clusterOperations_distinct(1) [OF ops dist] .
  have fin: "length ops \<le> length received" "\<forall>r \<in> set received. or_err r = None"
    using Update_ops_facts(1) [OF run(2)] by auto
  have received: "set received = op_result env ` set ops"
    using all_received [OF run(1) fin(1)] by (metis mset_eq_setD set_map)
  note version = received_version [OF names run]
  have vs: "mget vs (op_ClusterName p) = Some (or_version (op_result env p))" if "p \<in> set ops" for p
    using that received fin(2) unfolding version by auto
  have novs: "mget vs c = None" if "c \<notin> op_ClusterName ` set ops" for c
    using that version [of c] by (cases "mget vs c") auto
  note recorded' = getClusterVersions_recorded [OF Update_ops_facts(3) [OF run(2)] recorded old(1)]
  have selected: "selected_operation tc h get' t ov key ?new c = Inr None" if c: "c \<in> set sel" for c
  proof (cases "selected_operation tc h get t ov key ?old c")
    case (Inl e)
    then show ?thesis using ops_loop_error [of "selected_operation tc h get t ov key ?old" sel] o1 c by auto
  next
    case (Inr r)
    show ?thesis
    proof (cases r)
      case (Some p)
      with Inr have sp: "selected_operation tc h get t ov key ?old c = Inr (Some p)" by simp
      then have "p \<in> set ops1" using c set1 by blast
      moreover have "op_Type p \<noteq> OperationTypeDelete"
        using sp by (cases rule: selected_operation_cases) simp_all
      ultimately have p: "p \<in> set ops" "op_ClusterName p = c" "op_Type p \<noteq> OperationTypeDelete"
        using selected_operation_cluster [OF sp] by (simp_all add: split)
      with store obtain cobj obj obj1 where w: "get' c key = Inr (Some cobj)"
        "GetVersion h cobj = or_version (op_result env p)" "GetVersion h cobj \<noteq> []"
        "objectForCluster tc t ov c = Inr obj" "objectForUpdateOp tc obj cobj = Inr obj1" "Equivalent h obj1 cobj"
        unfolding clusters_store_def by metis
      moreover have "mget ?new c = Some (GetVersion h cobj)"
        using recorded' [of "GetVersion h cobj" c] vs [OF p(1)] p(2) w(2,3) by simp
      ultimately show ?thesis by (intro selected_operation_NoneI) auto
    next
      case None
      have "c \<notin> op_ClusterName ` set ops"
      proof
        assume "c \<in> op_ClusterName ` set ops"
        then obtain p where p: "p \<in> set ops" "op_ClusterName p = c" by blast
        then have "selected_operation tc h get t ov key ?old c = Inr (Some p)"
          using c dist unselected_operation_cluster selected_operation_cluster
          by (fastforce simp: split set1 set2)
        with Inr None show False by simp
      qed
      then have same: "get' c key = get c key" "mget vs c = None"
        using store novs by (auto simp: clusters_store_def)
      have "\<nexists>e. selected_operation tc h get t ov key ?old c = Inl e" using Inr by simp
      from selected_operation_None_iff [OF this] Inr None obtain cobj where g: "get c key = Inr (Some cobj)" and
        ok: "mr_Kind (GetTarget tc) = NamespaceKind \<and> IsPrimaryCluster t cobj \<or>
          (\<exists>obj obj1. objectForCluster tc t ov c = Inr obj \<and> objectForUpdateOp tc obj cobj = Inr obj1 \<and>
             mget ?old c = Some (GetVersion h cobj) \<and> Equivalent h obj1 cobj)" by auto
      obtain obj where obj: "objectForCluster tc t ov c = Inr obj"
        using Inr by (cases "objectForCluster tc t ov c") (auto simp: selected_operation_def)
      have "mget ?old c = Some (GetVersion h cobj) \<Longrightarrow> mget ?new c = Some (GetVersion h cobj)"
        using recorded' [of "GetVersion h cobj" c] old(2) [OF g] same(2) c by blast
      with ok obj g same(1) show ?thesis by (intro selected_operation_NoneI [OF _ obj]) auto
    qed
  qed
  have unselected: "unselected_operation get' key c = Inr None" if c: "c \<in> set unsel" for c
  proof (cases "unselected_operation get key c")
    case (Inl e)
    then show ?thesis using ops_loop_error [of "unselected_operation get key" unsel] o2 c by auto
  next
    case (Inr r)
    show ?thesis
    proof (cases r)
      case None
      have "c \<notin> op_ClusterName ` set ops"
        using Inr None c dist unselected_operation_cluster selected_operation_cluster
        by (fastforce simp: split set1 set2)
      with store None Inr show ?thesis
        by (simp add: clusters_store_def unselected_operation_None_iff)
    next
      case (Some p)
      then have "p \<in> set ops" "op_ClusterName p = c" "op_Type p = OperationTypeDelete"
        using Inr c set2 by (auto simp: split unselected_operation_iff)
      with store show ?thesis by (auto simp: clusters_store_def unselected_operation_None_iff)
    qed
  qed
  show ?thesis
    using selected unselected
      ops_loop_Nil [of "selected_operation tc h get' t ov key ?new" sel] ops_loop_Nil [of "unselected_operation get' key" unsel]
    by (simp add: clusterOperations_def)
qed

text \<open>The clusters of the example after its update, add and delete.\<close>

definition demo_after :: get_by_key where
  "demo_after c key =
     (if key \<noteq> ''ns/web'' then Inr None
      else if c = ''c1'' then Inr (Some (demo_object ''2'' 3))
      else if c = ''c2'' then Inr (Some (demo_object ''1'' 5)) else Inr None)"

definition demo_written :: "string \<Rightarrow> jobj \<Rightarrow> bool" where
  "demo_written c cobj =
     (case objectForCluster (demo_type ''Deployment'') demo_template (Some demo_override) c of
        Inl _ \<Rightarrow> False
      | Inr obj \<Rightarrow> (case objectForUpdateOp (demo_type ''Deployment'') obj cobj of Inl _ \<Rightarrow> False | Inr _ \<Rightarrow> True))"

lemma demo_writes: "demo_written ''c1'' (demo_object ''2'' 3)" "demo_written ''c2'' (demo_object ''1'' 5)"
  by code_simp+

lemma demo_versions: "GetResourceVersion (demo_object v n) = v"
  by (simp add: demo_object_def demo_meta_def GetResourceVersion_def getNestedString_def NestedString_def nestedFieldNoCopy_def)

lemma demo_clusters_store:
  assumes "demo_sync_ops = Inr ops"
  shows "clusters_store (demo_type ''Deployment'') ResourceHelper demo_template (Some demo_override) ''ns/web''
    demo_updater ops demo_store demo_after"
proof -
  have "map (\<lambda>p. (op_Type p, op_ClusterName p)) ops
      = [(OperationTypeUpdate, ''c1''), (OperationTypeAdd, ''c2''), (OperationTypeDelete, ''c3'')]"
    using demo_sync_ops_run [unfolded assms map_sum.simps] by (rule sum.inject(2) [THEN iffD1])
  then obtain p1 p2 p3 where p: "ops = [p1, p2, p3]" "op_Type p1 = OperationTypeUpdate" "op_ClusterName p1 = ''c1''"
    "op_Type p2 = OperationTypeAdd" "op_ClusterName p2 = ''c2''" "op_Type p3 = OperationTypeDelete" "op_ClusterName p3 = ''c3''"
    by auto
  show ?thesis
    using demo_writes unfolding clusters_store_def demo_written_def
    by (auto simp: p demo_after_def demo_store_def demo_versions op_result_def demo_updater_def done_op_def split: sum.splits)
qed

end
