(* ===== verification/Sync_Runs.thy ===== *)
theory Sync_Runs
  imports Sync_Convergence
begin

section \<open>Runs of the sync controller\<close>

text \<open>
  Convergence of whole runs of \<open>reconcile\<close>: what the API servers store of the calls of one run,
  once the informers have seen it, leaves nothing to do for the next.
\<close>

subsection \<open>The functions of the updater\<close>

text \<open>
  What the constructor passes to the updater: the client of a cluster creates, updates or deletes
  the object in its namespace, and the version is that of the object the API server returned.
\<close>

record cluster_api =
  ca_client :: "string \<Rightarrow> unit go_result"
  ca_create :: "string \<Rightarrow> jobj \<Rightarrow> jobj go_result"
  ca_update :: "string \<Rightarrow> jobj \<Rightarrow> jobj go_result"
  ca_delete :: "string \<Rightarrow> QualifiedName \<Rightarrow> unit go_result"

definition sync_updater :: "ComparisonHelper \<Rightarrow> cluster_api \<Rightarrow> updater_env" where
  "sync_updater h api =
     \<lparr>ue_client = ca_client api,
      ue_add = (\<lambda>c obj. case ca_create api c obj of Inl err \<Rightarrow> Inl err | Inr createdObj \<Rightarrow> Inr (GetVersion h createdObj)),
      ue_update = (\<lambda>c obj. case ca_update api c obj of Inl err \<Rightarrow> Inl err | Inr updatedObj \<Rightarrow> Inr (GetVersion h updatedObj)),
      ue_delete = (\<lambda>c obj. ca_delete api c (NewQualifiedName (meta_of obj)))\<rparr>"

lemma sync_updater_version:
  assumes "or_err (op_result (sync_updater h api) p) = None" and "op_Type p \<noteq> OperationTypeDelete"
  obtains obj where "or_version (op_result (sync_updater h api) p) = GetVersion h obj"
    and "(if op_Type p = OperationTypeAdd then ca_create else ca_update) api (op_ClusterName p) (op_Obj p) = Inr obj"
  using assms
  by (cases "op_Type p") (auto simp: op_result_def sync_updater_def failed_op_def done_op_def split: sum.splits)

subsection \<open>What the API server holds after a run\<close>

text \<open>The status that the federation API holds for a version after the calls of a run that all succeeded.\<close>

definition sent_status :: "sync_call \<Rightarrow> PropagatedVersionStatus option" where
  "sent_status call = (case call of VersionCall (UpdateVersionStatus v) \<Rightarrow> Some (pv_Status v) | _ \<Rightarrow> None)"

definition stored_status :: "PropagatedVersion option \<Rightarrow> sync_call list \<Rightarrow> PropagatedVersionStatus option" where
  "stored_status pv calls =
     (case filter (\<lambda>call. sent_status call \<noteq> None) calls of
        [] \<Rightarrow> map_option pv_Status pv
      | call # rest \<Rightarrow> sent_status (last (call # rest)))"

definition versions_accepted :: "version_api \<Rightarrow> bool" where
  "versions_accepted api \<longleftrightarrow> (\<forall>v. \<exists>c. va_create api v = Inr c \<and> pv_Status c = pv_Status v) \<and>
     (\<forall>v. va_updateStatus api v = Inr ())"

lemma stored_status_recorded:
  assumes "updatePropagatedVersion api k vs t ov pv sel pending = (e, pending', vcalls)" and "versions_accepted api"
  shows "stored_status pv (map DeletionCall dcalls @ RunOperations ops # map VersionCall vcalls)
    = Some (recorded_status vs t k ov pv sel)"
proof -
  have skip: "filter (\<lambda>call. sent_status call \<noteq> None) (map DeletionCall dcalls) = []"
    by (simp add: sent_status_def filter_empty_conv)
  show ?thesis
  proof (cases pv)
    case None
    let ?v = "newVersion vs t k (override_version ov)"
    obtain c where c: "va_create api ?v = Inr c" "pv_Status c = pv_Status ?v" "va_updateStatus api c = Inr ()"
      using assms(2) by (auto simp: versions_accepted_def)
    with assms(1) None have "vcalls = [CreateVersion ?v, UpdateVersionStatus c]"
      by (simp add: updatePropagatedVersion_def Let_def)
    then show ?thesis
      using skip c(2) by (simp add: stored_status_def sent_status_def recorded_status_def None)
  next
    case (Some v)
    let ?new = "updatedStatus v vs t ov sel"
    have ok: "va_updateStatus api w = Inr ()" for w using assms(2) by (simp add: versions_accepted_def)
    have "vcalls = (if PropagatedVersionStatusEquivalent (pv_Status v) ?new then [] else [UpdateVersionStatus (v\<lparr>pv_Status := ?new\<rparr>)])"
      using assms(1) Some by (auto simp: updatePropagatedVersion_def Let_def ok split: if_splits)
    then show ?thesis
      using skip by (simp add: stored_status_def sent_status_def recorded_status_def Some PropagatedVersionStatusEquivalent_def)
  qed
qed

text \<open>The parts of a run that acted on the member clusters.\<close>

definition override_of :: "sync_env \<Rightarrow> string \<Rightarrow> jobj option go_result" where
  "override_of env key = (case se_overrideStore env of None \<Rightarrow> Inr None | Some store \<Rightarrow> store key)"

definition version_key :: "sync_env \<Rightarrow> QualifiedName \<Rightarrow> string" where
  "version_key env qn = qn_String \<lparr>qn_Namespace = (if targetKind env = NamespaceKind then qn_Name qn else qn_Namespace qn),
     qn_Name = versionName env (qn_Name qn)\<rparr>"

lemma reconcile_placed_eq:
  "reconcile_placed env pending qn ns t =
     (case se_readyClusters env of
        Inl _ \<Rightarrow> (Some StatusNotSynced, pending, [])
      | Inr ready \<Rightarrow>
        (case ComputePlacement env (qn_String qn) ready of
          Inl _ \<Rightarrow> (Some StatusError, pending, [])
        | Inr (sel, unsel) \<Rightarrow>
          (case override_of env (qn_String qn) of
            Inl _ \<Rightarrow> (Some StatusError, pending, [])
          | Inr ov \<Rightarrow>
             (let key = qn_String \<lparr>qn_Namespace = ns, qn_Name = versionName env (qn_Name qn)\<rparr>
              in if sset_has pending key \<and> targetKind env \<noteq> NamespaceKind then (Some StatusNeedsRecheck, pending, [])
                 else (case se_versionStore env key of
                         Inl _ \<Rightarrow> (Some StatusError, pending, [])
                       | Inr pv \<Rightarrow> syncToClusters env pending sel unsel t ov pv)))))"
  unfolding reconcile_placed_def override_of_def Let_def by (rule refl)

text \<open>Where the objects and the names of one key are, and what the run does with them.\<close>

lemma reconcile_operations_split:
  assumes run: "reconcile env pending qn = (st, pending', calls)" and ops: "RunOperations ops \<in> set calls"
  obtains t t1 dcalls ready sel unsel ov pv vs errs e vcalls where
    "isSynced env" and "\<not> (targetKind env = NamespaceKind \<and> isSystemNamespace (qn_Name qn))"
    and "se_templateStore env (qn_String qn) = Inr (Some t)" and "\<not> is_deleting (se_parses env) t"
    and "EnsureFinalizers (se_deletion env) t = (Inr t1, dcalls)"
    and "se_readyClusters env = Inr ready" and "ComputePlacement env (qn_String qn) ready = Inr (sel, unsel)"
    and "override_of env (qn_String qn) = Inr ov"
    and "\<not> (sset_has pending (version_key env qn) \<and> targetKind env \<noteq> NamespaceKind)" and "se_versionStore env (version_key env qn) = Inr pv"
    and "clusterOperations (se_typeConfig env) (se_helper env) (se_target env) sel unsel t1 ov
      (qn_String (NewQualifiedName (meta_of t1))) (getClusterVersions t1 ov pv) = Inr ops"
    and "de_update (se_deletion env) ops = (vs, errs)"
    and "updatePropagatedVersion (se_versions env) (targetKind env) vs t1 ov pv sel pending = (e, pending', vcalls)"
    and "calls = map DeletionCall dcalls @ RunOperations ops # map VersionCall vcalls"
    and "st = Some (if errs = [] then StatusAllOK else StatusError)"
proof -
  define ns where "ns = (if targetKind env = NamespaceKind then qn_Name qn else qn_Namespace qn)"
  have key: "version_key env qn = qn_String \<lparr>qn_Namespace = ns, qn_Name = versionName env (qn_Name qn)\<rparr>"
    by (simp add: version_key_def ns_def)
  have sync: "isSynced env" using assms by (auto simp: reconcile_def split: if_splits)
  have go: "\<not> (targetKind env = NamespaceKind \<and> isSystemNamespace (qn_Name qn))"
    using assms sync by (auto simp: reconcile_def Let_def)
  have go': "\<not> (targetKind env = NamespaceKind \<and> isSystemNamespace ns)" using go by (auto simp: ns_def)
  have sync': "(\<not> isSynced env) = False" using sync by simp
  note run1 = run [unfolded reconcile_def Let_def sync' if_False ns_def [symmetric] if_not_P [OF go']]
  obtain t where t: "se_templateStore env (qn_String qn) = Inr (Some t)"
    using run1 ops
    by (cases "se_templateStore env (qn_String qn)"; cases "projr (se_templateStore env (qn_String qn))") auto
  note run2 = run1 [unfolded t sum.case option.case]
  have live: "\<not> is_deleting (se_parses env) t"
    using run2 ops sync_delete_no_operations by (auto split: prod.splits)
  obtain r dcalls where e: "EnsureFinalizers (se_deletion env) t = (r, dcalls)"
    by (cases "EnsureFinalizers (se_deletion env) t")
  note run3 = run2 [unfolded if_not_P [OF live] e prod.case]
  obtain t1 where t1: "r = Inr t1" using run3 ops by (cases r) auto
  obtain calls1 where placed: "reconcile_placed env pending qn ns t1 = (st, pending', calls1)"
    and calls: "calls = map DeletionCall dcalls @ calls1"
    using run3 t1 by (auto split: prod.splits)
  have ops1: "RunOperations ops \<in> set calls1" using ops calls by auto
  obtain ready where ready: "se_readyClusters env = Inr ready"
    using placed ops1 unfolding reconcile_placed_eq by (cases "se_readyClusters env") auto
  obtain sel unsel where pl: "ComputePlacement env (qn_String qn) ready = Inr (sel, unsel)"
    using placed ops1 unfolding reconcile_placed_eq ready by (auto split: sum.splits)
  obtain ov where ov: "override_of env (qn_String qn) = Inr ov"
    using placed ops1 unfolding reconcile_placed_eq ready pl by (auto split: sum.splits)
  note placed1 = placed [unfolded reconcile_placed_eq ready sum.case pl prod.case ov Let_def key [symmetric]]
  have free: "\<not> (sset_has pending (version_key env qn) \<and> targetKind env \<noteq> NamespaceKind)"
    using placed1 ops1 by (auto split: if_splits)
  obtain pv where pv: "se_versionStore env (version_key env qn) = Inr pv"
    using placed1 [unfolded if_not_P [OF free]] ops1 by (auto split: sum.splits)
  note run4 = placed1 [unfolded if_not_P [OF free] pv sum.case syncToClusters_def Let_def]
  obtain ops' where co: "clusterOperations (se_typeConfig env) (se_helper env) (se_target env) sel unsel t1 ov
      (qn_String (NewQualifiedName (meta_of t1))) (getClusterVersions t1 ov pv) = Inr ops'"
    using run4 ops1 by (auto split: sum.splits)
  obtain vs errs where upd: "de_update (se_deletion env) ops' = (vs, errs)" by fastforce
  obtain er pend vcalls where ver: "updatePropagatedVersion (se_versions env) (targetKind env) vs t1 ov pv sel pending
      = (er, pend, vcalls)" by (cases "updatePropagatedVersion (se_versions env) (targetKind env) vs t1 ov pv sel pending")
  have ne: "length ops' \<noteq> 0" using run4 ops1 co by auto
  have fin: "st = Some (if errs = [] then StatusAllOK else StatusError)" "pend = pending'"
    "calls1 = RunOperations ops' # map VersionCall vcalls"
    using run4 [unfolded co sum.case if_not_P [OF ne] upd ver prod.case] by auto
  have "ops' = ops" using ops1 fin(3) by auto
  show thesis
    by (rule that [OF sync go t live e [unfolded t1] ready pl ov free pv co [unfolded \<open>ops' = ops\<close>]
        upd [unfolded \<open>ops' = ops\<close>] ver [unfolded fin(2)] _ fin(1)])
      (simp add: calls fin(3) \<open>ops' = ops\<close>)
qed

lemma reconcile_quiet:
  assumes "isSynced env" and "\<not> (targetKind env = NamespaceKind \<and> isSystemNamespace (qn_Name qn))"
    and "se_templateStore env (qn_String qn) = Inr (Some t)" and "\<not> is_deleting (se_parses env) t"
    and "EnsureFinalizers (se_deletion env) t = (Inr t, [])"
    and "se_readyClusters env = Inr ready" and "ComputePlacement env (qn_String qn) ready = Inr (sel, unsel)"
    and "override_of env (qn_String qn) = Inr ov" and "se_versionStore env (version_key env qn) = Inr pv"
    and "\<not> sset_has pending (version_key env qn)"
    and "clusterOperations (se_typeConfig env) (se_helper env) (se_target env) sel unsel t ov
      (qn_String (NewQualifiedName (meta_of t))) (getClusterVersions t ov pv) = Inr []"
  shows "reconcile env pending qn = (Some StatusAllOK, pending, [])"
proof -
  define ns where "ns = (if targetKind env = NamespaceKind then qn_Name qn else qn_Namespace qn)"
  have key: "qn_String \<lparr>qn_Namespace = ns, qn_Name = versionName env (qn_Name qn)\<rparr> = version_key env qn"
    by (simp add: version_key_def ns_def)
  have go: "\<not> (targetKind env = NamespaceKind \<and> isSystemNamespace ns)" using assms(2) by (auto simp: ns_def)
  have "reconcile_placed env pending qn ns t = (Some StatusAllOK, pending, [])"
    using assms by (simp add: reconcile_placed_eq key syncToClusters_def Let_def)
  with assms go show ?thesis
    unfolding reconcile_def Let_def ns_def [symmetric] by simp
qed

text \<open>
  What the next run sees when every informer has caught up with the calls of a run: the template as
  it was stored, the version that was sent, the objects in the clusters, and no pending version.
  Everything else is as before.
\<close>

definition caught_up :: "sync_env \<Rightarrow> QualifiedName \<Rightarrow> jobj \<Rightarrow> sync_call list \<Rightarrow> sync_env \<Rightarrow> sset \<Rightarrow> bool" where
  "caught_up env qn stored calls env' pending \<longleftrightarrow>
     env' = env\<lparr>se_templateStore := se_templateStore env', se_target := se_target env', se_versionStore := se_versionStore env'\<rparr> \<and>
     se_templateStore env' (qn_String qn) = Inr (Some stored) \<and> \<not> sset_has pending (version_key env qn) \<and>
     (\<exists>pv'. se_versionStore env' (version_key env qn) = Inr pv' \<and>
        (\<forall>pv. se_versionStore env (version_key env qn) = Inr pv \<longrightarrow> map_option pv_Status pv' = stored_status pv calls))"

text \<open>
  C2. The sync controller converges: when a run of \<open>reconcile\<close> on a live template succeeds with
  operations on the clusters, the API servers store what they are sent and the informers catch up,
  the next run for the same override, placement and clusters succeeds without any call.
\<close>

theorem reconcile_converges:
  assumes run: "reconcile env pending qn = (Some StatusAllOK, pending1, calls)" and ops: "RunOperations ops \<in> set calls"
    and ready: "se_readyClusters env = Inr ready" "distinct ready"
    and template: "se_templateStore env (qn_String qn) = Inr (Some t)"
      "fst (EnsureFinalizers (se_deletion env) t) = Inr stored" "EnsureFinalizers (se_deletion env) stored = (Inr stored, [])"
      "\<not> is_deleting (se_parses env) stored" "NewQualifiedName (meta_of stored) = qn"
    and seen: "caught_up env qn stored calls env' pending2" and accepted: "versions_accepted (se_versions env)"
    and update: "received_ok upd ops received" "de_update (se_deletion env) ops = Update_ops ops received"
    and store: "\<And>ov. override_of env (qn_String qn) = Inr ov \<Longrightarrow>
      clusters_store (se_typeConfig env) (se_helper env) stored ov (qn_String qn) upd ops (se_target env) (se_target env')"
    and old: "\<And>v. se_versionStore env (version_key env qn) = Inr (Some v) \<Longrightarrow> cov_ok (pvs_ClusterVersions (pv_Status v))"
      "\<And>c cobj. se_target env c (qn_String qn) = Inr (Some cobj) \<Longrightarrow> GetVersion (se_helper env) cobj \<noteq> []"
  shows "reconcile env' pending2 qn = (Some StatusAllOK, pending2, [])"
proof -
  let ?key = "qn_String qn"
  obtain dcalls sel unsel ov pv vs errs e vcalls where sync: "isSynced env"
    and go: "\<not> (targetKind env = NamespaceKind \<and> isSystemNamespace (qn_Name qn))"
    and pl: "ComputePlacement env ?key ready = Inr (sel, unsel)" and ov: "override_of env ?key = Inr ov"
    and pv: "se_versionStore env (version_key env qn) = Inr pv"
    and co: "clusterOperations (se_typeConfig env) (se_helper env) (se_target env) sel unsel stored ov ?key
      (getClusterVersions stored ov pv) = Inr ops"
    and upd: "de_update (se_deletion env) ops = (vs, errs)"
    and ver: "updatePropagatedVersion (se_versions env) (targetKind env) vs stored ov pv sel pending = (e, pending1, vcalls)"
    and calls: "calls = map DeletionCall dcalls @ RunOperations ops # map VersionCall vcalls" and errs: "errs = []"
    by (rule reconcile_operations_split [OF run ops]) (use ready template in \<open>auto split: if_splits\<close>)
  obtain pv' where pv': "se_versionStore env' (version_key env qn) = Inr pv'" "map_option pv_Status pv' = stored_status pv calls"
    using seen pv by (auto simp: caught_up_def)
  then obtain v' where v': "pv' = Some v'" "pv_Status v' = recorded_status vs stored (targetKind env) ov pv sel"
    using stored_status_recorded [OF ver accepted] by (auto simp: calls)
  have quiet: "clusterOperations (se_typeConfig env) (se_helper env) (se_target env') sel unsel stored ov ?key
      (getClusterVersions stored ov (Some v')) = Inr []"
    by (rule sync_converges [OF co ComputePlacement_partition(3) [OF pl ready(2)] update(1) _ store [OF ov] _ old(2) v'(2)])
      (use update(2) upd errs old(1) pv in auto)
  obtain ts tg vst where env': "env' = env\<lparr>se_templateStore := ts, se_target := tg, se_versionStore := vst\<rparr>"
    using seen unfolding caught_up_def by blast
  have same: "isSynced env' = isSynced env" "targetKind env' = targetKind env" "version_key env' qn = version_key env qn"
    "ComputePlacement env' = ComputePlacement env" "override_of env' = override_of env"
    by (simp_all add: env' isSynced_def targetKind_def version_key_def versionName_def ComputePlacement_def override_of_def fun_eq_iff
        split: sum.split)
  have fields: "se_parses env' = se_parses env" "se_deletion env' = se_deletion env" "se_readyClusters env' = se_readyClusters env"
    "se_typeConfig env' = se_typeConfig env" "se_helper env' = se_helper env"
    by (simp_all add: env')
  have stored: "se_templateStore env' ?key = Inr (Some stored)" "\<not> sset_has pending2 (version_key env qn)"
    using seen by (simp_all add: caught_up_def)
  show ?thesis
    by (rule reconcile_quiet [where t = stored and ready = ready and sel = sel and unsel = unsel and ov = ov and pv = "Some v'"])
      (use sync go pl ov pv'(1) v'(1) quiet stored template ready in \<open>simp_all add: same fields\<close>)
qed

text \<open>The example of the sync controller, run twice.\<close>

definition demo_key :: QualifiedName where
  "demo_key = \<lparr>qn_Namespace = ''ns'', qn_Name = ''web''\<rparr>"

definition demo_recorded :: "PropagatedVersion option" where
  "demo_recorded =
     (case snd (snd (reconcile (demo_env demo_template) [] demo_key)) of
        [_, _, VersionCall (UpdateVersionStatus v)] \<Rightarrow> Some v | _ \<Rightarrow> None)"

definition demo_next :: sync_env where
  "demo_next = (demo_env demo_template)\<lparr>se_target := demo_after, se_versionStore := (\<lambda>k. Inr demo_recorded)\<rparr>"

lemma demo_first_run:
  "map_option pv_Status demo_recorded = stored_status None (snd (snd (reconcile (demo_env demo_template) [] demo_key)))
   \<and> fst (reconcile (demo_env demo_template) [] demo_key) = Some StatusAllOK
   \<and> map run_ops (snd (snd (reconcile (demo_env demo_template) [] demo_key))) = [Some (projr demo_sync_ops), None, None]"
  by code_simp

theorem reconcile_converges_witness:
  "reconcile demo_next [] demo_key = (Some StatusAllOK, [], [])"
proof -
  let ?env = "demo_env demo_template"
  obtain ops where ops: "demo_sync_ops = Inr ops" by (rule demo_sync_ops_Inr)
  obtain st pending calls where run: "reconcile ?env [] demo_key = (st, pending, calls)"
    by (cases "reconcile ?env [] demo_key")
  note first = demo_first_run [unfolded run fst_conv snd_conv ops sum.sel]
  have mem: "RunOperations ops \<in> set calls"
  proof -
    obtain c cs where "calls = c # cs" "run_ops c = Some ops" using first by (cases calls) auto
    then show ?thesis by (cases c) (auto simp: run_ops_def)
  qed
  have key: "qn_String demo_key = ''ns/web''" by code_simp
  have meta: "NewQualifiedName (meta_of demo_template) = demo_key" by code_simp
  have live: "\<not> is_deleting (se_parses ?env) demo_template" by code_simp
  have fin: "EnsureFinalizers (se_deletion ?env) demo_template = (Inr demo_template, [])" by code_simp
  have run1: "reconcile ?env [] demo_key = (Some StatusAllOK, pending, calls)" using run first by simp
  show ?thesis
  proof (rule reconcile_converges [OF run1 mem])
    show "se_readyClusters ?env = Inr [''c1'', ''c2'', ''c3'']" by (simp add: demo_env_def)
    show "caught_up ?env demo_key demo_template calls demo_next []"
      using first by (simp add: caught_up_def demo_next_def demo_env_def key sset_has_def)
    show "versions_accepted (se_versions ?env)" by (simp add: versions_accepted_def demo_env_def)
    show "received_ok demo_updater ops (map (op_result demo_updater) ops)" by (simp add: received_ok_def)
    show "clusters_store (se_typeConfig ?env) (se_helper ?env) demo_template ov (qn_String demo_key) demo_updater ops
        (se_target ?env) (se_target demo_next)" if "override_of ?env (qn_String demo_key) = Inr ov" for ov
      using that demo_clusters_store [OF ops] by (simp add: override_of_def demo_env_def demo_next_def key)
    show "GetVersion (se_helper ?env) cobj \<noteq> []" if "se_target ?env c (qn_String demo_key) = Inr (Some cobj)" for c cobj
      using that by (auto simp: demo_env_def demo_store_def demo_versions split: if_splits)
  qed (use meta live fin key in \<open>auto simp: demo_env_def demo_deletion_def\<close>)
qed

end
