(* ===== verification/Sync_Wiring.thy ===== *)
theory Sync_Wiring
  imports Sync_Runs Informer_Claims Controller_Start
begin

section \<open>The sync controller on its federated informer\<close>

text \<open>
  \<open>newFederationSyncController\<close> gives the controller its stores, a federated informer on the target
  kind, an updater and a deletion helper on that informer. \<open>sync_wire\<close> builds the environment of
  \<open>reconcile\<close> from these parts. Other goroutines change the informer during a run, so every
  method that a run calls sees a state of its own, a view; a run is coherent when the views are
  the same.
\<close>

subsection \<open>The parts\<close>

type_synonym 'cl target_informer = "(jobj, 'cl) federated_informer"

text \<open>
  The informer as seen by \<open>ClustersSynced\<close> and \<open>GetReadyClusters\<close> of \<open>isSynced\<close>, by \<open>ClustersSynced\<close> of
  its target store, by \<open>clusterNames\<close>, by \<open>GetByKey\<close> of a cluster, by the two methods that the deletion helper calls, and by
  \<open>GetClientForCluster\<close> in the goroutine of an operation.
\<close>

record 'cl informer_views =
  iv_sync :: "'cl target_informer"
  iv_targets :: "'cl target_informer"
  iv_names :: "'cl target_informer"
  iv_store :: "string \<Rightarrow> 'cl target_informer"
  iv_unready :: "'cl target_informer"
  iv_all :: "'cl target_informer"
  iv_client :: "string \<Rightarrow> 'cl target_informer"

definition coherent :: "'cl target_informer \<Rightarrow> 'cl informer_views" where
  "coherent f = \<lparr>iv_sync = f, iv_targets = f, iv_names = f, iv_store = (\<lambda>c. f), iv_unready = f, iv_all = f, iv_client = (\<lambda>c. f)\<rparr>"

text \<open>
  \<open>sp_create\<close>, \<open>sp_update\<close> and \<open>sp_delete\<close> are the requests to a member cluster through its client;
  \<open>sp_arrived\<close> is what the updater receives of the results before its timeout, in that order.
\<close>

record 'cl sync_parts =
  sp_typeConfig :: FederatedTypeConfig
  sp_helper :: ComparisonHelper
  sp_views :: "'cl informer_views"
  sp_placementSynced :: bool
  sp_templates :: "(string, jobj) gomap"
  sp_overrides :: "(string, jobj) gomap option"
  sp_placements :: "(string, jobj) gomap"
  sp_versionCache :: "(string, PropagatedVersion) gomap"
  sp_parses :: "string \<Rightarrow> bool"
  sp_factory :: "'cl client_factory"
  sp_create :: "'cl \<Rightarrow> jobj \<Rightarrow> jobj go_result"
  sp_update :: "'cl \<Rightarrow> jobj \<Rightarrow> jobj go_result"
  sp_delete :: "'cl \<Rightarrow> QualifiedName \<Rightarrow> unit go_result"
  sp_arrived :: "operationResult list \<Rightarrow> operationResult list"
  sp_updateTemplate :: "jobj \<Rightarrow> jobj go_result"
  sp_versionApi :: version_api
  sp_deleteVersion :: "string \<Rightarrow> string \<Rightarrow> go_error option"
  sp_deleteTemplate :: "string \<Rightarrow> string \<Rightarrow> go_error option"

subsection \<open>Reading the caches\<close>

definition rawObjFromCache :: "(string, 'o) gomap \<Rightarrow> string \<Rightarrow> 'o option go_result" where
  "rawObjFromCache store key =
     (case store_GetByKey store key of
        Inl err \<Rightarrow> Inl err
      | Inr None \<Rightarrow> Inr None
      | Inr (Some cachedObj) \<Rightarrow> Inr (Some cachedObj))"

definition objFromCache :: "(string, jobj) gomap \<Rightarrow> string \<Rightarrow> jobj option go_result" where
  "objFromCache store key =
     (case rawObjFromCache store key of
        Inl err \<Rightarrow> Inl err
      | Inr None \<Rightarrow> Inr None
      | Inr (Some obj) \<Rightarrow> Inr (Some obj))"

fun append_names :: "string list \<Rightarrow> FederatedCluster list \<Rightarrow> string list" where
  "append_names clusterNames [] = clusterNames"
| "append_names clusterNames (cluster # rest) = append_names (clusterNames @ [cluster_name cluster]) rest"

definition clusterNames :: "'cl target_informer \<Rightarrow> string list go_result" where
  "clusterNames f =
     (case GetReadyClusters f of Inl err \<Rightarrow> Inl err | Inr clusters \<Rightarrow> Inr (append_names [] clusters))"

subsection \<open>Wiring\<close>

definition wire_api :: "'cl sync_parts \<Rightarrow> cluster_api" where
  "wire_api p =
     (let client = (\<lambda>c. GetClientForCluster (sp_factory p) (iv_client (sp_views p) c) c)
      in \<lparr>ca_client = (\<lambda>c. rbind (client c) (\<lambda>_. Inr ())),
          ca_create = (\<lambda>c obj. rbind (client c) (\<lambda>cl. sp_create p cl obj)),
          ca_update = (\<lambda>c obj. rbind (client c) (\<lambda>cl. sp_update p cl obj)),
          ca_delete = (\<lambda>c name. rbind (client c) (\<lambda>cl. sp_delete p cl name))\<rparr>)"

definition wire_deletion :: "'cl sync_parts \<Rightarrow> deletion_env" where
  "wire_deletion p =
     (let v = sp_views p; updater = sync_updater (sp_helper p) (wire_api p)
      in \<lparr>de_updateObj = sp_updateTemplate p,
          de_unready = rbind (GetUnreadyClusters (iv_unready v)) (\<lambda>cs. Inr (map cluster_name cs)),
          de_getFromAll = (\<lambda>key. rbind (GetFromAllClusters (iv_all v) key)
             (\<lambda>objs. Inr (map (\<lambda>o'. (fo_ClusterName o', fo_Object o')) objs))),
          de_update = (\<lambda>ops. Update_ops ops (sp_arrived p (map (op_result updater) ops)))\<rparr>)"

definition sync_wire :: "'cl sync_parts \<Rightarrow> sync_env" where
  "sync_wire p =
     (let v = sp_views p
      in \<lparr>se_typeConfig = sp_typeConfig p, se_helper = sp_helper p,
          se_clustersSynced = fi_clustersSynced (iv_sync v), se_placementSynced = sp_placementSynced p,
          se_syncReady = clusterNames (iv_sync v), se_readyClusters = clusterNames (iv_names v),
          se_targetSynced = (\<lambda>_. case GetReadyClusters (iv_sync v) of
             Inl _ \<Rightarrow> False | Inr clusters \<Rightarrow> store_ClustersSynced (iv_targets v) clusters),
          se_templateStore = objFromCache (sp_templates p), se_overrideStore = map_option objFromCache (sp_overrides p),
          se_placementStore = store_GetByKey (sp_placements p), se_versionStore = rawObjFromCache (sp_versionCache p),
          se_target = (\<lambda>c. GetByKey (iv_store v c) c), se_parses = sp_parses p, se_deletion = wire_deletion p,
          se_versions = sp_versionApi p, se_deleteVersion = sp_deleteVersion p, se_deleteTemplate = sp_deleteTemplate p\<rparr>)"

subsection \<open>What a synced run sees\<close>

lemma append_names [simp]: "append_names ns cs = ns @ map cluster_name cs"
  by (induction cs arbitrary: ns) simp_all

lemma cache_reads [simp]: "rawObjFromCache store key = Inr (mget store key)" "objFromCache objs key = Inr (mget objs key)"
  by (simp_all add: rawObjFromCache_def objFromCache_def store_GetByKey_def split: option.split)

lemma clusterNames_Inr: "clusterNames f = Inr names \<longleftrightarrow> (\<exists>cs. GetReadyClusters f = Inr cs \<and> names = map cluster_name cs)"
  by (auto simp: clusterNames_def split: sum.split)


text \<open>A reconciliation that calls anything has passed \<open>isSynced\<close>: every ready cluster has a synced target informer.\<close>

lemma wire_isSynced:
  assumes "isSynced (sync_wire p)" and "informer_run (iv_sync (sp_views p))"
    and "iv_targets (sp_views p) = iv_sync (sp_views p)"
  obtains cs where "GetReadyClusters (iv_sync (sp_views p)) = Inr cs"
    and "\<And>c. c \<in> set cs \<Longrightarrow> \<exists>i. mget (fi_targets (iv_sync (sp_views p))) (cluster_name c) = Some i \<and> inf_synced i"
    and "store_ClustersSynced (iv_sync (sp_views p)) cs"
proof -
  obtain cs where cs: "GetReadyClusters (iv_sync (sp_views p)) = Inr cs" "store_ClustersSynced (iv_sync (sp_views p)) cs"
    using assms(1,3) by (cases "GetReadyClusters (iv_sync (sp_views p))")
      (auto simp: isSynced_def sync_wire_def Let_def clusterNames_def split: if_splits)
  note synced = conjunct1 [OF store_ClustersSynced_spec [OF assms(2) cs(1)], THEN iffD1, OF cs(2)]
  show thesis by (rule that [OF cs(1) bspec [OF synced] cs(2)])
qed

lemma no_unready:
  assumes "GetUnreadyClusters f = Inr []" and "mget (fi_clusters f) key = Some item"
  shows "\<exists>c. item = ClusterItem c \<and> isClusterReady c"
proof -
  let ?get = "\<lambda>i. case i of ClusterItem c \<Rightarrow> c"
  note l = clusters_loop_Inr [OF assms(1) [unfolded GetUnreadyClusters_def]]
  have mem: "item \<in> set (map snd (fi_clusters f))" using map_of_SomeD [OF assms(2)] by force
  have "map (ClusterItem \<circ> ?get) (map snd (fi_clusters f)) = map id (map snd (fi_clusters f))"
    using conjunct1 [OF l] by (simp only: list.map_comp [symmetric] list.map_id)
  then have "item = ClusterItem (?get item)" using mem unfolding map_eq_conv by fastforce
  moreover have "filter (\<lambda>c. \<not> isClusterReady c) (map ?get (map snd (fi_clusters f))) = []"
    using conjunct2 [OF l] by simp
  then have "isClusterReady (?get item)" using mem by (auto simp: filter_empty_conv)
  ultimately show ?thesis by blast
qed


lemma all_from_clusters:
  assumes "informer_run f" and "GetFromAllClusters f key = Inr []" and "mget (fi_targets f) name = Some i"
  shows "mget (inf_store i) key = None"
proof (rule ccontr)
  assume "mget (inf_store i) key \<noteq> None"
  then obtain obj where obj: "mget (inf_store i) key = Some obj" by blast
  have mem: "(name, i) \<in> set (fi_targets f)" using map_of_SomeD [OF assms(3)] .
  obtain objs where "all_clusters_loop key (fi_targets f) = Inr objs"
    "set objs = {\<lparr>fo_ClusterName = name, fo_Object = obj\<rparr> | name obj i. (name, i) \<in> set (fi_targets f) \<and> mget (inf_store i) key = Some obj}"
    using all_clusters_loop_spec [of key "fi_targets f"] by blast
  with assms(2) mem obj show False unfolding GetFromAllClusters_def by auto
qed

subsection \<open>Deletion\<close>

lemma sync_delete_template:
  assumes "sync_delete env t kind qn = (err, calls)" and "DeleteTemplate ns name \<in> set calls"
  obtains o1 dcalls where "kind \<noteq> NamespaceKind" and "HandleObjectInUnderlyingClusters (se_deletion env) t kind = (Inr o1, dcalls)"
  using assms by (auto simp: sync_delete_def Let_def split: prod.splits sum.splits if_splits)

text \<open>
  C10. On its federated informer, in every state that the informer can reach, a run of \<open>reconcile\<close>
  during which the informer does not change deletes a template that asked for its copies to be
  deleted only when every cluster of the federation is ready, has a target informer, that informer has
  synced, and its store holds no copy.
\<close>

theorem wired_deletion_complete:
  assumes "informer_run f" and views: "sp_views p = coherent f"
    and run: "reconcile (sync_wire p) pend qn = (st, pend', calls)" and del: "DeleteTemplate ns name \<in> set calls"
    and t: "mget (sp_templates p) (qn_String qn) = Some t"
    and fin: "HasFinalizer t FinalizerDeleteFromUnderlyingClusters" "\<not> HasFinalizer t FinalizerOrphanDependents"
    and known: "mget (fi_clusters f) key = Some item"
  shows "\<exists>c i. item = ClusterItem c \<and> isClusterReady c \<and> mget (fi_targets f) (cluster_name c) = Some i \<and>
    inf_synced i \<and> mget (inf_store i) (objName t) = None"
proof -
  have env: "se_templateStore (sync_wire p) (qn_String qn) = Inr (Some t)"
    "se_deletion (sync_wire p) = wire_deletion p"
    using t by (simp_all add: sync_wire_def Let_def)
  have v: "iv_sync (sp_views p) = f" "iv_targets (sp_views p) = f" "iv_unready (sp_views p) = f" "iv_all (sp_views p) = f"
    by (simp_all add: views coherent_def)
  have "calls \<noteq> []" using del by auto
  then obtain err where sync: "isSynced (sync_wire p)"
    and sd: "sync_delete (sync_wire p) t (mr_Kind (GetTemplate (sp_typeConfig p))) qn = (err, calls)"
    by (rule reconcile_calls [OF run]) (use env del reconcile_placed_no_delete in \<open>auto simp: sync_wire_def Let_def\<close>)
  obtain o1 dcalls where kind: "mr_Kind (GetTemplate (sp_typeConfig p)) \<noteq> NamespaceKind"
    and h: "HandleObjectInUnderlyingClusters (wire_deletion p) t (mr_Kind (GetTemplate (sp_typeConfig p))) = (Inr o1, dcalls)"
    by (rule sync_delete_template [OF sd del, unfolded env(2)])
  from handle_success [OF h refl fin] kind obtain copies where unr: "de_unready (wire_deletion p) = Inr []"
    and all: "de_getFromAll (wire_deletion p) (objName t) = Inr copies" and "\<forall>(c, o') \<in> set copies. False"
    by auto
  then have clean: "de_getFromAll (wire_deletion p) (objName t) = Inr []" by (cases copies) auto
  have unready: "GetUnreadyClusters f = Inr []" and none: "GetFromAllClusters f (objName t) = Inr []"
    using unr clean v(3,4) by (auto simp: wire_deletion_def Let_def rbind_Inr_iff)
  obtain c where c: "item = ClusterItem c" "isClusterReady c" using no_unready [OF unready known] by blast
  obtain cs where cs: "GetReadyClusters f = Inr cs"
    "\<And>c. c \<in> set cs \<Longrightarrow> \<exists>i. mget (fi_targets f) (cluster_name c) = Some i \<and> inf_synced i"
    using wire_isSynced [OF sync] assms(1) v by metis
  have "c \<in> set cs"
    using ready_names(1) [OF _ cs(1)] informer_run_ok [OF assms(1)] c known by (auto simp: informer_ok_def clusters_ok_def)
  from cs(2) [OF this] all_from_clusters [OF assms(1) none] c show ?thesis by blast
qed


text \<open>Cluster \<open>c1\<close> is ready and its informer has synced with some objects; then it turns unready.\<close>

definition demo_started :: "nat target_informer" where
  "demo_started = (demo_delta (Start NewFederatedInformer) (demo_changed ''c1'' True))\<lparr>fi_clustersSynced := True\<rparr>"

definition demo_watching :: "(string, jobj) gomap \<Rightarrow> nat target_informer" where
  "demo_watching objs = demo_started\<lparr>fi_targets := mput ''c1''
     ((the (mget (fi_targets demo_started) ''c1''))\<lparr>inf_store := objs, inf_synced := True\<rparr>) (fi_targets demo_started)\<rparr>"

definition demo_turned :: "(string, jobj) gomap \<Rightarrow> nat target_informer" where
  "demo_turned objs = demo_delta (demo_watching objs) (demo_changed ''c1'' False)"

lemma demo_watching_run: "informer_run (demo_watching objs)"
proof -
  have "informer_run demo_started"
    unfolding demo_started_def by (intro informer_run.clusters demo_delta_run informer_run.started) simp
  moreover have "map_option (\<lambda>i. ()) (mget (fi_targets demo_started) ''c1'') = Some ()" by code_simp
  ultimately show ?thesis unfolding demo_watching_def using informer_run.target by fastforce
qed

lemma demo_turned_run: "informer_run (demo_turned objs)"
  unfolding demo_turned_def by (rule demo_delta_run [OF demo_watching_run]) simp

definition demo_parts :: "nat informer_views \<Rightarrow> nat sync_parts" where
  "demo_parts views =
     \<lparr>sp_typeConfig = demo_type ''Deployment'', sp_helper = ResourceHelper, sp_views = views, sp_placementSynced = True,
      sp_templates = [(''ns/web'', demo_deleted)], sp_overrides = None, sp_placements = [], sp_versionCache = [],
      sp_parses = (\<lambda>s. True), sp_factory = demo_factory, sp_create = (\<lambda>cl obj. Inr obj), sp_update = (\<lambda>cl obj. Inr obj),
      sp_delete = (\<lambda>cl name. Inr ()), sp_arrived = (\<lambda>rs. rs), sp_updateTemplate = (\<lambda>obj. Inr obj),
      sp_versionApi = \<lparr>va_create = (\<lambda>v. Inr v), va_updateStatus = (\<lambda>v. Inr ())\<rparr>,
      sp_deleteVersion = (\<lambda>ns n. None), sp_deleteTemplate = (\<lambda>ns n. None)\<rparr>"

definition demo_web :: QualifiedName where
  "demo_web = \<lparr>qn_Namespace = ''ns'', qn_Name = ''web''\<rparr>"

text \<open>The call that deletes the template, if a run makes it, is the last one.\<close>

definition deletes_template :: "sync_call list \<Rightarrow> bool" where
  "deletes_template calls \<longleftrightarrow> list_ex (\<lambda>c. case c of DeleteTemplate ns name \<Rightarrow> ns = ''ns'' \<and> name = ''web'' | _ \<Rightarrow> False) calls"

lemma deletes_template_iff: "deletes_template calls \<longleftrightarrow> DeleteTemplate ''ns'' ''web'' \<in> set calls"
proof -
  have "(case c of DeleteTemplate ns name \<Rightarrow> ns = ''ns'' \<and> name = ''web'' | _ \<Rightarrow> False) \<longleftrightarrow> c = DeleteTemplate ''ns'' ''web''" for c
    by (cases c) simp_all
  then show ?thesis by (simp add: deletes_template_def list_ex_iff)
qed

theorem wired_deletion_complete_witness:
  "\<exists>c i. isClusterReady c \<and> mget (fi_targets (demo_watching [])) (cluster_name c) = Some i \<and> inf_synced i \<and>
     mget (inf_store i) ''ns/web'' = None"
proof -
  let ?p = "demo_parts (coherent (demo_watching []))"
  obtain st pend' calls where run: "reconcile (sync_wire ?p) [] demo_web = (st, pend', calls)"
    by (cases "reconcile (sync_wire ?p) [] demo_web") auto
  have "deletes_template (snd (snd (reconcile (sync_wire ?p) [] demo_web)))" by code_simp
  then have del: "DeleteTemplate ''ns'' ''web'' \<in> set calls" by (simp add: run deletes_template_iff)
  have v: "sp_views ?p = coherent (demo_watching [])" and t: "mget (sp_templates ?p) (qn_String demo_web) = Some demo_deleted"
    by (simp_all add: demo_parts_def demo_web_def qn_String_def)
  have fin: "HasFinalizer demo_deleted FinalizerDeleteFromUnderlyingClusters"
    "\<not> HasFinalizer demo_deleted FinalizerOrphanDependents" "objName demo_deleted = ''ns/web''"
    by code_simp+
  have "map_option (\<lambda>i. ()) (mget (fi_clusters (demo_watching [])) (cluster_key ''c1'')) = Some ()" by code_simp
  then obtain item where "mget (fi_clusters (demo_watching [])) (cluster_key ''c1'') = Some item" by auto
  from wired_deletion_complete [OF demo_watching_run v run del t fin(1,2) this] fin(3) show ?thesis by metis
qed

text \<open>
  Without coherence it fails: when a cluster turns unready after the deletion helper has asked for the
  unready clusters and before it has collected the copies, the copy of that cluster is in neither, and the template
  is deleted while the copy remains.
\<close>

lemma deletion_race:
  fixes obj :: jobj
  defines "f \<equiv> demo_watching [(''ns/web'', obj)]" and "f' \<equiv> demo_turned [(''ns/web'', obj)]"
  shows "informer_run f \<and> informer_run f' \<and> GetByKey f ''c1'' ''ns/web'' = Inr (Some obj) \<and>
    DeleteTemplate ''ns'' ''web'' \<in> set (snd (snd (reconcile (sync_wire (demo_parts ((coherent f)\<lparr>iv_all := f'\<rparr>))) [] demo_web)))"
proof -
  have "GetByKey f ''c1'' ''ns/web'' = Inr (Some obj)" unfolding f_def by code_simp
  moreover have "deletes_template (snd (snd (reconcile (sync_wire (demo_parts ((coherent f)\<lparr>iv_all := f'\<rparr>))) [] demo_web)))"
    unfolding f_def f'_def by code_simp
  ultimately show ?thesis
    using demo_watching_run demo_turned_run unfolding deletes_template_iff f_def f'_def by blast
qed


subsection \<open>Pending version updates\<close>

text \<open>
  Only an update event of the version clears the pending update of a key. When the watch misses it and the
  informer lists again, the version arrives as added or goes as deleted: the key stays pending, and no
  later run touches the clusters.
\<close>

definition pending_after :: "(jobj \<Rightarrow> jobj \<Rightarrow> bool) \<Rightarrow> sync_delays \<Rightarrow> PropagatedVersion event list \<Rightarrow> sset \<Rightarrow> sset" where
  "pending_after deep_eq d events pend = fold (\<lambda>e pend. snd (on_sync_event deep_eq d (VersionEvent e) pend)) events pend"

lemma pending_kept:
  assumes "sset_has pend key" and "\<And>old cur. Updated old cur \<in> set events \<Longrightarrow> qn_String (NewQualifiedName (pv_Meta cur)) \<noteq> key"
  shows "sset_has (pending_after deep_eq d events pend) key"
  using assms
proof (induction events arbitrary: pend)
  case (Cons e events)
  have "sset_has (snd (on_sync_event deep_eq d (VersionEvent e) pend)) key"
    using Cons.prems by (cases e) (auto simp: on_version_update_def Let_def sset_has_def sset_delete_def)
  from Cons.IH [OF this] Cons.prems(2) show ?case by (fastforce simp: pending_after_def)
qed (simp add: pending_after_def)

lemma pending_blocks:
  assumes "sset_has pend (version_key env qn)" and "targetKind env \<noteq> NamespaceKind"
    and events: "\<And>old cur. Updated old cur \<in> set events \<Longrightarrow> qn_String (NewQualifiedName (pv_Meta cur)) \<noteq> version_key env qn"
    and run: "reconcile env (pending_after deep_eq d events pend) qn = (st, pend', calls)"
  shows "RunOperations ops \<notin> set calls"
proof
  assume ops: "RunOperations ops \<in> set calls"
  have "sset_has (pending_after deep_eq d events pend) (version_key env qn)"
    by (rule pending_kept [OF assms(1)]) (rule events)
  with assms(2) have "sset_has (pending_after deep_eq d events pend) (version_key env qn) \<and> targetKind env \<noteq> NamespaceKind" by simp
  then show False by - (rule reconcile_operations_split [OF run ops], erule notE)
qed

end
