(* ===== verification/Sync_Blocked.thy ===== *)
theory Sync_Blocked
  imports Sync_Wiring Cluster_Claims
begin

section \<open>A cluster without a client\<close>

text \<open>
  What one failure to create the client of a ready cluster does to a sync controller: the informer
  registers no target for the cluster and does not try again, and \<open>ClustersSynced\<close>, which \<open>isSynced\<close>
  asks first, demands a target for every ready cluster.
\<close>

definition unwatched :: "string \<Rightarrow> ('o, 'cl) federated_informer \<Rightarrow> bool" where
  "unwatched name f \<longleftrightarrow> mget (fi_targets f) name = None \<and>
     (\<exists>c. mget (fi_clusters f) (cluster_key name) = Some (ClusterItem c) \<and> isClusterReady c)"

fun delta_key :: "cluster_delta \<Rightarrow> string" where
  "delta_key (Changed key _) = key"
| "delta_key (Gone key _) = key"

text \<open>
  Runs of the informer during which one cluster keeps its readiness, its spec and its annotations:
  anything happens to other clusters and to the target stores, and the status of the cluster is written again.
\<close>

inductive quiet_run :: "string \<Rightarrow> ('o, 'cl) federated_informer \<Rightarrow> ('o, 'cl) federated_informer \<Rightarrow> bool"
  for name :: string and f :: "('o, 'cl) federated_informer" where
  now: "quiet_run name f f"
| other: "quiet_run name f f1 \<Longrightarrow> delta_ok d \<Longrightarrow> delta_key d \<noteq> cluster_key name \<Longrightarrow>
    process_delta lh factory d f1 = Inr (f2, calls) \<Longrightarrow> quiet_run name f f2"
| status: "quiet_run name f f1 \<Longrightarrow> mget (fi_clusters f1) (cluster_key name) = Some (ClusterItem c) \<Longrightarrow>
    cluster_name c' = name \<Longrightarrow> \<not> cluster_changed c c' \<Longrightarrow>
    process_delta lh factory (Changed (cluster_key name) (ClusterItem c')) f1 = Inr (f2, calls) \<Longrightarrow> quiet_run name f f2"
| clusters: "quiet_run name f f1 \<Longrightarrow> quiet_run name f (f1\<lparr>fi_clustersSynced := True\<rparr>)"
| target: "quiet_run name f f1 \<Longrightarrow> mget (fi_targets f1) n = Some i \<Longrightarrow>
    quiet_run name f (f1\<lparr>fi_targets := mput n (i\<lparr>inf_store := store, inf_synced := synced\<rparr>) (fi_targets f1)\<rparr>)"

subsection \<open>Nothing makes up for the failure\<close>

lemma close_chan_same:
  "close_chan ch f = Inr f' \<Longrightarrow> fi_targets f' = fi_targets f \<and> fi_clusters f' = fi_clusters f"
  by (auto simp: close_chan_def split: option.splits if_splits)

lemma deleteCluster_others:
  assumes "deleteCluster c f = Inr f'" and "name \<noteq> cluster_name c"
  shows "mget (fi_targets f') name = mget (fi_targets f) name \<and> fi_clusters f' = fi_clusters f"
  using assms by (auto simp: deleteCluster_def Let_def rbind_Inr_iff split: option.splits dest!: close_chan_same)

lemma addCluster_others:
  "name \<noteq> cluster_name c \<Longrightarrow> mget (fi_targets (addCluster factory c f)) name = mget (fi_targets f) name"
  "fi_clusters (addCluster factory c f) = fi_clusters f"
  by (simp_all add: addCluster_def Let_def split: sum.split)

lemma process_delta_others:
  assumes run: "process_delta lh factory d f = Inr (f', calls)" and d: "delta_ok d" "delta_key d \<noteq> cluster_key name"
    and ok: "clusters_ok f"
  shows "mget (fi_targets f') name = mget (fi_targets f) name \<and>
    mget (fi_clusters f') (cluster_key name) = mget (fi_clusters f) (cluster_key name)"
proof (cases d)
  case (Gone key item)
  with d obtain c where c: "item = ClusterItem c" "key = cluster_key (cluster_name c)" by (cases item) auto
  with d(2) Gone have "name \<noteq> cluster_name c" by auto
  with run deleteCluster_others show ?thesis
    by (fastforce simp: Gone c make_unavailable_def Let_def rbind_Inr_iff cluster_key_inj)
next
  case (Changed key item)
  with d obtain c where c: "item = ClusterItem c" "key = cluster_key (cluster_name c)" by (cases item) auto
  with d(2) Changed have ne: "name \<noteq> cluster_name c" by auto
  show ?thesis
  proof (cases "mget (fi_clusters f) key")
    case None
    with run ne show ?thesis
      by (auto simp: Changed c Let_def make_available_def addCluster_others cluster_key_inj split: if_splits)
  next
    case (Some old)
    then obtain o' where o': "old = ClusterItem o'" "cluster_name o' = cluster_name c"
      using ok unfolding clusters_ok_def c(2) by (metis cluster_key_inj)
    show ?thesis
    proof (cases "cluster_changed o' c")
      case False
      with run Some o' ne show ?thesis by (auto simp: Changed c Let_def cluster_key_inj)
    next
      case True
      with run Some obtain f1 calls1 where un: "make_unavailable lh o' (f\<lparr>fi_clusters := mput key item (fi_clusters f)\<rparr>) = Inr (f1, calls1)"
        and f': "f' = f1 \<or> f' = addCluster factory c f1"
        by (auto simp: Changed c o' Let_def rbind_Inr_iff make_available_def split: if_splits)
      from un have "mget (fi_targets f1) name = mget (fi_targets f) name \<and> fi_clusters f1 = mput key item (fi_clusters f)"
        using deleteCluster_others [of o' _ f1 name] ne o'(2)
        by (auto simp: make_unavailable_def Let_def rbind_Inr_iff)
      with f' ne show ?thesis by (auto simp: addCluster_others c cluster_key_inj)
    qed
  qed
qed

lemma quiet_run_unwatched:
  assumes "quiet_run name f f'" and "informer_run f" "unwatched name f"
  shows "informer_run f' \<and> unwatched name f'"
  using assms
proof (induction rule: quiet_run.induct)
  case (other f1 d lh factory f2 calls)
  then have run: "informer_run f1" and un: "unwatched name f1" by simp_all
  have "clusters_ok f1" using informer_run_ok [OF run] by (simp add: informer_ok_def)
  from process_delta_others [OF other(4,2,3) this] un informer_run.delta [OF run other(2,4)]
  show ?case by (simp add: unwatched_def)
next
  case (status f1 c c' lh factory f2 calls)
  then have run: "informer_run f1" and un: "unwatched name f1" by simp_all
  have "delta_ok (Changed (cluster_key name) (ClusterItem c'))" using status(3) by simp
  from informer_run.delta [OF run this status(5)] have "informer_run f2" .
  moreover have "f2 = f1\<lparr>fi_clusters := mput (cluster_key name) (ClusterItem c') (fi_clusters f1)\<rparr>"
    using status(2,4,5) by (simp add: Let_def)
  moreover have "isClusterReady c'" using un status(2,4) by (auto simp: unwatched_def cluster_changed_def)
  ultimately show ?case using un by (simp add: unwatched_def)
next
  case (clusters f1)
  then show ?case by (auto simp: unwatched_def intro: informer_run.clusters)
next
  case (target f1 n i store synced)
  then show ?case using informer_run.target [of f1 n i store synced] by (auto simp: unwatched_def)
qed simp


text \<open>The failure: the cluster turns up ready, or changes, and its client is not created.\<close>

lemma failed_client_unwatched:
  assumes run: "informer_run f" and ready: "isClusterReady c" and "factory c = Inl e"
    and change: "case mget (fi_clusters f) (cluster_key (cluster_name c)) of
      None \<Rightarrow> True | Some (ClusterItem old) \<Rightarrow> cluster_changed old c | Some OtherItem \<Rightarrow> False"
    and delta: "process_delta lh factory (Changed (cluster_key (cluster_name c)) (ClusterItem c)) f = Inr (f1, calls)"
  shows "unwatched (cluster_name c) f1"
proof -
  let ?key = "cluster_key (cluster_name c)"
  have fails: "addCluster factory c g = g" if "fi_clusters g = mput ?key (ClusterItem c) (fi_clusters f)" for g :: "('a, 'b) federated_informer"
    using that ready assms(3) by (simp add: addCluster_def GetClientForCluster_def GetReadyCluster_def store_GetByKey_def)
  have ok: "clusters_ok f" "targets_match f" "chans_ok f"
    using informer_run_ok [OF run] by (simp_all add: informer_ok_def)
  show ?thesis
  proof (cases "mget (fi_clusters f) ?key")
    case None
    then have "mget (fi_targets f) (cluster_name c) = None"
      using ok(2) unfolding targets_match_def by (metis option.distinct(1) not_Some_eq)
    with delta None ready show ?thesis
      by (auto simp: Let_def make_available_def fails unwatched_def)
  next
    case (Some item)
    then obtain old where old: "item = ClusterItem old" "cluster_name old = cluster_name c"
      using ok(1) unfolding clusters_ok_def by (metis cluster_key_inj)
    with Some change have "cluster_changed old c" by simp
    moreover obtain f2 where f2: "deleteCluster old (f\<lparr>fi_clusters := mput ?key (ClusterItem c) (fi_clusters f)\<rparr>) = Inr f2"
      "fi_clusters f2 = mput ?key (ClusterItem c) (fi_clusters f)" "fi_targets f2 = mdel (cluster_name c) (fi_targets f)"
      using deleteCluster_ok [of "f\<lparr>fi_clusters := mput ?key (ClusterItem c) (fi_clusters f)\<rparr>" old] ok(3) old(2) by auto
    ultimately have "f1 = f2"
      using delta Some old ready by (simp add: Let_def make_unavailable_def make_available_def fails [OF f2(2)])
    with f2 ready show ?thesis by (simp add: unwatched_def)
  qed
qed

lemma unwatched_not_synced:
  assumes "clusters_ok f" and "unwatched name f" "unwatched name g" and "GetReadyClusters f = Inr cs"
  shows "\<not> store_ClustersSynced g cs"
proof -
  obtain c where c: "mget (fi_clusters f) (cluster_key name) = Some (ClusterItem c)" "isClusterReady c"
    using assms(2) by (auto simp: unwatched_def)
  then have name: "cluster_name c = name" using assms(1) unfolding clusters_ok_def by (metis cluster_key_inj store_item.inject)
  then have "c \<in> set cs" using ready_names(1) [OF assms(1,4)] c by simp
  moreover have "mget (fi_targets g) (cluster_name c) = None" using assms(3) name by (simp add: unwatched_def)
  ultimately have "informers_to_check g cs = None" by (induction cs) (auto split: option.split)
  then show ?thesis by (simp add: store_ClustersSynced_def)
qed

subsection \<open>The property\<close>

text \<open>
  C11. One ready cluster whose client could not be created blocks the whole type: from then on, as long as
  that cluster keeps its readiness, its spec and its annotations, and whatever else happens to the informer,
  every \<open>reconcile\<close> of every key returns \<open>StatusNotSynced\<close> and calls nothing. The cluster controller does
  not help: a probe that finds the cluster healthy writes a status that changes none of the three.
\<close>

theorem failed_client_blocks_sync:
  assumes "informer_run f" and "isClusterReady c" and "factory c = Inl e"
    and "case mget (fi_clusters f) (cluster_key (cluster_name c)) of
      None \<Rightarrow> True | Some (ClusterItem old) \<Rightarrow> cluster_changed old c | Some OtherItem \<Rightarrow> False"
    and "process_delta lh factory (Changed (cluster_key (cluster_name c)) (ClusterItem c)) f = Inr (f1, calls)"
    and "quiet_run (cluster_name c) f1 (iv_sync (sp_views p))"
    and "quiet_run (cluster_name c) (iv_sync (sp_views p)) (iv_targets (sp_views p))"
  shows "reconcile (sync_wire p) pend qn = (Some StatusNotSynced, pend, []) \<and>
    (\<forall>c1 now r nodes old. isClusterReady c1 \<longrightarrow> health_of r = Healthy \<longrightarrow>
       \<not> cluster_changed c1 (c1\<lparr>fc_Status := probe_status now r nodes c1 old\<rparr>))"
proof -
  let ?g = "iv_sync (sp_views p)"
  have "delta_ok (Changed (cluster_key (cluster_name c)) (ClusterItem c))" by simp
  from informer_run.delta [OF assms(1) this assms(5)] have "informer_run f1" .
  from quiet_run_unwatched [OF assms(6) this failed_client_unwatched [OF assms(1-5)]]
  have g: "informer_run ?g" "unwatched (cluster_name c) ?g" by simp_all
  have t: "unwatched (cluster_name c) (iv_targets (sp_views p))"
    using quiet_run_unwatched [OF assms(7) g] by simp
  have "clusters_ok ?g" using informer_run_ok [OF g(1)] by (simp add: informer_ok_def)
  then have "\<not> isSynced (sync_wire p)"
    using unwatched_not_synced [OF _ g(2) t]
    by (auto simp: isSynced_def sync_wire_def Let_def clusterNames_def split: sum.splits)
  then have "reconcile (sync_wire p) pend qn = (Some StatusNotSynced, pend, [])" by (simp add: reconcile_def)
  moreover have "\<not> cluster_changed c1 (c1\<lparr>fc_Status := probe_status now r nodes c1 old\<rparr>)"
    if "isClusterReady c1" "health_of r = Healthy" for c1 now r nodes old
    using probe_status_ready [of "c1\<lparr>fc_Status := probe_status now r nodes c1 old\<rparr>" now r nodes c1 old] that
    by (simp add: cluster_changed_def gomap_eq_iff)
  ultimately show ?thesis by blast
qed


text \<open>The client of \<open>c1\<close> fails; then \<open>c2\<close> joins, gets its informer, and all there is has synced.\<close>

definition demo_flaky :: "nat client_factory" where
  "demo_flaky c = (if cluster_name c = ''c1'' then Inl (ErrOther ''timeout'') else Inr 7)"

definition flaky_delta :: "cluster_delta \<Rightarrow> nat target_informer \<Rightarrow> nat target_informer" where
  "flaky_delta d f = (case process_delta demo_lh demo_flaky d f of Inl _ \<Rightarrow> f | Inr (f', _) \<Rightarrow> f')"

definition demo_first :: "nat target_informer" where
  "demo_first = flaky_delta (demo_changed ''c1'' True) (Start NewFederatedInformer)"

definition demo_second :: "nat target_informer" where
  "demo_second = flaky_delta (demo_changed ''c2'' True) demo_first"

lemma flaky_delta_eq:
  assumes "informer_run f" and "delta_ok d"
  shows "\<exists>calls. process_delta lh demo_flaky d f = Inr (case process_delta lh demo_flaky d f of Inl _ \<Rightarrow> f | Inr (f', _) \<Rightarrow> f', calls)"
  using process_delta_ok [OF informer_run_ok [OF assms(1)] assms(2), of lh demo_flaky] by auto

theorem failed_client_blocks_sync_witness:
  "fi_targets demo_second = [(''c2'', snd (hd (fi_targets demo_second)))] \<and>
   reconcile (sync_wire (demo_parts (coherent (demo_second\<lparr>fi_clustersSynced := True\<rparr>)))) [] demo_web = (Some StatusNotSynced, [], [])"
proof -
  let ?c = "demo_cluster ''c1'' True" and ?g = "demo_second\<lparr>fi_clustersSynced := True\<rparr>"
  have start: "informer_run (Start NewFederatedInformer :: nat target_informer)" by (rule informer_run.started)
  have name: "cluster_name ?c = ''c1''" by simp
  obtain calls where first: "process_delta demo_lh demo_flaky (demo_changed ''c1'' True) (Start NewFederatedInformer) = Inr (demo_first, calls)"
    using flaky_delta_eq [OF start, of "demo_changed ''c1'' True" demo_lh] by (auto simp: demo_first_def flaky_delta_def)
  have run1: "informer_run demo_first" by (rule informer_run.delta [OF start _ first]) simp
  obtain calls2 where second: "process_delta demo_lh demo_flaky (demo_changed ''c2'' True) demo_first = Inr (demo_second, calls2)"
    using flaky_delta_eq [OF run1, of "demo_changed ''c2'' True" demo_lh] by (auto simp: demo_second_def flaky_delta_def)
  have "quiet_run ''c1'' demo_first demo_second"
    by (rule quiet_run.other [OF quiet_run.now _ _ second]) (simp_all add: cluster_key_def)
  then have quiet: "quiet_run ''c1'' demo_first ?g" by (rule quiet_run.clusters)
  have ready: "isClusterReady ?c" "demo_flaky ?c = Inl (ErrOther ''timeout'')" by code_simp+
  have fresh: "case mget (fi_clusters (Start NewFederatedInformer :: nat target_informer)) (cluster_key (cluster_name ?c)) of
      None \<Rightarrow> True | Some (ClusterItem old) \<Rightarrow> cluster_changed old ?c | Some OtherItem \<Rightarrow> False"
    by (simp add: Start_def NewFederatedInformer_def)
  have views: "iv_sync (sp_views (demo_parts (coherent ?g))) = ?g" "iv_targets (sp_views (demo_parts (coherent ?g))) = ?g"
    by (simp_all add: demo_parts_def coherent_def)
  have "reconcile (sync_wire (demo_parts (coherent ?g))) [] demo_web = (Some StatusNotSynced, [], [])"
    by (rule conjunct1 [OF failed_client_blocks_sync [where c = "?c" and factory = demo_flaky and p = "demo_parts (coherent ?g)",
        OF start ready fresh, unfolded name, OF first]])
      (simp_all only: views quiet quiet_run.now)
  moreover have "map fst (fi_targets demo_second) = [''c2'']" by code_simp
  ultimately show ?thesis by (cases "fi_targets demo_second") auto
qed

end
