(* ===== verification/Schedule_Propagation.thy ===== *)
theory Schedule_Propagation
  imports Scheduler_Claims Sync_Runs
begin

section \<open>From the scheduler to the sync controller\<close>

text \<open>
  The replica scheduler writes placements and overrides with the typed client, the sync
  controller reads the same resources with the dynamic client: what passes between the two is the
  JSON that the tags of \<open>pkg/apis/core/v1alpha1/federateddeployment*_types.go\<close> and
  \<open>federatedreplicaset*_types.go\<close> give. The encoders below follow the tags; a field with
  \<open>omitempty\<close> is left out when its value is empty, except that a struct is never empty. The
  encoding of \<open>ObjectMeta\<close> is a parameter, and the API server stores what it is sent.
\<close>

subsection \<open>Encoding of the typed kinds\<close>

definition string_field :: "string \<Rightarrow> string \<Rightarrow> jobj" where
  "string_field tag s = (if s = [] then [] else [(tag, JString s)])"

definition slice_field :: "string \<Rightarrow> json list \<Rightarrow> jobj" where
  "slice_field tag vs = (if vs = [] then [] else [(tag, JArr vs)])"

definition pointer_field :: "string \<Rightarrow> int option \<Rightarrow> jobj" where
  "pointer_field tag p = (case p of None \<Rightarrow> [] | Some i \<Rightarrow> [(tag, JInt i)])"

definition TypeMeta_json :: "string \<Rightarrow> string \<Rightarrow> jobj" where
  "TypeMeta_json kind apiVersion = string_field ''kind'' kind @ string_field ''apiVersion'' apiVersion"

definition FederatedDeploymentPlacement_json :: "(ObjectMeta \<Rightarrow> json) \<Rightarrow> workload_placement \<Rightarrow> jobj" where
  "FederatedDeploymentPlacement_json meta p =
     TypeMeta_json ''FederatedDeploymentPlacement'' ''core.federation.k8s.io/v1alpha1'' @
     [(''metadata'', meta (wp_Meta p)),
      (''spec'', JObj (slice_field ''clusterNames''
         (case wp_ClusterNames p of None \<Rightarrow> [] | Some names \<Rightarrow> map JString names))),
      (''status'', JObj [])]"

definition FederatedReplicaSetPlacement_json :: "(ObjectMeta \<Rightarrow> json) \<Rightarrow> workload_placement \<Rightarrow> jobj" where
  "FederatedReplicaSetPlacement_json meta p =
     TypeMeta_json ''FederatedReplicaSetPlacement'' ''core.federation.k8s.io/v1alpha1'' @
     [(''metadata'', meta (wp_Meta p)),
      (''spec'', JObj (slice_field ''clusterNames''
         (case wp_ClusterNames p of None \<Rightarrow> [] | Some names \<Rightarrow> map JString names))),
      (''status'', JObj [])]"

definition FederatedDeploymentClusterOverride_json :: "ClusterOverride \<Rightarrow> json" where
  "FederatedDeploymentClusterOverride_json o' =
     JObj (string_field ''clusterName'' (co_ClusterName o') @ pointer_field ''replicas'' (co_Replicas o'))"

definition FederatedReplicaSetClusterOverride_json :: "ClusterOverride \<Rightarrow> json" where
  "FederatedReplicaSetClusterOverride_json o' =
     JObj (string_field ''clusterName'' (co_ClusterName o') @ pointer_field ''replicas'' (co_Replicas o'))"

definition FederatedDeploymentOverride_json :: "(ObjectMeta \<Rightarrow> json) \<Rightarrow> workload_override \<Rightarrow> jobj" where
  "FederatedDeploymentOverride_json meta ov =
     TypeMeta_json ''FederatedDeploymentOverride'' ''core.federation.k8s.io/v1alpha1'' @
     [(''metadata'', meta (wo_Meta ov)),
      (''spec'', JObj (slice_field ''overrides'' (map FederatedDeploymentClusterOverride_json (wo_Overrides ov)))),
      (''status'', JObj [])]"

definition FederatedReplicaSetOverride_json :: "(ObjectMeta \<Rightarrow> json) \<Rightarrow> workload_override \<Rightarrow> jobj" where
  "FederatedReplicaSetOverride_json meta ov =
     TypeMeta_json ''FederatedReplicaSetOverride'' ''core.federation.k8s.io/v1alpha1'' @
     [(''metadata'', meta (wo_Meta ov)),
      (''spec'', JObj (slice_field ''overrides'' (map FederatedReplicaSetClusterOverride_json (wo_Overrides ov)))),
      (''status'', JObj [])]"

text \<open>The encodings that the two adapters of the scheduler write.\<close>

definition placement_encodings :: "((ObjectMeta \<Rightarrow> json) \<Rightarrow> workload_placement \<Rightarrow> jobj) set" where
  "placement_encodings = {FederatedDeploymentPlacement_json, FederatedReplicaSetPlacement_json}"

definition override_encodings :: "((ObjectMeta \<Rightarrow> json) \<Rightarrow> workload_override \<Rightarrow> jobj) set" where
  "override_encodings = {FederatedDeploymentOverride_json, FederatedReplicaSetOverride_json}"

subsection \<open>What the sync controller reads\<close>

named_theorems encoding "definitions of the encoders"

lemmas [encoding] = TypeMeta_json_def string_field_def slice_field_def pointer_field_def
  FederatedDeploymentPlacement_json_def FederatedReplicaSetPlacement_json_def
  FederatedDeploymentOverride_json_def FederatedReplicaSetOverride_json_def
  placement_encodings_def override_encodings_def

text \<open>The names that were encoded are in the object, under the tag's key and no other.\<close>

lemma placement_names_stored:
  assumes "enc \<in> placement_encodings" and "wp_ClusterNames p = Some (n # ns)"
  shows "NestedStringSlice (enc meta p) [''spec'', ''clusterNames''] = Inr (Some (n # ns))"
proof -
  have "json_strings (map JString l) = Some l" for l by (induction l) simp_all
  then show ?thesis
    using assms by (auto simp: encoding NestedStringSlice_def nestedFieldNoCopy_def)
qed

lemma GetClusterNames_encoded: "enc \<in> placement_encodings \<Longrightarrow> GetClusterNames (enc meta p) = Inr []"
  by (auto simp: encoding GetClusterNames_def NestedStringSlice_def nestedFieldNoCopy_def)

lemma ComputePlacement_encoded:
  assumes "enc \<in> placement_encodings" and "se_placementStore env key = Inr (Some (enc meta p))"
  shows "ComputePlacement env key clusters = Inr ([], sset_list (sset_of clusters))"
  using assms(2) GetClusterNames_encoded [OF assms(1), of meta p]
  by (simp add: ComputePlacement_def ResourcePlacement_ComputePlacement_def NamespacePlacement_ComputePlacement_def
      split_clusters_def Let_def sset_intersection_def sset_difference_def sset_of_def sset_list_def sset_has_def)


lemma sset_list_of: "set (sset_list (sset_of xs)) = set xs"
  by (simp add: sset_list_def)

text \<open>The placement is written before the override, and only once.\<close>

lemma scheduled_placement_call:
  assumes "ReconcileFederationTargets ad qn result = (None, calls)"
  obtains calls1 where "ReconcilePlacement ad qn (mkeys result) = (None, calls1)"
    "written_placement calls = written_placement calls1"
proof -
  obtain calls1 calls2 where c: "ReconcilePlacement ad qn (mkeys result) = (None, calls1)"
    "ReconcileOverride ad qn result = (None, calls2)" "calls = calls1 @ calls2"
    using assms by (auto simp: ReconcileFederationTargets_def split: prod.splits option.splits)
  have "written_placement calls2 = None"
    using c(2) by (auto simp: ReconcileOverride_def Let_def split: sum.splits if_splits)
  then have "written_placement (calls1 @ calls2) = written_placement calls1"
    by (induction calls1 rule: written_placement.induct) auto
  with c that show thesis by simp
qed

text \<open>An entry of an encoded override has no \<open>clustername\<close>, so it names no cluster, not even \<open>""\<close>.\<close>

lemma apply_overrides_encoded:
  "apply_overrides path c (map FederatedDeploymentClusterOverride_json os) obj = Inr obj"
  "apply_overrides path c (map FederatedReplicaSetClusterOverride_json os) obj = Inr obj"
  by (induction os) (auto simp: FederatedDeploymentClusterOverride_json_def FederatedReplicaSetClusterOverride_json_def
      encoding jget_def mget0_def split: option.split)

lemma NestedSlice_encoded:
  "NestedSlice (FederatedDeploymentOverride_json meta ov) [''spec'', ''overrides''] =
     Inr (if wo_Overrides ov = [] then None else Some (map FederatedDeploymentClusterOverride_json (wo_Overrides ov)))"
  "NestedSlice (FederatedReplicaSetOverride_json meta ov) [''spec'', ''overrides''] =
     Inr (if wo_Overrides ov = [] then None else Some (map FederatedReplicaSetClusterOverride_json (wo_Overrides ov)))"
  by (simp_all add: encoding NestedSlice_def nestedFieldNoCopy_def)

lemma objectForCluster_encoded:
  assumes "enc \<in> override_encodings" and "GetOverridePath tc \<noteq> []"
  shows "objectForCluster tc t (Some (enc meta ov)) c = objectForCluster tc t None c"
proof -
  define body where "body = (if mr_Kind (GetTarget tc) = NamespaceKind then namespace_body t else template_body tc t)"
  have "objectForCluster tc t o' c = rbind body (\<lambda>obj. case o' of None \<Rightarrow> Inr obj | Some o' \<Rightarrow>
     (case NestedSlice o' [''spec'', ''overrides''] of
        Inl e \<Rightarrow> Inl (ErrWrapped ''Error retrieving overrides'' e)
      | Inr None \<Rightarrow> Inr obj
      | Inr (Some overrides) \<Rightarrow>
          if length (GetOverridePath tc) = 0 then Inl (ErrOther ''Override path is missing'')
          else apply_overrides (GetOverridePath tc) c overrides obj))" for o'
    unfolding objectForCluster_def body_def by (rule refl)
  then show ?thesis
    using assms by (cases body) (auto simp: override_encodings_def NestedSlice_encoded apply_overrides_encoded)
qed

text \<open>With no cluster selected a run that acts deletes every copy it finds.\<close>

lemma reconcile_unselected:
  assumes run: "reconcile env pending qn = (st, pending', calls)" and ops: "RunOperations ops \<in> set calls"
    and ready: "se_readyClusters env = Inr ready" and none: "ComputePlacement env (qn_String qn) ready = Inr ([], unsel)"
  shows "\<exists>t t1 dcalls. se_templateStore env (qn_String qn) = Inr (Some t) \<and>
    EnsureFinalizers (se_deletion env) t = (Inr t1, dcalls) \<and>
    set ops = {\<lparr>op_Type = OperationTypeDelete, op_ClusterName = c, op_Obj = obj,
        op_Key = qn_String (NewQualifiedName (meta_of t1))\<rparr> | c obj.
      c \<in> set unsel \<and> se_target env c (qn_String (NewQualifiedName (meta_of t1))) = Inr (Some obj)}"
proof -
  obtain t t1 dcalls ov vs where
    t: "se_templateStore env (qn_String qn) = Inr (Some t)" "EnsureFinalizers (se_deletion env) t = (Inr t1, dcalls)"
    and co: "clusterOperations (se_typeConfig env) (se_helper env) (se_target env) [] unsel t1 ov
      (qn_String (NewQualifiedName (meta_of t1))) vs = Inr ops"
    by (rule reconcile_operations_split [OF run ops]) (use ready none that in auto)
  have "ops_loop (unselected_operation (se_target env) (qn_String (NewQualifiedName (meta_of t1)))) unsel = Inr ops"
    by (rule clusterOperations_split [OF co]) simp
  from ops_loop_set [OF this] t show ?thesis
    by (auto simp: unselected_operation_iff)
qed


subsection \<open>The property\<close>

text \<open>
  C9. What the scheduler decides does not reach the clusters: when it has written a placement that
  names the clusters of its result, the sync controller reads no cluster name from it, and a run
  that acts deletes the copy from every ready cluster that has one, the named ones included; and
  the override it has written leaves the object of every cluster as the template has it. The two
  controllers spell the keys differently: \<open>clusterNames\<close> and \<open>clusterName\<close> in the tags,
  \<open>clusternames\<close> and \<open>clustername\<close> in the code that reads.
\<close>

theorem scheduled_targets_ignored:
  assumes sched: "ReconcileFederationTargets ad rqn result = (None, calls0)"
    and p: "placement_after ad rqn calls0 = Inr p" and "penc \<in> placement_encodings"
    and "se_placementStore env (qn_String qn) = Inr (Some (penc meta p))"
    and run: "reconcile env pending qn = (st, pending', calls)" and ops: "RunOperations ops \<in> set calls"
    and ready: "se_readyClusters env = Inr ready"
    and oenc: "oenc \<in> override_encodings" and path: "GetOverridePath (se_typeConfig env) \<noteq> []"
  shows "(\<exists>l. wp_ClusterNames p = Some l \<and> set l = set (mkeys result)) \<and>
    (\<exists>t t1 dcalls. se_templateStore env (qn_String qn) = Inr (Some t) \<and>
       EnsureFinalizers (se_deletion env) t = (Inr t1, dcalls) \<and>
       set ops = {\<lparr>op_Type = OperationTypeDelete, op_ClusterName = c, op_Obj = obj,
           op_Key = qn_String (NewQualifiedName (meta_of t1))\<rparr> | c obj.
         c \<in> set ready \<and> se_target env c (qn_String (NewQualifiedName (meta_of t1))) = Inr (Some obj)}) \<and>
    (\<forall>ov t c. objectForCluster (se_typeConfig env) t (Some (oenc meta ov)) c =
       objectForCluster (se_typeConfig env) t None c)"
proof -
  obtain calls1 where c1: "ReconcilePlacement ad rqn (mkeys result) = (None, calls1)"
    and written: "written_placement calls0 = written_placement calls1"
    by (rule scheduled_placement_call [OF sched])
  obtain q l where q: "placement_after ad rqn calls1 = Inr q" "wp_ClusterNames q = Some l" "sort l = sort (mkeys result)"
    using ReconcilePlacement_after [OF c1] by blast
  have "q = p" using p q(1) by (simp add: placement_after_def written)
  moreover have "set l = set (mkeys result)" using q(3) by (metis set_sort)
  ultimately have "\<exists>l. wp_ClusterNames p = Some l \<and> set l = set (mkeys result)" using q(2) by blast
  moreover have none: "ComputePlacement env (qn_String qn) ready = Inr ([], sset_list (sset_of ready))"
    by (rule ComputePlacement_encoded [OF assms(3,4)])
  note reconcile_unselected [OF run ops ready none, unfolded sset_list_of]
  moreover note objectForCluster_encoded [OF oenc path]
  ultimately show ?thesis by (intro conjI allI)
qed

subsection \<open>A concrete case\<close>

text \<open>The scheduler gives \<open>c1\<close> two replicas and \<open>c2\<close> three; \<open>c1\<close> and \<open>c3\<close> have a copy.\<close>

definition demo_result :: "(string, int) gomap" where
  "demo_result = [(''c1'', 2), (''c2'', 3)]"

definition demo_name :: QualifiedName where
  "demo_name = \<lparr>qn_Namespace = ''ns'', qn_Name = ''web''\<rparr>"

definition demo_placement :: workload_placement where
  "demo_placement = \<lparr>wp_Meta = empty_meta\<lparr>om_Namespace := ''ns'', om_Name := ''web''\<rparr>,
     wp_ClusterNames = Some [''c1'', ''c2'']\<rparr>"

lemma demo_schedule:
  "\<exists>calls. ReconcileFederationTargets demo_adapter demo_name demo_result = (None, calls) \<and>
     placement_after demo_adapter demo_name calls = Inr demo_placement"
  by (simp add: ReconcileFederationTargets_def ReconcilePlacement_def ReconcileOverride_def demo_adapter_def
      demo_result_def demo_name_def demo_placement_def placement_after_def OverrideUpdateNeeded_def)

definition demo_scheduled :: sync_env where
  "demo_scheduled = (demo_env demo_template)\<lparr>se_placementStore := (\<lambda>k. Inr (Some
     (FederatedDeploymentPlacement_json (\<lambda>m. JObj [(''name'', JString (om_Name m))]) demo_placement)))\<rparr>"

lemma demo_scheduled_run:
  "map (\<lambda>p. (op_Type p, op_ClusterName p)) (the (run_ops (hd (snd (snd (reconcile demo_scheduled [] demo_name))))))
     = [(OperationTypeDelete, ''c1''), (OperationTypeDelete, ''c3'')]
   \<and> run_ops (hd (snd (snd (reconcile demo_scheduled [] demo_name)))) \<noteq> None
   \<and> length (snd (snd (reconcile demo_scheduled [] demo_name))) \<noteq> 0"
  by code_simp

theorem scheduled_targets_ignored_witness:
  "\<exists>ops. RunOperations ops \<in> set (snd (snd (reconcile demo_scheduled [] demo_name))) \<and>
     op_Type ` set ops \<subseteq> {OperationTypeDelete} \<and> ''c1'' \<in> op_ClusterName ` set ops \<and> ''c1'' \<in> set (mkeys demo_result)"
proof -
  obtain calls0 where sched: "ReconcileFederationTargets demo_adapter demo_name demo_result = (None, calls0)"
    and p: "placement_after demo_adapter demo_name calls0 = Inr demo_placement"
    using demo_schedule by blast
  obtain st pending' calls where run: "reconcile demo_scheduled [] demo_name = (st, pending', calls)"
    by (cases "reconcile demo_scheduled [] demo_name") auto
  obtain c cs where calls: "calls = c # cs"
    using demo_scheduled_run [unfolded run] by (cases calls) simp_all
  moreover obtain ops where "c = RunOperations ops"
    using demo_scheduled_run [unfolded run calls] by (cases c) (auto simp: run_ops_def)
  ultimately have mem: "RunOperations ops \<in> set calls" by simp
  have enc: "FederatedDeploymentPlacement_json \<in> placement_encodings" "FederatedDeploymentOverride_json \<in> override_encodings"
    by (simp_all add: placement_encodings_def override_encodings_def)
  have store: "se_placementStore demo_scheduled (qn_String demo_name) = Inr (Some
     (FederatedDeploymentPlacement_json (\<lambda>m. JObj [(''name'', JString (om_Name m))]) demo_placement))"
    "se_readyClusters demo_scheduled = Inr [''c1'', ''c2'', ''c3'']"
    "GetOverridePath (se_typeConfig demo_scheduled) \<noteq> []"
    by (simp_all add: demo_scheduled_def demo_env_def demo_type_def GetOverridePath_def)
  from scheduled_targets_ignored [OF sched p enc(1) store(1) run mem store(2) enc(2) store(3)]
  have "op_Type ` set ops \<subseteq> {OperationTypeDelete}" by auto
  moreover have "''c1'' \<in> op_ClusterName ` set ops"
    using demo_scheduled_run calls \<open>c = RunOperations ops\<close> by (auto simp: run run_ops_def)
  ultimately show ?thesis using mem by (auto simp: run demo_result_def)
qed

end
