(* ===== verification/Work_Queue.thy ===== *)
theory Work_Queue
  imports Fed_Prelude
begin

section \<open>The work queue\<close>

text \<open>
  \<open>vendor/k8s.io/client-go/util/workqueue/queue.go\<close>, the queue between the deliverer of a controller
  and its worker. Its lock makes every method atomic; \<open>Get\<close> waits on a condition, so a
  call with nothing to return is the value \<open>GetBlocks\<close> here. Metrics are left out. The contract of a
  work queue is the locale \<open>work_queue\<close>, over the items waiting and the items being processed.
\<close>

record 'i workqueue =
  wq_queue :: "'i list"
  wq_dirty :: "'i set"
  wq_processing :: "'i set"
  wq_shuttingDown :: bool

datatype 'q got = GetBlocks | GetQuit | GetItem 'q

definition wq_New :: "'i workqueue" where
  "wq_New = \<lparr>wq_queue = [], wq_dirty = {}, wq_processing = {}, wq_shuttingDown = False\<rparr>"

definition wq_Add :: "'i \<Rightarrow> 'i workqueue \<Rightarrow> 'i workqueue" where
  "wq_Add item q =
     (if wq_shuttingDown q then q
      else if item \<in> wq_dirty q then q
      else (let q1 = q\<lparr>wq_dirty := insert item (wq_dirty q)\<rparr>
            in if item \<in> wq_processing q1 then q1 else q1\<lparr>wq_queue := wq_queue q1 @ [item]\<rparr>))"

definition wq_Len :: "'i workqueue \<Rightarrow> nat" where
  "wq_Len q = length (wq_queue q)"

definition wq_Get :: "'i workqueue \<Rightarrow> ('i \<times> 'i workqueue) got" where
  "wq_Get q =
     (case wq_queue q of
        [] \<Rightarrow> if \<not> wq_shuttingDown q then GetBlocks else GetQuit
      | item # rest \<Rightarrow>
          GetItem (item, q\<lparr>wq_queue := rest, wq_processing := insert item (wq_processing q),
                           wq_dirty := wq_dirty q - {item}\<rparr>))"

definition wq_Done :: "'i \<Rightarrow> 'i workqueue \<Rightarrow> 'i workqueue" where
  "wq_Done item q =
     (let q1 = q\<lparr>wq_processing := wq_processing q - {item}\<rparr>
      in if item \<in> wq_dirty q1 then q1\<lparr>wq_queue := wq_queue q1 @ [item]\<rparr> else q1)"

definition wq_ShutDown :: "'i workqueue \<Rightarrow> 'i workqueue" where
  "wq_ShutDown q = q\<lparr>wq_shuttingDown := True\<rparr>"

subsection \<open>The contract of a work queue\<close>

locale work_queue =
  fixes ok :: "'q \<Rightarrow> bool" and todo busy :: "'q \<Rightarrow> 'i set" and closed :: "'q \<Rightarrow> bool"
    and new :: 'q and add :: "'i \<Rightarrow> 'q \<Rightarrow> 'q" and get :: "'q \<Rightarrow> ('i \<times> 'q) got" and finish :: "'i \<Rightarrow> 'q \<Rightarrow> 'q"
    and shut :: "'q \<Rightarrow> 'q"
  assumes new: "ok new" "todo new = {}" "busy new = {}" "\<not> closed new"
    and add: "ok q \<Longrightarrow> ok (add i q)" "ok q \<Longrightarrow> todo (add i q) = (if closed q then todo q else insert i (todo q))"
      "busy (add i q) = busy q" "closed (add i q) = closed q"
    and get: "ok q \<Longrightarrow> get q = GetItem (i, q') \<Longrightarrow> ok q'"
      "ok q \<Longrightarrow> get q = GetItem (i, q') \<Longrightarrow> i \<in> todo q \<and> i \<notin> busy q"
      "get q = GetItem (i, q') \<Longrightarrow> todo q' = todo q - {i}"
      "get q = GetItem (i, q') \<Longrightarrow> busy q' = insert i (busy q) \<and> closed q' = closed q"
      "ok q \<Longrightarrow> get q = GetBlocks \<Longrightarrow> todo q \<subseteq> busy q \<and> \<not> closed q"
      "ok q \<Longrightarrow> get q = GetQuit \<Longrightarrow> todo q \<subseteq> busy q \<and> closed q"
    and finish: "ok q \<Longrightarrow> i \<in> busy q \<Longrightarrow> ok (finish i q)" "todo (finish i q) = todo q"
      "busy (finish i q) = busy q - {i}" "closed (finish i q) = closed q"
    and shut: "ok q \<Longrightarrow> ok (shut q)" "todo (shut q) = todo q" "busy (shut q) = busy q" "closed (shut q)"
begin

text \<open>
  Runs of any number of workers: the items they hold, and the items added since they
  were last handed out, in a queue that takes items until it is shut down.
\<close>

inductive run :: "'q \<Rightarrow> 'i list \<Rightarrow> 'i set \<Rightarrow> bool" where
  start: "run new [] {}"
| added: "run q held owed \<Longrightarrow> run (add i q) held (if closed q then owed else insert i owed)"
| got: "run q held owed \<Longrightarrow> get q = GetItem (i, q') \<Longrightarrow> run q' (i # held) (owed - {i})"
| completed: "run q held owed \<Longrightarrow> i \<in> set held \<Longrightarrow> run (finish i q) (remove1 i held) owed"
| shutdown: "run q held owed \<Longrightarrow> run (shut q) held owed"

lemma run_facts: "run q held owed \<Longrightarrow> ok q \<and> distinct held \<and> busy q = set held \<and> todo q = owed"
proof (induction rule: run.induct)
  case (got q held owed i q')
  then show ?case using get(1-4) [of q i q'] by simp
qed (auto simp: new add finish shut)

lemma run_add_open: "run q held owed \<Longrightarrow> \<not> closed q \<Longrightarrow> run (add i q) held (insert i owed)"
  using run.added [of q held owed i] by simp

lemma idle_quit:
  assumes "run q [] owed"
  shows "get q = GetQuit \<longleftrightarrow> owed = {} \<and> closed q"
proof (cases "get q")
  case (GetItem r)
  then show ?thesis using run_facts [OF assms] get(2) [of q "fst r" "snd r"] by (cases r) auto
qed (use run_facts [OF assms] get(5,6) [of q] in auto)

end

text \<open>The invariant the source states for \<open>queue\<close>.\<close>

definition wq_ok :: "'i workqueue \<Rightarrow> bool" where
  "wq_ok q \<longleftrightarrow> distinct (wq_queue q) \<and> set (wq_queue q) = wq_dirty q - wq_processing q"

lemmas wq_defs = wq_New_def wq_Add_def wq_Get_def wq_Done_def wq_ShutDown_def

lemma wq_Get_idle:
  "wq_Get q = GetBlocks \<longleftrightarrow> wq_queue q = [] \<and> \<not> wq_shuttingDown q"
  "wq_Get q = GetQuit \<longleftrightarrow> wq_queue q = [] \<and> wq_shuttingDown q"
  by (cases "wq_queue q"; simp add: wq_Get_def)+

lemma wq_GetItem:
  assumes "wq_Get q = GetItem (i, q')"
  shows "wq_queue q = i # wq_queue q'" and "wq_processing q' = insert i (wq_processing q)"
    and "wq_dirty q' = wq_dirty q - {i}" and "wq_shuttingDown q' = wq_shuttingDown q"
  using assms by (auto simp: wq_Get_def split: list.splits if_splits)

interpretation wq: work_queue wq_ok wq_dirty wq_processing wq_shuttingDown wq_New wq_Add wq_Get wq_Done wq_ShutDown
proof
  show "wq_ok q'" "i \<in> wq_dirty q \<and> i \<notin> wq_processing q"
    if ok: "wq_ok q" and got: "wq_Get q = GetItem (i, q')" for q q' :: "'i workqueue" and i
    using ok wq_GetItem [OF got] unfolding wq_ok_def by auto
  show "wq_dirty q' = wq_dirty q - {i}" "wq_processing q' = insert i (wq_processing q) \<and> wq_shuttingDown q' = wq_shuttingDown q"
    if "wq_Get q = GetItem (i, q')" for q q' :: "'i workqueue" and i
    using wq_GetItem [OF that] by auto
  show "wq_ok (wq_Add i q)" "wq_dirty (wq_Add i q) = (if wq_shuttingDown q then wq_dirty q else insert i (wq_dirty q))"
    if "wq_ok q" for q :: "'i workqueue" and i
    using that by (auto simp: wq_ok_def wq_Add_def Let_def)
  show "wq_ok (wq_Done i q)" if "wq_ok q" "i \<in> wq_processing q" for q :: "'i workqueue" and i
    using that by (auto simp: wq_ok_def wq_Done_def Let_def)
qed (auto simp: wq_ok_def wq_Get_idle wq_New_def wq_Add_def wq_Done_def wq_ShutDown_def Let_def)

text \<open>
  C19. The work queue hands an item to one worker at a time and loses none: however any number
  of workers add, get and finish items, an item in process is not handed out again, exactly the items
  added since they were last handed out and not in process are queued, once each, and a worker is told to
  quit exactly when the queue is shut down and nothing is left to hand out.
\<close>

theorem workqueue_exclusive:
  assumes "wq.run q held owed"
  shows "distinct held \<and> wq_processing q = set held \<and> distinct (wq_queue q) \<and> set (wq_queue q) = owed - set held \<and>
    (wq_Get q = GetQuit \<longleftrightarrow> wq_shuttingDown q \<and> owed \<subseteq> set held)"
proof -
  have facts: "wq_ok q" "distinct held" "wq_processing q = set held" "wq_dirty q = owed"
    using wq.run_facts [OF assms] by auto
  then have "distinct (wq_queue q)" and queue: "set (wq_queue q) = owed - set held" by (simp_all add: wq_ok_def)
  moreover have "wq_queue q = [] \<longleftrightarrow> owed \<subseteq> set held" using queue by (cases "wq_queue q") auto
  ultimately show ?thesis using facts(2,3) by (auto simp: wq_Get_idle)
qed

text \<open>Two workers, an item added again while the first holds it, and finished.\<close>

definition demo_queue :: "nat workqueue" where
  "demo_queue = \<lparr>wq_queue = [1], wq_dirty = {1}, wq_processing = {2}, wq_shuttingDown = False\<rparr>"

lemma demo_queue_run: "wq.run demo_queue [2] {1}"
proof -
  let ?q = "wq_Add 2 (wq_Add (1::nat) wq_New)"
  have a: "wq.run ?q [] {2, 1}"
    by (intro wq.run_add_open wq.run.start) (simp_all add: wq.new wq.add)
  have g1: "wq_Get ?q = GetItem (1::nat, \<lparr>wq_queue = [2], wq_dirty = {2}, wq_processing = {1}, wq_shuttingDown = False\<rparr>)"
    by (auto simp: wq_New_def wq_Add_def wq_Get_def Let_def)
  have g2: "wq_Get (wq_Add 1 \<lparr>wq_queue = [2], wq_dirty = {2}, wq_processing = {1}, wq_shuttingDown = False\<rparr>)
      = GetItem (2::nat, \<lparr>wq_queue = [], wq_dirty = {1}, wq_processing = {2, 1}, wq_shuttingDown = False\<rparr>)"
    by (auto simp: wq_Add_def wq_Get_def Let_def)
  note r = wq.run.got [OF wq.run_add_open [OF wq.run.got [OF a g1], of 1] g2]
  from wq.run.completed [OF r, of 1] show ?thesis
    by (simp add: demo_queue_def wq_Done_def insert_Diff_if)
qed

theorem workqueue_exclusive_witness: "set (wq_queue demo_queue) = {1} - {2}"
  using workqueue_exclusive [OF demo_queue_run] by simp

end
