(* ===== verification/Controller_Run.thy ===== *)
theory Controller_Run
  imports Work_Queue Backoff_Delivery
begin

section \<open>A running controller\<close>

text \<open>
  What \<open>Run\<close> of the sync, scheduling preference and service DNS controllers starts, which is
  the same in the three: the deliverer's main goroutine, the goroutine that hands its
  items to the work queue, one worker, the garbage collection of the backoff, and the one that waits for
  the stop channel. A key travels from an informer's event through the update channel, the
  heap, the target channel and the work queue to \<open>reconcile\<close>, and back when it must be retried.

  The goroutines are program counters and a step of one of them is an \<open>action\<close>; any sequence of
  enabled actions is an interleaving. A send to a full channel and a receive from an empty one are
  disabled, and so is the timer before its time. \<open>reconcile\<close> is what happens between
  \<open>WorkerGet\<close> and \<open>WorkerDone\<close>; the retry that its status asks for is the argument of
  \<open>WorkerDone\<close>, as decided in \<open>Requeue\<close>.
\<close>

text \<open>
  \<open>DeliverAt\<close> allocates every item anew and the work queue compares pointers, so an item carries
  a pointer besides the name.
\<close>

type_synonym work_item = "(nat \<times> QualifiedName) DelayingDelivererItem"

datatype run_pc = Delivering int | Selecting int | RunStopped

datatype handler_pc = HandlerIdle | HandlerHas work_item | HandlerStopped

datatype worker_pc = WorkerIdle | WorkerHas work_item | WorkerSends work_item | WorkerStopped

record controller_state =
  cs_updateChannel :: "work_item list"
  cs_heap :: "(nat \<times> QualifiedName) delivererHeap"
  cs_run :: run_pc
  cs_targetChannel :: "work_item list"
  cs_handler :: handler_pc
  cs_workQueue :: "work_item workqueue"
  cs_worker :: worker_pc
  cs_backoff :: Backoff
  cs_stopped :: bool
  cs_nextPointer :: nat

definition updateChanCapacity :: nat where
  "updateChanCapacity = 1000"

definition targetChanCapacity :: nat where
  "targetChanCapacity = 100"

text \<open>After \<open>Run\<close>, at some time: the main goroutine enters its loop.\<close>

definition controller_start :: "int \<Rightarrow> controller_state" where
  "controller_start now = \<lparr>cs_updateChannel = [], cs_heap = NewDelayingDeliverer, cs_run = Delivering now,
     cs_targetChannel = [], cs_handler = HandlerIdle, cs_workQueue = wq_New, cs_worker = WorkerIdle,
     cs_backoff = NewBackOff 5000 60000, cs_stopped = False, cs_nextPointer = 0\<rparr>"

text \<open>\<open>deliver\<close> up to the send: the backoff and the new item.\<close>

definition deliver_item :: "int \<Rightarrow> QualifiedName \<Rightarrow> int \<Rightarrow> bool \<Rightarrow> controller_state \<Rightarrow> work_item \<times> controller_state" where
  "deliver_item now qualifiedName delay failed s =
     (let key = qn_String qualifiedName;
          backoff1 = (if failed then Backoff_Next now key now (cs_backoff s) else Backoff_Reset key (cs_backoff s));
          delay1 = (if failed then delay + Backoff_Get backoff1 key else delay)
      in (\<lparr>it_Key = key, it_Value = (cs_nextPointer s, qualifiedName), it_DeliveryTime = now + delay1\<rparr>,
          s\<lparr>cs_backoff := backoff1, cs_nextPointer := Suc (cs_nextPointer s)\<rparr>))"

datatype action =
    Event int QualifiedName int
  | RunPop | RunSelect | RunTake int | RunWake int | RunStop
  | HandlerTake | HandlerAdd | HandlerStop
  | WorkerGet | WorkerDone int "(int \<times> bool) option" | WorkerSend
  | CollectBackoff int
  | ShutDownQueue | StopDeliverer

text \<open>The main goroutine: the loop of \<open>deliver\<close>, an element at a time, and the \<open>select\<close>.\<close>

definition head_due :: "int \<Rightarrow> 'v delivererHeap \<Rightarrow> bool" where
  "head_due now dh \<longleftrightarrow> 0 < heap_Len dh \<and> \<not> now < it_DeliveryTime (heap_data dh ! 0)"

fun run_step :: "action \<Rightarrow> controller_state \<Rightarrow> controller_state option" where
  "run_step RunPop s =
     (case cs_run s of
        Delivering now \<Rightarrow>
          if head_due now (cs_heap s) \<and> length (cs_targetChannel s) < targetChanCapacity
          then (let (item, dh) = go_heap_Pop (cs_heap s)
                in Some (s\<lparr>cs_heap := dh, cs_targetChannel := cs_targetChannel s @ [item]\<rparr>))
          else None
      | _ \<Rightarrow> None)"
| "run_step RunSelect s =
     (case cs_run s of
        Delivering now \<Rightarrow> if \<not> head_due now (cs_heap s) then Some (s\<lparr>cs_run := Selecting now\<rparr>) else None
      | _ \<Rightarrow> None)"
| "run_step (RunTake now) s =
     (case (cs_run s, cs_updateChannel s) of
        (Selecting _, item # rest) \<Rightarrow>
          Some (s\<lparr>cs_updateChannel := rest, cs_heap := deliverer_update item (cs_heap s), cs_run := Delivering now\<rparr>)
      | _ \<Rightarrow> None)"
| "run_step (RunWake now) s =
     (case cs_run s of
        Selecting since \<Rightarrow> if nextWakeUp since (cs_heap s) \<le> now then Some (s\<lparr>cs_run := Delivering now\<rparr>) else None
      | _ \<Rightarrow> None)"
| "run_step RunStop s =
     (case cs_run s of
        Selecting _ \<Rightarrow> if cs_stopped s then Some (s\<lparr>cs_run := RunStopped\<rparr>) else None
      | _ \<Rightarrow> None)"
| "run_step _ s = None"

text \<open>The goroutine of \<open>StartWithHandler\<close>, whose handler adds the item to the work queue.\<close>

fun handler_step :: "action \<Rightarrow> controller_state \<Rightarrow> controller_state option" where
  "handler_step HandlerTake s =
     (case (cs_handler s, cs_targetChannel s) of
        (HandlerIdle, item # rest) \<Rightarrow> Some (s\<lparr>cs_targetChannel := rest, cs_handler := HandlerHas item\<rparr>)
      | _ \<Rightarrow> None)"
| "handler_step HandlerAdd s =
     (case cs_handler s of
        HandlerHas item \<Rightarrow> Some (s\<lparr>cs_workQueue := wq_Add item (cs_workQueue s), cs_handler := HandlerIdle\<rparr>)
      | _ \<Rightarrow> None)"
| "handler_step HandlerStop s =
     (if cs_handler s = HandlerIdle \<and> cs_stopped s then Some (s\<lparr>cs_handler := HandlerStopped\<rparr>) else None)"
| "handler_step _ s = None"

text \<open>\<open>worker\<close>: it gets an item, reconciles its name, marks the item done and delivers the name again.\<close>

fun worker_step :: "action \<Rightarrow> controller_state \<Rightarrow> controller_state option" where
  "worker_step WorkerGet s =
     (if cs_worker s \<noteq> WorkerIdle then None
      else (case wq_Get (cs_workQueue s) of
              GetBlocks \<Rightarrow> None
            | GetQuit \<Rightarrow> Some (s\<lparr>cs_worker := WorkerStopped\<rparr>)
            | GetItem (item, q) \<Rightarrow> Some (s\<lparr>cs_workQueue := q, cs_worker := WorkerHas item\<rparr>)))"
| "worker_step (WorkerDone now decision) s =
     (case cs_worker s of
        WorkerHas item \<Rightarrow>
          (let s1 = s\<lparr>cs_workQueue := wq_Done item (cs_workQueue s)\<rparr>
           in case decision of
                None \<Rightarrow> Some (s1\<lparr>cs_worker := WorkerIdle\<rparr>)
              | Some (delay, failed) \<Rightarrow>
                  (let (item1, s2) = deliver_item now (snd (it_Value item)) delay failed s1
                   in Some (s2\<lparr>cs_worker := WorkerSends item1\<rparr>)))
      | _ \<Rightarrow> None)"
| "worker_step WorkerSend s =
     (case cs_worker s of
        WorkerSends item \<Rightarrow>
          if length (cs_updateChannel s) < updateChanCapacity
          then Some (s\<lparr>cs_updateChannel := cs_updateChannel s @ [item], cs_worker := WorkerIdle\<rparr>) else None
      | _ \<Rightarrow> None)"
| "worker_step _ s = None"

text \<open>
  The rest: an event's \<open>deliver\<close>, when the update channel takes its item; the collection of the
  backoff; and the goroutine that waits for the stop channel and stops the queue before the deliverer.
\<close>

definition event_step :: "int \<Rightarrow> QualifiedName \<Rightarrow> int \<Rightarrow> controller_state \<Rightarrow> controller_state option" where
  "event_step now qualifiedName delay s =
     (if length (cs_updateChannel s) < updateChanCapacity
      then (let (item, s1) = deliver_item now qualifiedName delay False s
            in Some (s1\<lparr>cs_updateChannel := cs_updateChannel s1 @ [item]\<rparr>))
      else None)"

definition collect_step :: "int \<Rightarrow> controller_state \<Rightarrow> controller_state option" where
  "collect_step now s = Some (s\<lparr>cs_backoff := Backoff_GC now (cs_backoff s)\<rparr>)"

fun stop_step :: "action \<Rightarrow> controller_state \<Rightarrow> controller_state option" where
  "stop_step ShutDownQueue s =
     (if \<not> wq_shuttingDown (cs_workQueue s) then Some (s\<lparr>cs_workQueue := wq_ShutDown (cs_workQueue s)\<rparr>) else None)"
| "stop_step StopDeliverer s =
     (if wq_shuttingDown (cs_workQueue s) \<and> \<not> cs_stopped s then Some (s\<lparr>cs_stopped := True\<rparr>) else None)"
| "stop_step _ s = None"

definition controller_step :: "action \<Rightarrow> controller_state \<Rightarrow> controller_state option" where
  "controller_step a s =
     (case a of
        Event now qualifiedName delay \<Rightarrow> event_step now qualifiedName delay s
      | CollectBackoff now \<Rightarrow> collect_step now s
      | ShutDownQueue \<Rightarrow> stop_step a s | StopDeliverer \<Rightarrow> stop_step a s
      | HandlerTake \<Rightarrow> handler_step a s | HandlerAdd \<Rightarrow> handler_step a s | HandlerStop \<Rightarrow> handler_step a s
      | WorkerGet \<Rightarrow> worker_step a s | WorkerDone _ _ \<Rightarrow> worker_step a s | WorkerSend \<Rightarrow> worker_step a s
      | _ \<Rightarrow> run_step a s)"

lemmas controller_step_defs = controller_step_def event_step_def collect_step_def

fun controller_exec :: "action list \<Rightarrow> controller_state \<Rightarrow> controller_state option" where
  "controller_exec [] s = Some s"
| "controller_exec (a # as) s = (case controller_step a s of None \<Rightarrow> None | Some s1 \<Rightarrow> controller_exec as s1)"

subsection \<open>Where the keys are\<close>

text \<open>The items on their way to \<open>reconcile\<close>, and their keys.\<close>

definition handler_items :: "handler_pc \<Rightarrow> work_item set" where
  "handler_items pc = (case pc of HandlerHas item \<Rightarrow> {item} | _ \<Rightarrow> {})"

definition sent_items :: "worker_pc \<Rightarrow> work_item set" where
  "sent_items pc = (case pc of WorkerSends item \<Rightarrow> {item} | _ \<Rightarrow> {})"

definition held_items :: "worker_pc \<Rightarrow> work_item set" where
  "held_items pc = (case pc of WorkerHas item \<Rightarrow> {item} | _ \<Rightarrow> {})"

definition waiting_items :: "controller_state \<Rightarrow> work_item set" where
  "waiting_items s = set (cs_updateChannel s) \<union> set (heap_data (cs_heap s)) \<union> set (cs_targetChannel s) \<union>
     handler_items (cs_handler s) \<union> wq_dirty (cs_workQueue s) \<union> sent_items (cs_worker s)"

definition waiting :: "controller_state \<Rightarrow> string set" where
  "waiting s = it_Key ` waiting_items s"

text \<open>The names that a run reconciles, in order.\<close>

fun reconciles :: "action list \<Rightarrow> controller_state \<Rightarrow> QualifiedName list" where
  "reconciles [] s = []"
| "reconciles (a # as) s =
     (case controller_step a s of
        None \<Rightarrow> []
      | Some s1 \<Rightarrow>
          (case (a, cs_worker s1) of (WorkerGet, WorkerHas item) \<Rightarrow> [snd (it_Value item)] | _ \<Rightarrow> []) @ reconciles as s1)"

lemma pc_items [simp]:
  "handler_items HandlerIdle = {}" "handler_items (HandlerHas i) = {i}" "handler_items HandlerStopped = {}"
  "sent_items WorkerIdle = {}" "sent_items (WorkerHas i) = {}" "sent_items (WorkerSends i) = {i}" "sent_items WorkerStopped = {}"
  "held_items WorkerIdle = {}" "held_items (WorkerHas i) = {i}" "held_items (WorkerSends i) = {}" "held_items WorkerStopped = {}"
  by (simp_all add: handler_items_def sent_items_def held_items_def)

subsection \<open>The steps\<close>

text \<open>What each enabled action does, as one case rule.\<close>

lemma controller_step_cases [consumes 1, case_names Event RunPop RunSelect RunTake RunWake RunStop
    HandlerTake HandlerAdd HandlerStop WorkerGet WorkerQuit WorkerDone WorkerRetry WorkerSend CollectBackoff ShutDownQueue StopDeliverer]:
  assumes "controller_step a s = Some s'"
  obtains
    (Event) now qn d item s1 where "a = Event now qn d" "length (cs_updateChannel s) < updateChanCapacity"
      "deliver_item now qn d False s = (item, s1)" "s' = s1\<lparr>cs_updateChannel := cs_updateChannel s1 @ [item]\<rparr>"
  | (RunPop) now item dh where "a = RunPop" "cs_run s = Delivering now" "head_due now (cs_heap s)"
      "length (cs_targetChannel s) < targetChanCapacity" "go_heap_Pop (cs_heap s) = (item, dh)"
      "s' = s\<lparr>cs_heap := dh, cs_targetChannel := cs_targetChannel s @ [item]\<rparr>"
  | (RunSelect) now where "a = RunSelect" "cs_run s = Delivering now" "\<not> head_due now (cs_heap s)"
      "s' = s\<lparr>cs_run := Selecting now\<rparr>"
  | (RunTake) now since item rest where "a = RunTake now" "cs_run s = Selecting since" "cs_updateChannel s = item # rest"
      "s' = s\<lparr>cs_updateChannel := rest, cs_heap := deliverer_update item (cs_heap s), cs_run := Delivering now\<rparr>"
  | (RunWake) now since where "a = RunWake now" "cs_run s = Selecting since" "nextWakeUp since (cs_heap s) \<le> now"
      "s' = s\<lparr>cs_run := Delivering now\<rparr>"
  | (RunStop) since where "a = RunStop" "cs_run s = Selecting since" "cs_stopped s" "s' = s\<lparr>cs_run := RunStopped\<rparr>"
  | (HandlerTake) item rest where "a = HandlerTake" "cs_handler s = HandlerIdle" "cs_targetChannel s = item # rest"
      "s' = s\<lparr>cs_targetChannel := rest, cs_handler := HandlerHas item\<rparr>"
  | (HandlerAdd) item where "a = HandlerAdd" "cs_handler s = HandlerHas item"
      "s' = s\<lparr>cs_workQueue := wq_Add item (cs_workQueue s), cs_handler := HandlerIdle\<rparr>"
  | (HandlerStop) "a = HandlerStop" "cs_handler s = HandlerIdle" "cs_stopped s" "s' = s\<lparr>cs_handler := HandlerStopped\<rparr>"
  | (WorkerGet) item q where "a = WorkerGet" "cs_worker s = WorkerIdle" "wq_Get (cs_workQueue s) = GetItem (item, q)"
      "s' = s\<lparr>cs_workQueue := q, cs_worker := WorkerHas item\<rparr>"
  | (WorkerQuit) "a = WorkerGet" "cs_worker s = WorkerIdle" "wq_Get (cs_workQueue s) = GetQuit"
      "s' = s\<lparr>cs_worker := WorkerStopped\<rparr>"
  | (WorkerDone) now item where "a = WorkerDone now None" "cs_worker s = WorkerHas item"
      "s' = s\<lparr>cs_workQueue := wq_Done item (cs_workQueue s), cs_worker := WorkerIdle\<rparr>"
  | (WorkerRetry) now d failed item item1 s2 where "a = WorkerDone now (Some (d, failed))" "cs_worker s = WorkerHas item"
      "deliver_item now (snd (it_Value item)) d failed (s\<lparr>cs_workQueue := wq_Done item (cs_workQueue s)\<rparr>) = (item1, s2)"
      "s' = s2\<lparr>cs_worker := WorkerSends item1\<rparr>"
  | (WorkerSend) item where "a = WorkerSend" "cs_worker s = WorkerSends item"
      "length (cs_updateChannel s) < updateChanCapacity"
      "s' = s\<lparr>cs_updateChannel := cs_updateChannel s @ [item], cs_worker := WorkerIdle\<rparr>"
  | (CollectBackoff) now where "a = CollectBackoff now" "s' = s\<lparr>cs_backoff := Backoff_GC now (cs_backoff s)\<rparr>"
  | (ShutDownQueue) "a = ShutDownQueue" "s' = s\<lparr>cs_workQueue := wq_ShutDown (cs_workQueue s)\<rparr>"
  | (StopDeliverer) "a = StopDeliverer" "wq_shuttingDown (cs_workQueue s)" "\<not> cs_stopped s" "s' = s\<lparr>cs_stopped := True\<rparr>"
proof (cases a)
  case Event: (Event now qn d)
  then show thesis using assms that(1) by (auto simp: controller_step_defs Let_def split: prod.splits if_splits)
next
  case RunPop
  then show thesis using assms that(2)
    by (auto simp: controller_step_def Let_def split: prod.splits if_splits run_pc.splits)
next
  case RunSelect
  then show thesis using assms that(3) by (auto simp: controller_step_def split: if_splits run_pc.splits)
next
  case (RunTake now)
  then show thesis using assms that(4) by (auto simp: controller_step_def split: list.splits run_pc.splits)
next
  case (RunWake now)
  then show thesis using assms that(5) by (auto simp: controller_step_def split: if_splits run_pc.splits)
next
  case RunStop
  then show thesis using assms that(6) by (auto simp: controller_step_def split: if_splits run_pc.splits)
next
  case HandlerTake
  then show thesis using assms that(7) by (auto simp: controller_step_def split: list.splits handler_pc.splits)
next
  case HandlerAdd
  then show thesis using assms that(8) by (auto simp: controller_step_def split: handler_pc.splits)
next
  case HandlerStop
  then show thesis using assms that(9) by (auto simp: controller_step_def split: if_splits)
next
  case WorkerGet
  then show thesis using assms that(10,11) by (auto simp: controller_step_def split: if_splits got.splits prod.splits)
next
  case (WorkerDone now decision)
  then show thesis using assms that(12,13)
    by (auto simp: controller_step_def Let_def split: worker_pc.splits option.splits prod.splits)
next
  case WorkerSend
  then show thesis using assms that(14) by (auto simp: controller_step_def split: if_splits worker_pc.splits)
next
  case (CollectBackoff now)
  then show thesis using assms that(15) by (auto simp: controller_step_defs)
next
  case ShutDownQueue
  then show thesis using assms that(16) by (auto simp: controller_step_def split: if_splits)
next
  case StopDeliverer
  then show thesis using assms that(17) by (auto simp: controller_step_def split: if_splits)
qed

end
