(* ===== verification/Run_Claims.thy ===== *)
theory Run_Claims
  imports Controller_Run
begin

section \<open>Properties of a running controller\<close>

text \<open>
  The invariant of every interleaving of a controller's goroutines, that no key gets lost on its way, that
  the pipeline drains when its goroutines are scheduled, and what stopping leaves behind.
\<close>

subsection \<open>The heap in terms of keys\<close>

lemma heap_keys_iff: "heap_ok dh \<Longrightarrow> k \<in> it_Key ` set (heap_data dh) \<longleftrightarrow> pending dh k \<noteq> None"
  using pending_None [of dh k] by auto

lemma queue_update_Some: "queue_update item q k = Some x \<Longrightarrow> x = item \<or> q k = Some x"
  by (cases "q (it_Key item)") (auto simp: queue_update_def split: if_splits)

lemma deliverer_update_keys:
  assumes "heap_ok dh"
  shows "it_Key ` set (heap_data (deliverer_update item dh)) = insert (it_Key item) (it_Key ` set (heap_data dh))"
    and "set (heap_data (deliverer_update item dh)) \<subseteq> insert item (set (heap_data dh))"
    and "length (heap_data (deliverer_update item dh)) \<le> Suc (length (heap_data dh))"
proof -
  note upd = dq.update [OF assms, of item]
  show keys: "it_Key ` set (heap_data (deliverer_update item dh)) = insert (it_Key item) (it_Key ` set (heap_data dh))"
    (is "?new = insert ?k ?old")
  proof (rule set_eqI)
    fix k
    have "k \<in> ?new \<longleftrightarrow> queue_update item (pending dh) k \<noteq> None"
      by (simp only: heap_keys_iff [OF upd(1)] upd(2))
    also have "\<dots> \<longleftrightarrow> k = ?k \<or> pending dh k \<noteq> None"
      by (cases "pending dh ?k") (simp_all add: queue_update_def)
    finally show "k \<in> ?new \<longleftrightarrow> k \<in> insert ?k ?old"
      by (simp only: heap_keys_iff [OF assms] insert_iff)
  qed
  show "set (heap_data (deliverer_update item dh)) \<subseteq> insert item (set (heap_data dh))"
  proof
    fix x
    assume "x \<in> set (heap_data (deliverer_update item dh))"
    then have "queue_update item (pending dh) (it_Key x) = Some x"
      using pending_iff [OF upd(1), of "it_Key x" x] upd(2) by simp
    then have "x = item \<or> pending dh (it_Key x) = Some x"
      by (rule queue_update_Some)
    then show "x \<in> insert item (set (heap_data dh))"
      using pending_iff [OF assms, of "it_Key x" x] by auto
  qed
  have size: "length (heap_data h) = card (it_Key ` set (heap_data h))" if "heap_ok h" for h :: "'a delivererHeap"
    using heap_keys_distinct [OF that] by (metis distinct_card length_map set_map)
  show "length (heap_data (deliverer_update item dh)) \<le> Suc (length (heap_data dh))"
    by (simp add: size [OF assms] size [OF upd(1)] keys card_insert_if)
qed

lemma deliver_item_facts:
  assumes "deliver_item now qn d failed s = (item, s1)"
  shows "it_Key item = qn_String qn" and "snd (it_Value item) = qn"
    and "\<exists>b n. s1 = s\<lparr>cs_backoff := b, cs_nextPointer := n\<rparr>"
  using assms by (auto simp: deliver_item_def Let_def)

subsection \<open>The invariant\<close>

definition controller_ok :: "controller_state \<Rightarrow> bool" where
  "controller_ok s \<longleftrightarrow> heap_ok (cs_heap s) \<and> wq_ok (cs_workQueue s) \<and> finite (wq_dirty (cs_workQueue s)) \<and>
     wq_processing (cs_workQueue s) = held_items (cs_worker s) \<and>
     (\<forall>item \<in> waiting_items s \<union> held_items (cs_worker s). it_Key item = qn_String (snd (it_Value item))) \<and>
     length (cs_updateChannel s) \<le> updateChanCapacity \<and> length (cs_targetChannel s) \<le> targetChanCapacity \<and>
     (cs_run s = RunStopped \<or> cs_handler s = HandlerStopped \<longrightarrow> cs_stopped s) \<and>
     (cs_stopped s \<or> cs_worker s = WorkerStopped \<longrightarrow> wq_shuttingDown (cs_workQueue s))"

lemma controller_ok_start: "controller_ok (controller_start now)"
  using dq.empty(1) wq.new(1)
  by (simp add: controller_ok_def controller_start_def waiting_items_def NewDelayingDeliverer_def wq_New_def)

lemma wq_Add_dirty: "wq_dirty (wq_Add i q) \<subseteq> insert i (wq_dirty q)"
  by (auto simp: wq_Add_def Let_def)

lemma controller_ok_step:
  assumes "controller_step a s = Some s'" and "controller_ok s"
  shows "controller_ok s'"
  using assms
proof (cases rule: controller_step_cases)
  case (RunPop now item dh)
  have "heap_data (cs_heap s) \<noteq> []" using RunPop(3) by (auto simp: head_due_def heap_Len_def)
  note pop = go_heap_Pop_facts [OF _ this RunPop(5)]
  have ok: "heap_ok (cs_heap s)" using assms(2) by (simp add: controller_ok_def)
  have "set (heap_data (cs_heap s)) = insert item (set (heap_data dh))"
    using pop(2) [OF ok] by (metis set_mset_add_mset_insert set_mset_mset)
  with pop(1) [OF ok] RunPop assms(2) show ?thesis
    by (auto simp: controller_ok_def waiting_items_def)
next
  case (RunTake now since item rest)
  have ok: "heap_ok (cs_heap s)" using assms(2) by (simp add: controller_ok_def)
  show ?thesis
    using RunTake assms(2) dq.update(1) [OF ok, of item] deliverer_update_keys(2) [OF ok, of item]
    by (auto simp: controller_ok_def waiting_items_def)
next
  case (HandlerAdd item)
  then show ?thesis
    using assms(2) wq.add [where q = "cs_workQueue s" and i = item] wq_Add_dirty [of item "cs_workQueue s"]
    by (auto simp: controller_ok_def waiting_items_def finite_subset)
next
  case (WorkerGet item q)
  then show ?thesis
    using assms(2) wq.get(1-4) [where q = "cs_workQueue s" and i = item and q' = q]
    by (auto simp: controller_ok_def waiting_items_def)
next
  case (WorkerDone now item)
  then show ?thesis
    using assms(2) wq.finish [where q = "cs_workQueue s" and i = item]
    by (auto simp: controller_ok_def waiting_items_def)
next
  case (WorkerRetry now d failed item item1 s2)
  obtain b n where "s2 = s\<lparr>cs_workQueue := wq_Done item (cs_workQueue s), cs_backoff := b, cs_nextPointer := n\<rparr>"
    using deliver_item_facts(3) [OF WorkerRetry(3)] by auto
  with WorkerRetry assms(2) wq.finish [where q = "cs_workQueue s" and i = item] deliver_item_facts(1,2) [OF WorkerRetry(3)]
  show ?thesis by (simp add: controller_ok_def waiting_items_def)
next
  case (Event now qn d item s1)
  obtain b n where "s1 = s\<lparr>cs_backoff := b, cs_nextPointer := n\<rparr>"
    using deliver_item_facts(3) [OF Event(3)] by auto
  with Event assms(2) deliver_item_facts(1,2) [OF Event(3)]
  show ?thesis by (simp add: controller_ok_def waiting_items_def)
next
  case ShutDownQueue
  then show ?thesis
    using assms(2) wq.shut [where q = "cs_workQueue s"] by (auto simp: controller_ok_def waiting_items_def)
next
  case WorkerQuit
  then show ?thesis using assms(2) by (simp add: controller_ok_def waiting_items_def wq_Get_idle)
qed (auto simp: controller_ok_def waiting_items_def)

lemma controller_ok_exec: "controller_exec as s = Some s' \<Longrightarrow> controller_ok s \<Longrightarrow> controller_ok s'"
  by (induction as arbitrary: s) (auto split: option.splits intro: controller_ok_step)

lemmas controller_reached_ok = controller_ok_exec [OF _ controller_ok_start]

subsection \<open>No key is lost\<close>

text \<open>A step keeps every waiting key, unless the worker takes it or the controller is being stopped.\<close>

lemma waiting_step:
  assumes "controller_step a s = Some s'" and "controller_ok s" and "k \<in> waiting s"
    and "\<not> wq_shuttingDown (cs_workQueue s)"
  shows "k \<in> waiting s' \<or> a = WorkerGet \<and> (\<exists>item. cs_worker s' = WorkerHas item \<and> it_Key item = k)"
  using assms(1)
proof (cases rule: controller_step_cases)
  case (Event now qn d item s1)
  obtain b n where "s1 = s\<lparr>cs_backoff := b, cs_nextPointer := n\<rparr>"
    using deliver_item_facts(3) [OF Event(3)] by auto
  with Event assms(3) show ?thesis by (auto simp: waiting_def waiting_items_def)
next
  case (RunPop now item dh)
  have "heap_data (cs_heap s) \<noteq> []" using RunPop(3) by (auto simp: head_due_def heap_Len_def)
  note pop = go_heap_Pop_facts(2) [OF _ this RunPop(5)]
  have "set (heap_data (cs_heap s)) = insert item (set (heap_data dh))"
    using pop assms(2) by (metis controller_ok_def set_mset_add_mset_insert set_mset_mset)
  with RunPop assms(3) show ?thesis by (auto simp: waiting_def waiting_items_def)
next
  case (RunTake now since item rest)
  have ok: "heap_ok (cs_heap s)" using assms(2) by (simp add: controller_ok_def)
  show ?thesis
    using RunTake assms(3) deliverer_update_keys(1) [OF ok, of item]
    by (simp add: waiting_def waiting_items_def image_Un)
next
  case (HandlerAdd item)
  then show ?thesis
    using assms(2-4) wq.add(2) [where q = "cs_workQueue s" and i = item]
    by (auto simp: waiting_def waiting_items_def controller_ok_def)
next
  case (WorkerGet item q)
  then show ?thesis
    using assms(3) wq.get(3) [OF WorkerGet(3)] by (auto simp: waiting_def waiting_items_def)
next
  case (WorkerDone now item)
  then show ?thesis
    using assms(3) by (auto simp: waiting_def waiting_items_def wq.finish(2))
next
  case (WorkerRetry now d failed item item1 s2)
  obtain b n where "s2 = s\<lparr>cs_workQueue := wq_Done item (cs_workQueue s), cs_backoff := b, cs_nextPointer := n\<rparr>"
    using deliver_item_facts(3) [OF WorkerRetry(3)] by auto
  with WorkerRetry assms(3) show ?thesis by (auto simp: waiting_def waiting_items_def wq.finish(2))
next
  case ShutDownQueue
  then show ?thesis using assms(3) by (auto simp: waiting_def waiting_items_def wq.shut(2))
next
  case WorkerQuit
  then show ?thesis using assms(4) by (simp add: wq_Get_idle)
qed (use assms(3) in \<open>auto simp: waiting_def waiting_items_def\<close>)

text \<open>The queue stays shut down.\<close>

lemma shuttingDown_step:
  assumes "controller_step a s = Some s'" and "wq_shuttingDown (cs_workQueue s)"
  shows "wq_shuttingDown (cs_workQueue s')"
  using assms(1)
proof (cases rule: controller_step_cases)
  case (Event now qn d item s1)
  obtain b n where "s1 = s\<lparr>cs_backoff := b, cs_nextPointer := n\<rparr>"
    using deliver_item_facts(3) [OF Event(3)] by auto
  with Event assms(2) show ?thesis by simp
next
  case (WorkerRetry now d failed item item1 s2)
  obtain b n where "s2 = s\<lparr>cs_workQueue := wq_Done item (cs_workQueue s), cs_backoff := b, cs_nextPointer := n\<rparr>"
    using deliver_item_facts(3) [OF WorkerRetry(3)] by auto
  with WorkerRetry assms(2) show ?thesis by (simp add: wq.finish)
next
  case (WorkerGet item q)
  then show ?thesis using assms(2) wq.get(4) [OF WorkerGet(3)] by simp
qed (use assms(2) in \<open>simp_all add: wq.add wq.finish wq.shut\<close>)

lemma shuttingDown_exec:
  "controller_exec as s = Some s' \<Longrightarrow> wq_shuttingDown (cs_workQueue s) \<Longrightarrow> wq_shuttingDown (cs_workQueue s')"
  by (induction as arbitrary: s) (auto split: option.splits intro: shuttingDown_step)

lemma waiting_exec:
  assumes "controller_exec as s = Some s'" and "controller_ok s" and "k \<in> waiting s"
    and "\<not> wq_shuttingDown (cs_workQueue s')"
  shows "k \<in> waiting s' \<or> k \<in> qn_String ` set (reconciles as s)"
  using assms(1-3)
proof (induction as arbitrary: s)
  case (Cons a as)
  obtain s1 where s1: "controller_step a s = Some s1" "controller_exec as s1 = Some s'"
    using Cons.prems(1) by (auto split: option.splits)
  note ok = controller_ok_step [OF s1(1) Cons.prems(2)]
  have "\<not> wq_shuttingDown (cs_workQueue s)"
    using shuttingDown_exec [OF Cons.prems(1)] assms(4) by blast
  from waiting_step [OF s1(1) Cons.prems(2,3) this] show ?case
  proof
    assume "k \<in> waiting s1"
    from Cons.IH [OF s1(2) ok this] show ?thesis by (auto simp: s1(1))
  next
    assume "a = WorkerGet \<and> (\<exists>item. cs_worker s1 = WorkerHas item \<and> it_Key item = k)"
    then obtain item where item: "a = WorkerGet" "cs_worker s1 = WorkerHas item" "it_Key item = k" by blast
    then have "k = qn_String (snd (it_Value item))" using ok by (auto simp: controller_ok_def)
    with item s1(1) show ?thesis by simp
  qed
qed simp

text \<open>
  The actions that make a name due: an event of an informer or of a cluster, and a reconciliation
  that did not finish it.
\<close>

definition makes_due :: "action \<Rightarrow> controller_state \<Rightarrow> QualifiedName \<Rightarrow> bool" where
  "makes_due a s qn \<longleftrightarrow>
     (case a of
        Event now name d \<Rightarrow> name = qn
      | WorkerDone now (Some r) \<Rightarrow> (case cs_worker s of WorkerHas item \<Rightarrow> snd (it_Value item) = qn | _ \<Rightarrow> False)
      | _ \<Rightarrow> False)"

lemma makes_due_waiting:
  assumes "controller_step a s = Some s'" and "makes_due a s qn"
  shows "qn_String qn \<in> waiting s'"
  using assms(1)
proof (cases rule: controller_step_cases)
  case (Event now name d item s1)
  then show ?thesis
    using assms(2) deliver_item_facts [OF Event(3)] by (auto simp: waiting_def waiting_items_def makes_due_def)
next
  case (WorkerRetry now d failed item item1 s2)
  then show ?thesis
    using assms(2) deliver_item_facts [OF WorkerRetry(3)] by (auto simp: waiting_def waiting_items_def makes_due_def)
qed (use assms(2) in \<open>simp_all add: makes_due_def\<close>)

text \<open>
  C4. No change is missed: in every interleaving of the goroutines of a running controller, a name that an
  event made due, or that a reconciliation left unfinished, is still on its way to the worker, or
  it was reconciled again by a reconciliation that began afterwards, as long as the
  controller is not being stopped.
\<close>

theorem no_lost_wakeup:
  assumes "controller_exec before (controller_start t) = Some s" and "controller_step a s = Some s1"
    and "makes_due a s qn" and "controller_exec after s1 = Some s2" and "\<not> wq_shuttingDown (cs_workQueue s2)"
  shows "qn_String qn \<in> waiting s2 \<or> qn_String qn \<in> qn_String ` set (reconciles after s1)"
  using waiting_exec [OF assms(4) controller_ok_step [OF assms(2) controller_reached_ok [OF assms(1)]]
      makes_due_waiting [OF assms(2,3)] assms(5)] .

text \<open>One event on its way to the worker, and an event during its reconciliation, which is retried.\<close>

definition demo_name :: QualifiedName where
  "demo_name = \<lparr>qn_Namespace = ''ns'', qn_Name = ''web''\<rparr>"

definition demo_travel :: "action list" where
  "demo_travel = [RunSelect, RunTake 0, RunPop, HandlerTake, HandlerAdd, WorkerGet]"

lemma demo_travel_run:
  "map_option (\<lambda>s. (wq_shuttingDown (cs_workQueue s), waiting_items s)) (controller_exec (Event 0 demo_name 0 # demo_travel) (controller_start 0))
     = Some (False, {})"
  by code_simp

theorem no_lost_wakeup_witness:
  "''ns/web'' \<in> qn_String ` set (reconciles demo_travel (the (controller_step (Event 0 demo_name 0) (controller_start 0))))"
proof -
  obtain s1 where s1: "controller_step (Event 0 demo_name 0) (controller_start 0) = Some s1"
    using demo_travel_run by (auto split: option.splits)
  then obtain s2 where s2: "controller_exec demo_travel s1 = Some s2" "\<not> wq_shuttingDown (cs_workQueue s2)" "waiting_items s2 = {}"
    using demo_travel_run by auto
  have start: "controller_exec [] (controller_start 0) = Some (controller_start 0)" by simp
  have due: "makes_due (Event 0 demo_name 0) (controller_start 0) demo_name" by (simp add: makes_due_def)
  have "qn_String demo_name = ''ns/web''" by code_simp
  with no_lost_wakeup [OF start s1 due s2(1,2)] show ?thesis by (simp add: s1 s2(3) waiting_def)
qed

subsection \<open>The pipeline drains\<close>

text \<open>
  The steps of a controller left alone: no new events, every reconciliation finishes its name, and
  the timer only counts when there is something to wait for.
\<close>

fun quiet :: "action \<Rightarrow> controller_state \<Rightarrow> bool" where
  "quiet (Event now qn d) s = False"
| "quiet (RunWake now) s = (0 < heap_Len (cs_heap s))"
| "quiet RunStop s = False"
| "quiet HandlerStop s = False"
| "quiet (WorkerDone now decision) s = (decision = None)"
| "quiet (CollectBackoff now) s = False"
| "quiet ShutDownQueue s = False"
| "quiet StopDeliverer s = False"
| "quiet _ s = True"

fun quiet_exec :: "action list \<Rightarrow> controller_state \<Rightarrow> controller_state option" where
  "quiet_exec [] s = Some s"
| "quiet_exec (a # as) s =
     (if quiet a s then (case controller_step a s of None \<Rightarrow> None | Some s1 \<Rightarrow> quiet_exec as s1) else None)"

definition run_phase :: "controller_state \<Rightarrow> nat" where
  "run_phase s = (case cs_run s of
     Delivering now \<Rightarrow> if head_due now (cs_heap s) then 0 else 2 | Selecting _ \<Rightarrow> 1 | RunStopped \<Rightarrow> 0)"

text \<open>How many steps are left, at most.\<close>

definition work_left :: "controller_state \<Rightarrow> nat" where
  "work_left s = 11 * length (cs_updateChannel s) + 9 * length (heap_data (cs_heap s)) + 5 * length (cs_targetChannel s) +
     4 * card (handler_items (cs_handler s)) + 3 * card (wq_dirty (cs_workQueue s)) + 2 * card (held_items (cs_worker s)) +
     12 * card (sent_items (cs_worker s)) + run_phase s"

lemma run_phase_le: "run_phase s \<le> 2"
  by (simp add: run_phase_def split: run_pc.split)

lemma work_left_decreases:
  assumes "controller_step a s = Some s'" and "quiet a s" and "controller_ok s" and "\<not> wq_shuttingDown (cs_workQueue s)"
  shows "work_left s' < work_left s \<and> \<not> wq_shuttingDown (cs_workQueue s')"
  using assms(1)
proof (cases rule: controller_step_cases)
  case (RunPop now item dh)
  have ne: "heap_data (cs_heap s) \<noteq> []" using RunPop(3) by (auto simp: head_due_def heap_Len_def)
  have "heap_ok (cs_heap s)" using assms(3) by (simp add: controller_ok_def)
  from go_heap_Pop_facts(5) [OF this ne RunPop(5)] ne
  have "length (heap_data (cs_heap s)) = Suc (length (heap_data dh))" by (cases "heap_data (cs_heap s)") simp_all
  then show ?thesis
    using RunPop run_phase_le [of s'] assms(4) by (simp add: work_left_def)
next
  case (RunTake now since item rest)
  have "heap_ok (cs_heap s)" using assms(3) by (simp add: controller_ok_def)
  note deliverer_update_keys(3) [OF this, of item]
  moreover have "run_phase s = 1" using RunTake by (simp add: run_phase_def)
  ultimately show ?thesis
    using RunTake run_phase_le [of s'] assms(4) by (simp add: work_left_def)
next
  case (RunWake now since)
  then show ?thesis
    using assms(2,4) by (simp add: work_left_def run_phase_def nextWakeUp_def head_due_def)
next
  case (RunSelect now)
  then show ?thesis using assms(4) by (simp add: work_left_def run_phase_def)
next
  case (HandlerAdd item)
  have "card (wq_dirty (wq_Add item (cs_workQueue s))) \<le> Suc (card (wq_dirty (cs_workQueue s)))"
    using assms(3,4) by (simp add: controller_ok_def wq.add(2) card_insert_if)
  moreover have "run_phase s' = run_phase s" using HandlerAdd by (simp add: run_phase_def split: run_pc.split)
  ultimately show ?thesis using HandlerAdd assms(4) by (simp add: work_left_def wq.add(4))
next
  case (WorkerGet item q)
  have "card (wq_dirty (cs_workQueue s)) = Suc (card (wq_dirty q))"
    unfolding wq.get(3) [OF WorkerGet(3)]
    using assms(3) wq.get(2) [OF _ WorkerGet(3)] by (subst card.remove [of _ item]) (simp_all add: controller_ok_def)
  moreover have "run_phase s' = run_phase s" using WorkerGet by (simp add: run_phase_def split: run_pc.split)
  ultimately show ?thesis using WorkerGet assms(4) wq.get(4) [OF WorkerGet(3)] by (simp add: work_left_def)
next
  case WorkerQuit
  then show ?thesis using assms(4) by (simp add: wq_Get_idle)
qed (use assms(2,4) in \<open>simp_all add: work_left_def run_phase_def wq.finish(2,4) split: run_pc.split\<close>)

text \<open>As long as something waits or is held, a goroutine can take a step.\<close>

definition drained :: "controller_state \<Rightarrow> bool" where
  "drained s \<longleftrightarrow> waiting_items s = {} \<and> held_items (cs_worker s) = {}"

lemma consumers_progress:
  assumes "controller_ok s" and "\<not> wq_shuttingDown (cs_workQueue s)" and "cs_targetChannel s \<noteq> [] \<or> handler_items (cs_handler s) \<noteq> {}"
  shows "\<exists>a. quiet a s \<and> controller_step a s \<noteq> None"
proof (cases "cs_handler s")
  case HandlerIdle
  with assms(3) have "controller_step HandlerTake s \<noteq> None"
    by (cases "cs_targetChannel s") (simp_all add: controller_step_def)
  then show ?thesis by (intro exI [of _ HandlerTake]) simp
next
  case (HandlerHas item)
  then have "controller_step HandlerAdd s \<noteq> None" by (simp add: controller_step_def)
  then show ?thesis by (intro exI [of _ HandlerAdd]) simp
next
  case HandlerStopped
  then show ?thesis using assms(1,2) by (auto simp: controller_ok_def)
qed

lemma deliverer_progress:
  assumes "controller_ok s" and "\<not> wq_shuttingDown (cs_workQueue s)" and "cs_updateChannel s \<noteq> [] \<or> heap_data (cs_heap s) \<noteq> []"
  shows "\<exists>a. quiet a s \<and> controller_step a s \<noteq> None"
proof (cases "cs_run s")
  case (Delivering now)
  show ?thesis
  proof (cases "head_due now (cs_heap s)")
    case True
    show ?thesis
    proof (cases "length (cs_targetChannel s) < targetChanCapacity")
      case False
      then have "cs_targetChannel s \<noteq> []" by (auto simp: targetChanCapacity_def)
      then show ?thesis by (intro consumers_progress [OF assms(1,2)]) simp
    next
      case room: True
      with True Delivering have "controller_step RunPop s \<noteq> None"
        by (simp add: controller_step_def Let_def split: prod.split)
      then show ?thesis by (intro exI [of _ RunPop]) simp
    qed
  next
    case False
    with Delivering have "controller_step RunSelect s \<noteq> None" by (simp add: controller_step_def)
    then show ?thesis by (intro exI [of _ RunSelect]) simp
  qed
next
  case (Selecting since)
  show ?thesis
  proof (cases "cs_updateChannel s")
    case (Cons item rest)
    with Selecting have "controller_step (RunTake since) s \<noteq> None" by (simp add: controller_step_def)
    then show ?thesis by (intro exI [of _ "RunTake since"]) simp
  next
    case Nil
    with Selecting have "controller_step (RunWake (nextWakeUp since (cs_heap s))) s \<noteq> None"
      by (simp add: controller_step_def)
    with Nil assms(3) show ?thesis
      by (intro exI [of _ "RunWake (nextWakeUp since (cs_heap s))"]) (simp add: heap_Len_def)
  qed
next
  case RunStopped
  then show ?thesis using assms(1,2) by (auto simp: controller_ok_def)
qed

lemma controller_progress:
  assumes "controller_ok s" and "\<not> wq_shuttingDown (cs_workQueue s)" and "\<not> drained s"
  shows "\<exists>a. quiet a s \<and> controller_step a s \<noteq> None"
proof (cases "cs_worker s")
  case (WorkerHas item)
  then have "controller_step (WorkerDone 0 None) s \<noteq> None" by (simp add: controller_step_def Let_def)
  then show ?thesis by (intro exI [of _ "WorkerDone 0 None"]) simp
next
  case (WorkerSends item)
  show ?thesis
  proof (cases "length (cs_updateChannel s) < updateChanCapacity")
    case True
    with WorkerSends have "controller_step WorkerSend s \<noteq> None" by (simp add: controller_step_def)
    then show ?thesis by (intro exI [of _ WorkerSend]) simp
  next
    case False
    then have "cs_updateChannel s \<noteq> []" by (auto simp: updateChanCapacity_def)
    then show ?thesis by (intro deliverer_progress [OF assms(1,2)]) simp
  qed
next
  case WorkerStopped
  then show ?thesis using assms(1,2) by (auto simp: controller_ok_def)
next
  case WorkerIdle
  show ?thesis
  proof (cases "wq_queue (cs_workQueue s)")
    case (Cons item rest)
    then have "controller_step WorkerGet s \<noteq> None"
      using WorkerIdle by (simp add: controller_step_def wq_Get_def)
    then show ?thesis by (intro exI [of _ WorkerGet]) simp
  next
    case Nil
    then have "wq_dirty (cs_workQueue s) = {}"
      using assms(1) WorkerIdle by (auto simp: controller_ok_def wq_ok_def)
    with WorkerIdle assms(3) consumers_progress [OF assms(1,2)] deliverer_progress [OF assms(1,2)]
    show ?thesis by (auto simp: drained_def waiting_items_def)
  qed
qed

lemma quiet_exec_facts:
  assumes "quiet_exec as s = Some s'" and "controller_ok s" and "\<not> wq_shuttingDown (cs_workQueue s)"
  shows "controller_ok s' \<and> \<not> wq_shuttingDown (cs_workQueue s') \<and> length as + work_left s' \<le> work_left s"
  using assms
proof (induction as arbitrary: s)
  case (Cons a as)
  obtain s1 where s1: "quiet a s" "controller_step a s = Some s1" "quiet_exec as s1 = Some s'"
    using Cons.prems(1) by (auto split: option.splits if_splits)
  note d = work_left_decreases [OF s1(2,1) Cons.prems(2,3)]
  from Cons.IH [OF s1(3) controller_ok_step [OF s1(2) Cons.prems(2)]] d show ?case by simp
qed simp

text \<open>
  C8. The pipeline drains: from every state a controller reaches before it is stopped, when no
  more events arrive and reconciliations finish their names, its goroutines take at most
  \<open>work_left\<close> steps, however they are interleaved, and are never stuck before every key has
  left the channels, the heap, the work queue and the worker.
\<close>

theorem controller_drains:
  assumes "controller_exec before (controller_start t) = Some s" and "\<not> wq_shuttingDown (cs_workQueue s)"
    and "quiet_exec as s = Some s'"
  shows "length as \<le> work_left s \<and> ((\<forall>a. quiet a s' \<longrightarrow> controller_step a s' = None) \<longrightarrow> drained s')"
proof -
  note f = quiet_exec_facts [OF assms(3) controller_reached_ok [OF assms(1)] assms(2)]
  then have "drained s' \<or> (\<exists>a. quiet a s' \<and> controller_step a s' \<noteq> None)"
    using controller_progress by blast
  with f show ?thesis by auto
qed

theorem controller_drains_witness:
  "\<exists>s s'. controller_exec [Event 0 demo_name 0] (controller_start 0) = Some s \<and> quiet_exec (demo_travel @ [WorkerDone 0 None]) s = Some s' \<and>
     7 \<le> work_left s"
proof -
  have "controller_exec [Event 0 demo_name 0] (controller_start 0) \<noteq> None" by code_simp
  then obtain s where s: "controller_exec [Event 0 demo_name 0] (controller_start 0) = Some s" by blast
  have "map_option (\<lambda>s. (wq_shuttingDown (cs_workQueue s), quiet_exec (demo_travel @ [WorkerDone 0 None]) s = None))
      (controller_exec [Event 0 demo_name 0] (controller_start 0)) = Some (False, False)" by code_simp
  then obtain s' where s': "\<not> wq_shuttingDown (cs_workQueue s)" "quiet_exec (demo_travel @ [WorkerDone 0 None]) s = Some s'"
    unfolding s by auto
  have "length (demo_travel @ [WorkerDone 0 None]) = 7" by (simp add: demo_travel_def)
  with controller_drains [OF s s'] have "7 \<le> work_left s" by linarith
  with s s'(2) show ?thesis by blast
qed

subsection \<open>Stopping\<close>

text \<open>
  A stop can leave the main goroutine of the deliverer behind: when more than a hundred items are
  due, it waits for room in the target channel, and nobody makes room once the handler's goroutine took the
  stop. It never sees the stop channel again.
\<close>

definition stuck :: "controller_state \<Rightarrow> bool" where
  "stuck s \<longleftrightarrow> (\<exists>now. cs_run s = Delivering now \<and> head_due now (cs_heap s)) \<and>
     length (cs_targetChannel s) = targetChanCapacity \<and> cs_handler s = HandlerStopped"

lemma stuck_step:
  assumes "controller_step a s = Some s'" and "stuck s"
  shows "stuck s'"
  using assms(1)
proof (cases rule: controller_step_cases)
  case (Event now qn d item s1)
  then show ?thesis using assms(2) deliver_item_facts(3) [OF Event(3)] by (auto simp: stuck_def)
next
  case (WorkerRetry now d failed item item1 s2)
  then show ?thesis using assms(2) deliver_item_facts(3) [OF WorkerRetry(3)] by (auto simp: stuck_def)
qed (use assms(2) in \<open>auto simp: stuck_def\<close>)

lemma stuck_exec: "controller_exec as s = Some s' \<Longrightarrow> stuck s \<Longrightarrow> stuck s'"
  by (induction as arbitrary: s) (auto split: option.splits intro: stuck_step)

lemma controller_exec_append:
  "controller_exec (as @ bs) s = (case controller_exec as s of None \<Rightarrow> None | Some s1 \<Rightarrow> controller_exec bs s1)"
  by (induction as arbitrary: s) (auto split: option.split)

text \<open>A burst of events that are due at once and not yet taken by the handler.\<close>

definition burst :: "action list" where
  "burst = [Event 0 demo_name 0, RunTake 0, RunPop, RunSelect]"

definition filled :: "nat \<Rightarrow> controller_state \<Rightarrow> bool" where
  "filled n s \<longleftrightarrow> cs_updateChannel s = [] \<and> cs_heap s = NewDelayingDeliverer \<and> cs_run s = Selecting 0 \<and>
     length (cs_targetChannel s) = n \<and> cs_handler s = HandlerIdle \<and> \<not> cs_stopped s \<and> \<not> wq_shuttingDown (cs_workQueue s)"

lemma heap_up_0: "heap_up 0 dh = dh"
  by (subst heap_up.simps) (simp add: Let_def)

lemma heap_down_0: "heap_down 0 i dh = (dh, i)"
  by (subst heap_down.simps) simp

lemma single_heap:
  "deliverer_update item NewDelayingDeliverer = \<lparr>keyPosition = [(it_Key item, 0)], heap_data = [item]\<rparr>"
  by (simp add: deliverer_update_def NewDelayingDeliverer_def go_heap_Push_def heap_Push_def heap_up_0 heap_Len_def)

lemma single_heap_Pop:
  "k = it_Key item \<Longrightarrow> go_heap_Pop \<lparr>keyPosition = [(k, 0)], heap_data = [item]\<rparr> = (item, NewDelayingDeliverer)"
  by (simp add: go_heap_Pop_def heap_Pop_def heap_Swap_def heap_down_0 heap_Len_def NewDelayingDeliverer_def)

lemma empty_heap [simp]: "heap_data NewDelayingDeliverer = []"
  by (simp add: NewDelayingDeliverer_def)

lemma burst_fills:
  assumes "filled n s" and "n < targetChanCapacity"
  shows "\<exists>s'. controller_exec burst s = Some s' \<and> filled (Suc n) s'"
  using assms
  by (auto simp: burst_def filled_def controller_step_defs deliver_item_def single_heap single_heap_Pop head_due_def
      heap_Len_def updateChanCapacity_def Let_def)

lemma bursts_fill:
  "n \<le> targetChanCapacity \<Longrightarrow> \<exists>s. controller_exec (RunSelect # concat (replicate n burst)) (controller_start 0) = Some s \<and> filled n s"
proof (induction n)
  case 0
  show ?case
    by (simp add: controller_step_def controller_start_def filled_def head_due_def heap_Len_def NewDelayingDeliverer_def wq_New_def)
next
  case (Suc n)
  then obtain s where s: "controller_exec (RunSelect # concat (replicate n burst)) (controller_start 0) = Some s" "filled n s"
    by auto
  obtain s' where s': "controller_exec burst s = Some s'" "filled (Suc n) s'"
    using burst_fills [OF s(2)] Suc.prems by auto
  have "concat (replicate (Suc n) burst) = concat (replicate n burst) @ burst"
    by (metis concat.simps(1) concat.simps(2) append_Nil2 concat_append replicate_Suc replicate_append_same)
  with s s' show ?case
    by (metis (no_types, lifting) append_Cons controller_exec_append option.simps(5))
qed

lemma stop_leaks:
  obtains as s where "controller_exec as (controller_start 0) = Some s" and "cs_stopped s"
    and "\<And>bs s'. controller_exec bs s = Some s' \<Longrightarrow> cs_run s' \<noteq> RunStopped"
proof -
  obtain s where s: "controller_exec (RunSelect # concat (replicate targetChanCapacity burst)) (controller_start 0) = Some s"
    "filled targetChanCapacity s"
    using bursts_fill by blast
  let ?stop = "[Event 0 demo_name 0, RunTake 0, ShutDownQueue, StopDeliverer, HandlerStop]"
  have "\<exists>s1. controller_exec ?stop s = Some s1 \<and> stuck s1 \<and> cs_stopped s1"
    using s(2)
    by (auto simp: filled_def stuck_def controller_step_defs deliver_item_def single_heap head_due_def
        heap_Len_def updateChanCapacity_def wq_ShutDown_def Let_def)
  then obtain s1 where s1: "controller_exec ?stop s = Some s1" "stuck s1" "cs_stopped s1" by blast
  show thesis
  proof (rule that)
    show "controller_exec ((RunSelect # concat (replicate targetChanCapacity burst)) @ ?stop) (controller_start 0) = Some s1"
      using s(1) s1(1) by (simp only: controller_exec_append option.simps)
    show "cs_run s' \<noteq> RunStopped" if "controller_exec bs s1 = Some s'" for bs s'
      using stuck_exec [OF that s1(2)] by (auto simp: stuck_def)
  qed (rule s1(3))
qed

subsection \<open>More than one worker\<close>

text \<open>
  The source plans for more workers, but the queue would not keep them off the same name: it compares
  pointers, and two deliveries of a name are two items.
\<close>

lemma two_workers_one_name:
  obtains q owed and item1 item2 :: work_item where "wq.run q [item2, item1] owed"
    and "snd (it_Value item1) = snd (it_Value item2)"
proof -
  let ?item = "\<lambda>n. \<lparr>it_Key = ''ns/web'', it_Value = (n, demo_name), it_DeliveryTime = 0\<rparr> :: work_item"
  have ne: "?item 0 \<noteq> ?item 1" by simp
  let ?q = "wq_Add (?item 1) (wq_Add (?item 0) wq_New)"
  have a: "wq.run ?q [] {?item 1, ?item 0}"
    by (intro wq.run_add_open wq.run.start) (simp_all add: wq.new wq.add)
  have "wq_queue ?q = [?item 0, ?item 1]" by (simp add: wq_New_def wq_Add_def Let_def)
  then obtain q1 where q1: "wq_Get ?q = GetItem (?item 0, q1)" by (simp add: wq_Get_def)
  then have "wq_queue q1 = [?item 1]" using wq_GetItem(1) [OF q1] \<open>wq_queue ?q = _\<close> by simp
  then obtain q2 where q2: "wq_Get q1 = GetItem (?item 1, q2)" by (simp add: wq_Get_def)
  show thesis by (rule that [OF wq.run.got [OF wq.run.got [OF a q1] q2]]) simp
qed

end
