(* ===== verification/Manager.thy ===== *)
theory Manager
  imports Util_Meta
begin

section \<open>The controller manager\<close>

text \<open>
  \<open>cmd/controller-manager/main.go\<close> with \<open>pkg/features\<close>, \<open>pkg/inject/inject.go\<close> and the feature gates of
  \<open>vendor/k8s.io/apiserver/pkg/util/feature\<close>: which controllers a manager starts, in which order, and what
  ends it. Reading the client configuration, starting a controller, installing the resource definitions and
  the functions that inject informers are parameters that return an error or not. The equivalence of secrets and
  of config maps is at the end.
\<close>

subsection \<open>Feature gates\<close>

datatype prerelease = Alpha | Beta | GA | Deprecated

record FeatureSpec =
  fs_Default :: bool
  fs_PreRelease :: prerelease

record featureGate =
  fg_known :: "(string, FeatureSpec) gomap"
  fg_enabled :: "(string, bool) gomap"
  fg_closed :: bool

definition allAlphaGate :: string where
  "allAlphaGate = ''AllAlpha''"

definition NewFeatureGate :: featureGate where
  "NewFeatureGate = \<lparr>fg_known = [(allAlphaGate, \<lparr>fs_Default = False, fs_PreRelease = Alpha\<rparr>)],
     fg_enabled = [], fg_closed = False\<rparr>"

definition setUnsetAlphaGates :: "(string, FeatureSpec) gomap \<Rightarrow> bool \<Rightarrow> (string, bool) gomap \<Rightarrow> (string, bool) gomap" where
  "setUnsetAlphaGates known val enabled =
     foldl (\<lambda>enabled (k, v).
         if fs_PreRelease v = Alpha then (if mget enabled k = None then mput k val enabled else enabled) else enabled)
       enabled known"

fun set_gates :: "(string, FeatureSpec) gomap \<Rightarrow> (string, bool) gomap \<Rightarrow> (string, bool) gomap
    \<Rightarrow> (string, bool) gomap go_result" where
  "set_gates known [] enabled = Inr enabled"
| "set_gates known ((k, v) # m) enabled =
     (if mget known k = None then Inl (ErrOther (''unrecognized key: '' @ k))
      else (let enabled1 = mput k v enabled
            in set_gates known m (if k = allAlphaGate then setUnsetAlphaGates known v enabled1 else enabled1)))"

definition SetFromMap :: "(string, bool) gomap \<Rightarrow> featureGate \<Rightarrow> go_error option \<times> featureGate" where
  "SetFromMap m f =
     (case set_gates (fg_known f) m (fg_enabled f) of
        Inl e \<Rightarrow> (Some e, f)
      | Inr enabled \<Rightarrow> (None, f\<lparr>fg_enabled := enabled\<rparr>))"

fun add_features :: "(string, FeatureSpec) gomap \<Rightarrow> (string, FeatureSpec) gomap \<Rightarrow> (string, FeatureSpec) gomap go_result" where
  "add_features [] known = Inr known"
| "add_features ((name, spec) # features) known =
     (case mget known name of
        Some existingSpec \<Rightarrow>
          if existingSpec = spec then add_features features known
          else Inl (ErrOther (''feature gate '' @ name @ '' with different spec already exists''))
      | None \<Rightarrow> add_features features (mput name spec known))"

definition gate_Add :: "(string, FeatureSpec) gomap \<Rightarrow> featureGate \<Rightarrow> go_error option \<times> featureGate" where
  "gate_Add features f =
     (if fg_closed f then (Some (ErrOther ''cannot add a feature gate after adding it to the flag set''), f)
      else (case add_features features (fg_known f) of
              Inl e \<Rightarrow> (Some e, f)
            | Inr known \<Rightarrow> (None, f\<lparr>fg_known := known\<rparr>)))"

definition Enabled :: "string \<Rightarrow> featureGate \<Rightarrow> bool" where
  "Enabled key f =
     (case mget (fg_enabled f) key of
        Some v \<Rightarrow> v
      | None \<Rightarrow> (case mget (fg_known f) key of Some spec \<Rightarrow> fs_Default spec | None \<Rightarrow> False))"

subsection \<open>The features of the federation\<close>

definition PushReconciler :: string where
  "PushReconciler = ''PushReconciler''"

definition SchedulerPreferences :: string where
  "SchedulerPreferences = ''SchedulerPreferences''"

definition CrossClusterServiceDiscovery :: string where
  "CrossClusterServiceDiscovery = ''CrossClusterServiceDiscovery''"

definition defaultFederationFeatureGates :: "(string, FeatureSpec) gomap" where
  "defaultFederationFeatureGates =
     [(SchedulerPreferences, \<lparr>fs_Default = True, fs_PreRelease = Alpha\<rparr>),
      (PushReconciler, \<lparr>fs_Default = True, fs_PreRelease = Alpha\<rparr>),
      (CrossClusterServiceDiscovery, \<lparr>fs_Default = True, fs_PreRelease = Alpha\<rparr>)]"

text \<open>The package's \<open>init\<close>, which drops the error.\<close>

definition features_init :: "featureGate \<Rightarrow> featureGate" where
  "features_init gate = snd (gate_Add defaultFederationFeatureGates gate)"

subsection \<open>The manager\<close>

datatype manager_action =
    InstallCRDs
  | StartClusterController int
  | StartReplicaSchedulingPreferenceController bool
  | StartDNSController bool
  | RunInject nat
  | ProvideTypeController
  | RunInjector

text \<open>How \<open>main\<close> ends up: killed by \<open>log.Fatalf\<close>, or blocked in its last \<open>select\<close> with the controllers running.\<close>

datatype manager_outcome = Fatal string | Serving

record manager_env =
  me_featureGates :: "(string, bool) gomap"
  me_config :: "go_error option"
  me_installCRDs :: bool
  me_install :: "go_error option"
  me_startScheduling :: "go_error option"
  me_startDNS :: "go_error option"
  me_injects :: "go_error option list"
  me_provideType :: "go_error option"

text \<open>
  \<open>RunAll\<close>: the registered functions in order up to the first error, then the informers and
  controllers. The last function is the one \<open>main\<close> appends.
\<close>

fun inject_loop :: "nat \<Rightarrow> go_error option list \<Rightarrow> go_error option \<Rightarrow> go_error option \<times> manager_action list" where
  "inject_loop i [] provide =
     (case provide of Some err \<Rightarrow> (Some err, [ProvideTypeController]) | None \<Rightarrow> (None, [ProvideTypeController, RunInjector]))"
| "inject_loop i (r # rs) provide =
     (case r of Some err \<Rightarrow> (Some err, [RunInject i])
      | None \<Rightarrow> (let (res, actions) = inject_loop (Suc i) rs provide in (res, RunInject i # actions)))"

definition RunAll :: "manager_env \<Rightarrow> go_error option \<times> manager_action list" where
  "RunAll env = inject_loop 0 (me_injects env) (me_provideType env)"

definition clusterMonitorPeriod :: int where
  "clusterMonitorPeriod = 40000"

definition manager_main :: "featureGate \<Rightarrow> manager_env \<Rightarrow> manager_outcome \<times> manager_action list" where
  "manager_main gate0 env =
     (let (err, gate) = SetFromMap (me_featureGates env) (features_init gate0) in
      if err \<noteq> None then (Fatal ''Invalid Feature Gate'', [])
      else if me_config env \<noteq> None then (Fatal ''GetConfigOrDie'', [])
      else
        let a1 = (if me_installCRDs env then [InstallCRDs] else []) in
        if me_installCRDs env \<and> me_install env \<noteq> None then (Fatal ''Could not create CRDs'', a1)
        else
          let a2 = a1 @ [StartClusterController clusterMonitorPeriod];
              scheduling = Enabled SchedulerPreferences gate;
              a3 = a2 @ (if scheduling then [StartReplicaSchedulingPreferenceController True] else []) in
          if scheduling \<and> me_startScheduling env \<noteq> None
          then (Fatal ''Error starting replicaschedulingpreference controller'', a3)
          else
            let dns = Enabled CrossClusterServiceDiscovery gate;
                a4 = a3 @ (if dns then [StartDNSController False] else []) in
            if dns \<and> me_startDNS env \<noteq> None then (Fatal ''Error starting dns controller'', a4)
            else if Enabled PushReconciler gate
            then let (res, a5) = RunAll env
                 in (if res = None then Serving else Fatal ''RunAll'', a4 @ a5)
            else (Serving, a4))"

subsection \<open>Secrets and config maps\<close>

text \<open>A nil map and an empty one are different for \<open>reflect.DeepEqual\<close>: \<open>None\<close> is the nil map.\<close>

definition data_equal :: "(string, 'v) gomap option \<Rightarrow> (string, 'v) gomap option \<Rightarrow> bool" where
  "data_equal a b = (case (a, b) of (None, None) \<Rightarrow> True | (Some m, Some n) \<Rightarrow> gomap_eq m n | _ \<Rightarrow> False)"

record SecretObj =
  sec_Meta :: ObjectMeta
  sec_Data :: "(string, nat list) gomap option"
  sec_Type :: string

record ConfigMapObj =
  cm_Meta :: ObjectMeta
  cm_Data :: "(string, string) gomap option"

definition SecretEquivalent :: "SecretObj \<Rightarrow> SecretObj \<Rightarrow> bool" where
  "SecretEquivalent s1 s2 \<longleftrightarrow> ObjectMetaEquivalent (sec_Meta s1) (sec_Meta s2) \<and>
     data_equal (sec_Data s1) (sec_Data s2) \<and> sec_Type s1 = sec_Type s2"

definition ConfigMapEquivalent :: "ConfigMapObj \<Rightarrow> ConfigMapObj \<Rightarrow> bool" where
  "ConfigMapEquivalent s1 s2 \<longleftrightarrow> ObjectMetaEquivalent (cm_Meta s1) (cm_Meta s2) \<and>
     data_equal (cm_Data s1) (cm_Data s2)"

subsection \<open>What the gates come to\<close>

lemma setUnsetAlphaGates_mget:
  "mget (setUnsetAlphaGates known val enabled) x =
     (case mget enabled x of Some v \<Rightarrow> Some v
      | None \<Rightarrow> if \<exists>spec. (x, spec) \<in> set known \<and> fs_PreRelease spec = Alpha then Some val else None)"
proof (induction known arbitrary: enabled)
  case (Cons kv known)
  obtain k spec where "kv = (k, spec)" by (cases kv)
  then show ?case
    using Cons [of "if fs_PreRelease spec = Alpha then (if mget enabled k = None then mput k val enabled else enabled) else enabled"]
    by (auto simp: setUnsetAlphaGates_def split: option.splits if_splits)
qed (simp add: setUnsetAlphaGates_def split: option.split)

lemma set_gates_error: "(\<exists>e. set_gates known m enabled = Inl e) \<longleftrightarrow> \<not> set (mkeys m) \<subseteq> set (mkeys known)"
proof (induction m arbitrary: enabled)
  case (Cons kv m)
  obtain k v where kv: "kv = (k, v)" by (cases kv)
  have "mget known k = None \<longleftrightarrow> k \<notin> set (mkeys known)" by (simp add: map_of_eq_None_iff)
  with Cons kv show ?case by (auto simp: Let_def)
qed simp

text \<open>An explicit gate wins, then \<open>AllAlpha\<close> decides, in any order of the flags.\<close>

lemma set_gates_mget:
  assumes "set_gates known m enabled = Inr enabled'" and "gomap_ok m"
  shows "mget enabled' x =
    (case mget m x of Some v \<Rightarrow> Some v
     | None \<Rightarrow> (case mget enabled x of Some v \<Rightarrow> Some v
       | None \<Rightarrow> if \<exists>spec. (x, spec) \<in> set known \<and> fs_PreRelease spec = Alpha then mget m allAlphaGate else None))"
  using assms
proof (induction m arbitrary: enabled)
  case (Cons kv m)
  obtain k v where kv: "kv = (k, v)" by (cases kv)
  let ?e = "if k = allAlphaGate then setUnsetAlphaGates known v (mput k v enabled) else mput k v enabled"
  have run: "set_gates known m ?e = Inr enabled'" and ok: "gomap_ok m" and new: "mget m k = None"
    using Cons.prems by (auto simp: kv Let_def gomap_ok_def map_of_eq_None_iff split: if_splits)
  show ?case
    using Cons.IH [OF run ok] new
    by (auto simp: kv setUnsetAlphaGates_mget split: option.split)
qed (auto split: option.split)

definition gate_value :: "(string, bool) gomap \<Rightarrow> string \<Rightarrow> bool" where
  "gate_value flags f =
     (case mget flags f of Some v \<Rightarrow> v | None \<Rightarrow> (case mget flags allAlphaGate of Some v \<Rightarrow> v | None \<Rightarrow> True))"

abbreviation federation_features :: "string set" where
  "federation_features \<equiv> {SchedulerPreferences, PushReconciler, CrossClusterServiceDiscovery}"

lemma features_init_known:
  "fg_known (features_init NewFeatureGate) = (allAlphaGate, \<lparr>fs_Default = False, fs_PreRelease = Alpha\<rparr>) # defaultFederationFeatureGates"
  "fg_enabled (features_init NewFeatureGate) = []"
  by code_simp+

lemma feature_names: "SchedulerPreferences \<noteq> allAlphaGate" "PushReconciler \<noteq> allAlphaGate" "CrossClusterServiceDiscovery \<noteq> allAlphaGate"
  "SchedulerPreferences \<noteq> PushReconciler" "SchedulerPreferences \<noteq> CrossClusterServiceDiscovery" "PushReconciler \<noteq> CrossClusterServiceDiscovery"
  by code_simp+

lemma SetFromMap_features:
  assumes "gomap_ok flags" and "SetFromMap flags (features_init NewFeatureGate) = (err, gate)"
  shows "err = None \<longleftrightarrow> set (mkeys flags) \<subseteq> insert allAlphaGate federation_features"
    and "err = None \<Longrightarrow> f \<in> federation_features \<Longrightarrow> Enabled f gate = gate_value flags f"
proof -
  let ?f = "features_init NewFeatureGate"
  have keys: "set (mkeys (fg_known ?f)) = insert allAlphaGate federation_features"
    by (auto simp: features_init_known defaultFederationFeatureGates_def)
  show "err = None \<longleftrightarrow> set (mkeys flags) \<subseteq> insert allAlphaGate federation_features"
    using assms(2) set_gates_error [of "fg_known ?f" flags "fg_enabled ?f"] unfolding keys
    by (auto simp: SetFromMap_def split: sum.splits)
  assume "err = None" and f: "f \<in> federation_features"
  then obtain enabled where e: "set_gates (fg_known ?f) flags [] = Inr enabled" "gate = ?f\<lparr>fg_enabled := enabled\<rparr>"
    using assms(2) by (auto simp: SetFromMap_def features_init_known split: sum.splits)
  have known: "mget (fg_known ?f) f = Some \<lparr>fs_Default = True, fs_PreRelease = Alpha\<rparr>"
    using f feature_names by (elim insertE) (simp_all add: features_init_known defaultFederationFeatureGates_def)
  then have "\<exists>spec. (f, spec) \<in> set (fg_known ?f) \<and> fs_PreRelease spec = Alpha"
    by (intro exI [of _ "\<lparr>fs_Default = True, fs_PreRelease = Alpha\<rparr>"]) (auto dest: map_of_SomeD)
  with known have "mget enabled f = (case mget flags f of Some v \<Rightarrow> Some v | None \<Rightarrow> mget flags allAlphaGate)"
    and "Enabled f gate = (case mget enabled f of Some v \<Rightarrow> v | None \<Rightarrow> True)"
    using set_gates_mget [OF e(1) assms(1), of f] by (cases "mget flags f"; simp add: Enabled_def e(2) split: option.split)+
  then show "Enabled f gate = gate_value flags f"
    by (cases "mget flags f") (simp_all add: gate_value_def)
qed

lemma inject_loop_ok:
  "inject_loop i rs provide = (None, actions) \<Longrightarrow>
    actions = map RunInject [i..<i + length rs] @ [ProvideTypeController, RunInjector]"
proof (induction rs arbitrary: i actions)
  case (Cons r rs)
  then obtain actions' where run: "inject_loop (Suc i) rs provide = (None, actions')" "actions = RunInject i # actions'"
    by (auto split: option.splits prod.splits)
  from Cons.IH [OF run(1)] run(2) show ?case by (simp add: upt_conv_Cons del: upt_Suc)
qed (auto split: option.splits)

text \<open>
  C40. The manager refuses a feature gate it does not know before it starts anything; otherwise,
  when it ends up serving, it has started the cluster controller and exactly the controllers whose gates
  are on, in this order: a gate has the value given for it, else that given for \<open>AllAlpha\<close>, else it is on,
  in whatever order the gates are given.
\<close>

theorem manager_starts_enabled:
  assumes "gomap_ok (me_featureGates env)" and "manager_main NewFeatureGate env = (outcome, actions)"
  shows "(\<not> set (mkeys (me_featureGates env)) \<subseteq> insert allAlphaGate federation_features \<longrightarrow>
      outcome = Fatal ''Invalid Feature Gate'' \<and> actions = []) \<and>
    (outcome = Serving \<longrightarrow> actions = (if me_installCRDs env then [InstallCRDs] else []) @ [StartClusterController 40000] @
       (if gate_value (me_featureGates env) SchedulerPreferences then [StartReplicaSchedulingPreferenceController True] else []) @
       (if gate_value (me_featureGates env) CrossClusterServiceDiscovery then [StartDNSController False] else []) @
       (if gate_value (me_featureGates env) PushReconciler
        then map RunInject [0..<length (me_injects env)] @ [ProvideTypeController, RunInjector] else []))"
proof -
  obtain err gate where set: "SetFromMap (me_featureGates env) (features_init NewFeatureGate) = (err, gate)"
    by fastforce
  note g = SetFromMap_features [OF assms(1) set]
  show ?thesis
  proof (cases "err = None")
    case False
    then show ?thesis using g(1) assms(2) by (auto simp: manager_main_def set)
  next
    case True
    have "outcome = Serving \<Longrightarrow> Enabled PushReconciler gate \<Longrightarrow> \<exists>b. RunAll env = (None, b)"
      using assms(2) True by (auto simp: manager_main_def set Let_def split: if_splits prod.splits)
    then show ?thesis
      using assms(2) True g(1) g(2) [OF True, of SchedulerPreferences] g(2) [OF True, of PushReconciler]
        g(2) [OF True, of CrossClusterServiceDiscovery]
      by (auto simp: manager_main_def set Let_def clusterMonitorPeriod_def RunAll_def dest!: inject_loop_ok
          split: if_splits prod.splits)
  qed
qed

theorem manager_starts_enabled_witness:
  "manager_main NewFeatureGate \<lparr>me_featureGates = [(PushReconciler, True), (allAlphaGate, False)], me_config = None, me_installCRDs = False,
      me_install = None, me_startScheduling = None, me_startDNS = None, me_injects = [None], me_provideType = None\<rparr>
    = (Serving, [StartClusterController 40000, RunInject 0, ProvideTypeController, RunInjector])"
proof -
  let ?env = "\<lparr>me_featureGates = [(PushReconciler, True), (allAlphaGate, False)], me_config = None, me_installCRDs = False,
      me_install = None, me_startScheduling = None, me_startDNS = None, me_injects = [None], me_provideType = None\<rparr>"
  obtain outcome actions where run: "manager_main NewFeatureGate ?env = (outcome, actions)" by fastforce
  have "fst (manager_main NewFeatureGate ?env) = Serving" by code_simp
  moreover have "gomap_ok (me_featureGates ?env)" by code_simp
  moreover have "gate_value (me_featureGates ?env) PushReconciler" "\<not> gate_value (me_featureGates ?env) SchedulerPreferences"
    "\<not> gate_value (me_featureGates ?env) CrossClusterServiceDiscovery" by code_simp+
  ultimately show ?thesis using manager_starts_enabled [OF _ run] run by simp
qed

subsection \<open>Equivalence of secrets and config maps\<close>

lemma data_equal_iff: "data_equal a b \<longleftrightarrow> map_option mget a = map_option mget b"
  by (cases a; cases b) (simp_all add: data_equal_def gomap_eq_iff)

lemma SecretEquivalent_equiv:
  "equivp SecretEquivalent"
  by (rule equivpI) (auto intro!: reflpI sympI transpI simp: SecretEquivalent_def data_equal_iff ObjectMetaEquivalent_iff)

lemma ConfigMapEquivalent_equiv:
  "equivp ConfigMapEquivalent"
  by (rule equivpI) (auto intro!: reflpI sympI transpI simp: ConfigMapEquivalent_def data_equal_iff ObjectMetaEquivalent_iff)

text \<open>Labels may be nil on one side and empty on the other, data may not.\<close>

lemma nil_data_differs: "\<not> SecretEquivalent (s\<lparr>sec_Data := None\<rparr>) (s\<lparr>sec_Data := Some []\<rparr>)"
  by (simp add: SecretEquivalent_def data_equal_def)

end
