(* ===== verification/Go_Memory.thy ===== *)
theory Go_Memory
  imports Unstructured
begin

section \<open>Unstructured objects in memory\<close>

text \<open>
  The other theories treat an unstructured object as a value. In the program its maps and slices are
  references that the caches of the informers share with the controllers, and the setters write in
  place. This theory has the memory: \<open>hval\<close> is an \<open>interface{}\<close> whose maps and slices are
  addresses, \<open>memory\<close> the list of allocated cells, and the operations are those of \<open>runtime/converter.go\<close>
  and \<open>unstructured/helpers.go\<close> under \<open>vendor/k8s.io/apimachinery/pkg\<close>. The relation \<open>represents\<close> says which
  value a reference stands for and which cells it owns; the lemmas show that the operations on memory
  do what the value operations of \<open>Unstructured\<close> do and touch no other cell. \<open>HOther\<close> is a value of a
  type that JSON does not have.
\<close>

datatype hval =
    HNull
  | HBool bool
  | HInt int
  | HFloat "64 word"
  | HString string
  | HMap nat
  | HArr nat
  | HOther

datatype cell = MapCell "(string, hval) gomap" | ArrCell "hval list"

type_synonym memory = "cell list"

definition cell_at :: "memory \<Rightarrow> nat \<Rightarrow> cell option" where
  "cell_at h a = (if a < length h then Some (h ! a) else None)"

subsection \<open>The operations\<close>

text \<open>
  \<open>DeepCopyJSONValue\<close>: a map or a slice is cloned element by element; a type that is not JSON panics.
  A value with a cycle is copied forever, so the recursion runs on fuel. The cell of a clone is
  allocated when its elements are complete.
\<close>

function (sequential) DeepCopyJSONValue :: "nat \<Rightarrow> hval \<Rightarrow> memory \<Rightarrow> (hval \<times> memory) go_result option"
  and copy_values :: "nat \<Rightarrow> hval list \<Rightarrow> memory \<Rightarrow> (hval list \<times> memory) go_result option" where
  "DeepCopyJSONValue 0 x h = None"
| "DeepCopyJSONValue (Suc n) (HMap a) h =
     (case cell_at h a of
        Some (MapCell kvs) \<Rightarrow>
          (case copy_values n (map snd kvs) h of
             None \<Rightarrow> None
           | Some (Inl e) \<Rightarrow> Some (Inl e)
           | Some (Inr (vs, h1)) \<Rightarrow> Some (Inr (HMap (length h1), h1 @ [MapCell (zip (map fst kvs) vs)])))
      | _ \<Rightarrow> Some (Inl (GoPanic ''invalid memory address'')))"
| "DeepCopyJSONValue (Suc n) (HArr a) h =
     (case cell_at h a of
        Some (ArrCell xs) \<Rightarrow>
          (case copy_values n xs h of
             None \<Rightarrow> None
           | Some (Inl e) \<Rightarrow> Some (Inl e)
           | Some (Inr (vs, h1)) \<Rightarrow> Some (Inr (HArr (length h1), h1 @ [ArrCell vs])))
      | _ \<Rightarrow> Some (Inl (GoPanic ''invalid memory address'')))"
| "DeepCopyJSONValue (Suc n) HOther h = Some (Inl (GoPanic ''cannot deep copy''))"
| "DeepCopyJSONValue (Suc n) x h = Some (Inr (x, h))"
| "copy_values n [] h = Some (Inr ([], h))"
| "copy_values n (x # xs) h =
     (case DeepCopyJSONValue n x h of
        None \<Rightarrow> None
      | Some (Inl e) \<Rightarrow> Some (Inl e)
      | Some (Inr (v, h1)) \<Rightarrow>
          (case copy_values n xs h1 of
             None \<Rightarrow> None
           | Some (Inl e) \<Rightarrow> Some (Inl e)
           | Some (Inr (vs, h2)) \<Rightarrow> Some (Inr (v # vs, h2))))"
  by pat_completeness auto
termination
  by (relation "measures [\<lambda>r. case r of Inl (n, _, _) \<Rightarrow> n | Inr (n, _, _) \<Rightarrow> n,
      \<lambda>r. case r of Inl _ \<Rightarrow> 0 | Inr (_, xs, _) \<Rightarrow> Suc (length xs)]") auto

text \<open>\<open>nestedFieldNoCopy\<close> follows references; \<open>setNestedFieldNoCopy\<close> writes into the map at the end of
  the path and makes the missing maps on the way. It returns an error before it has written anything.\<close>

fun hnested :: "memory \<Rightarrow> hval \<Rightarrow> string list \<Rightarrow> hval option go_result" where
  "hnested h v [] = Inr (Some v)"
| "hnested h v (f # fs) =
     (case v of
        HMap a \<Rightarrow>
          (case cell_at h a of
             Some (MapCell m) \<Rightarrow> (case mget m f of None \<Rightarrow> Inr None | Some v' \<Rightarrow> hnested h v' fs)
           | _ \<Rightarrow> Inl (GoPanic ''invalid memory address''))
      | _ \<Rightarrow> Inl (ErrOther ''accessor error: expected map[string]interface{}''))"

fun hset :: "memory \<Rightarrow> nat \<Rightarrow> hval \<Rightarrow> string list \<Rightarrow> memory go_result" where
  "hset h a v [] = Inl (GoPanic ''slice bounds out of range'')"
| "hset h a v [f] =
     (case cell_at h a of
        Some (MapCell m) \<Rightarrow> Inr (h[a := MapCell (mput f v m)])
      | _ \<Rightarrow> Inl (GoPanic ''invalid memory address''))"
| "hset h a v (f # g # fs) =
     (case cell_at h a of
        Some (MapCell m) \<Rightarrow>
          (case mget m f of
             Some (HMap b) \<Rightarrow> hset h b v (g # fs)
           | Some _ \<Rightarrow> Inl (ErrOther ''value cannot be set: not a map[string]interface{}'')
           | None \<Rightarrow> hset (h[a := MapCell (mput f (HMap (length h)) m)] @ [MapCell []]) (length h) v (g # fs))
      | _ \<Rightarrow> Inl (GoPanic ''invalid memory address''))"

subsection \<open>What a reference stands for\<close>

text \<open>The last argument is the set of the cells that the value owns; no two parts share one.\<close>

inductive represents :: "memory \<Rightarrow> hval \<Rightarrow> json \<Rightarrow> nat set \<Rightarrow> bool"
  and represents_all :: "memory \<Rightarrow> hval list \<Rightarrow> json list \<Rightarrow> nat set \<Rightarrow> bool" for h :: memory where
  null: "represents h HNull JNull {}"
| bool: "represents h (HBool b) (JBool b) {}"
| int: "represents h (HInt i) (JInt i) {}"
| float: "represents h (HFloat w) (JFloat w) {}"
| str: "represents h (HString s) (JString s) {}"
| arr: "cell_at h a = Some (ArrCell xs) \<Longrightarrow> represents_all h xs vs A \<Longrightarrow> a \<notin> A \<Longrightarrow> represents h (HArr a) (JArr vs) (insert a A)"
| map: "cell_at h a = Some (MapCell kvs) \<Longrightarrow> represents_all h (map snd kvs) (map snd m) A \<Longrightarrow> map fst kvs = map fst m \<Longrightarrow>
    a \<notin> A \<Longrightarrow> represents h (HMap a) (JObj m) (insert a A)"
| nil: "represents_all h [] [] {}"
| cons: "represents h x v A \<Longrightarrow> represents_all h xs vs B \<Longrightarrow> A \<inter> B = {} \<Longrightarrow> represents_all h (x # xs) (v # vs) (A \<union> B)"

inductive_cases represents_mapE: "represents h (HMap a) v A"
inductive_cases represents_objE: "represents h x (JObj m) A"
inductive_cases represents_arrE: "represents h (HArr a) v A"
inductive_cases represents_consE: "represents_all h (x # xs) vs A"
inductive_cases represents_all_consE: "represents_all h xs (v # vs) A"
inductive_simps represents_nil [simp]: "represents_all h [] vs A"
inductive_simps represents_all_nil [simp]: "represents_all h xs [] A"
inductive_simps represents_null [simp]: "represents h HNull v A"
inductive_simps represents_bool [simp]: "represents h (HBool b) v A"
inductive_simps represents_int [simp]: "represents h (HInt i) v A"
inductive_simps represents_float [simp]: "represents h (HFloat w) v A"
inductive_simps represents_string [simp]: "represents h (HString s) v A"
inductive_simps represents_other [simp]: "represents h HOther v A"

text \<open>Owned cells are allocated, and a value depends on no other cell.\<close>

lemma represents_alloc:
  "represents h x v A \<Longrightarrow> A \<subseteq> {..<length h}"
  "represents_all h xs vs A \<Longrightarrow> A \<subseteq> {..<length h}"
  by (induction rule: represents_represents_all.inducts) (auto simp: cell_at_def split: if_splits)

lemma represents_frame:
  "represents h x v A \<Longrightarrow> (\<And>a. a \<in> A \<Longrightarrow> cell_at h' a = cell_at h a) \<Longrightarrow> represents h' x v A"
  "represents_all h xs vs A \<Longrightarrow> (\<And>a. a \<in> A \<Longrightarrow> cell_at h' a = cell_at h a) \<Longrightarrow> represents_all h' xs vs A"
  by (induction rule: represents_represents_all.inducts) (auto intro: represents_represents_all.intros)

lemma cell_at_append: "a < length h \<Longrightarrow> cell_at (h @ h') a = cell_at h a"
  by (simp add: cell_at_def nth_append)

lemma represents_append:
  "represents h x v A \<Longrightarrow> represents (h @ h') x v A"
  "represents_all h xs vs A \<Longrightarrow> represents_all (h @ h') xs vs A"
  using represents_alloc represents_frame by (metis cell_at_append lessThan_iff subsetD)+


subsection \<open>Deep copies\<close>

text \<open>
  With as much fuel as the value has nodes a copy returns, allocates new cells only, and represents the
  same value in these cells.
\<close>

fun nodes :: "json \<Rightarrow> nat" where
  "nodes (JArr vs) = Suc (sum_list (map nodes vs))"
| "nodes (JObj m) = Suc (sum_list (map (\<lambda>p. nodes (snd p)) m))"
| "nodes _ = 1"

definition copied :: "memory \<Rightarrow> memory \<Rightarrow> hval \<Rightarrow> json \<Rightarrow> bool" where
  "copied h h' y v \<longleftrightarrow> (\<exists>new B. h' = h @ new \<and> represents h' y v B \<and> B \<subseteq> {length h..<length h'})"

definition copied_all :: "memory \<Rightarrow> memory \<Rightarrow> hval list \<Rightarrow> json list \<Rightarrow> bool" where
  "copied_all h h' ys vs \<longleftrightarrow> (\<exists>new B. h' = h @ new \<and> represents_all h' ys vs B \<and> B \<subseteq> {length h..<length h'})"

lemma copied_all_Nil: "copied_all h h [] []"
  by (simp add: copied_all_def)

lemma copied_scalar: "represents h y v {} \<Longrightarrow> copied h h y v"
  by (auto simp: copied_def)

lemma represents_length: "represents_all h xs vs A \<Longrightarrow> length xs = length vs"
  by (induction xs arbitrary: vs A) (auto elim: represents_consE)

lemma copied_HArr:
  assumes "copied_all h h1 ys vs"
  shows "copied h (h1 @ [ArrCell ys]) (HArr (length h1)) (JArr vs)"
proof -
  obtain new B where new: "h1 = h @ new" "represents_all h1 ys vs B" "B \<subseteq> {length h..<length h1}"
    using assms by (auto simp: copied_all_def)
  have "represents (h1 @ [ArrCell ys]) (HArr (length h1)) (JArr vs) (insert (length h1) B)"
    by (rule represents_represents_all.arr)
      (use new represents_append(2) [OF new(2), of "[ArrCell ys]"] in \<open>auto simp: cell_at_def\<close>)
  then show ?thesis using new by (auto simp: copied_def intro!: exI [of _ "insert (length h1) B"])
qed

lemma copied_HMap:
  assumes "copied_all h h1 ys (map snd m)"
  shows "copied h (h1 @ [MapCell (zip (map fst m) ys)]) (HMap (length h1)) (JObj m)"
proof -
  obtain new B where new: "h1 = h @ new" "represents_all h1 ys (map snd m) B" "B \<subseteq> {length h..<length h1}"
    using assms by (auto simp: copied_all_def)
  have len: "length ys = length m" using represents_length [OF new(2)] by simp
  have "represents (h1 @ [MapCell (zip (map fst m) ys)]) (HMap (length h1)) (JObj m) (insert (length h1) B)"
    by (rule represents_represents_all.map [where kvs = "zip (map fst m) ys"])
      (use new len represents_append(2) [OF new(2), of "[MapCell (zip (map fst m) ys)]"] in \<open>auto simp: cell_at_def\<close>)
  then show ?thesis using new by (auto simp: copied_def intro!: exI [of _ "insert (length h1) B"])
qed

lemma copied_Cons:
  assumes "copied h h1 y v" and "copied_all h1 h2 ys vs"
  shows "copied_all h h2 (y # ys) (v # vs)"
proof -
  obtain new B1 where new: "h1 = h @ new" "represents h1 y v B1" "B1 \<subseteq> {length h..<length h1}"
    using assms(1) by (auto simp: copied_def)
  obtain new2 B2 where new2: "h2 = h1 @ new2" "represents_all h2 ys vs B2" "B2 \<subseteq> {length h1..<length h2}"
    using assms(2) by (auto simp: copied_all_def)
  have "B1 \<inter> B2 = {}" using new(3) new2(3) by fastforce
  then have "represents_all h2 (y # ys) (v # vs) (B1 \<union> B2)"
    using represents_represents_all.cons new2 represents_append(1) [OF new(2), of new2] by metis
  moreover have "B1 \<union> B2 \<subseteq> {length h..<length h2}" using new(1,3) new2(1,3) by auto
  ultimately show ?thesis using new(1) new2(1) by (auto simp: copied_all_def)
qed

lemma copied_extends: "copied h h1 y v \<Longrightarrow> \<exists>g. h1 = h @ g"
  by (auto simp: copied_def)

lemma DeepCopyJSONValue_copies:
  "represents h x v A \<Longrightarrow> nodes v \<le> n \<Longrightarrow> \<exists>y h'. DeepCopyJSONValue n x h = Some (Inr (y, h')) \<and> copied h h' y v"
  "represents_all h xs vs A \<Longrightarrow> sum_list (map nodes vs) \<le> n \<Longrightarrow> \<exists>ys h'. copy_values n xs h = Some (Inr (ys, h')) \<and> copied_all h h' ys vs"
proof (induction n x h and n xs h arbitrary: v A and vs A rule: DeepCopyJSONValue_copy_values.induct)
  case (1 x h)
  then show ?case by (cases v) auto
next
  case (2 n a h)
  then obtain kvs m B where v: "v = JObj m" "cell_at h a = Some (MapCell kvs)" "represents_all h (map snd kvs) (map snd m) B"
    "map fst kvs = map fst m"
    by (auto elim: represents_mapE)
  have "sum_list (map nodes (map snd m)) \<le> n" using 2(3) by (simp add: v comp_def)
  from "2.IH" [OF v(2) refl v(3) this] obtain ys h1 where c: "copy_values n (map snd kvs) h = Some (Inr (ys, h1))"
    "copied_all h h1 ys (map snd m)" by blast
  with copied_HMap [OF c(2)] v show ?case by simp
next
  case (3 n a h)
  then obtain xs vs B where v: "v = JArr vs" "cell_at h a = Some (ArrCell xs)" "represents_all h xs vs B"
    by (auto elim: represents_arrE)
  have "sum_list (map nodes vs) \<le> n" using 3(3) by (simp add: v)
  from "3.IH" [OF v(2) refl v(3) this] obtain ys h1 where c: "copy_values n xs h = Some (Inr (ys, h1))"
    "copied_all h h1 ys vs" by blast
  with copied_HArr [OF c(2)] v show ?case by simp
next
  case (6 n h)
  then show ?case by (simp add: copied_all_Nil)
next
  case (7 n x xs h)
  obtain v vs' B C where v: "vs = v # vs'" "represents h x v B" "represents_all h xs vs' C"
    using "7.prems"(1) by (auto elim: represents_consE)
  have fuel: "nodes v \<le> n" "sum_list (map nodes vs') \<le> n" using "7.prems"(2) by (simp_all add: v(1))
  obtain y h1 where c: "DeepCopyJSONValue n x h = Some (Inr (y, h1))" "copied h h1 y v"
    using "7.IH"(1) [OF v(2) fuel(1)] by blast
  obtain g where g: "h1 = h @ g" using copied_extends [OF c(2)] by blast
  obtain ys h2 where d: "copy_values n xs h1 = Some (Inr (ys, h2))" "copied_all h1 h2 ys vs'"
    using "7.IH"(2) [OF c(1) refl refl represents_append(2) [OF v(3), of g, folded g] fuel(2)] by blast
  show ?case using c(1) d(1) copied_Cons [OF c(2) d(2)] by (simp add: v(1))
qed (auto intro: copied_scalar)

text \<open>A decoded object: every map and slice has a cell of its own.\<close>

lemma size_values: "size_list (size \<circ> snd) m \<le> size_list (size_prod f size) m"
  by (induction m) (auto simp: size_prod_simp)

function lay_out :: "json \<Rightarrow> memory \<Rightarrow> hval \<times> memory"
  and lay_out_all :: "json list \<Rightarrow> memory \<Rightarrow> hval list \<times> memory" where
  "lay_out JNull h = (HNull, h)"
| "lay_out (JBool b) h = (HBool b, h)"
| "lay_out (JInt i) h = (HInt i, h)"
| "lay_out (JFloat w) h = (HFloat w, h)"
| "lay_out (JString s) h = (HString s, h)"
| "lay_out (JArr vs) h = (let (xs, h1) = lay_out_all vs h in (HArr (length h1), h1 @ [ArrCell xs]))"
| "lay_out (JObj m) h = (let (xs, h1) = lay_out_all (map snd m) h in (HMap (length h1), h1 @ [MapCell (zip (map fst m) xs)]))"
| "lay_out_all [] h = ([], h)"
| "lay_out_all (v # vs) h = (let (x, h1) = lay_out v h; (xs, h2) = lay_out_all vs h1 in (x # xs, h2))"
  by pat_completeness auto
termination
  by (relation "measure (\<lambda>r. case r of Inl (v, _) \<Rightarrow> size v | Inr (vs, _) \<Rightarrow> size_list size vs)")
    (auto simp: less_Suc_eq_le size_values)

lemma lay_out_copied:
  "copied h (snd (lay_out v h)) (fst (lay_out v h)) v"
  "copied_all h (snd (lay_out_all vs h)) (fst (lay_out_all vs h)) vs"
proof (induction v h and vs h rule: lay_out_lay_out_all.induct)
  case (6 vs h)
  then show ?case using copied_HArr by (auto simp: Let_def split: prod.splits)
next
  case (7 m h)
  then show ?case using copied_HMap by (auto simp: Let_def split: prod.splits)
next
  case (9 v vs h)
  then show ?case using copied_Cons by (auto simp: Let_def split: prod.splits)
qed (auto intro: copied_scalar copied_all_Nil)

subsection \<open>Reading\<close>

text \<open>The entry of a key owns a part of what its map owns, and the rest does not depend on it.\<close>

definition rest_of :: "memory \<Rightarrow> (string, hval) gomap \<Rightarrow> jobj \<Rightarrow> string \<Rightarrow> nat set \<Rightarrow> bool" where
  "rest_of h kvs m f R \<longleftrightarrow> (\<forall>h' y w B'. represents h' y w B' \<longrightarrow> B' \<inter> R = {} \<longrightarrow> (\<forall>a \<in> R. cell_at h' a = cell_at h a) \<longrightarrow>
     represents_all h' (map snd (mput f y kvs)) (map snd (mput f w m)) (B' \<union> R))"

lemma represents_entry:
  assumes "represents_all h (map snd kvs) (map snd m) C" and "map fst kvs = map fst m"
  obtains B0 where "B0 \<subseteq> C"
    and "mget m f = None \<and> mget kvs f = None \<and> B0 = {} \<or> (\<exists>y w. mget m f = Some w \<and> mget kvs f = Some y \<and> represents h y w B0)"
    and "rest_of h kvs m f (C - B0)"
  using assms
proof (induction kvs arbitrary: m C thesis)
  case Nil
  then have "m = []" "C = {}" by auto
  have "represents_all h' (map snd (mput f y [])) (map snd (mput f w m)) (B' \<union> (C - {}))" if "represents h' y w B'" for h' y w B'
    using represents_represents_all.cons [OF that represents_represents_all.nil] by (simp add: \<open>m = []\<close> \<open>C = {}\<close>)
  then have "rest_of h [] m f (C - {})" by (simp add: rest_of_def \<open>C = {}\<close>)
  then show ?case by (intro Nil(1) [of "{}"]) (auto simp: \<open>m = []\<close>)
next
  case (Cons kv kvs)
  obtain k x where kv: "kv = (k, x)" by (cases kv)
  obtain w m' where m: "m = (k, w) # m'" "map fst kvs = map fst m'"
    using Cons.prems(3) by (cases m) (auto simp: kv)
  obtain A B where AB: "C = A \<union> B" "represents h x w A" "represents_all h (map snd kvs) (map snd m') B" "A \<inter> B = {}"
    using Cons.prems(2) by (auto simp: kv m elim: represents_consE)
  show ?case
  proof (cases "k = f")
    case True
    have "represents_all h' (map snd (mput f y (kv # kvs))) (map snd (mput f w' m)) (B' \<union> (C - A))"
      if "represents h' y w' B'" "B' \<inter> (C - A) = {}" "\<And>a. a \<in> C - A \<Longrightarrow> cell_at h' a = cell_at h a" for h' y w' B'
    proof -
      have "C - A = B" using AB by auto
      moreover have "represents_all h' (map snd kvs) (map snd m') B"
        by (rule represents_frame(2) [OF AB(3)]) (use that(3) \<open>C - A = B\<close> in auto)
      ultimately show ?thesis
        using represents_represents_all.cons [OF that(1)] that(2) True by (simp add: kv m)
    qed
    then have "rest_of h (kv # kvs) m f (C - A)" by (simp add: rest_of_def)
    then show ?thesis using AB True by (intro Cons.prems(1) [of A]) (auto simp: kv m)
  next
    case False
    obtain B0 where B0: "B0 \<subseteq> B"
      "mget m' f = None \<and> mget kvs f = None \<and> B0 = {} \<or> (\<exists>y w. mget m' f = Some w \<and> mget kvs f = Some y \<and> represents h y w B0)"
      and upd: "rest_of h kvs m' f (B - B0)"
      by (rule Cons.IH [OF _ AB(3) m(2)])
    have diff: "C - B0 = A \<union> (B - B0)" using AB(1,4) B0(1) by auto
    have "represents_all h' (map snd (mput f y (kv # kvs))) (map snd (mput f w' m)) (B' \<union> (C - B0))"
      if "represents h' y w' B'" "B' \<inter> (C - B0) = {}" "\<And>a. a \<in> C - B0 \<Longrightarrow> cell_at h' a = cell_at h a" for h' y w' B'
    proof -
      have "represents h' x w A" by (rule represents_frame(1) [OF AB(2)]) (use that(3) diff in auto)
      moreover have "represents_all h' (map snd (mput f y kvs)) (map snd (mput f w' m')) (B' \<union> (B - B0))"
        using upd that diff unfolding rest_of_def by blast
      moreover have "A \<inter> (B' \<union> (B - B0)) = {}" using that(2) AB(4) diff by auto
      moreover have "B' \<union> (C - B0) = A \<union> (B' \<union> (B - B0))" using diff by auto
      ultimately show ?thesis
        using represents_represents_all.cons False by (simp add: kv m)
    qed
    then have "rest_of h (kv # kvs) m f (C - B0)" by (simp add: rest_of_def)
    then show ?thesis using B0 False AB(1) by (intro Cons.prems(1) [of B0]) (auto simp: kv m)
  qed
qed

lemma hnested_represents:
  assumes "represents h x v A"
  shows "case nested_from v fs of Inl e \<Rightarrow> hnested h x fs = Inl e | Inr None \<Rightarrow> hnested h x fs = Inr None
    | Inr (Some w) \<Rightarrow> \<exists>y B. hnested h x fs = Inr (Some y) \<and> represents h y w B \<and> B \<subseteq> A"
  using assms
proof (induction fs arbitrary: x v A)
  case (Cons f fs)
  show ?case
  proof (cases v)
    case (JObj m)
    with Cons.prems obtain a kvs C where a: "x = HMap a" "A = insert a C" "cell_at h a = Some (MapCell kvs)"
      "represents_all h (map snd kvs) (map snd m) C" "map fst kvs = map fst m"
      by (auto elim: represents_objE)
    obtain B0 where "B0 \<subseteq> C" and entry: "mget m f = None \<and> mget kvs f = None \<and> B0 = {} \<or>
        (\<exists>y w. mget m f = Some w \<and> mget kvs f = Some y \<and> represents h y w B0)"
      by (rule represents_entry [OF a(4,5)])
    from entry show ?thesis
    proof
      assume "mget m f = None \<and> mget kvs f = None \<and> B0 = {}"
      then show ?thesis by (simp add: JObj a)
    next
      assume "\<exists>y w. mget m f = Some w \<and> mget kvs f = Some y \<and> represents h y w B0"
      then obtain y w where yw: "mget m f = Some w" "mget kvs f = Some y" "represents h y w B0" by blast
      from Cons.IH [OF yw(3)] \<open>B0 \<subseteq> C\<close> yw(1,2) a show ?thesis
        by (auto simp: JObj split: sum.splits option.splits)
    qed
  qed (use Cons.prems in \<open>auto elim: represents.cases\<close>)
qed auto


subsection \<open>Writing in place\<close>

text \<open>\<open>written\<close>: the object at \<open>a\<close> is now \<open>m'\<close>, and only the cells of \<open>A\<close> have changed.\<close>

definition written :: "memory \<Rightarrow> memory \<Rightarrow> nat \<Rightarrow> jobj \<Rightarrow> nat set \<Rightarrow> nat set \<Rightarrow> bool" where
  "written h h' a m' A B \<longleftrightarrow> (\<exists>A'. represents h' (HMap a) (JObj m') A' \<and> A' \<subseteq> A \<union> B \<union> {length h..<length h'}) \<and>
     length h \<le> length h' \<and> (\<forall>x < length h. x \<notin> A \<longrightarrow> cell_at h' x = cell_at h x)"

lemma map_update_same: "mget m k = Some v \<Longrightarrow> mput k v m = m"
  by (induction m) auto

lemma map_fst_update: "map fst m = map fst m' \<Longrightarrow> map fst (mput k v m) = map fst (mput k v' m')"
proof (induction m arbitrary: m')
  case (Cons p m)
  then show ?case by (cases p; cases m') auto
qed simp

text \<open>The cell of a map after one of its entries, now at \<open>y\<close>, has been written.\<close>

lemma represents_put:
  assumes "rest_of h kvs m f R" and "map fst kvs = map fst m"
    and "represents h' y w B'" "B' \<inter> R = {}" "\<And>x. x \<in> R \<Longrightarrow> cell_at h' x = cell_at h x"
    and "cell_at h' a = Some (MapCell (mput f y kvs))" "a \<notin> B' \<union> R"
  shows "represents h' (HMap a) (JObj (mput f w m)) (insert a (B' \<union> R))"
proof (rule represents_represents_all.map [OF assms(6)])
  show "represents_all h' (map snd (mput f y kvs)) (map snd (mput f w m)) (B' \<union> R)"
    using assms(1,3-5) unfolding rest_of_def by blast
qed (use assms(7) map_fst_update [OF assms(2)] in blast)+

lemma hset_represents:
  assumes "represents h (HMap a) (JObj m) A" and "represents h v j B" and "A \<inter> B = {}"
  shows "case setNestedFieldNoCopy m j fields of Inl e \<Rightarrow> hset h a v fields = Inl e
    | Inr m' \<Rightarrow> \<exists>h'. hset h a v fields = Inr h' \<and> written h h' a m' A B"
  using assms
proof (induction fields arbitrary: h a m A rule: induct_list012)
  case (2 f)
  then obtain kvs C where a: "A = insert a C" "a \<notin> C" "cell_at h a = Some (MapCell kvs)"
    "represents_all h (map snd kvs) (map snd m) C" "map fst kvs = map fst m"
    by (auto elim: represents_mapE)
  obtain B0 where B0: "B0 \<subseteq> C" and rest: "rest_of h kvs m f (C - B0)" by (rule represents_entry [OF a(4,5)])
  let ?h' = "h[a := MapCell (mput f v kvs)]"
  have al: "a < length h" using a(3) by (auto simp: cell_at_def split: if_splits)
  have same: "cell_at ?h' x = cell_at h x" if "x \<noteq> a" for x using that by (simp add: cell_at_def)
  have cell: "cell_at ?h' a = Some (MapCell (mput f v kvs))" using al by (simp add: cell_at_def)
  have v: "represents ?h' v j B" by (rule represents_frame(1) [OF 2(2)], rule same) (use 2(3) a(1) in auto)
  have "represents ?h' (HMap a) (JObj (mput f j m)) (insert a (B \<union> (C - B0)))"
    by (rule represents_put [OF rest a(5) v _ _ cell], use 2(3) a(1) in blast, rule same) (use 2(3) a(1,2) in blast)+
  then have "written h ?h' a (mput f j m) A B"
    using same a(1) by (auto simp: written_def intro!: exI [of _ "insert a (B \<union> (C - B0))"])
  then show ?case using a(3) by simp
next
  case (3 f g fs)
  then obtain kvs C where a: "A = insert a C" "a \<notin> C" "cell_at h a = Some (MapCell kvs)"
    "represents_all h (map snd kvs) (map snd m) C" "map fst kvs = map fst m"
    by (auto elim: represents_mapE)
  obtain B0 where B0: "B0 \<subseteq> C" and entry: "mget m f = None \<and> mget kvs f = None \<and> B0 = {} \<or>
      (\<exists>y w. mget m f = Some w \<and> mget kvs f = Some y \<and> represents h y w B0)"
    and rest: "rest_of h kvs m f (C - B0)" by (rule represents_entry [OF a(4,5)])
  have al: "a < length h" using a(3) by (auto simp: cell_at_def split: if_splits)
  have alloc: "C \<subseteq> {..<length h}" "B \<subseteq> {..<length h}" using represents_alloc(2) [OF a(4)] represents_alloc(1) [OF 3(4)] .
  show ?case
  proof (cases "mget m f")
    case None
    then have none: "mget kvs f = None" "B0 = {}" using entry by auto
    let ?b = "length h"
    let ?h2 = "h[a := MapCell (mput f (HMap ?b) kvs)] @ [MapCell []]"
    have same: "cell_at ?h2 x = cell_at h x" if "x \<noteq> a" "x < length h" for x using that by (simp add: cell_at_def nth_append)
    have sub: "represents ?h2 (HMap ?b) (JObj []) {?b}"
      using represents_represents_all.map [of ?h2 ?b "[]" "[]" "{}"] by (simp add: cell_at_def nth_append)
    have v: "represents ?h2 v j B" by (rule represents_frame(1) [OF 3(4)], rule same) (use 3(5) a(1) alloc in auto)
    have "{?b} \<inter> B = {}" using alloc(2) by auto
    from "3.IH"(2) [OF sub v this] show ?thesis
    proof (cases "setNestedFieldNoCopy [] j (g # fs)")
      case (Inr m1)
      with "3.IH"(2) [OF sub v \<open>{?b} \<inter> B = {}\<close>] obtain h' A1 where h': "hset ?h2 ?b v (g # fs) = Inr h'"
        "represents h' (HMap ?b) (JObj m1) A1" "A1 \<subseteq> {?b} \<union> B \<union> {length ?h2..<length h'}" "length ?h2 \<le> length h'"
        "\<And>x. x < length ?h2 \<Longrightarrow> x \<noteq> ?b \<Longrightarrow> cell_at h' x = cell_at ?h2 x"
        by (auto simp: written_def)
      have old: "cell_at h' x = cell_at h x" if "x \<noteq> a" "x < length h" for x using that h'(5) [of x] same by simp
      have cell: "cell_at h' a = Some (MapCell (mput f (HMap ?b) kvs))"
        using h'(5) [of a] al by (simp add: cell_at_def nth_append)
      have range: "{length ?h2..<length h'} \<subseteq> {length h..<length h'}" by auto
      have dis: "A1 \<inter> C = {}" "a \<notin> A1" using h'(3) 3(5) a(1) alloc al by fastforce+
      have "represents h' (HMap a) (JObj (mput f (JObj m1) m)) (insert a (A1 \<union> (C - {})))"
        by (rule represents_put [OF rest [unfolded none(2)] a(5) h'(2) _ _ cell], use dis in blast, rule old) (use dis a(2) alloc in auto)
      moreover have "insert a (A1 \<union> (C - {})) \<subseteq> A \<union> B \<union> {length h..<length h'}" using h'(3,4) a(1) by auto
      ultimately have "written h h' a (mput f (JObj m1) m) A B"
        using old h'(4) a(1) by (auto simp: written_def)
      then show ?thesis using h'(1) a(3) none(1) None Inr by simp
    qed (use a(3) none(1) None in simp)
  next
    case (Some w)
    then obtain y where y: "mget kvs f = Some y" "represents h y w B0" using entry by auto
    show ?thesis
    proof (cases w)
      case (JObj m1)
      then obtain b where b: "y = HMap b" using y(2) by (auto elim: represents_objE)
      have "B0 \<inter> B = {}" using B0 3(5) a(1) by auto
      note IH = "3.IH"(2) [OF y(2) [unfolded b JObj] 3(4) this]
      show ?thesis
      proof (cases "setNestedFieldNoCopy m1 j (g # fs)")
        case (Inr m2)
        with IH obtain h' A1 where h': "hset h b v (g # fs) = Inr h'"
          "represents h' (HMap b) (JObj m2) A1" "A1 \<subseteq> B0 \<union> B \<union> {length h..<length h'}" "length h \<le> length h'"
          "\<And>x. x < length h \<Longrightarrow> x \<notin> B0 \<Longrightarrow> cell_at h' x = cell_at h x"
          by (auto simp: written_def)
        have cell: "cell_at h' a = Some (MapCell (mput f (HMap b) kvs))"
          using h'(5) [OF al] a(2,3) B0 y(1) b by (auto simp: map_update_same)
        have dis: "A1 \<inter> (C - B0) = {}" "a \<notin> A1" using h'(3) 3(5) a(1,2) B0 alloc al by fastforce+
        have "represents h' (HMap a) (JObj (mput f (JObj m2) m)) (insert a (A1 \<union> (C - B0)))"
          by (rule represents_put [OF rest a(5) h'(2) _ _ cell], use dis in blast, rule h'(5)) (use dis a(2) alloc in auto)
        moreover have "insert a (A1 \<union> (C - B0)) \<subseteq> A \<union> B \<union> {length h..<length h'}" using h'(3) a(1) B0 by auto
        ultimately have "written h h' a (mput f (JObj m2) m) A B"
          using h'(4,5) a(1) B0 by (auto simp: written_def)
        then show ?thesis using h'(1) a(3) y(1) b Some JObj Inr by simp
      qed (use IH a(3) y(1) b Some JObj in simp)
    qed (use y a(3) Some in \<open>auto elim: represents.cases\<close>)
  qed
qed simp

end
