(* ===== verification/Sync_Memory.thy ===== *)
theory Sync_Memory
  imports Go_Memory Sync_Claims
begin

section \<open>Desired objects in memory\<close>

text \<open>
  \<open>objectForCluster\<close> of \<open>pkg/controller/sync/controller.go\<close> on memory. The template and the override
  are references into copies of the objects of the caches; the object for a cluster is cut out of the
  template with deep copies and then written in place, once per cluster. The refinement says that this
  builds the object of the value model in cells of its own, so neither the caches nor the template, the
  override and the objects built for other clusters change.
\<close>

subsection \<open>The operations\<close>

definition hbind :: "('a \<times> memory) go_result option \<Rightarrow> ('a \<Rightarrow> memory \<Rightarrow> ('b \<times> memory) go_result option)
    \<Rightarrow> ('b \<times> memory) go_result option" where
  "hbind r f = (case r of None \<Rightarrow> None | Some (Inl e) \<Rightarrow> Some (Inl e) | Some (Inr (x, h)) \<Rightarrow> f x h)"

definition hNestedMap :: "nat \<Rightarrow> hval \<Rightarrow> string list \<Rightarrow> memory \<Rightarrow> (nat option \<times> memory) go_result option" where
  "hNestedMap n v path h =
     (case hnested h v path of
        Inl e \<Rightarrow> Some (Inl e)
      | Inr None \<Rightarrow> Some (Inr (None, h))
      | Inr (Some (HMap a)) \<Rightarrow> hbind (DeepCopyJSONValue n (HMap a) h) (\<lambda>x h1.
          case x of HMap b \<Rightarrow> Some (Inr (Some b, h1)) | _ \<Rightarrow> Some (Inl (GoPanic ''interface conversion'')))
      | Inr (Some _) \<Rightarrow> Some (Inl (ErrOther ''accessor error: expected map[string]interface{}'')))"

definition hNestedSlice :: "nat \<Rightarrow> hval \<Rightarrow> string list \<Rightarrow> memory \<Rightarrow> (nat option \<times> memory) go_result option" where
  "hNestedSlice n v path h =
     (case hnested h v path of
        Inl e \<Rightarrow> Some (Inl e)
      | Inr None \<Rightarrow> Some (Inr (None, h))
      | Inr (Some (HArr a)) \<Rightarrow> hbind (DeepCopyJSONValue n (HArr a) h) (\<lambda>x h1.
          case x of HArr b \<Rightarrow> Some (Inr (Some b, h1)) | _ \<Rightarrow> Some (Inl (GoPanic ''interface conversion'')))
      | Inr (Some _) \<Rightarrow> Some (Inl (ErrOther ''accessor error: expected []interface{}'')))"

definition hgetNestedString :: "memory \<Rightarrow> hval \<Rightarrow> string list \<Rightarrow> string" where
  "hgetNestedString h v path = (case hnested h v path of Inr (Some (HString s)) \<Rightarrow> s | _ \<Rightarrow> [])"

text \<open>\<open>setNestedField\<close> of an object: the value is copied, the error of the write is dropped.\<close>

definition hsetNestedField :: "nat \<Rightarrow> nat \<Rightarrow> hval \<Rightarrow> string list \<Rightarrow> memory \<Rightarrow> (nat \<times> memory) go_result option" where
  "hsetNestedField n obj v path h =
     hbind (DeepCopyJSONValue n v h) (\<lambda>w h1.
       Some (Inr (obj, case hset h1 obj w path of Inl _ \<Rightarrow> h1 | Inr h2 \<Rightarrow> h2)))"

definition hnamespace_body :: "nat \<Rightarrow> nat \<Rightarrow> memory \<Rightarrow> (nat \<times> memory) go_result option" where
  "hnamespace_body n template h =
     (case hNestedMap n (HMap template) [''metadata''] h of
        None \<Rightarrow> None
      | Some (Inl e) \<Rightarrow> Some (Inl (ErrWrapped ''Error retrieving namespace metadata'' e))
      | Some (Inr (None, h1)) \<Rightarrow> Some (Inl (ErrOther ''Unable to retrieve namespace metadata''))
      | Some (Inr (Some metadata, h1)) \<Rightarrow>
          (case cell_at h1 metadata of
             Some (MapCell m) \<Rightarrow>
               (let h2 = h1[metadata := MapCell (filter (\<lambda>(key, v). sset_has (sset_of targetFields) key) m)]
                in Some (Inr (length h2, h2 @ [MapCell [(''metadata'', HMap metadata)]])))
           | _ \<Rightarrow> Some (Inl (GoPanic ''invalid memory address''))))"

definition htemplate_body :: "nat \<Rightarrow> FederatedTypeConfig \<Rightarrow> nat \<Rightarrow> memory \<Rightarrow> (nat \<times> memory) go_result option" where
  "htemplate_body n typeConfig template h =
     (case hNestedMap n (HMap template) [''spec'', ''template''] h of
        None \<Rightarrow> None
      | Some (Inl e) \<Rightarrow> Some (Inl (ErrWrapped ''Error retrieving template body'' e))
      | Some (Inr (None, h1)) \<Rightarrow> Some (Inl (ErrOther ''Unable to retrieve template body''))
      | Some (Inr (Some body, h1)) \<Rightarrow>
          (let name = hgetNestedString h1 (HMap template) [''metadata'', ''name''];
               namespace = hgetNestedString h1 (HMap template) [''metadata'', ''namespace''];
               target = GetTarget typeConfig
           in hbind (hsetNestedField n body (HString name) [''metadata'', ''name''] h1) (\<lambda>body h2.
              hbind (hsetNestedField n body (HString namespace) [''metadata'', ''namespace''] h2) (\<lambda>body h3.
              hbind (hsetNestedField n body (HString (mr_Kind target)) [''kind''] h3) (\<lambda>body h4.
              hsetNestedField n body (HString (mr_Group target @ ''/'' @ mr_Version target)) [''apiVersion''] h4)))))"

fun happly_overrides :: "nat \<Rightarrow> string list \<Rightarrow> string \<Rightarrow> hval list \<Rightarrow> nat \<Rightarrow> memory \<Rightarrow> (nat \<times> memory) go_result option" where
  "happly_overrides n overridePath clusterName [] obj h = Some (Inr (obj, h))"
| "happly_overrides n overridePath clusterName (HMap a # rest) obj h =
     (case cell_at h a of
        Some (MapCell clusterOverride) \<Rightarrow>
          if mget clusterOverride ''clustername'' \<noteq> Some (HString clusterName)
          then happly_overrides n overridePath clusterName rest obj h
          else (case mget clusterOverride (last overridePath) of
                  None \<Rightarrow> Some (Inr (obj, h))
                | Some data \<Rightarrow> hsetNestedField n obj data overridePath h)
      | _ \<Rightarrow> Some (Inl (GoPanic ''invalid memory address'')))"
| "happly_overrides n overridePath clusterName (_ # rest) obj h =
     Some (Inl (GoPanic ''interface conversion: not map[string]interface {}''))"

definition hobjectForCluster :: "nat \<Rightarrow> FederatedTypeConfig \<Rightarrow> nat \<Rightarrow> nat option \<Rightarrow> string \<Rightarrow> memory
    \<Rightarrow> (nat \<times> memory) go_result option" where
  "hobjectForCluster n typeConfig template override clusterName h =
     hbind (if mr_Kind (GetTarget typeConfig) = NamespaceKind
            then hnamespace_body n template h else htemplate_body n typeConfig template h)
       (\<lambda>obj h1. case override of
          None \<Rightarrow> Some (Inr (obj, h1))
        | Some o' \<Rightarrow>
            (case hNestedSlice n (HMap o') [''spec'', ''overrides''] h1 of
               None \<Rightarrow> None
             | Some (Inl e) \<Rightarrow> Some (Inl (ErrWrapped ''Error retrieving overrides'' e))
             | Some (Inr (None, h2)) \<Rightarrow> Some (Inr (obj, h2))
             | Some (Inr (Some overrides, h2)) \<Rightarrow>
                 if length (GetOverridePath typeConfig) = 0
                 then Some (Inl (ErrOther ''Override path is missing''))
                 else (case cell_at h2 overrides of
                         Some (ArrCell xs) \<Rightarrow> happly_overrides n (GetOverridePath typeConfig) clusterName xs obj h2
                       | _ \<Rightarrow> Some (Inl (GoPanic ''invalid memory address'')))))"

subsection \<open>Objects in cells of their own\<close>

definition grown :: "memory \<Rightarrow> memory \<Rightarrow> bool" where
  "grown h h' \<longleftrightarrow> length h \<le> length h' \<and> (\<forall>x < length h. cell_at h' x = cell_at h x)"

text \<open>Since \<open>h\<close>, an object with the value \<open>m\<close> has been built at \<open>a\<close>, in cells that \<open>h\<close> did not have.\<close>

definition built :: "memory \<Rightarrow> memory \<Rightarrow> nat \<Rightarrow> jobj \<Rightarrow> bool" where
  "built h h' a m \<longleftrightarrow> grown h h' \<and> (\<exists>A. represents h' (HMap a) (JObj m) A \<and> A \<subseteq> {length h..<length h'})"

lemma grown_refl [simp]: "grown h h"
  by (simp add: grown_def)

lemma grown_trans: "grown h h1 \<Longrightarrow> grown h1 h2 \<Longrightarrow> grown h h2"
  by (simp add: grown_def)

lemma grown_append [simp]: "grown h (h @ g)"
  by (simp add: grown_def cell_at_append)

lemma represents_grown:
  assumes "grown h h'" and "represents h x v A"
  shows "represents h' x v A"
  by (rule represents_frame(1) [OF assms(2)]) (use represents_alloc(1) [OF assms(2)] assms(1) in \<open>auto simp: grown_def\<close>)


lemma copied_grown: "copied h h' y v \<Longrightarrow> grown h h'"
  by (auto simp: copied_def)

lemma copied_built: "copied h h' (HMap a) (JObj m) \<Longrightarrow> built h h' a m"
  by (auto simp: built_def copied_def)

lemma built_grown:
  assumes "built h h1 a m" and "grown h1 h2"
  shows "built h h2 a m"
proof -
  obtain A where A: "represents h1 (HMap a) (JObj m) A" "A \<subseteq> {length h..<length h1}" and g: "grown h h1"
    using assms(1) by (auto simp: built_def)
  have "A \<subseteq> {length h..<length h2}" using A(2) assms(2) by (auto simp: grown_def)
  with represents_grown [OF assms(2) A(1)] grown_trans [OF g assms(2)] show ?thesis unfolding built_def by blast
qed

text \<open>A write to an object in cells of its own, of a value in other new cells.\<close>

lemma built_set:
  assumes "built h h1 a m" and "copied h1 h2 y v"
  shows "case setNestedFieldNoCopy m v path of Inl e \<Rightarrow> hset h2 a y path = Inl e \<and> built h h2 a m
    | Inr m' \<Rightarrow> \<exists>h3. hset h2 a y path = Inr h3 \<and> built h h3 a m'"
proof -
  obtain A where A: "represents h1 (HMap a) (JObj m) A" "A \<subseteq> {length h..<length h1}" and g: "grown h h1"
    using assms(1) by (auto simp: built_def)
  obtain new B where B: "h2 = h1 @ new" "represents h2 y v B" "B \<subseteq> {length h1..<length h2}"
    using assms(2) by (auto simp: copied_def)
  have A2: "represents h2 (HMap a) (JObj m) A" using represents_append(1) [OF A(1)] by (simp add: B(1))
  have "A \<inter> B = {}" using A(2) B(3) by fastforce
  note set = hset_represents [OF A2 B(2) this, of path]
  have keep: "built h h2 a m" by (rule built_grown [OF assms(1)]) (simp add: B(1))
  show ?thesis
  proof (cases "setNestedFieldNoCopy m v path")
    case (Inl e)
    with set keep show ?thesis by simp
  next
    case (Inr m')
    with set obtain h3 A' where h3: "hset h2 a y path = Inr h3" "represents h3 (HMap a) (JObj m') A'"
      "A' \<subseteq> A \<union> B \<union> {length h2..<length h3}" "length h2 \<le> length h3" "\<And>x. x < length h2 \<Longrightarrow> x \<notin> A \<Longrightarrow> cell_at h3 x = cell_at h2 x"
      by (auto simp: written_def)
    have len: "length h \<le> length h1" "length h1 \<le> length h2" using g B(1) by (simp_all add: grown_def)
    have "cell_at h3 x = cell_at h x" if "x < length h" for x
    proof -
      have "x \<notin> A" using that A(2) by auto
      then have "cell_at h3 x = cell_at h2 x" using h3(5) [of x] that len by simp
      also have "\<dots> = cell_at h1 x" using that len B(1) by (simp add: cell_at_append)
      finally show ?thesis using g that by (simp add: grown_def)
    qed
    then have "grown h h3" using len h3(4) by (simp add: grown_def)
    moreover have "A' \<subseteq> {length h..<length h3}" using h3(3,4) A(2) B(3) len by fastforce
    ultimately show ?thesis using h3(1,2) Inr by (auto simp: built_def)
  qed
qed

lemma built_write:
  assumes "built h h1 a m" and "copied h1 h2 y v"
  shows "built h (case hset h2 a y path of Inl _ \<Rightarrow> h2 | Inr h3 \<Rightarrow> h3) a (set_or_keep m (setNestedFieldNoCopy m v path))"
  using built_set [OF assms, of path] by (auto simp: set_or_keep_def split: sum.splits)

lemma hsetNestedField_built:
  assumes "built h h1 a m" and "represents h1 x v B" and "nodes v \<le> n"
  obtains h2 where "hsetNestedField n a x path h1 = Some (Inr (a, h2))" and "built h h2 a (setNestedField m v path)"
    and "\<And>h0. grown h0 h \<Longrightarrow> grown h0 h2"
proof -
  obtain y h2 where c: "DeepCopyJSONValue n x h1 = Some (Inr (y, h2))" "copied h1 h2 y v"
    using DeepCopyJSONValue_copies(1) [OF assms(2,3)] by blast
  let ?h3 = "case hset h2 a y path of Inl _ \<Rightarrow> h2 | Inr h3 \<Rightarrow> h3"
  have "hsetNestedField n a x path h1 = Some (Inr (a, ?h3))" by (simp add: hsetNestedField_def hbind_def c(1))
  moreover note w = built_write [OF assms(1) c(2), of path]
  ultimately show thesis
    using that [of ?h3] grown_trans by (metis SetNestedField_def built_def setNestedField_def)
qed

lemma hsetNestedField_string:
  assumes "built h h1 a m" and "1 \<le> n"
  obtains h2 where "hsetNestedField n a (HString s) path h1 = Some (Inr (a, h2))" and "built h h2 a (setNestedField m (JString s) path)"
  using hsetNestedField_built [OF assms(1), of "HString s" "JString s" "{}" n path] assms(2) by auto


subsection \<open>Reading copies of fields\<close>

lemma nodes_entry: "mget m f = Some w \<Longrightarrow> nodes w \<le> nodes (JObj m)"
  by (induction m) (auto split: if_splits)

lemma nodes_nested: "nested_from v path = Inr (Some w) \<Longrightarrow> nodes w \<le> nodes v"
proof (induction path arbitrary: v)
  case (Cons f path)
  then obtain m v' where "v = JObj m" "mget m f = Some v'" "nested_from v' path = Inr (Some w)"
    by (auto split: json.splits option.splits)
  with Cons.IH [of v'] nodes_entry [of m f v'] show ?case by simp
qed simp

lemma hNestedMap_built:
  assumes "represents h (HMap t) (JObj m) A" and "nodes (JObj m) \<le> n"
  shows "case NestedMap m path of Inl e \<Rightarrow> hNestedMap n (HMap t) path h = Some (Inl e)
    | Inr None \<Rightarrow> hNestedMap n (HMap t) path h = Some (Inr (None, h))
    | Inr (Some m') \<Rightarrow> \<exists>b h1. hNestedMap n (HMap t) path h = Some (Inr (Some b, h1)) \<and> built h h1 b m'"
proof -
  note nested = hnested_represents [OF assms(1), of path]
  show ?thesis
  proof (cases "nested_from (JObj m) path")
    case (Inl e)
    with nested show ?thesis by (simp add: NestedMap_def nestedFieldNoCopy_def hNestedMap_def)
  next
    case (Inr r)
    show ?thesis
    proof (cases r)
      case None
      with Inr nested show ?thesis by (simp add: NestedMap_def nestedFieldNoCopy_def hNestedMap_def)
    next
      case (Some w)
      then obtain y B where y: "hnested h (HMap t) path = Inr (Some y)" "represents h y w B" using nested Inr by auto
      show ?thesis
      proof (cases w)
        case (JObj m')
        then obtain a where a: "y = HMap a" using y(2) by (auto elim: represents_objE)
        have "nodes w \<le> n" using nodes_nested [of "JObj m" path w] Inr Some assms(2) by simp
        then obtain z h1 where c: "DeepCopyJSONValue n y h = Some (Inr (z, h1))" "copied h h1 z w"
          using DeepCopyJSONValue_copies(1) [OF y(2)] by blast
        obtain b where "z = HMap b" using c(2) JObj by (auto simp: copied_def elim: represents_objE)
        with c a y(1) Inr Some JObj copied_built [of h h1 b m'] show ?thesis
          by (simp add: NestedMap_def nestedFieldNoCopy_def hNestedMap_def hbind_def)
      qed (use y Inr Some in \<open>auto simp: NestedMap_def nestedFieldNoCopy_def hNestedMap_def elim: represents.cases\<close>)
    qed
  qed
qed

lemma hNestedSlice_copied:
  assumes "represents h (HMap t) (JObj m) A" and "nodes (JObj m) \<le> n"
  shows "case NestedSlice m path of Inl e \<Rightarrow> hNestedSlice n (HMap t) path h = Some (Inl e)
    | Inr None \<Rightarrow> hNestedSlice n (HMap t) path h = Some (Inr (None, h))
    | Inr (Some vs) \<Rightarrow> \<exists>b h1 B. hNestedSlice n (HMap t) path h = Some (Inr (Some b, h1)) \<and> grown h h1 \<and>
        represents h1 (HArr b) (JArr vs) B \<and> nodes (JArr vs) \<le> n"
proof -
  note nested = hnested_represents [OF assms(1), of path]
  show ?thesis
  proof (cases "nested_from (JObj m) path")
    case (Inl e)
    with nested show ?thesis by (simp add: NestedSlice_def nestedFieldNoCopy_def hNestedSlice_def)
  next
    case (Inr r)
    show ?thesis
    proof (cases r)
      case None
      with Inr nested show ?thesis by (simp add: NestedSlice_def nestedFieldNoCopy_def hNestedSlice_def)
    next
      case (Some w)
      then obtain y B where y: "hnested h (HMap t) path = Inr (Some y)" "represents h y w B" using nested Inr by auto
      show ?thesis
      proof (cases w)
        case (JArr vs)
        then obtain a where a: "y = HArr a" using y(2) by (auto elim: represents.cases)
        have fuel: "nodes w \<le> n" using nodes_nested [of "JObj m" path w] Inr Some assms(2) by simp
        then obtain z h1 where c: "DeepCopyJSONValue n y h = Some (Inr (z, h1))" "copied h h1 z w"
          using DeepCopyJSONValue_copies(1) [OF y(2)] by blast
        obtain C where z: "represents h1 z (JArr vs) C" using c(2) JArr by (auto simp: copied_def)
        then obtain b where "z = HArr b" "represents h1 (HArr b) (JArr vs) C" by (cases z) (auto elim: represents_mapE)
        with c a y(1) Inr Some JArr fuel copied_grown [OF c(2)] show ?thesis
          by (auto simp: NestedSlice_def nestedFieldNoCopy_def hNestedSlice_def hbind_def)
      qed (use y Inr Some in \<open>auto simp: NestedSlice_def nestedFieldNoCopy_def hNestedSlice_def elim: represents.cases\<close>)
    qed
  qed
qed

lemma hgetNestedString_represents:
  assumes "represents h (HMap t) (JObj m) A"
  shows "hgetNestedString h (HMap t) path = getNestedString m path"
  using hnested_represents [OF assms, of path]
  by (auto simp: hgetNestedString_def getNestedString_def NestedString_def nestedFieldNoCopy_def
      elim: represents_mapE represents_arrE split: sum.splits option.splits json.splits hval.splits)


subsection \<open>The bodies\<close>

lemma represents_filter:
  assumes "represents_all h (map snd kvs) (map snd m) C" and "map fst kvs = map fst m"
  shows "\<exists>C'. C' \<subseteq> C \<and> represents_all h (map snd (filter (\<lambda>(k, v). P k) kvs)) (map snd (filter (\<lambda>(k, v). P k) m)) C' \<and>
    map fst (filter (\<lambda>(k, v). P k) kvs) = map fst (filter (\<lambda>(k, v). P k) m)"
  using assms
proof (induction kvs arbitrary: m C)
  case (Cons kv kvs)
  obtain k x where kv: "kv = (k, x)" by (cases kv)
  obtain w m' where m: "m = (k, w) # m'" "map fst kvs = map fst m'"
    using Cons.prems(2) by (cases m) (auto simp: kv)
  obtain A B where AB: "C = A \<union> B" "represents h x w A" "represents_all h (map snd kvs) (map snd m') B" "A \<inter> B = {}"
    using Cons.prems(1) by (auto simp: kv m elim: represents_consE)
  obtain B' where B': "B' \<subseteq> B" "represents_all h (map snd (filter (\<lambda>(k, v). P k) kvs)) (map snd (filter (\<lambda>(k, v). P k) m')) B'"
    "map fst (filter (\<lambda>(k, v). P k) kvs) = map fst (filter (\<lambda>(k, v). P k) m')"
    using Cons.IH [OF AB(3) m(2)] by blast
  show ?case
  proof (cases "P k")
    case True
    have "represents_all h (x # map snd (filter (\<lambda>(k, v). P k) kvs)) (w # map snd (filter (\<lambda>(k, v). P k) m')) (A \<union> B')"
      by (rule represents_represents_all.cons [OF AB(2) B'(2)]) (use AB(4) B'(1) in blast)
    then show ?thesis using B' AB(1) True by (intro exI [of _ "A \<union> B'"]) (auto simp: kv m)
  next
    case False
    then show ?thesis using B' AB(1) by (intro exI [of _ B']) (auto simp: kv m)
  qed
qed simp

lemma hnamespace_body_built:
  assumes t: "represents h (HMap t) (JObj template) A" and fuel: "nodes (JObj template) \<le> n"
  shows "case namespace_body template of Inl e \<Rightarrow> hnamespace_body n t h = Some (Inl e)
    | Inr obj \<Rightarrow> \<exists>a h1. hnamespace_body n t h = Some (Inr (a, h1)) \<and> built h h1 a obj"
proof -
  note read = hNestedMap_built [OF assms, of "[''metadata'']"]
  show ?thesis
  proof (cases "NestedMap template [''metadata'']")
    case (Inl e)
    with read show ?thesis by (simp add: namespace_body_def hnamespace_body_def)
  next
    case (Inr r)
    show ?thesis
    proof (cases r)
      case None
      with read Inr show ?thesis by (simp add: namespace_body_def hnamespace_body_def)
    next
      case (Some meta)
      then obtain b h1 where b: "hNestedMap n (HMap t) [''metadata''] h = Some (Inr (Some b, h1))" "built h h1 b meta"
        using read Inr by auto
      then obtain B where B: "represents h1 (HMap b) (JObj meta) B" "B \<subseteq> {length h..<length h1}" and g: "grown h h1"
        by (auto simp: built_def)
      obtain kvs C where cell: "cell_at h1 b = Some (MapCell kvs)" "B = insert b C" "b \<notin> C"
        "represents_all h1 (map snd kvs) (map snd meta) C" "map fst kvs = map fst meta"
        using B(1) by (auto elim: represents_mapE)
      let ?keep = "\<lambda>(key, v). sset_has (sset_of targetFields) key"
      let ?h2 = "h1[b := MapCell (filter ?keep kvs)]"
      let ?h3 = "?h2 @ [MapCell [(''metadata'', HMap b)]]"
      have run: "hnamespace_body n t h = Some (Inr (length ?h2, ?h3))"
        using b(1) cell(1) by (simp add: hnamespace_body_def Let_def)
      have bl: "b < length h1" using cell(1) by (auto simp: cell_at_def split: if_splits)
      have other: "cell_at ?h3 x = cell_at h1 x" if "x < length h1" "x \<noteq> b" for x
        using that by (simp add: cell_at_def nth_append)
      obtain C' where C': "C' \<subseteq> C" "represents_all h1 (map snd (filter ?keep kvs)) (map snd (filter ?keep meta)) C'"
        "map fst (filter ?keep kvs) = map fst (filter ?keep meta)"
        using represents_filter [OF cell(4,5)] by blast
      have Cl: "C \<subseteq> {..<length h1}" by (rule represents_alloc(2) [OF cell(4)])
      have inner: "represents_all ?h3 (map snd (filter ?keep kvs)) (map snd (filter ?keep meta)) C'"
        by (rule represents_frame(2) [OF C'(2)], rule other) (use C'(1) Cl cell(3) in auto)
      have meta: "represents ?h3 (HMap b) (JObj (filter ?keep meta)) (insert b C')"
        by (rule represents_represents_all.map [OF _ inner C'(3)]) (use bl cell(3) C'(1) in \<open>auto simp: cell_at_def nth_append\<close>)
      have "represents_all ?h3 (map snd [(''metadata'', HMap b)]) (map snd [(''metadata'', JObj (filter ?keep meta))]) (insert b C' \<union> {})"
        using represents_represents_all.cons [OF meta represents_represents_all.nil] by simp
      then have "represents ?h3 (HMap (length ?h2)) (JObj [(''metadata'', JObj (filter ?keep meta))])
          (insert (length ?h2) (insert b C' \<union> {}))"
        by (rule represents_represents_all.map [rotated]) (use bl C'(1) Cl in \<open>auto simp: cell_at_def nth_append\<close>)
      moreover have "b \<notin> {..<length h}" "C' \<subseteq> {length h..<length h1}" using B(2) cell(2) C'(1) by auto
      then have "grown h ?h3" "insert (length ?h2) (insert b C' \<union> {}) \<subseteq> {length h..<length ?h3}"
        using g other bl by (auto simp: grown_def)
      ultimately have "built h ?h3 (length ?h2) [(''metadata'', JObj (filter ?keep meta))]"
        unfolding built_def by blast
      with run Inr Some show ?thesis by (simp add: namespace_body_def)
    qed
  qed
qed

lemma htemplate_body_built:
  assumes t: "represents h (HMap t) (JObj template) A" and fuel: "nodes (JObj template) \<le> n"
  shows "case template_body tc template of Inl e \<Rightarrow> htemplate_body n tc t h = Some (Inl e)
    | Inr obj \<Rightarrow> \<exists>a h1. htemplate_body n tc t h = Some (Inr (a, h1)) \<and> built h h1 a obj"
proof -
  note read = hNestedMap_built [OF assms, of "[''spec'', ''template'']"]
  show ?thesis
  proof (cases "NestedMap template [''spec'', ''template'']")
    case (Inl e)
    with read show ?thesis by (simp add: template_body_def htemplate_body_def)
  next
    case (Inr r)
    show ?thesis
    proof (cases r)
      case None
      with read Inr show ?thesis by (simp add: template_body_def htemplate_body_def)
    next
      case (Some body)
      then obtain b h1 where b: "hNestedMap n (HMap t) [''spec'', ''template''] h = Some (Inr (Some b, h1))" "built h h1 b body"
        using read Inr by auto
      have "represents h1 (HMap t) (JObj template) A" using represents_grown [OF _ t] b(2) by (simp add: built_def)
      note get = hgetNestedString_represents [OF this]
      have n: "1 \<le> n" using fuel by simp
      obtain h2 where h2: "hsetNestedField n b (HString (GetName template)) [''metadata'', ''name''] h1 = Some (Inr (b, h2))"
        "built h h2 b (SetName body (GetName template))"
        by (rule hsetNestedField_string [OF b(2) n]) (simp add: SetName_def)
      obtain h3 where h3: "hsetNestedField n b (HString (GetNamespace template)) [''metadata'', ''namespace''] h2 = Some (Inr (b, h3))"
        "built h h3 b (SetNamespace (SetName body (GetName template)) (GetNamespace template))"
        by (rule hsetNestedField_string [OF h2(2) n]) (simp add: SetNamespace_def)
      obtain h4 where h4: "hsetNestedField n b (HString (mr_Kind (GetTarget tc))) [''kind''] h3 = Some (Inr (b, h4))"
        "built h h4 b (SetKind (SetNamespace (SetName body (GetName template)) (GetNamespace template)) (mr_Kind (GetTarget tc)))"
        by (rule hsetNestedField_string [OF h3(2) n]) (simp add: SetKind_def)
      obtain h5 where h5: "hsetNestedField n b (HString (mr_Group (GetTarget tc) @ ''/'' @ mr_Version (GetTarget tc))) [''apiVersion''] h4
          = Some (Inr (b, h5))" "built h h5 b (SetAPIVersion (SetKind (SetNamespace (SetName body (GetName template)) (GetNamespace template))
          (mr_Kind (GetTarget tc))) (mr_Group (GetTarget tc) @ ''/'' @ mr_Version (GetTarget tc)))"
        by (rule hsetNestedField_string [OF h4(2) n]) (simp add: SetAPIVersion_def)
      have "htemplate_body n tc t h = Some (Inr (b, h5))"
        using b(1) h2(1) h3(1) h4(1) h5(1)
        by (simp add: htemplate_body_def hbind_def Let_def get GetName_def GetNamespace_def)
      with h5(2) Inr Some show ?thesis by (simp add: template_body_def Let_def)
    qed
  qed
qed


subsection \<open>The overrides\<close>

lemma represents_string_iff: "represents h y v A \<Longrightarrow> y = HString s \<longleftrightarrow> v = JString s"
  by (auto elim: represents.cases)

lemma clustername_represents:
  assumes "represents_all h (map snd kvs) (map snd m) C" and "map fst kvs = map fst m"
  shows "mget kvs ''clustername'' = Some (HString s) \<longleftrightarrow> jget m ''clustername'' = JString s"
  by (rule represents_entry [OF assms, of "''clustername''"]) (auto simp: jget_def mget0_def represents_string_iff)

lemma happly_overrides_built:
  assumes "represents_all h1 xs vs B" and "built h h1 a m" and "sum_list (map nodes vs) \<le> n"
  shows "case apply_overrides path c vs m of Inl e \<Rightarrow> happly_overrides n path c xs a h1 = Some (Inl e)
    | Inr m' \<Rightarrow> \<exists>h2. happly_overrides n path c xs a h1 = Some (Inr (a, h2)) \<and> built h h2 a m'"
  using assms(1,3)
proof (induction xs arbitrary: vs B)
  case Nil
  then show ?case using assms(2) by auto
next
  case (Cons x xs)
  obtain v vs' X C where v: "vs = v # vs'" "represents h1 x v X" "represents_all h1 xs vs' C"
    using Cons.prems(1) by (auto elim: represents_consE)
  have fuel: "nodes v \<le> n" "sum_list (map nodes vs') \<le> n" using Cons.prems(2) by (simp_all add: v(1))
  show ?case
  proof (cases v)
    case (JObj ov)
    then obtain b kvs D where b: "x = HMap b" "cell_at h1 b = Some (MapCell kvs)"
      "represents_all h1 (map snd kvs) (map snd ov) D" "map fst kvs = map fst ov"
      using v(2) by (auto elim: represents_objE)
    obtain B0 where entry: "mget ov (last path) = None \<and> mget kvs (last path) = None \<and> B0 = {} \<or>
        (\<exists>y w. mget ov (last path) = Some w \<and> mget kvs (last path) = Some y \<and> represents h1 y w B0)"
      by (rule represents_entry [OF b(3,4), of "last path"])
    note name = clustername_represents [OF b(3,4), of c]
    show ?thesis
    proof (cases "jget ov ''clustername'' = JString c")
      case True
      from entry show ?thesis
      proof (elim disjE exE conjE)
        fix y w assume yw: "mget ov (last path) = Some w" "mget kvs (last path) = Some y" "represents h1 y w B0"
        have "nodes w \<le> n" using nodes_entry [OF yw(1)] fuel(1) by (simp add: JObj)
        from hsetNestedField_built [OF assms(2) yw(3) this, of path] show ?thesis
          using yw(1,2) True name by (simp add: v(1) JObj b(1,2)) metis
      qed (use assms(2) True name in \<open>simp add: v(1) JObj b(1,2)\<close>)
    next
      case False
      with Cons.IH [OF v(3) fuel(2)] name b(2) show ?thesis by (simp add: v(1) JObj b(1) split: sum.splits)
    qed
  qed (use v(2) in \<open>auto simp: v(1) elim: represents.cases\<close>)
qed

lemma built_grows: "built h h1 a m \<Longrightarrow> grown h h1"
  by (simp add: built_def)

lemma hbody_built:
  assumes "represents h (HMap t) (JObj template) A" and "nodes (JObj template) \<le> n"
  shows "case (if k then namespace_body template else template_body tc template) of
      Inl e \<Rightarrow> (if k then hnamespace_body n t h else htemplate_body n tc t h) = Some (Inl e)
    | Inr obj \<Rightarrow> \<exists>a h1. (if k then hnamespace_body n t h else htemplate_body n tc t h) = Some (Inr (a, h1)) \<and> built h h1 a obj"
  using hnamespace_body_built [OF assms] htemplate_body_built [OF assms, of tc] by simp

lemma hobjectForCluster_built:
  assumes t: "represents h (HMap t) (JObj template) A" "nodes (JObj template) \<le> n"
    and o: "represents h (HMap o') (JObj override) B" "nodes (JObj override) \<le> n"
  shows "case objectForCluster tc template (Some override) c of
      Inl e \<Rightarrow> hobjectForCluster n tc t (Some o') c h = Some (Inl e)
    | Inr obj \<Rightarrow> \<exists>a h'. hobjectForCluster n tc t (Some o') c h = Some (Inr (a, h')) \<and> built h h' a obj"
proof -
  let ?k = "mr_Kind (GetTarget tc) = NamespaceKind"
  note body = hbody_built [OF t, of ?k tc]
  show ?thesis
  proof (cases "if ?k then namespace_body template else template_body tc template")
    case (Inl e)
    with body show ?thesis by (simp only: objectForCluster_def hobjectForCluster_def rbind_def hbind_def) simp
  next
    case (Inr obj)
    with body obtain a h1 where b: "(if ?k then hnamespace_body n t h else htemplate_body n tc t h) = Some (Inr (a, h1))"
      "built h h1 a obj" by auto
    note read = hNestedSlice_copied [OF represents_grown [OF built_grows [OF b(2)] o(1)] o(2), of "[''spec'', ''overrides'']"]
    show ?thesis
    proof (cases "NestedSlice override [''spec'', ''overrides'']")
      case (Inl e)
      with read Inr b show ?thesis by (simp only: objectForCluster_def hobjectForCluster_def rbind_def hbind_def) simp
    next
      case r: (Inr r)
      show ?thesis
      proof (cases r)
        case None
        with read r Inr b show ?thesis by (simp only: objectForCluster_def hobjectForCluster_def rbind_def hbind_def) simp
      next
        case (Some vs)
        with read r obtain y h2 xs C where s: "hNestedSlice n (HMap o') [''spec'', ''overrides''] h1 = Some (Inr (Some y, h2))"
          "grown h1 h2" "cell_at h2 y = Some (ArrCell xs)" "represents_all h2 xs vs C" "nodes (JArr vs) \<le> n"
          by (auto elim: represents_arrE)
        have "sum_list (map nodes vs) \<le> n" using s(5) by simp
        note loop = happly_overrides_built [OF s(4) built_grown [OF b(2) s(2)] this, of "GetOverridePath tc" c]
        show ?thesis
        proof (cases "length (GetOverridePath tc) = 0")
          case True
          with r Some Inr b s(1) show ?thesis
            by (simp only: objectForCluster_def hobjectForCluster_def rbind_def hbind_def) simp
        next
          case False
          with r Some Inr b s(1,3) loop show ?thesis
            by (simp only: objectForCluster_def hobjectForCluster_def rbind_def hbind_def) (auto split: sum.splits)
        qed
      qed
    qed
  qed
qed

end
