(* ===== verification/Operations_Memory.thy ===== *)
theory Operations_Memory
  imports Sync_Memory Sync_Claims2
begin

section \<open>The operations of a reconciliation in memory\<close>

text \<open>
  \<open>clusterOperations\<close> of \<open>pkg/controller/sync/controller.go\<close> on memory: the objects of the member
  clusters are references into the stores of the target informers, the object that is sent to a cluster
  is written in place after \<open>objectForCluster\<close> has built it. The refinement says that this computes
  the operations of the value model, that the objects of two clusters share no cell, and that nothing in
  memory before, such as the caches, is changed.
\<close>

subsection \<open>Reading\<close>

text \<open>
  The value of a reference, for code that only reads the objects it is given: the comparison of a
  desired object with the one in a cluster, its version, and \<open>IsPrimaryCluster\<close>. The recursion runs on
  fuel, since memory may have cycles.
\<close>

function (sequential) hread :: "nat \<Rightarrow> memory \<Rightarrow> hval \<Rightarrow> json option"
  and hread_all :: "nat \<Rightarrow> memory \<Rightarrow> hval list \<Rightarrow> json list option" where
  "hread 0 h x = None"
| "hread (Suc n) h (HMap a) =
     (case cell_at h a of
        Some (MapCell kvs) \<Rightarrow> map_option (\<lambda>vs. JObj (zip (map fst kvs) vs)) (hread_all n h (map snd kvs))
      | _ \<Rightarrow> None)"
| "hread (Suc n) h (HArr a) =
     (case cell_at h a of Some (ArrCell xs) \<Rightarrow> map_option JArr (hread_all n h xs) | _ \<Rightarrow> None)"
| "hread (Suc n) h HNull = Some JNull"
| "hread (Suc n) h (HBool b) = Some (JBool b)"
| "hread (Suc n) h (HInt i) = Some (JInt i)"
| "hread (Suc n) h (HFloat w) = Some (JFloat w)"
| "hread (Suc n) h (HString s) = Some (JString s)"
| "hread (Suc n) h HOther = None"
| "hread_all n h [] = Some []"
| "hread_all n h (x # xs) =
     (case hread n h x of None \<Rightarrow> None | Some v \<Rightarrow> map_option (\<lambda>vs. v # vs) (hread_all n h xs))"
  by pat_completeness auto
termination
  by (relation "measures [\<lambda>r. case r of Inl (n, _, _) \<Rightarrow> n | Inr (n, _, _) \<Rightarrow> n,
      \<lambda>r. case r of Inl _ \<Rightarrow> 0 | Inr (_, _, xs) \<Rightarrow> Suc (length xs)]") auto

definition hread_obj :: "nat \<Rightarrow> memory \<Rightarrow> nat \<Rightarrow> jobj option" where
  "hread_obj n h a = (case hread n h (HMap a) of Some (JObj m) \<Rightarrow> Some m | _ \<Rightarrow> None)"

definition hNestedString :: "memory \<Rightarrow> hval \<Rightarrow> string list \<Rightarrow> string option go_result" where
  "hNestedString h v path =
     (case hnested h v path of
        Inl e \<Rightarrow> Inl e
      | Inr None \<Rightarrow> Inr None
      | Inr (Some (HString s)) \<Rightarrow> Inr (Some s)
      | Inr (Some _) \<Rightarrow> Inl (ErrOther ''accessor error: expected string''))"

text \<open>Comparing two \<open>interface{}\<close> values with \<open>==\<close>, on references.\<close>

fun hiface_eq :: "hval \<Rightarrow> hval \<Rightarrow> bool go_result" where
  "hiface_eq (HArr _) (HArr _) = Inl (GoPanic ''comparing uncomparable type'')"
| "hiface_eq (HMap _) (HMap _) = Inl (GoPanic ''comparing uncomparable type'')"
| "hiface_eq HOther HOther = Inl (GoPanic ''comparing uncomparable type'')"
| "hiface_eq (HFloat a) (HFloat b) = Inr (float_eq a b)"
| "hiface_eq a b = Inr (a = b)"

subsection \<open>Updates in place\<close>

definition hSetNestedField :: "nat \<Rightarrow> nat \<Rightarrow> hval \<Rightarrow> string list \<Rightarrow> memory \<Rightarrow> (nat \<times> memory) go_result option" where
  "hSetNestedField n obj v path h =
     hbind (DeepCopyJSONValue n v h) (\<lambda>w h1.
       Some (case hset h1 obj w path of Inl e \<Rightarrow> Inl e | Inr h2 \<Rightarrow> Inr (obj, h2)))"

definition hsame_port :: "(string, hval) gomap \<Rightarrow> (string, hval) gomap \<Rightarrow> bool go_result" where
  "hsame_port fPort cPort =
     rbind (hiface_eq (mget0 HNull fPort ''name'') (mget0 HNull cPort ''name'')) (\<lambda>n. if \<not> n then Inr False else
     rbind (hiface_eq (mget0 HNull fPort ''protocol'') (mget0 HNull cPort ''protocol'')) (\<lambda>p. if \<not> p then Inr False else
     hiface_eq (mget0 HNull fPort ''port'') (mget0 HNull cPort ''port'')))"

fun hretain_nodeports :: "hval \<Rightarrow> hval list \<Rightarrow> memory \<Rightarrow> memory go_result" where
  "hretain_nodeports fPort [] h = Inr h"
| "hretain_nodeports fPort (c # cs) h =
     (case (fPort, c) of
        (HMap f, HMap cPort) \<Rightarrow>
          (case (cell_at h f, cell_at h cPort) of
             (Some (MapCell fp), Some (MapCell cp)) \<Rightarrow>
               rbind (hsame_port fp cp) (\<lambda>same.
                 hretain_nodeports fPort cs
                   (if \<not> same then h
                    else (case mget cp ''nodePort'' of
                            Some nodePort \<Rightarrow> h[cPort := MapCell (mput ''nodePort'' nodePort cp)] | None \<Rightarrow> h)))
           | _ \<Rightarrow> Inl (GoPanic ''invalid memory address''))
      | _ \<Rightarrow> Inl (GoPanic ''interface conversion: not map[string]interface {}''))"

fun hretain_all :: "hval list \<Rightarrow> hval list \<Rightarrow> memory \<Rightarrow> memory go_result" where
  "hretain_all [] clusterPorts h = Inr h"
| "hretain_all (f # fs) clusterPorts h = rbind (hretain_nodeports f clusterPorts h) (hretain_all fs clusterPorts)"

definition hretain_clusterIP :: "nat \<Rightarrow> nat \<Rightarrow> nat \<Rightarrow> memory \<Rightarrow> (nat \<times> memory) go_result option" where
  "hretain_clusterIP n desiredObj clusterObj h =
     (case hNestedString h (HMap clusterObj) [''spec'', ''clusterIP''] of
        Inl e \<Rightarrow> Some (Inl (ErrWrapped ''Error retrieving clusterIP from cluster service'' e))
      | Inr None \<Rightarrow> Some (Inr (desiredObj, h))
      | Inr (Some clusterIP) \<Rightarrow>
          if clusterIP \<noteq> []
          then map_option (map_sum (ErrWrapped ''Error setting clusterIP for service'') id)
                 (hSetNestedField n desiredObj (HString clusterIP) [''spec'', ''clusterIP''] h)
          else Some (Inr (desiredObj, h)))"

definition hserviceForUpdateOp :: "nat \<Rightarrow> nat \<Rightarrow> nat \<Rightarrow> memory \<Rightarrow> (nat \<times> memory) go_result option" where
  "hserviceForUpdateOp n desiredObj clusterObj h =
     hbind (hretain_clusterIP n desiredObj clusterObj h) (\<lambda>desired1 h1.
       case hNestedSlice n (HMap clusterObj) [''spec'', ''ports''] h1 of
         None \<Rightarrow> None
       | Some (Inl e) \<Rightarrow> Some (Inl (ErrWrapped ''Error retrieving ports from cluster service'' e))
       | Some (Inr (None, h2)) \<Rightarrow> Some (Inr (desired1, h2))
       | Some (Inr (Some clusterPorts, h2)) \<Rightarrow>
           (case hNestedSlice n (HMap desired1) [''spec'', ''ports''] h2 of
              None \<Rightarrow> None
            | Some (Inl e) \<Rightarrow> Some (Inl (ErrWrapped ''Error retrieving ports from service'' e))
            | Some (Inr (found, h3)) \<Rightarrow>
                (let (desiredPorts, h4) = (case found of None \<Rightarrow> (length h3, h3 @ [ArrCell []]) | Some ps \<Rightarrow> (ps, h3))
                 in case (cell_at h4 desiredPorts, cell_at h4 clusterPorts) of
                      (Some (ArrCell ds), Some (ArrCell cs)) \<Rightarrow>
                        (case hretain_all ds cs h4 of
                           Inl e \<Rightarrow> Some (Inl e)
                         | Inr h5 \<Rightarrow> map_option (map_sum (ErrWrapped ''Error setting ports for service'') id)
                             (hSetNestedField n desired1 (HArr desiredPorts) [''spec'', ''ports''] h5))
                    | _ \<Rightarrow> Some (Inl (GoPanic ''invalid memory address'')))))"

definition hobjectForUpdateOp :: "nat \<Rightarrow> FederatedTypeConfig \<Rightarrow> nat \<Rightarrow> nat \<Rightarrow> memory \<Rightarrow> (nat \<times> memory) go_result option" where
  "hobjectForUpdateOp n typeConfig desiredObj clusterObj h =
     hbind (hsetNestedField n desiredObj
              (HString (hgetNestedString h (HMap clusterObj) [''metadata'', ''resourceVersion'']))
              [''metadata'', ''resourceVersion''] h) (\<lambda>desired1 h1.
       if mr_Kind (GetTarget typeConfig) = ServiceKind
       then hserviceForUpdateOp n desired1 clusterObj h1 else Some (Inr (desired1, h1)))"

subsection \<open>The list of operations\<close>

record MemoryOperation =
  mop_Type :: FederatedOperationType
  mop_ClusterName :: string
  mop_Obj :: nat
  mop_Key :: string

type_synonym get_ref = "string \<Rightarrow> string \<Rightarrow> nat option go_result"

definition hselected_operation :: "nat \<Rightarrow> FederatedTypeConfig \<Rightarrow> ComparisonHelper \<Rightarrow> get_ref \<Rightarrow> nat \<Rightarrow> nat option
    \<Rightarrow> string \<Rightarrow> (string, string) gomap \<Rightarrow> string \<Rightarrow> memory \<Rightarrow> (MemoryOperation option \<times> memory) go_result option" where
  "hselected_operation n typeConfig helper get template override key versions clusterName h =
     hbind (hobjectForCluster n typeConfig template override clusterName h) (\<lambda>desiredObj h1.
       case get clusterName key of
         Inl e \<Rightarrow> Some (Inl (ErrWrapped ''Failed to get from cluster'' e))
       | Inr None \<Rightarrow> Some (Inr (Some \<lparr>mop_Type = OperationTypeAdd, mop_ClusterName = clusterName,
                                      mop_Obj = desiredObj, mop_Key = key\<rparr>, h1))
       | Inr (Some ref) \<Rightarrow>
           (case (hread_obj n h1 template, hread_obj n h1 ref) of
              (Some templateObj, Some clusterObj) \<Rightarrow>
                if mr_Kind (GetTarget typeConfig) = NamespaceKind \<and> IsPrimaryCluster templateObj clusterObj
                then Some (Inr (None, h1))
                else (case hobjectForUpdateOp n typeConfig desiredObj ref h1 of
                        None \<Rightarrow> None
                      | Some (Inl e) \<Rightarrow> Some (Inl (wrap_err ''Failed to determine desired object'' e))
                      | Some (Inr (desired1, h2)) \<Rightarrow>
                          map_option (\<lambda>desired. Inr
                            (if (case mget versions clusterName of
                                   None \<Rightarrow> True
                                 | Some version \<Rightarrow>
                                     version \<noteq> GetVersion helper clusterObj \<or>
                                     \<not> Equivalent helper desired clusterObj)
                             then Some \<lparr>mop_Type = OperationTypeUpdate, mop_ClusterName = clusterName,
                                        mop_Obj = desired1, mop_Key = key\<rparr>
                             else None, h2)) (hread_obj n h2 desired1))
            | _ \<Rightarrow> None))"

definition hunselected_operation :: "get_ref \<Rightarrow> string \<Rightarrow> string \<Rightarrow> memory
    \<Rightarrow> (MemoryOperation option \<times> memory) go_result option" where
  "hunselected_operation get key clusterName h =
     Some (case get clusterName key of
        Inl e \<Rightarrow> Inl (ErrWrapped ''Failed to get from cluster'' e)
      | Inr None \<Rightarrow> Inr (None, h)
      | Inr (Some ref) \<Rightarrow>
          Inr (Some \<lparr>mop_Type = OperationTypeDelete, mop_ClusterName = clusterName,
                     mop_Obj = ref, mop_Key = key\<rparr>, h))"

fun hops_loop :: "(string \<Rightarrow> memory \<Rightarrow> (MemoryOperation option \<times> memory) go_result option) \<Rightarrow> string list
    \<Rightarrow> memory \<Rightarrow> (MemoryOperation list \<times> memory) go_result option" where
  "hops_loop f [] h = Some (Inr ([], h))"
| "hops_loop f (c # cs) h =
     hbind (f c h) (\<lambda>oper h1. hbind (hops_loop f cs h1) (\<lambda>rest h2.
       Some (Inr (case oper of Some p \<Rightarrow> p # rest | None \<Rightarrow> rest, h2))))"

definition hclusterOperations :: "nat \<Rightarrow> FederatedTypeConfig \<Rightarrow> ComparisonHelper \<Rightarrow> get_ref \<Rightarrow> string list
    \<Rightarrow> string list \<Rightarrow> nat \<Rightarrow> nat option \<Rightarrow> string \<Rightarrow> (string, string) gomap \<Rightarrow> memory
    \<Rightarrow> (MemoryOperation list \<times> memory) go_result option" where
  "hclusterOperations n typeConfig helper get selectedClusters unselectedClusters template override key versions h =
     hbind (hops_loop (hselected_operation n typeConfig helper get template override key versions) selectedClusters h)
       (\<lambda>ops1 h1. hbind (hops_loop (hunselected_operation get key) unselectedClusters h1)
       (\<lambda>ops2 h2. Some (Inr (ops1 @ ops2, h2))))"


subsection \<open>Readers agree with the value model\<close>

lemma hread_represents:
  "represents h x v A \<Longrightarrow> nodes v \<le> n \<Longrightarrow> hread n h x = Some v"
  "represents_all h xs vs A \<Longrightarrow> sum_list (map nodes vs) \<le> n \<Longrightarrow> hread_all n h xs = Some vs"
proof (induction arbitrary: n and n rule: represents_represents_all.inducts)
  case (arr a xs vs A)
  then show ?case by (cases n) auto
next
  case (map a kvs m A)
  from map(4) have "zip (map fst kvs) (map snd m) = m" by (metis zip_map_fst_snd)
  with map(1,3,6) show ?case by (cases n) (auto simp: comp_def)
next
  case (cons x v A xs vs B)
  from cons(6) have "nodes v \<le> n" "sum_list (map nodes vs) \<le> n" by simp_all
  with cons(2,4) show ?case by simp
qed (simp_all add: gr0_conv_Suc Suc_le_eq, auto simp: gr0_conv_Suc)

lemma hread_obj_represents: "represents h (HMap a) (JObj m) A \<Longrightarrow> nodes (JObj m) \<le> n \<Longrightarrow> hread_obj n h a = Some m"
  by (simp add: hread_obj_def hread_represents(1))

lemma hNestedString_represents:
  assumes "represents h (HMap t) (JObj m) A"
  shows "hNestedString h (HMap t) path = NestedString m path"
  using hnested_represents [OF assms, of path]
  by (auto simp: hNestedString_def NestedString_def nestedFieldNoCopy_def
      elim: represents_mapE represents_arrE split: sum.splits option.splits json.splits hval.splits)

lemma hiface_eq_represents: "represents h x v A \<Longrightarrow> represents h y w B \<Longrightarrow> hiface_eq x y = iface_eq v w"
  by (cases x; cases y) (auto elim!: represents_mapE represents_arrE)

lemma mget0_represents:
  assumes "represents_all h (map snd kvs) (map snd m) C" and "map fst kvs = map fst m"
  obtains A where "represents h (mget0 HNull kvs k) (jget m k) A"
  by (rule represents_entry [OF assms, of k]) (auto simp: jget_def mget0_def)

lemma hsame_port_represents:
  assumes "represents_all h (map snd fs) (map snd fp) C" "map fst fs = map fst fp"
    and "represents_all h (map snd cs) (map snd cp) D" "map fst cs = map fst cp"
  shows "hsame_port fs cs = same_port fp cp"
proof -
  have "hiface_eq (mget0 HNull fs k) (mget0 HNull cs k) = iface_eq (jget fp k) (jget cp k)" for k
  proof -
    obtain A where A: "represents h (mget0 HNull fs k) (jget fp k) A" by (rule mget0_represents [OF assms(1,2)])
    obtain B where "represents h (mget0 HNull cs k) (jget cp k) B" by (rule mget0_represents [OF assms(3,4)])
    with A show ?thesis by (rule hiface_eq_represents)
  qed
  then show ?thesis unfolding hsame_port_def same_port_def by presburger
qed

subsection \<open>Retained ports\<close>

text \<open>The loop writes what is there already, so it leaves the ports, and memory, as they are.\<close>

lemma map_put_same: "mget m k = Some v \<Longrightarrow> mput k v m = m"
  by (rule map_update_same)

lemma retain_nodeports_same: "retain_nodeports f cs = Inr r \<Longrightarrow> r = cs"
proof (induction cs arbitrary: r)
  case (Cons c cs)
  then show ?case
    by (auto simp: rbind_Inr_iff map_put_same split: json.splits option.splits if_splits)
qed simp

lemma hretain_nodeports_represents:
  assumes "represents h f vf A" and "represents_all h cs vs B"
  shows "case retain_nodeports vf vs of Inl e \<Rightarrow> hretain_nodeports f cs h = Inl e
    | Inr _ \<Rightarrow> hretain_nodeports f cs h = Inr h"
  using assms(2)
proof (induction cs arbitrary: vs B)
  case (Cons c cs)
  obtain v vs' C D where v: "vs = v # vs'" "represents h c v C" "represents_all h cs vs' D"
    using Cons.prems by (auto elim: represents_consE)
  note IH = Cons.IH [OF v(3)]
  show ?case
  proof (cases "(\<exists>fp. vf = JObj fp) \<and> (\<exists>cp. v = JObj cp)")
    case True
    then obtain fp cp where vals: "vf = JObj fp" "v = JObj cp" by blast
    obtain a kvs E where a: "f = HMap a" "cell_at h a = Some (MapCell kvs)" "represents_all h (map snd kvs) (map snd fp) E"
      "map fst kvs = map fst fp" using assms(1) vals(1) by (auto elim: represents_objE)
    obtain b lvs G where b: "c = HMap b" "cell_at h b = Some (MapCell lvs)" "represents_all h (map snd lvs) (map snd cp) G"
      "map fst lvs = map fst cp" using v(2) vals(2) by (auto elim: represents_objE)
    have same: "hsame_port kvs lvs = same_port fp cp" by (rule hsame_port_represents [OF a(3,4) b(3,4)])
    have "h[b := MapCell (mput ''nodePort'' y lvs)] = h" if "mget lvs ''nodePort'' = Some y" for y
      using b(2) that by (simp add: map_put_same cell_at_def split: if_splits) (metis list_update_id)
    then have "hretain_nodeports f (c # cs) h = rbind (same_port fp cp) (\<lambda>_. hretain_nodeports f cs h)"
      using a(1,2) b(1,2) same by (auto simp: rbind_def split: sum.splits option.splits)
    with IH show ?thesis
      by (auto simp: v(1) vals rbind_def split: sum.splits)
  next
    case False
    then show ?thesis using assms(1) v(2)
      by (auto simp: v(1) elim!: represents.cases split: json.splits hval.splits)
  qed
qed auto

lemma hretain_all_represents:
  assumes "represents_all h fs vfs A" and "represents_all h cs vs B"
  shows "case retain_all vfs vs of Inl e \<Rightarrow> hretain_all fs cs h = Inl e | Inr _ \<Rightarrow> hretain_all fs cs h = Inr h"
  using assms(1)
proof (induction fs arbitrary: vfs A)
  case (Cons f fs)
  obtain v vfs' C D where v: "vfs = v # vfs'" "represents h f v C" "represents_all h fs vfs' D"
    using Cons.prems by (auto elim: represents_consE)
  show ?case
  proof (cases "retain_nodeports v vs")
    case (Inl e)
    with hretain_nodeports_represents [OF v(2) assms(2)] show ?thesis by (simp add: v(1))
  next
    case (Inr r)
    with hretain_nodeports_represents [OF v(2) assms(2)] Cons.IH [OF v(3)] retain_nodeports_same [OF Inr] show ?thesis
      by (simp add: v(1) split: sum.splits)
  qed
qed auto


subsection \<open>How large an object gets\<close>

lemma nodes_put: "nodes (JObj (mput k v m)) \<le> nodes (JObj m) + nodes v"
  by (induction m) auto

lemma nodes_put_old: "mget m k = Some w \<Longrightarrow> nodes (JObj (mput k v m)) + nodes w = nodes (JObj m) + nodes v"
  by (induction m) (auto split: if_splits)

lemma nodes_set: "setNestedFieldNoCopy m v path = Inr m' \<Longrightarrow> nodes (JObj m') \<le> nodes (JObj m) + nodes v + length path"
proof (induction path arbitrary: m m' rule: induct_list012)
  case (2 f)
  then show ?case using nodes_put [of f v m] by simp
next
  case (3 f g fs)
  then obtain m1 m2 where m: "mget m f = None \<and> m1 = [] \<or> mget m f = Some (JObj m1)"
    "setNestedFieldNoCopy m1 v (g # fs) = Inr m2" "m' = mput f (JObj m2) m"
    unfolding setNested_Cons_Cons by blast
  have le: "nodes (JObj m2) \<le> nodes (JObj m1) + nodes v + length (g # fs)" by (rule "3.IH"(2) [OF m(2)])
  from m(1) show ?case
  proof
    assume "mget m f = None \<and> m1 = []"
    then show ?thesis using nodes_put [of f "JObj m2" m] le by (simp add: m(3))
  next
    assume "mget m f = Some (JObj m1)"
    from nodes_put_old [OF this, of "JObj m2"] le show ?thesis by (simp add: m(3))
  qed
qed simp

lemma nodes_setNestedField: "nodes (JObj (setNestedField m v path)) \<le> nodes (JObj m) + nodes v + length path"
  using nodes_set [of m v path] by (auto simp: setNestedField_def set_or_keep_def SetNestedField_def split: sum.splits)

lemma nodes_set_string: "nodes (JObj (setNestedField m (JString s) path)) \<le> nodes (JObj m) + Suc (length path)"
  using nodes_setNestedField [of m "JString s" path] by simp

lemma nodes_filter: "nodes (JObj (filter P m)) \<le> nodes (JObj m)"
  by (induction m) auto

lemma nodes_NestedMap: "NestedMap m path = Inr (Some m') \<Longrightarrow> path \<noteq> [] \<Longrightarrow> nodes (JObj m') < nodes (JObj m)"
proof -
  assume "NestedMap m path = Inr (Some m')" "path \<noteq> []"
  then obtain f fs w where "path = f # fs" "mget m f = Some w" "nested_from w fs = Inr (Some (JObj m'))"
    by (cases path) (auto simp: NestedMap_def nestedFieldNoCopy_def split: sum.splits option.splits json.splits)
  moreover have "nodes w < nodes (JObj m)" if "mget m f = Some w" for f w m
    using that by (induction m) (auto split: if_splits)
  ultimately show ?thesis using nodes_nested le_less_trans by blast
qed

lemma nodes_apply_overrides:
  "apply_overrides path c vs m = Inr m' \<Longrightarrow> nodes (JObj m') \<le> nodes (JObj m) + sum_list (map nodes vs) + length path"
proof (induction vs)
  case (Cons v vs)
  then obtain ov where ov: "v = JObj ov" by (cases v) auto
  show ?case
  proof (cases "jget ov ''clustername'' = JString c \<and> mget ov (last path) \<noteq> None")
    case True
    then obtain w where "mget ov (last path) = Some w" "m' = setNestedField m w path" using Cons.prems by (auto simp: ov)
    with nodes_setNestedField [of m w path] nodes_entry [of ov "last path" w] show ?thesis by (simp add: ov)
  next
    case False
    with Cons show ?thesis by (auto simp: ov split: if_splits option.splits)
  qed
qed simp

definition desired_nodes :: "FederatedTypeConfig \<Rightarrow> jobj \<Rightarrow> jobj option \<Rightarrow> nat" where
  "desired_nodes tc template override =
     nodes (JObj template) + (case override of None \<Rightarrow> 0 | Some o' \<Rightarrow> nodes (JObj o')) + length (GetOverridePath tc) + 10"

lemma nodes_template_body: "template_body tc template = Inr obj \<Longrightarrow> nodes (JObj obj) \<le> nodes (JObj template) + 10"
proof -
  assume "template_body tc template = Inr obj"
  then obtain body where body: "NestedMap template [''spec'', ''template''] = Inr (Some body)"
    "obj = SetAPIVersion (SetKind (SetNamespace (SetName body (GetName template)) (GetNamespace template))
      (mr_Kind (GetTarget tc))) (mr_Group (GetTarget tc) @ ''/'' @ mr_Version (GetTarget tc))"
    by (auto simp: template_body_def Let_def split: sum.splits option.splits)
  define b1 where "b1 = setNestedField body (JString (GetName template)) [''metadata'', ''name'']"
  define b2 where "b2 = setNestedField b1 (JString (GetNamespace template)) [''metadata'', ''namespace'']"
  define b3 where "b3 = setNestedField b2 (JString (mr_Kind (GetTarget tc))) [''kind'']"
  have obj: "obj = setNestedField b3 (JString (mr_Group (GetTarget tc) @ ''/'' @ mr_Version (GetTarget tc))) [''apiVersion'']"
    unfolding body(2) b1_def b2_def b3_def SetAPIVersion_def SetKind_def SetNamespace_def SetName_def ..
  have le: "nodes (JObj (setNestedField m (JString s) [k])) \<le> nodes (JObj m) + 2"
    "nodes (JObj (setNestedField m (JString s) [k, l])) \<le> nodes (JObj m) + 3" for m s k l
    using nodes_set_string [of m s "[k]"] nodes_set_string [of m s "[k, l]"] by simp_all
  have "nodes (JObj b1) \<le> nodes (JObj body) + 3" "nodes (JObj b2) \<le> nodes (JObj b1) + 3"
    "nodes (JObj b3) \<le> nodes (JObj b2) + 2" "nodes (JObj obj) \<le> nodes (JObj b3) + 2"
    unfolding obj b1_def b2_def b3_def by (rule le)+
  with nodes_NestedMap [OF body(1)] show ?thesis by simp
qed

lemma nodes_namespace_body: "namespace_body template = Inr obj \<Longrightarrow> nodes (JObj obj) \<le> nodes (JObj template) + 10"
proof -
  assume "namespace_body template = Inr obj"
  then obtain meta P where meta: "NestedMap template [''metadata''] = Inr (Some meta)"
    "obj = [(''metadata'', JObj (filter P meta))]"
    by (auto simp: namespace_body_def split: sum.splits option.splits)
  have "nodes (JObj obj) = Suc (nodes (JObj (filter P meta)))" by (simp add: meta(2))
  moreover have "nodes (JObj meta) < nodes (JObj template)" by (rule nodes_NestedMap [OF meta(1)]) simp
  ultimately show ?thesis using nodes_filter [of P meta] by linarith
qed

lemma nodes_objectForCluster:
  assumes "objectForCluster tc template override c = Inr obj"
  shows "nodes (JObj obj) \<le> desired_nodes tc template override"
proof -
  obtain body where body: "(if mr_Kind (GetTarget tc) = NamespaceKind then namespace_body template else template_body tc template) = Inr body"
    using assms by (cases "if mr_Kind (GetTarget tc) = NamespaceKind then namespace_body template else template_body tc template")
      (auto simp: objectForCluster_def)
  then have le: "nodes (JObj body) \<le> nodes (JObj template) + 10"
    using nodes_template_body nodes_namespace_body by (metis (full_types))
  show ?thesis
  proof (cases override)
    case None
    with assms body le show ?thesis by (simp add: objectForCluster_def desired_nodes_def)
  next
    case (Some o')
    from assms body Some have "obj = body \<or> (\<exists>vs. NestedSlice o' [''spec'', ''overrides''] = Inr (Some vs) \<and>
        apply_overrides (GetOverridePath tc) c vs body = Inr obj)"
      by (auto simp: objectForCluster_def split: sum.splits option.splits if_splits)
    then show ?thesis
    proof (elim disjE exE conjE)
      fix vs assume vs: "NestedSlice o' [''spec'', ''overrides''] = Inr (Some vs)"
        "apply_overrides (GetOverridePath tc) c vs body = Inr obj"
      have "nodes (JArr vs) \<le> nodes (JObj o')"
        using vs(1) nodes_nested [of "JObj o'" "[''spec'', ''overrides'']" "JArr vs"]
        by (auto simp: NestedSlice_def nestedFieldNoCopy_def split: sum.splits option.splits json.splits)
      with nodes_apply_overrides [OF vs(2)] le show ?thesis by (simp add: desired_nodes_def Some)
    qed (use le in \<open>simp add: desired_nodes_def Some\<close>)
  qed
qed


subsection \<open>Updates refine the value model\<close>

lemma hSetNestedField_built:
  assumes "built h h1 a m" and "represents h1 x v B" and "nodes v \<le> n"
  shows "case SetNestedField m v path of Inl e \<Rightarrow> hSetNestedField n a x path h1 = Some (Inl e)
    | Inr m' \<Rightarrow> \<exists>h2. hSetNestedField n a x path h1 = Some (Inr (a, h2)) \<and> built h h2 a m'"
proof -
  obtain y h2 where c: "DeepCopyJSONValue n x h1 = Some (Inr (y, h2))" "copied h1 h2 y v"
    using DeepCopyJSONValue_copies(1) [OF assms(2,3)] by blast
  show ?thesis
    using built_set [OF assms(1) c(2), of path] c(1)
    by (auto simp: hSetNestedField_def hbind_def SetNestedField_def split: sum.splits)
qed

lemma hretain_clusterIP_built:
  assumes b: "built h h1 a m" and c: "represents h (HMap r) (JObj cobj) B" and n: "1 \<le> n"
  shows "case retain_clusterIP m cobj of Inl e \<Rightarrow> hretain_clusterIP n a r h1 = Some (Inl e)
    | Inr m' \<Rightarrow> \<exists>h2. hretain_clusterIP n a r h1 = Some (Inr (a, h2)) \<and> built h h2 a m'"
proof -
  note read = hNestedString_represents [OF represents_grown [OF built_grows [OF b] c], of "[''spec'', ''clusterIP'']"]
  have set: "case SetNestedField m (JString ip) path of Inl e \<Rightarrow> hSetNestedField n a (HString ip) path h1 = Some (Inl e)
      | Inr m' \<Rightarrow> \<exists>h2. hSetNestedField n a (HString ip) path h1 = Some (Inr (a, h2)) \<and> built h h2 a m'" for ip path
    using hSetNestedField_built [OF b, of "HString ip" "JString ip" "{}" n path] n by simp
  show ?thesis
  proof (cases "\<exists>ip. NestedString cobj [''spec'', ''clusterIP''] = Inr (Some ip) \<and> ip \<noteq> []")
    case True
    then obtain ip where ip: "NestedString cobj [''spec'', ''clusterIP''] = Inr (Some ip)" "ip \<noteq> []" by blast
    with set [of ip "[''spec'', ''clusterIP'']"] read show ?thesis
      by (auto simp: retain_clusterIP_def hretain_clusterIP_def split: sum.splits)
  next
    case False
    with b read show ?thesis
      by (auto simp: retain_clusterIP_def hretain_clusterIP_def split: sum.splits option.splits)
  qed
qed

lemma nodes_retain_clusterIP:
  assumes "retain_clusterIP m cobj = Inr m'"
  shows "nodes (JObj m') \<le> nodes (JObj m) + 3"
proof -
  from assms have "m' = m \<or> (\<exists>ip. setNestedFieldNoCopy m (JString ip) [''spec'', ''clusterIP''] = Inr m')"
    by (auto simp: retain_clusterIP_def SetNestedField_def split: sum.splits option.splits if_splits)
  then show ?thesis
  proof (elim disjE exE)
    fix ip assume "setNestedFieldNoCopy m (JString ip) [''spec'', ''clusterIP''] = Inr m'"
    from nodes_set [OF this] show ?thesis by simp
  qed simp
qed

text \<open>The slice of the desired ports, a new empty one when the object has none.\<close>

lemma desired_ports_slice:
  assumes "built h h2 a m" and "nodes (JObj m) \<le> n"
  shows "case NestedSlice m path of Inl e \<Rightarrow> hNestedSlice n (HMap a) path h2 = Some (Inl e)
    | Inr found \<Rightarrow> \<exists>ref h3 p h4 B. hNestedSlice n (HMap a) path h2 = Some (Inr (ref, h3)) \<and>
        (case ref of None \<Rightarrow> (length h3, h3 @ [ArrCell []]) | Some ps \<Rightarrow> (ps, h3)) = (p, h4) \<and> grown h2 h4 \<and>
        represents h4 (HArr p) (JArr (case found of None \<Rightarrow> [] | Some ps \<Rightarrow> ps)) B \<and>
        nodes (JArr (case found of None \<Rightarrow> [] | Some ps \<Rightarrow> ps)) \<le> n"
proof -
  obtain A where "represents h2 (HMap a) (JObj m) A" using assms(1) by (auto simp: built_def)
  note read = hNestedSlice_copied [OF this assms(2), of path]
  have new: "represents (h @ [ArrCell []]) (HArr (length h)) (JArr []) {length h}" for h
    using represents_represents_all.arr [of "h @ [ArrCell []]" "length h" "[]" "[]" "{}"] by (simp add: cell_at_def)
  have "1 \<le> n" using assms(2) by simp
  show ?thesis
  proof (cases "NestedSlice m path")
    case (Inr found)
    then show ?thesis
    proof (cases found)
      case None
      with read Inr new [of h2] \<open>1 \<le> n\<close> show ?thesis by (auto intro!: exI [of _ "None"])
    next
      case (Some vs)
      with read Inr obtain b h1 B where "hNestedSlice n (HMap a) path h2 = Some (Inr (Some b, h1))" "grown h2 h1"
        "represents h1 (HArr b) (JArr vs) B" "nodes (JArr vs) \<le> n" by auto
      with Inr Some show ?thesis by (auto intro!: exI [of _ "Some b"])
    qed
  qed (use read in simp)
qed

lemma hserviceForUpdateOp_built:
  assumes b: "built h h1 a m" and c: "represents h (HMap r) (JObj cobj) B"
    and fuel: "nodes (JObj cobj) \<le> n" "nodes (JObj m) + 3 \<le> n"
  shows "case serviceForUpdateOp m cobj of Inl e \<Rightarrow> hserviceForUpdateOp n a r h1 = Some (Inl e)
    | Inr m' \<Rightarrow> \<exists>h2. hserviceForUpdateOp n a r h1 = Some (Inr (a, h2)) \<and> built h h2 a m'"
proof (cases "retain_clusterIP m cobj")
  case (Inl e)
  with hretain_clusterIP_built [OF b c, of n] fuel show ?thesis
    by (simp add: serviceForUpdateOp_def hserviceForUpdateOp_def hbind_def)
next
  case ip: (Inr m1)
  then obtain h2 where h2: "hretain_clusterIP n a r h1 = Some (Inr (a, h2))" "built h h2 a m1"
    using hretain_clusterIP_built [OF b c, of n] fuel by auto
  have size: "nodes (JObj m1) \<le> n" using nodes_retain_clusterIP [OF ip] fuel by simp
  note cports = hNestedSlice_copied [OF represents_grown [OF built_grows [OF h2(2)] c] fuel(1), of "[''spec'', ''ports'']"]
  show ?thesis
  proof (cases "NestedSlice cobj [''spec'', ''ports'']")
    case (Inl e)
    with cports h2 ip show ?thesis by (simp add: serviceForUpdateOp_def hserviceForUpdateOp_def hbind_def)
  next
    case found: (Inr found)
    show ?thesis
    proof (cases found)
      case None
      with cports h2 ip found show ?thesis by (simp add: serviceForUpdateOp_def hserviceForUpdateOp_def hbind_def)
    next
      case (Some cs)
      then obtain p h3 C where p: "hNestedSlice n (HMap r) [''spec'', ''ports''] h2 = Some (Inr (Some p, h3))" "grown h2 h3"
        "represents h3 (HArr p) (JArr cs) C" using cports found by auto
      have h3: "built h h3 a m1" by (rule built_grown [OF h2(2) p(2)])
      note dports = desired_ports_slice [OF h3 size, of "[''spec'', ''ports'']"]
      show ?thesis
      proof (cases "NestedSlice m1 [''spec'', ''ports'']")
        case (Inl e)
        with dports h2 ip found Some p(1) show ?thesis by (simp add: serviceForUpdateOp_def hserviceForUpdateOp_def hbind_def)
      next
        case df: (Inr df)
        define ds where "ds = (case df of None \<Rightarrow> [] | Some ps \<Rightarrow> ps)"
        from dports df obtain ref h4 q h5 D where d: "hNestedSlice n (HMap a) [''spec'', ''ports''] h3 = Some (Inr (ref, h4))"
          "(case ref of None \<Rightarrow> (length h4, h4 @ [ArrCell []]) | Some ps \<Rightarrow> (ps, h4)) = (q, h5)" "grown h3 h5"
          "represents h5 (HArr q) (JArr ds) D" "nodes (JArr ds) \<le> n" by (auto simp: ds_def)
        obtain xs X where xs: "cell_at h5 q = Some (ArrCell xs)" "represents_all h5 xs ds X" using d(4) by (auto elim: represents_arrE)
        obtain ys Y where ys: "cell_at h5 p = Some (ArrCell ys)" "represents_all h5 ys cs Y"
          using represents_grown [OF d(3) p(3)] by (auto elim: represents_arrE)
        note loop = hretain_all_represents [OF xs(2) ys(2)]
        note set = hSetNestedField_built [OF built_grown [OF h3 d(3)] d(4,5), of "[''spec'', ''ports'']"]
        have run: "hserviceForUpdateOp n a r h1 = (case hretain_all xs ys h5 of Inl e \<Rightarrow> Some (Inl e)
            | Inr h6 \<Rightarrow> map_option (map_sum (ErrWrapped ''Error setting ports for service'') id) (hSetNestedField n a (HArr q) [''spec'', ''ports''] h6))"
          using h2(1) p(1) d(1,2) xs(1) ys(1) by (simp add: hserviceForUpdateOp_def hbind_def)
        have val: "serviceForUpdateOp m cobj = rbind (retain_all ds cs) (\<lambda>_. case SetNestedField m1 (JArr ds) [''spec'', ''ports''] of
            Inl e \<Rightarrow> Inl (ErrWrapped ''Error setting ports for service'' e) | Inr obj \<Rightarrow> Inr obj)"
          using ip found Some df by (simp add: serviceForUpdateOp_def SetNestedSlice_def ds_def Let_def)
        show ?thesis
          using loop set by (auto simp: run val rbind_def split: sum.splits)
      qed
    qed
  qed
qed


lemma nodes_serviceForUpdateOp:
  assumes "serviceForUpdateOp m cobj = Inr m'"
  shows "nodes (JObj m') \<le> 2 * nodes (JObj m) + 8"
proof -
  from assms obtain m1 where m1: "retain_clusterIP m cobj = Inr m1" by (auto simp: serviceForUpdateOp_def rbind_Inr_iff)
  have "m' = m1 \<or> (\<exists>found. NestedSlice m1 [''spec'', ''ports''] = Inr found \<and>
      setNestedFieldNoCopy m1 (JArr (case found of None \<Rightarrow> [] | Some ps \<Rightarrow> ps)) [''spec'', ''ports''] = Inr m')"
    using assms m1 by (auto simp: serviceForUpdateOp_def rbind_Inr_iff Let_def SetNestedSlice_def SetNestedField_def
        split: sum.splits option.splits)
  then have "nodes (JObj m') \<le> 2 * nodes (JObj m1) + 2"
  proof (elim disjE exE conjE)
    fix found assume f: "NestedSlice m1 [''spec'', ''ports''] = Inr found"
      "setNestedFieldNoCopy m1 (JArr (case found of None \<Rightarrow> [] | Some ps \<Rightarrow> ps)) [''spec'', ''ports''] = Inr m'"
    have "nodes (JArr ps) \<le> nodes (JObj m1)" if "found = Some ps" for ps
      using f(1) that nodes_nested [of "JObj m1" "[''spec'', ''ports'']" "JArr ps"]
      by (auto simp: NestedSlice_def nestedFieldNoCopy_def split: sum.splits option.splits json.splits)
    then have "nodes (JArr (case found of None \<Rightarrow> [] | Some ps \<Rightarrow> ps)) \<le> nodes (JObj m1)" by (cases found) auto
    with nodes_set [OF f(2)] show ?thesis by simp
  qed simp
  with nodes_retain_clusterIP [OF m1] show ?thesis by simp
qed

lemma nodes_objectForUpdateOp:
  assumes "objectForUpdateOp tc m cobj = Inr m'"
  shows "nodes (JObj m') \<le> 2 * nodes (JObj m) + 14"
proof -
  define m1 where "m1 = SetResourceVersion m (GetResourceVersion cobj)"
  have "nodes (JObj m1) \<le> nodes (JObj m) + 3"
    using nodes_set_string [of m "GetResourceVersion cobj" "[''metadata'', ''resourceVersion'']"]
    by (simp add: m1_def SetResourceVersion_def)
  moreover have "m' = m1 \<or> serviceForUpdateOp m1 cobj = Inr m'"
    using assms by (auto simp: objectForUpdateOp_def m1_def Let_def split: if_splits)
  ultimately show ?thesis using nodes_serviceForUpdateOp [of m1 cobj m'] by fastforce
qed

lemma hobjectForUpdateOp_built:
  assumes b: "built h h1 a m" and c: "represents h (HMap r) (JObj cobj) B"
    and fuel: "nodes (JObj cobj) \<le> n" "nodes (JObj m) + 6 \<le> n"
  shows "case objectForUpdateOp tc m cobj of Inl e \<Rightarrow> hobjectForUpdateOp n tc a r h1 = Some (Inl e)
    | Inr m' \<Rightarrow> \<exists>h2. hobjectForUpdateOp n tc a r h1 = Some (Inr (a, h2)) \<and> built h h2 a m'"
proof -
  define m1 where "m1 = SetResourceVersion m (GetResourceVersion cobj)"
  note version = hgetNestedString_represents [OF represents_grown [OF built_grows [OF b] c], of "[''metadata'', ''resourceVersion'']"]
  obtain h2 where h2: "hsetNestedField n a (HString (GetResourceVersion cobj)) [''metadata'', ''resourceVersion''] h1 = Some (Inr (a, h2))"
    "built h h2 a m1"
    using hsetNestedField_string [OF b, of n "GetResourceVersion cobj" "[''metadata'', ''resourceVersion'']"] fuel
    by (auto simp: m1_def SetResourceVersion_def)
  have size: "nodes (JObj m1) + 3 \<le> n"
    using nodes_set_string [of m "GetResourceVersion cobj" "[''metadata'', ''resourceVersion'']"] fuel(2)
    by (simp add: m1_def SetResourceVersion_def)
  have run: "hobjectForUpdateOp n tc a r h1 = (if mr_Kind (GetTarget tc) = ServiceKind then hserviceForUpdateOp n a r h2 else Some (Inr (a, h2)))"
    using h2(1) by (simp add: hobjectForUpdateOp_def hbind_def version GetResourceVersion_def)
  show ?thesis
    using hserviceForUpdateOp_built [OF h2(2) c fuel(1) size] h2(2)
    by (auto simp: run objectForUpdateOp_def Let_def simp flip: m1_def split: sum.splits)
qed

subsection \<open>The operations refine the value model\<close>

text \<open>What the two levels of a run are given: the references of the override and of the member clusters.\<close>

definition override_ref :: "memory \<Rightarrow> nat option \<Rightarrow> jobj option \<Rightarrow> bool" where
  "override_ref h ref override \<longleftrightarrow>
     (case override of None \<Rightarrow> ref = None | Some o' \<Rightarrow> \<exists>r A. ref = Some r \<and> represents h (HMap r) (JObj o') A)"

definition store_refs :: "memory \<Rightarrow> nat \<Rightarrow> string \<Rightarrow> get_ref \<Rightarrow> get_by_key \<Rightarrow> bool" where
  "store_refs h n key hget get \<longleftrightarrow> (\<forall>c. case get c key of
       Inl e \<Rightarrow> hget c key = Inl e
     | Inr None \<Rightarrow> hget c key = Inr None
     | Inr (Some m) \<Rightarrow> \<exists>r A. hget c key = Inr (Some r) \<and> represents h (HMap r) (JObj m) A \<and> nodes (JObj m) \<le> n)"

definition carries :: "MemoryOperation \<Rightarrow> FederatedOperation \<Rightarrow> bool" where
  "carries q p \<longleftrightarrow> mop_Type q = op_Type p \<and> mop_ClusterName q = op_ClusterName p \<and> mop_Key q = op_Key p"

lemma override_ref_grown: "grown h h1 \<Longrightarrow> override_ref h ref override \<Longrightarrow> override_ref h1 ref override"
  using represents_grown by (fastforce simp: override_ref_def split: option.splits)

lemma store_refs_grown: "grown h h1 \<Longrightarrow> store_refs h n key hget get \<Longrightarrow> store_refs h1 n key hget get"
  using represents_grown unfolding store_refs_def by (fastforce split: sum.splits option.splits)

lemma store_refs_found:
  assumes "store_refs h n key hget get" and "get c key = Inr (Some m)"
  obtains r A where "hget c key = Inr (Some r)" "represents h (HMap r) (JObj m) A" "nodes (JObj m) \<le> n"
proof -
  from assms(1) have "case get c key of Inr (Some m) \<Rightarrow> \<exists>r A. hget c key = Inr (Some r) \<and>
      represents h (HMap r) (JObj m) A \<and> nodes (JObj m) \<le> n | _ \<Rightarrow> True"
    unfolding store_refs_def by (auto split: sum.splits option.splits)
  then show thesis using assms(2) that by (simp del: nodes.simps) blast
qed

lemma hobjectForCluster_ref:
  assumes t: "represents h (HMap t) (JObj template) A" and o: "override_ref h ref override"
    and fuel: "desired_nodes tc template override \<le> n"
  shows "case objectForCluster tc template override c of Inl e \<Rightarrow> hobjectForCluster n tc t ref c h = Some (Inl e)
    | Inr obj \<Rightarrow> \<exists>a h'. hobjectForCluster n tc t ref c h = Some (Inr (a, h')) \<and> built h h' a obj"
proof (cases override)
  case None
  have size: "nodes (JObj template) \<le> n" using fuel by (simp add: desired_nodes_def)
  let ?k = "mr_Kind (GetTarget tc) = NamespaceKind"
  note body = hbody_built [OF t size, of ?k tc]
  have "ref = None" using o None by (simp add: override_ref_def)
  with body None show ?thesis
    by (cases "if ?k then namespace_body template else template_body tc template")
      (simp_all only: objectForCluster_def hobjectForCluster_def rbind_def hbind_def, auto)
next
  case (Some o')
  then obtain r B where r: "ref = Some r" "represents h (HMap r) (JObj o') B" using o by (auto simp: override_ref_def)
  show ?thesis
    unfolding Some r(1) by (rule hobjectForCluster_built [OF t _ r(2)]) (use fuel in \<open>simp_all add: desired_nodes_def Some\<close>)
qed


lemma hselected_operation_built:
  assumes t: "represents h (HMap t) (JObj template) A" and o: "override_ref h ref override"
    and store: "store_refs h n key hget get" and fuel: "2 * desired_nodes tc template override + 14 \<le> n"
  shows "case selected_operation tc helper get template override key versions c of
      Inl e \<Rightarrow> hselected_operation n tc helper hget t ref key versions c h = Some (Inl e)
    | Inr None \<Rightarrow> \<exists>h1. hselected_operation n tc helper hget t ref key versions c h = Some (Inr (None, h1)) \<and> grown h h1
    | Inr (Some p) \<Rightarrow> \<exists>q h1. hselected_operation n tc helper hget t ref key versions c h = Some (Inr (Some q, h1)) \<and>
        carries q p \<and> op_Type p \<noteq> OperationTypeDelete \<and> built h h1 (mop_Obj q) (op_Obj p)"
proof (cases "objectForCluster tc template override c")
  case (Inl e)
  with hobjectForCluster_ref [OF t o, of tc n c] fuel show ?thesis
    by (simp add: selected_operation_def hselected_operation_def hbind_def)
next
  case obj: (Inr obj)
  with hobjectForCluster_ref [OF t o, of tc n c] fuel obtain a h1 where
    h1: "hobjectForCluster n tc t ref c h = Some (Inr (a, h1))" "built h h1 a obj" by auto
  have size: "nodes (JObj obj) + 6 \<le> n" using nodes_objectForCluster [OF obj] fuel by simp
  show ?thesis
  proof (cases "get c key")
    case (Inl e)
    with store have "hget c key = Inl e" by (auto simp: store_refs_def dest: spec [of _ c])
    with Inl obj h1 show ?thesis by (simp add: selected_operation_def hselected_operation_def hbind_def)
  next
    case found: (Inr found)
    show ?thesis
    proof (cases found)
      case None
      with found store have "hget c key = Inr None" by (auto simp: store_refs_def dest: spec [of _ c])
      with None found obj h1 show ?thesis
        by (simp add: selected_operation_def hselected_operation_def hbind_def carries_def)
    next
      case (Some cobj)
      with found obtain r B where r: "hget c key = Inr (Some r)" "represents h (HMap r) (JObj cobj) B"
        "nodes (JObj cobj) \<le> n" using store_refs_found [OF store, of c cobj] by blast
      note g = represents_grown [OF built_grows [OF h1(2)]]
      have "nodes (JObj template) \<le> n" using fuel by (simp add: desired_nodes_def)
      then have read: "hread_obj n h1 t = Some template" "hread_obj n h1 r = Some cobj"
        using hread_obj_represents [OF g [OF t]] hread_obj_represents [OF g [OF r(2)] r(3)] by blast+
      note upd = hobjectForUpdateOp_built [OF h1(2) r(2,3) size, of tc]
      show ?thesis
      proof (cases "mr_Kind (GetTarget tc) = NamespaceKind \<and> IsPrimaryCluster template cobj")
        case True
        with Some found obj h1 r(1) read built_grows [OF h1(2)] show ?thesis
          by (simp add: selected_operation_def hselected_operation_def hbind_def)
      next
        case False
        show ?thesis
        proof (cases "objectForUpdateOp tc obj cobj")
          case (Inl e)
          with upd False Some found obj h1 r(1) read show ?thesis
            by (simp only: selected_operation_def hselected_operation_def hbind_def) auto
        next
          case (Inr desired)
          with upd obtain h2 where h2: "hobjectForUpdateOp n tc a r h1 = Some (Inr (a, h2))" "built h h2 a desired" by auto
          have "nodes (JObj desired) \<le> n"
            using nodes_objectForUpdateOp [OF Inr] nodes_objectForCluster [OF obj] fuel by simp
          then have "hread_obj n h2 a = Some desired" using h2(2) hread_obj_represents by (auto simp: built_def)
          with h2 False Some found obj h1 r(1) read Inr built_grows [OF h2(2)] show ?thesis
            by (simp only: selected_operation_def hselected_operation_def hbind_def) (auto simp: carries_def)
        qed
      qed
    qed
  qed
qed


lemma hops_loop_built:
  assumes step: "\<And>c h1. grown h h1 \<Longrightarrow> case f c of Inl e \<Rightarrow> hf c h1 = Some (Inl e)
    | Inr None \<Rightarrow> \<exists>h2. hf c h1 = Some (Inr (None, h2)) \<and> grown h1 h2
    | Inr (Some p) \<Rightarrow> \<exists>q h2. hf c h1 = Some (Inr (Some q, h2)) \<and> carries q p \<and> op_Type p \<noteq> OperationTypeDelete \<and>
        built h1 h2 (mop_Obj q) (op_Obj p)"
  shows "grown h h1 \<Longrightarrow> case ops_loop f cs of Inl e \<Rightarrow> hops_loop hf cs h1 = Some (Inl e)
    | Inr ops \<Rightarrow> \<exists>hops h2 B. hops_loop hf cs h1 = Some (Inr (hops, h2)) \<and> grown h1 h2 \<and> list_all2 carries hops ops \<and>
        (\<forall>p \<in> set ops. op_Type p \<noteq> OperationTypeDelete) \<and>
        represents_all h2 (map (\<lambda>q. HMap (mop_Obj q)) hops) (map (\<lambda>p. JObj (op_Obj p)) ops) B \<and> B \<subseteq> {length h1..<length h2}"
proof (induction cs arbitrary: h1)
  case (Cons c cs)
  show ?case
  proof (cases "f c")
    case (Inl e)
    with step [OF Cons.prems, of c] show ?thesis by (simp add: hbind_def)
  next
    case oper: (Inr oper)
    obtain q h2 where q: "hf c h1 = Some (Inr (q, h2))" "grown h1 h2"
      "case oper of None \<Rightarrow> q = None | Some p \<Rightarrow> \<exists>q'. q = Some q' \<and> carries q' p \<and> op_Type p \<noteq> OperationTypeDelete \<and> built h1 h2 (mop_Obj q') (op_Obj p)"
      using step [OF Cons.prems, of c] oper built_grows by (cases oper) fastforce+
    note IH = Cons.IH [OF grown_trans [OF Cons.prems q(2)]]
    show ?thesis
    proof (cases "ops_loop f cs")
      case (Inl e)
      with IH oper q(1) show ?thesis by (simp add: hbind_def)
    next
      case (Inr ops)
      with IH obtain hops h3 B where r: "hops_loop hf cs h2 = Some (Inr (hops, h3))" "grown h2 h3" "list_all2 carries hops ops"
        "\<forall>p \<in> set ops. op_Type p \<noteq> OperationTypeDelete"
        "represents_all h3 (map (\<lambda>q. HMap (mop_Obj q)) hops) (map (\<lambda>p. JObj (op_Obj p)) ops) B" "B \<subseteq> {length h2..<length h3}"
        by auto
      note len = q(2) [unfolded grown_def, THEN conjunct1] r(2) [unfolded grown_def, THEN conjunct1]
      have g: "grown h1 h3" by (rule grown_trans [OF q(2) r(2)])
      show ?thesis
      proof (cases oper)
        case None
        with q oper Inr r g len show ?thesis by (auto simp: hbind_def intro!: exI [of _ B])
      next
        case (Some p)
        then obtain q' where q': "q = Some q'" "carries q' p" "op_Type p \<noteq> OperationTypeDelete" "built h1 h2 (mop_Obj q') (op_Obj p)"
          using q(3) by auto
        obtain A where A: "represents h2 (HMap (mop_Obj q')) (JObj (op_Obj p)) A" "A \<subseteq> {length h1..<length h2}"
          using q'(4) by (auto simp: built_def)
        have "A \<inter> B = {}" using A(2) r(6) by fastforce
        note all = represents_represents_all.cons [OF represents_grown [OF r(2) A(1)] r(5) this]
        have "A \<union> B \<subseteq> {length h1..<length h3}" using A(2) r(6) len by auto
        with all Some q' q(1) oper Inr r(1,3,4) g show ?thesis by (auto simp: hbind_def intro!: exI [of _ "A \<union> B"])
      qed
    qed
  qed
qed (auto)

lemma hunselected_loop:
  assumes "store_refs h n key hget get"
  shows "case ops_loop (unselected_operation get key) cs of Inl e \<Rightarrow> hops_loop (hunselected_operation hget key) cs h = Some (Inl e)
    | Inr ops \<Rightarrow> \<exists>hops. hops_loop (hunselected_operation hget key) cs h = Some (Inr (hops, h)) \<and>
        list_all2 (\<lambda>q p. carries q p \<and> op_Type p = OperationTypeDelete \<and>
          (\<exists>C. represents h (HMap (mop_Obj q)) (JObj (op_Obj p)) C)) hops ops"
proof (induction cs)
  case (Cons c cs)
  show ?case
  proof (cases "get c key")
    case (Inl e)
    with assms have "hget c key = Inl e" by (auto simp: store_refs_def dest: spec [of _ c])
    with Inl show ?thesis by (simp add: unselected_operation_def hunselected_operation_def hbind_def)
  next
    case (Inr found)
    show ?thesis
    proof (cases found)
      case None
      with Inr assms have "hget c key = Inr None" by (auto simp: store_refs_def dest: spec [of _ c])
      then have "hunselected_operation hget key c h = Some (Inr (None, h))" "unselected_operation get key c = Inr None"
        using None Inr by (simp_all add: unselected_operation_def hunselected_operation_def)
      with Cons.IH show ?thesis
        by (cases "ops_loop (unselected_operation get key) cs") (auto simp: hbind_def)
    next
      case (Some m)
      with Inr obtain r A where "hget c key = Inr (Some r)" "represents h (HMap r) (JObj m) A"
        using store_refs_found [OF assms, of c m] by blast
      moreover from this have "hunselected_operation hget key c h
          = Some (Inr (Some \<lparr>mop_Type = OperationTypeDelete, mop_ClusterName = c, mop_Obj = r, mop_Key = key\<rparr>, h))"
        "unselected_operation get key c
          = Inr (Some \<lparr>op_Type = OperationTypeDelete, op_ClusterName = c, op_Obj = m, op_Key = key\<rparr>)"
        using Some Inr by (simp_all add: unselected_operation_def hunselected_operation_def)
      ultimately show ?thesis using Cons.IH
        by (cases "ops_loop (unselected_operation get key) cs") (auto simp: hbind_def carries_def)
    qed
  qed
qed simp


subsection \<open>The refinement\<close>

lemma represents_each: "represents_all h xs vs B \<Longrightarrow> list_all2 (\<lambda>x v. \<exists>C. represents h x v C) xs vs"
  by (induction xs arbitrary: vs B) (auto elim: represents_consE)

lemma carries_filter:
  assumes "list_all2 (\<lambda>q p. carries q p \<and> P q p) hops ops"
  shows "(\<forall>p \<in> set ops. op_Type p \<noteq> ty) \<Longrightarrow> filter (\<lambda>q. mop_Type q \<noteq> ty) hops = hops"
    and "(\<forall>p \<in> set ops. op_Type p = ty) \<Longrightarrow> filter (\<lambda>q. mop_Type q \<noteq> ty) hops = []"
  using assms by (induction rule: list_all2_induct) (auto simp: carries_def)

text \<open>
  C6. \<open>clusterOperations\<close> on memory does what the value model says. Given references to the template, the
  override and the objects of the member clusters, it returns the error, or the operations, of the value
  model; the objects to create or update are written in cells of their own, no two of which are shared, and
  whatever a reference stood for before, in a cache or elsewhere, it still stands for: the writes in place
  of one run never reach the informers' caches or the object for another cluster.
\<close>

theorem clusterOperations_in_memory:
  assumes "represents h (HMap t) (JObj template) A" and "override_ref h ref override" and "store_refs h n key hget get"
    and "2 * desired_nodes tc template override + 14 \<le> n"
  shows "case clusterOperations tc helper get sel unsel template override key versions of
      Inl e \<Rightarrow> hclusterOperations n tc helper hget sel unsel t ref key versions h = Some (Inl e)
    | Inr ops \<Rightarrow> \<exists>hops h' B. hclusterOperations n tc helper hget sel unsel t ref key versions h = Some (Inr (hops, h')) \<and>
        list_all2 (\<lambda>q p. carries q p \<and> (\<exists>C. represents h' (HMap (mop_Obj q)) (JObj (op_Obj p)) C)) hops ops \<and>
        represents_all h' (map (\<lambda>q. HMap (mop_Obj q)) (filter (\<lambda>q. mop_Type q \<noteq> OperationTypeDelete) hops))
          (map (\<lambda>p. JObj (op_Obj p)) (filter (\<lambda>p. op_Type p \<noteq> OperationTypeDelete) ops)) B \<and> B \<inter> {..<length h} = {} \<and>
        (\<forall>x v C. represents h x v C \<longrightarrow> represents h' x v C)"
proof -
  let ?f = "selected_operation tc helper get template override key versions"
  let ?hf = "hselected_operation n tc helper hget t ref key versions"
  note step = hselected_operation_built [OF represents_grown [OF _ assms(1)] override_ref_grown [OF _ assms(2)]
      store_refs_grown [OF _ assms(3)] assms(4)]
  note selected = hops_loop_built [where h = h and f = ?f and hf = ?hf and cs = sel, OF step, OF _ _ _ grown_refl]
  show ?thesis
  proof (cases "ops_loop ?f sel")
    case (Inl e)
    with selected show ?thesis by (simp add: clusterOperations_def hclusterOperations_def hbind_def)
  next
    case (Inr ops1)
    with selected obtain hops1 h1 B where r: "hops_loop ?hf sel h = Some (Inr (hops1, h1))" "grown h h1" "list_all2 carries hops1 ops1"
      "\<forall>p \<in> set ops1. op_Type p \<noteq> OperationTypeDelete"
      "represents_all h1 (map (\<lambda>q. HMap (mop_Obj q)) hops1) (map (\<lambda>p. JObj (op_Obj p)) ops1) B" "B \<subseteq> {length h..<length h1}"
      by auto
    note unselected = hunselected_loop [OF store_refs_grown [OF r(2) assms(3)], of unsel]
    show ?thesis
    proof (cases "ops_loop (unselected_operation get key) unsel")
      case (Inl e)
      with unselected Inr r(1) show ?thesis by (simp add: clusterOperations_def hclusterOperations_def hbind_def)
    next
      case u: (Inr ops2)
      with unselected obtain hops2 where s: "hops_loop (hunselected_operation hget key) unsel h1 = Some (Inr (hops2, h1))"
        "list_all2 (\<lambda>q p. carries q p \<and> op_Type p = OperationTypeDelete \<and>
          (\<exists>C. represents h1 (HMap (mop_Obj q)) (JObj (op_Obj p)) C)) hops2 ops2" by auto
      have types: "\<forall>p \<in> set ops2. op_Type p = OperationTypeDelete" using s(2) by (auto simp: list_all2_conv_all_nth in_set_conv_nth)
      have each: "list_all2 (\<lambda>q p. carries q p \<and> (\<exists>C. represents h1 (HMap (mop_Obj q)) (JObj (op_Obj p)) C)) hops1 ops1"
        using r(3) represents_each [OF r(5)] by (simp add: list_all2_conv_all_nth)
      have each2: "list_all2 (\<lambda>q p. carries q p \<and> (\<exists>C. represents h1 (HMap (mop_Obj q)) (JObj (op_Obj p)) C)) hops2 ops2"
        by (rule list_all2_mono [OF s(2)]) blast
      have keep1: "filter (\<lambda>q. mop_Type q \<noteq> OperationTypeDelete) (hops1 @ hops2) = hops1"
        "filter (\<lambda>p. op_Type p \<noteq> OperationTypeDelete) (ops1 @ ops2) = ops1"
        using carries_filter(1) [OF each r(4)] carries_filter(2) [OF each2 types] r(4) types by simp_all
      have "hclusterOperations n tc helper hget sel unsel t ref key versions h = Some (Inr (hops1 @ hops2, h1))"
        "clusterOperations tc helper get sel unsel template override key versions = Inr (ops1 @ ops2)"
        using r(1) s(1) Inr u by (simp_all add: clusterOperations_def hclusterOperations_def hbind_def)
      moreover have "B \<inter> {..<length h} = {}" using r(6) by auto
      moreover have "\<forall>x v C. represents h x v C \<longrightarrow> represents h1 x v C" using represents_grown [OF r(2)] by blast
      ultimately show ?thesis
        using r(5) list_all2_appendI [OF each each2]
        by (simp only: sum.case) (intro exI [of _ "hops1 @ hops2"] exI [of _ h1] exI [of _ B] conjI, simp_all only: keep1)
    qed
  qed
qed


text \<open>Four objects after each other in memory: the template, the override, and the copies in two clusters.\<close>

fun demo_layout :: "jobj list \<Rightarrow> memory \<Rightarrow> nat list \<times> memory" where
  "demo_layout [] h = ([], h)"
| "demo_layout (m # ms) h =
     (let h1 = snd (lay_out (JObj m) h); (refs, h2) = demo_layout ms h1 in ((length h1 - 1) # refs, h2))"

lemma lay_out_root: "fst (lay_out (JObj m) h) = HMap (length (snd (lay_out (JObj m) h)) - 1)"
  by (simp add: Let_def split: prod.splits)

lemma demo_layout_represents:
  "grown h (snd (demo_layout ms h)) \<and>
   list_all2 (\<lambda>r m. \<exists>A. represents (snd (demo_layout ms h)) (HMap r) (JObj m) A) (fst (demo_layout ms h)) ms"
proof (induction ms arbitrary: h)
  case (Cons m ms)
  define h1 where "h1 = snd (lay_out (JObj m) h)"
  have c: "copied h h1 (HMap (length h1 - 1)) (JObj m)"
    using lay_out_copied(1) [of h "JObj m"] unfolding lay_out_root h1_def .
  then obtain A where A: "represents h1 (HMap (length h1 - 1)) (JObj m) A" by (auto simp: copied_def)
  obtain refs h2 where h2: "demo_layout ms h1 = (refs, h2)" by (cases "demo_layout ms h1")
  have "grown h1 h2" "list_all2 (\<lambda>r m. \<exists>A. represents h2 (HMap r) (JObj m) A) refs ms"
    using Cons.IH [of h1] by (simp_all add: h2)
  moreover have "demo_layout (m # ms) h = ((length h1 - 1) # refs, h2)" by (simp only: demo_layout.simps Let_def flip: h1_def) (simp add: h2)
  ultimately show ?case
    using represents_grown [of h1 h2, OF _ A] grown_trans [OF copied_grown [OF c], of h2] by auto
qed simp

definition demo_objects :: "jobj list" where
  "demo_objects = [demo_template, demo_override, demo_object ''21'' 3, demo_object ''23'' 3]"

definition demo_cells :: memory where
  "demo_cells = snd (demo_layout demo_objects [])"

definition demo_refs :: "nat list" where
  "demo_refs = fst (demo_layout demo_objects [])"

definition demo_get_ref :: get_ref where
  "demo_get_ref c key =
     (if c = ''c1'' \<and> key = ''ns/web'' then Inr (Some (demo_refs ! 2))
      else if c = ''c3'' \<and> key = ''ns/web'' then Inr (Some (demo_refs ! 3))
      else Inr None)"

lemma demo_cells_represent:
  assumes "i < 4"
  obtains A where "represents demo_cells (HMap (demo_refs ! i)) (JObj (demo_objects ! i)) A"
proof -
  have "list_all2 (\<lambda>r m. \<exists>A. represents demo_cells (HMap r) (JObj m) A) demo_refs demo_objects"
    unfolding demo_cells_def demo_refs_def by (rule demo_layout_represents [THEN conjunct2])
  from list_all2_nthD2 [OF this, of i] assms that show thesis by (auto simp: demo_objects_def)
qed

theorem clusterOperations_in_memory_witness:
  "\<exists>hops h'. hclusterOperations 100 (demo_type ''Deployment'') ResourceHelper demo_get_ref [''c1'', ''c2''] [''c3'']
       (demo_refs ! 0) (Some (demo_refs ! 1)) ''ns/web'' [] demo_cells = Some (Inr (hops, h')) \<and>
     map mop_Type hops = [OperationTypeUpdate, OperationTypeAdd, OperationTypeDelete]"
proof -
  obtain A where t: "represents demo_cells (HMap (demo_refs ! 0)) (JObj demo_template) A"
    using demo_cells_represent [of 0] by (auto simp: demo_objects_def)
  have o: "override_ref demo_cells (Some (demo_refs ! 1)) (Some demo_override)"
    using demo_cells_represent [of 1] by (auto simp: demo_objects_def override_ref_def)
  have copies: "\<exists>A. represents demo_cells (HMap (demo_refs ! 2)) (JObj (demo_object ''21'' 3)) A"
    "\<exists>A. represents demo_cells (HMap (demo_refs ! 3)) (JObj (demo_object ''23'' 3)) A"
    by (rule demo_cells_represent [of 2], simp, simp add: demo_objects_def, blast,
        rule demo_cells_represent [of 3], simp, simp add: demo_objects_def, blast)
  have sizes: "nodes (JObj (demo_object ''21'' 3)) \<le> 100" "nodes (JObj (demo_object ''23'' 3)) \<le> 100"
    "2 * desired_nodes (demo_type ''Deployment'') demo_template (Some demo_override) + 14 \<le> 100"
    by code_simp+
  have store: "store_refs demo_cells 100 ''ns/web'' demo_get_ref demo_store"
    using copies sizes(1,2) by (auto simp: store_refs_def demo_get_ref_def demo_store_def simp del: nodes.simps)
  obtain ops where ops: "demo_sync_ops = Inr ops" by (rule demo_sync_ops_Inr)
  then have types: "map op_Type ops = [OperationTypeUpdate, OperationTypeAdd, OperationTypeDelete]"
    using demo_sync_ops_run by (auto simp: ops)
  from clusterOperations_in_memory [OF t o store sizes(3), of ResourceHelper "[''c1'', ''c2'']" "[''c3'']" "[]"]
  obtain hops h' where r: "hclusterOperations 100 (demo_type ''Deployment'') ResourceHelper demo_get_ref [''c1'', ''c2''] [''c3'']
       (demo_refs ! 0) (Some (demo_refs ! 1)) ''ns/web'' [] demo_cells = Some (Inr (hops, h'))"
     "list_all2 (\<lambda>q p. carries q p \<and> (\<exists>C. represents h' (HMap (mop_Obj q)) (JObj (op_Obj p)) C)) hops ops"
    unfolding ops [unfolded demo_sync_ops_def] sum.case by (elim exE conjE) (rule that)
  then have "list_all2 carries hops ops" by (auto elim: list_all2_mono)
  then have "map mop_Type hops = map op_Type ops"
    by (induction rule: list_all2_induct) (auto simp: carries_def)
  with r(1) types show ?thesis by auto
qed

end
