(* ===== verification/Cluster_Monitor.thy ===== *)
theory Cluster_Monitor
  imports Cluster_Claims
begin

section \<open>The running cluster controller\<close>

text \<open>
  \<open>Run\<close> of \<open>pkg/controller/federatedcluster/controller.go\<close>: the goroutine of the informer calls the
  handlers, the goroutine of \<open>wait.Until\<close> the rounds of the monitor. The mutex is not held while a
  cluster is probed, so handlers run between the two halves of the body of the loop. A state is
  reachable by handlers and rounds, where what happens meanwhile is a sequence of handler calls.
\<close>

fun is_handler :: "'cl cc_event \<Rightarrow> bool" where
  "is_handler (Ev_round _ _) \<longleftrightarrow> False"
| "is_handler _ \<longleftrightarrow> True"

definition handled :: "'cl cluster_controller \<Rightarrow> 'cl cluster_controller \<Rightarrow> bool" where
  "handled cc cc' \<longleftrightarrow> (\<exists>es us. list_all is_handler es \<and> cc_steps es cc = Inr (us, cc'))"

inductive monitor_run :: "'cl cluster_controller \<Rightarrow> bool" where
  start: "monitor_run newClusterController"
| handler: "monitor_run cc \<Longrightarrow> is_handler e \<Longrightarrow> cc_step e cc = Inr (us, cc') \<Longrightarrow> monitor_run cc'"
| round: "monitor_run cc \<Longrightarrow> (\<And>name cc1. handled cc1 (env_meanwhile env name cc1)) \<Longrightarrow>
    cc_step (Ev_round env clusters) cc = Inr (us, cc') \<Longrightarrow> monitor_run cc'"

subsection \<open>Clients belong to known clusters\<close>

definition clients_known :: "'cl cluster_controller \<Rightarrow> bool" where
  "clients_known cc \<longleftrightarrow> distinct (knownClusterSet cc) \<and> gomap_ok (clusterKubeClientMap cc) \<and>
     (\<forall>name. mget (clusterKubeClientMap cc) name \<noteq> None \<longrightarrow> sset_has (knownClusterSet cc) name)"

lemma handler_clients:
  assumes "clients_known cc" and "is_handler e" and "cc_step e cc = Inr (us, cc')"
  shows "clients_known cc'"
proof (cases e)
  case (Ev_add newClient c)
  with assms show ?thesis
    by (auto simp: rbind_Inr_iff addToClusterSetWithoutLock_def clients_known_def sset_has_def Let_def
        split: if_splits sum.splits option.splits)
next
  case (Ev_del c)
  with assms show ?thesis
    by (auto simp: rbind_Inr_iff delFromClusterSetByName_def clients_known_def sset_has_def sset_delete_def split: if_splits)
qed (use assms in simp)

lemma handled_clients: "handled cc cc' \<Longrightarrow> clients_known cc \<Longrightarrow> clients_known cc'"
proof -
  have "list_all is_handler es \<Longrightarrow> cc_steps es cc = Inr (us, cc') \<Longrightarrow> clients_known cc \<Longrightarrow> clients_known cc'" for es us
  proof (induction es arbitrary: cc us)
    case (Cons e es)
    then obtain us1 cc1 us2 where "cc_step e cc = Inr (us1, cc1)" "cc_steps es cc1 = Inr (us2, cc')" by (auto simp: rbind_Inr_iff)
    with Cons handler_clients [of cc e us1 cc1] show ?case by auto
  qed simp
  then show "handled cc cc' \<Longrightarrow> clients_known cc \<Longrightarrow> clients_known cc'" by (auto simp: handled_def)
qed

lemma clients_known_statuses [simp]: "clients_known (cc\<lparr>clusterClusterStatusMap := m\<rparr>) = clients_known cc"
  by (simp add: clients_known_def)

lemma monitor_clusters_clients:
  assumes "\<And>name cc1. handled cc1 (env_meanwhile env name cc1)"
  shows "clients_known cc \<Longrightarrow> clients_known (snd (monitor_clusters env items cc))"
proof (induction items arbitrary: cc)
  case (Cons c items)
  have "clients_known (snd (monitor_cluster env c cc))"
    using Cons.prems handled_clients [OF assms] by (auto simp: monitor_cluster_def Let_def split: option.splits)
  with Cons.IH [of "snd (monitor_cluster env c cc)"] show ?case by (auto simp: Let_def split: prod.splits)
qed simp

lemma monitor_run_clients: "monitor_run cc \<Longrightarrow> clients_known cc"
proof (induction rule: monitor_run.induct)
  case start
  show ?case by (simp add: clients_known_def newClusterController_def)
next
  case (handler cc e us cc')
  then show ?case using handler_clients by blast
next
  case (round cc env clusters us cc')
  then show ?case
    using monitor_clusters_clients [of env cc]
    by (auto simp: updateClusterStatus_def split: sum.splits prod.splits) (metis snd_conv)
qed

subsection \<open>The status of a deleted cluster\<close>

text \<open>
  The second half of the body writes the status without asking again whether the cluster is known: a
  cluster that is deleted while it is probed leaves its status behind.
\<close>

lemma deleted_status_stays:
  assumes "monitored cc c" and "env_meanwhile env (cluster_name c) cc = delFromClusterSetByName (cluster_name c) cc"
    and "monitor_cluster env c cc = (us, cc')"
  shows "\<not> sset_has (knownClusterSet cc') (cluster_name c) \<and> mget (clusterClusterStatusMap cc') (cluster_name c) \<noteq> None"
  using assms
  by (auto simp: monitor_cluster_def monitored_def Let_def delFromClusterSetByName_def sset_has_def sset_delete_def
      split: if_splits option.splits)

text \<open>
  A cluster that joins later under the same name inherits it: deleted while it was probed at 7 and
  joined again, it is reported healthy since 7 when it is probed first at 9.
\<close>

definition demo_late_env :: "nat cluster_env" where
  "demo_late_env = demo_cluster_env\<lparr>env_meanwhile := (\<lambda>name cc. delFromClusterSetByName name cc)\<rparr>"

lemma deleted_status_inherited:
  "case cc_steps [Ev_add (Inr (Some 1)) (demo_cluster ''c1'' False), Ev_round demo_late_env (Inr [demo_cluster ''c1'' False]),
      Ev_add (Inr (Some 2)) (demo_cluster ''c1'' False), Ev_round (demo_cluster_env\<lparr>env_now := 9\<rparr>) (Inr [demo_cluster ''c1'' False])]
      newClusterController of
    Inr (updates, cc) \<Rightarrow> map (\<lambda>u. map (\<lambda>k. (cn_LastProbeTime k, cn_LastTransitionTime k)) (fst_Conditions (fc_Status u))) updates
      = [[(7, 7)], [(9, 7)]]
  | Inl _ \<Rightarrow> False"
  by code_simp

end
