(* ===== verification/Scheduler_Lifecycle.thy ===== *)
theory Scheduler_Lifecycle
  imports Informer_Claims Replica_Scheduler
begin

section \<open>The life of a scheduler\<close>

text \<open>
  \<open>NewPlugin\<close>, \<open>Start\<close> and \<open>Stop\<close> of \<open>scheduler/plugin.go\<close> and \<open>scheduler/scheduler.go\<close>: a plugin has a
  federated informer on the copies of its type and three informers on its templates, overrides and
  placements; the scheduler has another federated informer on the pods. The three run until the stop
  channel of the controller is closed; the federated informers have channels of their own, which \<open>Stop\<close>
  closes. A map is ranged over in the order of its list, so what holds for every list holds for every
  order.
\<close>

record 'cl plugin_life =
  pf_target :: "(target_obj, 'cl) federated_informer"
  pf_templateRuns :: bool
  pf_overrideRuns :: bool
  pf_placementRuns :: bool

record 'cl scheduler_life =
  sf_plugins :: "(string, 'cl plugin_life) gomap"
  sf_podInformer :: "(target_obj, 'cl) federated_informer"

definition NewPlugin :: "'cl plugin_life" where
  "NewPlugin = \<lparr>pf_target = NewFederatedInformer, pf_templateRuns = False, pf_overrideRuns = False, pf_placementRuns = False\<rparr>"

definition plugin_Start :: "'cl plugin_life \<Rightarrow> 'cl plugin_life" where
  "plugin_Start p =
     (let p1 = p\<lparr>pf_target := Start (pf_target p)\<rparr>
      in p1\<lparr>pf_templateRuns := True, pf_overrideRuns := True, pf_placementRuns := True\<rparr>)"

definition plugin_Stop :: "'cl plugin_life \<Rightarrow> 'cl plugin_life go_result" where
  "plugin_Stop p = rbind (Stop (pf_target p)) (\<lambda>f. Inr (p\<lparr>pf_target := f\<rparr>))"

definition NewReplicaScheduler :: "(string \<times> MetaAPIResource) list \<Rightarrow> 'cl scheduler_life" where
  "NewReplicaScheduler order =
     \<lparr>sf_plugins = foldl (\<lambda>m (name, _). mput name NewPlugin m) [] order, sf_podInformer = NewFederatedInformer\<rparr>"

definition scheduler_Start :: "'cl scheduler_life \<Rightarrow> 'cl scheduler_life" where
  "scheduler_Start s =
     (let s1 = s\<lparr>sf_plugins := map (\<lambda>(name, p). (name, plugin_Start p)) (sf_plugins s)\<rparr>
      in s1\<lparr>sf_podInformer := Start (sf_podInformer s1)\<rparr>)"

fun stop_plugins :: "(string \<times> 'cl plugin_life) list \<Rightarrow> (string \<times> 'cl plugin_life) list go_result" where
  "stop_plugins [] = Inr []"
| "stop_plugins ((name, p) # rest) =
     rbind (plugin_Stop p) (\<lambda>p1. rbind (stop_plugins rest) (\<lambda>rest1. Inr ((name, p1) # rest1)))"

definition scheduler_Stop :: "'cl scheduler_life \<Rightarrow> 'cl scheduler_life go_result" where
  "scheduler_Stop s =
     rbind (stop_plugins (sf_plugins s)) (\<lambda>ps.
     rbind (Stop (sf_podInformer s)) (\<lambda>f. Inr \<lparr>sf_plugins = ps, sf_podInformer = f\<rparr>))"

text \<open>Once the stop channel is closed, the three informers of every plugin return.\<close>

definition close_stopChan :: "'cl scheduler_life \<Rightarrow> 'cl scheduler_life" where
  "close_stopChan s = s\<lparr>sf_plugins := map (\<lambda>(name, p).
     (name, p\<lparr>pf_templateRuns := False, pf_overrideRuns := False, pf_placementRuns := False\<rparr>)) (sf_plugins s)\<rparr>"

subsection \<open>Nothing is left running\<close>

text \<open>Any run of the informers of a started scheduler, in any interleaving.\<close>

inductive scheduler_run :: "'cl scheduler_life \<Rightarrow> bool" where
  started: "scheduler_run (scheduler_Start (NewReplicaScheduler order))"
| plugin: "scheduler_run s \<Longrightarrow> sf_plugins s = ps @ (name, p) # qs \<Longrightarrow> informer_run f \<Longrightarrow>
    scheduler_run (s\<lparr>sf_plugins := ps @ (name, p\<lparr>pf_target := f\<rparr>) # qs\<rparr>)"
| pods: "scheduler_run s \<Longrightarrow> informer_run f \<Longrightarrow> scheduler_run (s\<lparr>sf_podInformer := f\<rparr>)"

definition all_run :: "'cl scheduler_life \<Rightarrow> bool" where
  "all_run s \<longleftrightarrow> informer_run (sf_podInformer s) \<and> (\<forall>(name, p) \<in> set (sf_plugins s). informer_run (pf_target p))"

definition nothing_runs :: "'cl scheduler_life \<Rightarrow> bool" where
  "nothing_runs s \<longleftrightarrow> open_chans (sf_podInformer s) = [] \<and> (\<forall>(name, p) \<in> set (sf_plugins s).
     open_chans (pf_target p) = [] \<and> \<not> pf_templateRuns p \<and> \<not> pf_overrideRuns p \<and> \<not> pf_placementRuns p)"

lemma new_plugins: "(name, p) \<in> set (foldl (\<lambda>m (name, _). mput name NewPlugin m) m order) \<Longrightarrow> (name, p) \<in> set m \<or> p = NewPlugin"
proof (induction order arbitrary: m)
  case (Cons o' order)
  obtain k r where o': "o' = (k, r)" by (cases o')
  have "(name, p) \<in> set (mput k NewPlugin m) \<Longrightarrow> (name, p) \<in> set m \<or> p = NewPlugin"
    by (induction m) (auto split: if_splits)
  with Cons show ?case by (fastforce simp: o')
qed simp

lemma scheduler_run_all: "scheduler_run s \<Longrightarrow> all_run s"
proof (induction rule: scheduler_run.induct)
  case (started order)
  have "p = NewPlugin" if "(name, p) \<in> set (foldl (\<lambda>m (name, _). mput name NewPlugin m) [] order)" for name and p :: "'a plugin_life"
    using new_plugins [OF that] by simp
  then show ?case
    by (fastforce simp: all_run_def scheduler_Start_def NewReplicaScheduler_def plugin_Start_def NewPlugin_def Let_def
        intro: informer_run.started)
qed (auto simp: all_run_def)

lemma Stop_closes: "informer_run f \<Longrightarrow> \<exists>f'. Stop f = Inr f' \<and> open_chans f' = []"
  using informer_run_ok [of f] Stop_ok [of f] by (auto simp: informer_ok_def)

lemma stop_plugins_closes:
  "\<forall>(name, p) \<in> set ps. informer_run (pf_target p) \<Longrightarrow>
    \<exists>qs. stop_plugins ps = Inr qs \<and> (\<forall>(name, p) \<in> set qs. open_chans (pf_target p) = [])"
proof (induction ps)
  case (Cons np ps)
  obtain name p where np: "np = (name, p)" by (cases np)
  obtain f where "Stop (pf_target p) = Inr f" "open_chans f = []" using Stop_closes [of "pf_target p"] Cons.prems by (auto simp: np)
  with Cons show ?case by (auto simp: np plugin_Stop_def)
qed simp

text \<open>
  Whatever the informers did, \<open>Stop\<close> neither panics nor leaves anything running, whether the three
  informers of the plugins return before or after it.
\<close>

lemma scheduler_stops:
  assumes "scheduler_run s"
  shows "\<exists>s'. scheduler_Stop s = Inr s' \<and> nothing_runs (close_stopChan s')"
    and "\<exists>s'. scheduler_Stop (close_stopChan s) = Inr s' \<and> nothing_runs s'"
proof -
  have stops: "\<exists>s'. scheduler_Stop s = Inr s' \<and> open_chans (sf_podInformer s') = [] \<and>
      (\<forall>(name, p) \<in> set (sf_plugins s'). open_chans (pf_target p) = [])" if "all_run s" for s :: "'a scheduler_life"
    using that Stop_closes [of "sf_podInformer s"] stop_plugins_closes [of "sf_plugins s"]
    by (force simp: all_run_def scheduler_Stop_def)
  have run: "all_run s" by (rule scheduler_run_all [OF assms])
  from stops [OF this] show "\<exists>s'. scheduler_Stop s = Inr s' \<and> nothing_runs (close_stopChan s')"
    by (fastforce simp: nothing_runs_def close_stopChan_def)
  have idle: "\<forall>(name, p) \<in> set qs. \<not> pf_templateRuns p \<and> \<not> pf_overrideRuns p \<and> \<not> pf_placementRuns p"
    if "stop_plugins ps = Inr qs" "\<forall>(name, p) \<in> set ps. \<not> pf_templateRuns p \<and> \<not> pf_overrideRuns p \<and> \<not> pf_placementRuns p"
    for ps qs :: "(string \<times> 'a plugin_life) list"
    using that by (induction ps arbitrary: qs) (fastforce simp: rbind_Inr_iff plugin_Stop_def)+
  have "all_run (close_stopChan s)" using run by (auto simp: all_run_def close_stopChan_def)
  from stops [OF this] show "\<exists>s'. scheduler_Stop (close_stopChan s) = Inr s' \<and> nothing_runs s'"
    using idle [of "sf_plugins (close_stopChan s)"]
    by (force simp: nothing_runs_def scheduler_Stop_def rbind_Inr_iff close_stopChan_def)
qed

text \<open>\<open>Stop\<close> before \<open>Start\<close> closes a nil channel.\<close>

lemma stop_before_start:
  "sf_plugins s = (name, NewPlugin) # ps \<Longrightarrow> scheduler_Stop s = Inl (GoPanic ''close of nil channel'')"
  by (simp add: scheduler_Stop_def plugin_Stop_def NewPlugin_def NewFederatedInformer_def Stop_def close_chan_def)

subsection \<open>A handler that runs late\<close>

text \<open>
  \<open>Stop\<close> does not wait for the goroutine of the cluster informer: a handler that has its event already
  runs when \<open>Stop\<close> releases the lock, and adds a target informer whose channel nobody closes.
\<close>

lemma late_handler_leaks:
  assumes "open_chans f = []" and "fi_targets f = []" and "mget (fi_clusters f) (cluster_key (cluster_name c)) = Some (ClusterItem c)"
    and "isClusterReady c" and "factory c = Inr client" and "\<forall>ch \<in> set (fi_closed f). ch < fi_chans f"
  shows "\<exists>f' calls. on_add lh factory (ClusterItem c) f = Inr (f', calls) \<and> open_chans f' = [fi_chans f]"
proof -
  have "open_chans (addCluster factory c f) = [fi_chans f]"
    using assms by (auto simp: addCluster_def GetClientForCluster_def GetReadyCluster_def store_GetByKey_def open_chans_def)
  then show ?thesis using assms(4) by (auto simp: make_available_def)
qed

end
