(* ===== verification/Spec2Isabelle.thy ===== *)
theory Spec2Isabelle
  imports Fed_Prelude Planner_Claims Cluster_Claims DNS_Claims
    Scheduler_Claims Join_Claims Type_Claims Requeue Controller_Start Sync_Blocked Schedule_Propagation Run_Claims Manager
    Operations_Memory Cluster_Monitor Scheduler_Lifecycle
begin

text \<open>
  \<^bold>\<open>Federation v2: a verification library.\<close>

  The program (all paths under \<open>src/\<close>) federates Kubernetes clusters. A user joins clusters with the
  command \<open>kubefnord join\<close> (\<open>pkg/kubefnord\<close>), which stores credentials and creates
  \<open>FederatedCluster\<close> objects. The controller manager then runs: the cluster controller
  (\<open>pkg/controller/federatedcluster\<close>), which probes the clusters and records their health; one sync
  controller (\<open>pkg/controller/sync\<close>) per federated type, started and stopped by the type
  configuration controller (\<open>pkg/controller/federatedtypeconfig\<close>), which propagates a
  template to the clusters that its placement selects, with overrides; the scheduling preference
  controller (\<open>pkg/controller/replicaschedulingpreference\<close>), which distributes replicas with the
  planner and writes placements and overrides; and the service DNS controller
  (\<open>pkg/controller/servicedns\<close>). They share \<open>pkg/controller/util\<close>: the federated informer, which
  watches a resource in every ready cluster, the updater, the deletion helper, the delaying
  deliverer and the backoff, and the helpers on metadata and unstructured objects.

  \<^bold>\<open>Theories, in the order of their dependencies.\<close>

  \<^item> \<open>Fed_Prelude\<close>: errors and panics as values, Go maps as association lists in their iteration
    order, 32 and 64 bit wrap-around, and \<open>sort.Sort\<close> as the locale \<open>go_sorter\<close>.
  \<^item> \<open>Util_Strings\<close>, \<open>Unstructured\<close>, \<open>Api_Types\<close>, \<open>Util_Meta\<close>: strings and \<open>sets.String\<close> (locale
    \<open>string_set\<close>), JSON objects with their nested getters and setters, the API types with their
    defaulting, and \<open>util/meta.go\<close>, \<open>qualifiedname.go\<close>, \<open>propagatedversion.go\<close>, \<open>finalizers.go\<close>,
    \<open>placement.go\<close>, \<open>handlers.go\<close> and the placement plugins (locale \<open>placement_plugin\<close>).
  \<^item> \<open>Planner_Model\<close>, \<open>Planner_Proofs\<close>, \<open>Planner_Phases\<close>, \<open>Planner_Plan\<close>, \<open>Planner_Claims\<close>:
    \<open>util/planner/planner.go\<close>. The distribution loop is \<open>while_option\<close>; that it ends is proved.
  \<^item> \<open>Federated_Updater\<close>, \<open>Sync_Versions\<close>, \<open>Sync_Operations\<close>, \<open>Deletion_Helper\<close>, \<open>Sync_Controller\<close>:
    \<open>util/federated_updater.go\<close>, \<open>util/deletionhelper\<close> and \<open>sync/controller.go\<close>, from the recorded versions
    and the desired objects to \<open>reconcile\<close>. \<open>Sync_Claims\<close> to \<open>Sync_Claims4\<close> hold their contract and
    \<open>Sync_Convergence\<close> the composition of two reconciliations, which \<open>Sync_Runs\<close> extends to whole runs
    with the functions that the constructor gives to the updater.
  \<^item> \<open>Go_Memory\<close>, \<open>Sync_Memory\<close>, \<open>Operations_Memory\<close>: unstructured objects as references into a memory of maps
    and slices, \<open>DeepCopyJSONValue\<close> of \<open>runtime/converter.go\<close>, the setters that write in place, and
    \<open>clusterOperations\<close> of the sync controller on memory, which refines the value model.
  \<^item> \<open>Delaying_Deliverer\<close>, \<open>Backoff_Delivery\<close>: \<open>util/delaying_deliverer.go\<close>, a heap with key
    positions that implements a map of pending items (locale \<open>delayed_queue\<close>), the exponential backoff and
    \<open>deliver\<close>.
  \<^item> \<open>Cluster_Config\<close>, \<open>Federated_Informer\<close>, \<open>Cluster_Controller\<close>: \<open>federatedcluster_types.go\<close>,
    \<open>util/cluster_util.go\<close>, \<open>util/federated_informer.go\<close> (states reached from \<open>Start\<close> as the inductive
    \<open>informer_run\<close>) and the cluster controller; their properties are in
    \<open>Informer_Claims\<close> and \<open>Cluster_Claims\<close>. \<open>Cluster_Monitor\<close> has the runs of the cluster controller, handlers
    interleaved with rounds.
  \<^item> \<open>Service_DNS\<close>, \<open>DNS_Claims\<close>: \<open>servicedns/controller.go\<close>.
  \<^item> \<open>Replica_Scheduler\<close>, \<open>Scheduler_Claims\<close>: \<open>util/podanalyzer\<close> and \<open>replicaschedulingpreference\<close>
    with its scheduler, plugins and adapters. \<open>Scheduler_Lifecycle\<close>: starting and stopping the informers of the
    plugins and of the scheduler.
  \<^item> \<open>Type_Controller\<close>, \<open>Type_Interleaving\<close>, \<open>Type_Invariant\<close>, \<open>Type_Claims\<close>:
    \<open>federatedtypeconfig/controller.go\<close>, with its stop channels: its functions as sequential code, and its
    three goroutines as steps between which the others may come (\<open>reconcile_step\<close>, \<open>shutDown_step\<close> and the
    writes of the informer), in any interleaving (\<open>type_exec\<close>). The steps of \<open>Reconcile\<close> alone make up the
    sequential code.
  \<^item> \<open>Join_Cluster\<close>, \<open>Join_Claims\<close>: \<open>kubefnord/join.go\<close> with \<open>util\<close> and \<open>options\<close>, over a world of
    API servers with a log of the requests.
  \<^item> \<open>Requeue\<close>: the worker loop that three controllers share (locale \<open>requeue_policy\<close>).
  \<^item> \<open>Controller_Start\<close>: what the constructors of the sync, DNS and preference controllers set up or refuse, and
    what each event of their informers delivers.
  \<^item> \<open>Sync_Wiring\<close>: the sync controller on its caches, its federated informer, its updater and its deletion helper
    (\<open>sync_wire\<close>), where each method that a run calls may see a later state of the informer. \<open>Sync_Blocked\<close> adds the cluster controller:
    what a cluster whose client could not be created does to all others.
  \<^item> \<open>Work_Queue\<close>, \<open>Controller_Run\<close>, \<open>Run_Claims\<close>: client-go's \<open>workqueue\<close> (locale \<open>work_queue\<close>), and the
    goroutines that \<open>Run\<close> starts in the sync, DNS and preference controllers: the deliverer, its
    handler, the workers, the backoff collector and the stop, as labelled steps (\<open>controller_step\<close>) on one
    state with the channels between them, executed in any interleaving (\<open>controller_exec\<close>).
  \<^item> \<open>Schedule_Propagation\<close>: the JSON of the typed placements and overrides of
    \<open>pkg/apis/core/v1alpha1\<close>, through which the scheduler and the sync controller communicate.
  \<^item> \<open>Manager\<close>: \<open>cmd/controller-manager/main.go\<close> with \<open>pkg/features\<close> and the feature gates, \<open>RunAll\<close> of
    \<open>pkg/inject\<close>, and the comparisons of \<open>util/secret.go\<close> and \<open>util/configmap.go\<close>.

  \<^bold>\<open>How the model corresponds to the code.\<close> Structs are records, enumerations are datatypes,
  functions keep their names (a prefix or suffix avoids clashes), and a function returning a value
  and an error returns \<open>go_error + 'a\<close>. What a function changes is returned: the new state,
  and the calls to the API in order. Panics are the value \<open>GoPanic\<close>, or \<open>None\<close> for a whole
  run. Code that is not under \<open>src/\<close>, the API servers, client-go's informers (their stores and a
  sync flag), clocks and random choices are parameters: the fields of the records whose names
  end in \<open>env\<close>, and \<open>api\<close>, \<open>adapter\<close> and \<open>factory\<close> arguments.

  \<^bold>\<open>What the lemmas show.\<close> For the planner: it terminates, conserves replicas, respects bounds,
  keeps running replicas, and saturates. For the sync controller: operations are exactly those
  needed, versions round-trip, a deletion that does not orphan the copies leaves none behind that can be seen, every call is justified, and once a run
  has succeeded and the informers have seen it the next run makes no call. On memory, where templates and cached objects are shared: the operations
  are those of the value model, two clusters never get the same cells, and no cache is written.
  For the deliverer: refinement of a map, nothing early, nothing
  lost after it was added. For the informer: no panic in any run, and no leaked target informer as long as no
  deletion of a cluster is missed. For the type configuration controller, in every interleaving: at most one
  sync controller per name, a channel closed twice only when \<open>shutDown\<close> overlaps a reconciliation, and
  convergence of a reconciliation that does not. For the running controllers, in every
  interleaving: no key that became due is lost, and left alone they process every key in a bounded number of
  steps; a stop can leak a goroutine. Across the scheduler and the sync controller: the keys that one writes are
  not the keys that the other reads, so what is scheduled is not propagated. Across the sync controller and its
  informer: when the informer does not change during a run, a deletion is complete in the whole federation; when
  it does, a copy can be left behind; and one failed client stops the propagation to every cluster. For the others: the outcome of a run on every branch,
  round trips through the API, and what failures leave behind. Where the code deviates
  from its purpose, a lemma or a property states what it does instead.

  \<^bold>\<open>Bounds and fuel.\<close> Deep copies and reads of memory run on fuel, since memory may have cycles; as much as the value has
  nodes is enough (\<open>nodes\<close>, \<open>desired_nodes\<close>), and the refinement proves that the copies return.
  \<open>wait.PollImmediate\<close> in a join runs its
  condition \<open>je_polls\<close> times, a number left open. Nothing else runs on fuel. An execution of a running controller is a list of actions of any length. Integers of the planner and of overrides wrap
  at 64 and 32 bits; the planner's theorems state the range in which nothing wraps and one
  shows what happens outside.

  \<^bold>\<open>Not modelled.\<close> Creating clients (a parameter), the informers of client-go (their handlers and
  stores are modelled; a delta changes the store and runs the handler in one step), logging and events, the parsing of flags and the wiring of command lines, signals, the
  controller framework of kubebuilder, JSON decoding of typed objects (parameters), generated code (typed deep
  copies, clientsets, listers, custom resource definitions), API kinds that no modelled code encodes, and
  the test suites. Lists and maps do not tell nil from empty (the data of secrets and config maps apart): the comparison
  of the statuses of propagated versions, of annotations and of DNS statuses by \<open>reflect.DeepEqual\<close> could tell them.

  This theory holds the property that spans the controllers.
\<close>

section \<open>Retries across the controllers\<close>

text \<open>What a worker leaves behind for a key: it is pending, due within a minute, and the rest is as before.\<close>

definition retried :: "int \<Rightarrow> QualifiedName \<Rightarrow> QualifiedName delivererHeap
    \<Rightarrow> Backoff \<times> QualifiedName delivererHeap \<Rightarrow> bool" where
  "retried now qn dh state \<longleftrightarrow> backoff_ok (fst state) \<and> bo_max (fst state) = 60000 \<and> heap_ok (snd state) \<and>
     (\<exists>x. pending (snd state) (qn_String qn) = Some x \<and> it_DeliveryTime x \<le> now + 60000) \<and>
     (\<forall>k. k \<noteq> qn_String qn \<longrightarrow> pending (snd state) k = pending dh k)"

text \<open>
  C18. No controller drops a key it has not finished: after an iteration of the worker of the sync, the
  scheduling preference or the service DNS controller that ends with any status but success, with
  the normal or the minimized delays and the one minute maximum of their backoff, the key is pending
  in the deliverer and due within a minute, other keys keep their items, and the deliverer and the
  backoff stay consistent.
\<close>

theorem unfinished_keys_are_retried:
  assumes "backoff_ok b" and "bo_max b = 60000" and "heap_ok dh"
  shows "(\<forall>d \<in> {default_delays, minimizeLatency default_delays}. \<forall>s. s \<noteq> StatusAllOK \<longrightarrow>
      retried now qn dh (requeue (worker_requeue d s) now qn (b, dh))) \<and>
    (\<forall>d \<in> {rsp_default_delays, rsp_minimizeLatency rsp_default_delays}. \<forall>s. s \<noteq> StatusAllOK \<longrightarrow>
      retried now qn dh (requeue (rsp_worker d s) now qn (b, dh))) \<and>
    (\<forall>d \<in> {dns_default_delays, dns_minimizeLatency dns_default_delays}. \<forall>s. s \<noteq> statusAllOK \<longrightarrow>
      retried now qn dh (requeue (dns_worker d s) now qn (b, dh)))"
proof (intro conjI ballI allI impI)
  note ok = assms(1,3)
  have pair: "st = (fst st, snd st)" for st :: "Backoff \<times> QualifiedName delivererHeap" by simp
  show "retried now qn dh (requeue (worker_requeue d s) now qn (b, dh))"
    if "d \<in> {default_delays, minimizeLatency default_delays}" "s \<noteq> StatusAllOK" for d s
    using sync_policy.requeue_ok [OF ok pair] sync_policy.unfinished_pending [OF ok pair that(2)]
      sync_policy.others_untouched [OF ok pair] sync_delays_bound [OF that(1)] assms(2)
    unfolding retried_def by metis
  show "retried now qn dh (requeue (rsp_worker d s) now qn (b, dh))"
    if "d \<in> {rsp_default_delays, rsp_minimizeLatency rsp_default_delays}" "s \<noteq> StatusAllOK" for d s
    using rsp_policy.requeue_ok [OF ok pair] rsp_policy.unfinished_pending [OF ok pair that(2)]
      rsp_policy.others_untouched [OF ok pair] rsp_delays_bound [OF that(1)] assms(2)
    unfolding retried_def by metis
  show "retried now qn dh (requeue (dns_worker d s) now qn (b, dh))"
    if "d \<in> {dns_default_delays, dns_minimizeLatency dns_default_delays}" "s \<noteq> statusAllOK" for d s
    using dns_policy.requeue_ok [OF ok pair] dns_policy.unfinished_pending [OF ok pair that(2)]
      dns_policy.others_untouched [OF ok pair] dns_delays_bound [OF that(1)] assms(2)
    unfolding retried_def by metis
qed

theorem unfinished_keys_are_retried_witness:
  "\<exists>x. pending (snd (requeue (worker_requeue default_delays StatusError) 7 \<lparr>qn_Namespace = ''ns'', qn_Name = ''web''\<rparr>
      (NewBackOff 5000 60000, NewDelayingDeliverer))) ''ns/web'' = Some x \<and> it_DeliveryTime x \<le> 60007"
proof -
  have "backoff_ok (NewBackOff 5000 60000)" "bo_max (NewBackOff 5000 60000) = 60000"
    by (simp_all add: backoff_ok_def NewBackOff_def)
  from unfinished_keys_are_retried [OF this heap_ok_new]
  have "retried 7 \<lparr>qn_Namespace = ''ns'', qn_Name = ''web''\<rparr> NewDelayingDeliverer
      (requeue (worker_requeue default_delays StatusError) 7 \<lparr>qn_Namespace = ''ns'', qn_Name = ''web''\<rparr>
        (NewBackOff 5000 60000, NewDelayingDeliverer))"
    by blast
  then show ?thesis by (simp add: retried_def qn_String_def)
qed

end
